(* ===== verification/Prelude.thy ===== *)
theory Prelude
  imports Main "HOL-Library.Word"
begin

unbundle bit_operations_syntax

text \<open>
  Shared vocabulary of the development: the machine integer types of the C
  code, the collections the component theories fill with their definitions, and
  the generic facts on lists and words that several components use.
\<close>

section \<open>Machine types\<close>

text \<open>Fixed-width integers are words, so that \<open>+\<close> and \<open>-\<close> wrap as they do in C.\<close>

type_synonym u8 = "8 word"
type_synonym u32 = "32 word"
type_synonym u64 = "64 word"

text \<open>
  The byte strings of the program (paths, file contents, digests) are lists of
  unsigned bytes.
\<close>

type_synonym bytes = "u8 list"

text \<open>The largest \<open>size_t\<close>.\<close>

definition SIZE_MAX :: u64 where "SIZE_MAX = 0xffffffffffffffff"

lemma unat_SIZE_MAX [simp]: "unat SIZE_MAX = 2 ^ 64 - 1"
  by (simp add: SIZE_MAX_def)

section \<open>Collections\<close>

named_theorems ret_defs \<open>the status flags and masks of rational_enumerations.h\<close>
named_theorems sha_defs \<open>the helper macros of sha512.c\<close>
named_theorems frame \<open>what an operation leaves unchanged\<close>

section \<open>Lists\<close>

lemma take_list_update_at:
  assumes "n < length xs"
  shows "take (Suc n) (xs[n := x]) = take n xs @ [x]"
  using assms by (simp add: take_Suc_conv_app_nth)

lemma drop_list_update_at: "drop (Suc n) (xs[n := x]) = drop (Suc n) xs"
  by simp

lemma list_eq_take_nth_drop:
  assumes "n < length xs"
  shows "xs[n := x] = take n xs @ x # drop (Suc n) xs"
  using assms by (simp add: upd_conv_take_nth_drop)

lemma set_drop_take_subset: "set (take n (drop m xs)) \<subseteq> set xs"
  by (meson order_trans set_drop_subset set_take_subset)

lemma take_append_drop_shift:
  "take n xs @ take m (drop n xs) = take (n + m) xs"
  by (simp add: take_add)

lemma eight_elements:
  assumes "length xs = 8"
  shows "xs = [xs ! 0, xs ! 1, xs ! 2, xs ! 3, xs ! 4, xs ! 5, xs ! 6, xs ! 7]"
  by (rule nth_equalityI) (use assms in \<open>auto simp: nth_Cons' less_Suc_eq numeral_eq_Suc\<close>)

lemma length_8E:
  assumes "length xs = 8"
  obtains a b c d e f g h where "xs = [a, b, c, d, e, f, g, h]"
  using eight_elements [OF assms] by blast

section \<open>Words\<close>

lemma unat_of_nat_small:
  assumes "n < 2 ^ LENGTH('a::len)"
  shows "unat (of_nat n :: 'a word) = n"
  using assms by (simp add: unat_of_nat take_bit_nat_eq_self)

lemma unat_add_of_nat:
  fixes w :: "'a::len word"
  assumes "unat w + n < 2 ^ LENGTH('a)"
  shows "unat (w + of_nat n) = unat w + n"
proof -
  have "unat (of_nat n :: 'a word) = n"
    using assms by (intro unat_of_nat_small) simp
  then show ?thesis
    using assms by (simp add: unat_word_ariths)
qed

lemma word_zero_iff_unat: "w = 0 \<longleftrightarrow> unat w = 0"
  by (simp add: unat_eq_0)

end
