(* ===== verification/Return_Status.thy ===== *)
theory Return_Status
  imports Prelude
begin

text \<open>
  The return-status protocol of libs/rational: the flags of
  \<open>rational_enumerations.h\<close>, the normalisation and the yes/no protocol of
  \<open>rational_provide.c\<close>, the control-flow macros \<open>provide\<close>, \<open>run\<close>, \<open>call\<close> and
  \<open>ask\<close> of \<open>rational_provide.h\<close>, and the mapping to a process exit code of
  \<open>src/exit_status.c\<close>.  Every other component returns its statuses through these
  definitions.
\<close>

section \<open>The flags\<close>

text \<open>\<open>enum Return : unsigned int\<close>; every flag is one bit of a 32-bit word.\<close>

type_synonym ret = u32

definition OK :: ret where [ret_defs]: "OK = 0x0000"
definition COMPLETED :: ret where [ret_defs]: "COMPLETED = 0x0000"
definition FAILURE :: ret where [ret_defs]: "FAILURE = 0x0001"
definition SUCCESS :: ret where [ret_defs]: "SUCCESS = 0x0008"
definition HALTED :: ret where [ret_defs]: "HALTED = 0x0010"
definition WARNING :: ret where [ret_defs]: "WARNING = 0x0020"
definition DONOTHING :: ret where [ret_defs]: "DONOTHING = 0x0040"
definition INFO :: ret where [ret_defs]: "INFO = 0x0080"
definition YES :: ret where [ret_defs]: "YES = 0x0100"
definition NO :: ret where [ret_defs]: "NO = 0x0200"
definition AWAITING :: ret where [ret_defs]: "AWAITING = 0x0400"

definition CRITICAL :: ret where [ret_defs]: "CRITICAL = WARNING OR FAILURE"
definition TRIUMPH :: ret where
  [ret_defs]: "TRIUMPH = SUCCESS OR HALTED OR DONOTHING OR INFO"
definition GLOBAL :: ret where [ret_defs]: "GLOBAL = INFO OR WARNING OR HALTED"
definition DECISION :: ret where [ret_defs]: "DECISION = YES OR NO"
definition SKIP :: ret where [ret_defs]: "SKIP = WARNING OR FAILURE OR HALTED"

text \<open>The C test \<open>if(FLAGS & status)\<close>.\<close>

definition has :: "ret \<Rightarrow> ret \<Rightarrow> bool" where
  "has flags status \<longleftrightarrow> flags AND status \<noteq> 0"

section \<open>Process-wide state\<close>

text \<open>
  The two atomics every function reads: \<open>global_return_status\<close> of
  \<open>rational_provide.c\<close> and \<open>global_interrupt_flag\<close> of \<open>precizer.c\<close>.  Components
  extend this record with their own state.
\<close>

record globals =
  global_return_status :: ret
  global_interrupt_flag :: bool

definition initial_globals :: globals where
  "initial_globals = \<lparr>global_return_status = SUCCESS, global_interrupt_flag = False\<rparr>"

text \<open>
  \<open>signal_notify_quit_handler()\<close>: both atomics are stored; the rest of the handler
  prints messages and restores the terminal.
\<close>

definition signal_notify_quit_handler :: "'a globals_scheme \<Rightarrow> 'a globals_scheme" where
  "signal_notify_quit_handler s =
     s\<lparr>global_interrupt_flag := True, global_return_status := HALTED\<rparr>"

section \<open>Normalisation\<close>

text \<open>The two contradiction rules, applied to the local and to the global status.\<close>

definition clean_flags :: "ret \<Rightarrow> ret" where
  "clean_flags status =
     (let status = (if has CRITICAL status then status AND NOT SUCCESS else status)
      in if has NO status then status AND NOT YES else status)"

definition rational_normalize_return ::
  "ret \<Rightarrow> 'a globals_scheme \<Rightarrow> ret \<times> 'a globals_scheme" where
  "rational_normalize_return status s =
     (let status = clean_flags status;
          global_status = clean_flags (global_return_status s);
          s = s\<lparr>global_return_status := global_status\<rparr>;
          status = status OR (global_status AND GLOBAL)
      in (clean_flags status, s))"

text \<open>\<open>provide(status)\<close> and \<open>deliver(status)\<close> return the same value; they differ in TRACE output.\<close>

definition provide :: "ret \<Rightarrow> 'a globals_scheme \<Rightarrow> ret \<times> 'a globals_scheme" where
  "provide status s =
     (if has AWAITING status then (FAILURE, s)
      else
        let (returned, s) = rational_normalize_return status s
        in (if has DECISION returned then returned OR AWAITING else returned, s))"

text \<open>A function of the program: it consumes the state and returns a status and the new state.\<close>

type_synonym 's action = "'s \<Rightarrow> ret \<times> 's"

text \<open>\<open>run(func)\<close>: merge the callee's flags unless the local status asks to skip.\<close>

definition run ::
  "'a globals_scheme action \<Rightarrow> ret \<Rightarrow> 'a globals_scheme \<Rightarrow> ret \<times> 'a globals_scheme" where
  "run func status s =
     (let status = (if has AWAITING status then FAILURE else status)
      in if \<not> has SKIP status then
           let (returned, s) = func s
           in if has AWAITING returned then (FAILURE, s)
              else rational_normalize_return (status OR returned) s
         else (status, s))"

text \<open>\<open>call(func)\<close>: the callee runs whatever the status, unless an answer is pending.\<close>

definition call ::
  "'a globals_scheme action \<Rightarrow> ret \<Rightarrow> 'a globals_scheme \<Rightarrow> ret \<times> 'a globals_scheme" where
  "call func status s =
     (if has AWAITING status then (FAILURE, s)
      else
        let (returned, s) = func s
        in if has AWAITING returned then (FAILURE, s)
           else rational_normalize_return (status OR returned) s)"

text \<open>
  \<open>rational_ask()\<close>: consume a yes/no answer and merge the technical bits.  The NULL
  check on the status storage has no counterpart: the storage is the argument.
\<close>

definition rational_ask ::
  "ret \<Rightarrow> ret \<Rightarrow> 'a globals_scheme \<Rightarrow> bool \<times> ret \<times> 'a globals_scheme" where
  "rational_ask status returned s =
     (let (returned, s) = rational_normalize_return returned s;
          cleared = status AND NOT (AWAITING OR DECISION)
      in if \<not> has AWAITING returned then
           (False, rational_normalize_return (cleared OR FAILURE) s)
         else if \<not> has DECISION returned then
           (False, rational_normalize_return (cleared OR FAILURE) s)
         else
           (\<not> has CRITICAL returned \<and> has YES returned,
            rational_normalize_return
              (cleared OR (returned AND NOT (AWAITING OR DECISION))) s))"

text \<open>The macro \<open>ask(expr)\<close>: the expression is evaluated only when the local status allows it.\<close>

definition ask ::
  "'a globals_scheme action \<Rightarrow> ret \<Rightarrow> 'a globals_scheme \<Rightarrow> bool \<times> ret \<times> 'a globals_scheme" where
  "ask expr status s =
     (if \<not> has SKIP status \<or> has AWAITING status then
        let (returned, s) = expr s in rational_ask status returned s
      else (False, status, s))"

section \<open>Printing a status\<close>

definition status_names :: "(ret \<times> string) list" where
  "status_names =
     [(FAILURE, ''FAILURE''), (SUCCESS, ''SUCCESS''), (HALTED, ''HALTED''),
      (WARNING, ''WARNING''), (DONOTHING, ''DONOTHING''), (INFO, ''INFO''),
      (YES, ''YES''), (NO, ''NO''), (AWAITING, ''AWAITING'')]"

text \<open>
  \<open>show_status()\<close>: the loop over the mapping table, with the accumulated buffer, the
  \<open>first\<close> marker and the remaining bits.  The buffer of \<open>MAX_CHARACTERS\<close> bytes
  holds all nine names, so the truncation branches of the C code are not reached.
\<close>

fun show_status_loop :: "(ret \<times> string) list \<Rightarrow> string \<Rightarrow> bool \<Rightarrow> ret \<Rightarrow> string \<times> bool" where
  "show_status_loop [] buffer first remaining = (buffer, first)"
| "show_status_loop ((flag, name) # mapping) buffer first remaining =
     (if remaining AND flag = 0 then show_status_loop mapping buffer first remaining
      else show_status_loop mapping (buffer @ (if first then '''' else ''|'') @ name) False
             (remaining AND NOT flag))"

definition show_status :: "ret \<Rightarrow> string" where
  "show_status status =
     (if status = OK then ''OK''
      else
        let (buffer, first) = show_status_loop status_names '''' True status
        in if first then ''UNKNOWN'' else buffer)"

section \<open>Process exit code\<close>

definition exit_status :: "ret \<Rightarrow> 'a globals_scheme \<Rightarrow> ret" where
  "exit_status status s =
     (if global_interrupt_flag s then status
      else if has TRIUMPH status then COMPLETED
      else status)"

section \<open>Reasoning bit by bit\<close>

text \<open>
  Every fact about statuses reduces to the bits of a word: these rules turn the masks and
  the tests into bit positions.
\<close>

lemma has_iff_bit: "has flags w \<longleftrightarrow> (\<exists>n < 32. bit flags n \<and> bit w n)"
  by (auto simp: has_def bit_eq_iff bit_simps possible_bit_word)

lemma ret_bits [simp]:
  "bit FAILURE n \<longleftrightarrow> n = 0" "bit SUCCESS n \<longleftrightarrow> n = 3" "bit HALTED n \<longleftrightarrow> n = 4"
  "bit WARNING n \<longleftrightarrow> n = 5" "bit DONOTHING n \<longleftrightarrow> n = 6" "bit INFO n \<longleftrightarrow> n = 7"
  "bit YES n \<longleftrightarrow> n = 8" "bit NO n \<longleftrightarrow> n = 9" "bit AWAITING n \<longleftrightarrow> n = 10"
proof -
  have p: "FAILURE = 2 ^ 0" "SUCCESS = 2 ^ 3" "HALTED = 2 ^ 4" "WARNING = 2 ^ 5"
    "DONOTHING = 2 ^ 6" "INFO = 2 ^ 7" "YES = 2 ^ 8" "NO = 2 ^ 9" "AWAITING = 2 ^ 10"
    by (simp_all add: ret_defs)
  show "bit FAILURE n \<longleftrightarrow> n = 0" "bit SUCCESS n \<longleftrightarrow> n = 3" "bit HALTED n \<longleftrightarrow> n = 4"
  "bit WARNING n \<longleftrightarrow> n = 5" "bit DONOTHING n \<longleftrightarrow> n = 6" "bit INFO n \<longleftrightarrow> n = 7"
  "bit YES n \<longleftrightarrow> n = 8" "bit NO n \<longleftrightarrow> n = 9" "bit AWAITING n \<longleftrightarrow> n = 10"
    unfolding p bit_exp_iff by auto
qed

lemma ret_mask_bits [simp]:
  "bit CRITICAL n \<longleftrightarrow> n = 0 \<or> n = 5"
  "bit TRIUMPH n \<longleftrightarrow> n = 3 \<or> n = 4 \<or> n = 6 \<or> n = 7"
  "bit GLOBAL n \<longleftrightarrow> n = 4 \<or> n = 5 \<or> n = 7"
  "bit DECISION n \<longleftrightarrow> n = 8 \<or> n = 9"
  "bit SKIP n \<longleftrightarrow> n = 0 \<or> n = 4 \<or> n = 5"
  by (auto simp: CRITICAL_def TRIUMPH_def GLOBAL_def DECISION_def SKIP_def bit_or_iff)

lemma has_bits [simp]:
  "has FAILURE w \<longleftrightarrow> bit w 0" "has SUCCESS w \<longleftrightarrow> bit w 3" "has HALTED w \<longleftrightarrow> bit w 4"
  "has WARNING w \<longleftrightarrow> bit w 5" "has DONOTHING w \<longleftrightarrow> bit w 6" "has INFO w \<longleftrightarrow> bit w 7"
  "has YES w \<longleftrightarrow> bit w 8" "has NO w \<longleftrightarrow> bit w 9" "has AWAITING w \<longleftrightarrow> bit w 10"
  "has CRITICAL w \<longleftrightarrow> bit w 0 \<or> bit w 5"
  "has TRIUMPH w \<longleftrightarrow> bit w 3 \<or> bit w 4 \<or> bit w 6 \<or> bit w 7"
  "has GLOBAL w \<longleftrightarrow> bit w 4 \<or> bit w 5 \<or> bit w 7"
  "has DECISION w \<longleftrightarrow> bit w 8 \<or> bit w 9"
  "has SKIP w \<longleftrightarrow> bit w 0 \<or> bit w 4 \<or> bit w 5"
  by (auto simp: has_iff_bit intro: exI [of _ 0] exI [of _ 3] exI [of _ 4] exI [of _ 5]
      exI [of _ 6] exI [of _ 7] exI [of _ 8] exI [of _ 9] exI [of _ 10])

lemma bit_clean_flags [simp]:
  "bit (clean_flags w) n \<longleftrightarrow>
     bit w n \<and> \<not> (n = 3 \<and> (bit w 0 \<or> bit w 5)) \<and> \<not> (n = 8 \<and> bit w 9)"
  by (cases "n < 32") (auto simp: clean_flags_def Let_def bit_simps dest: bit_imp_le_length)

lemma clean_flags_idem [simp]: "clean_flags (clean_flags w) = clean_flags w"
  by (rule bit_word_eqI) auto

lemma bit_rational_normalize_return [simp]:
  "bit (fst (rational_normalize_return w s)) n \<longleftrightarrow>
     (let m = (\<lambda>k. bit w k \<or> bit (global_return_status s) k \<and> (k = 4 \<or> k = 5 \<or> k = 7))
      in m n \<and> \<not> (n = 3 \<and> (m 0 \<or> m 5)) \<and> \<not> (n = 8 \<and> m 9))"
  by (auto simp: rational_normalize_return_def Let_def bit_simps)

lemma rational_normalize_return_state [simp]:
  "snd (rational_normalize_return w s) =
     s\<lparr>global_return_status := clean_flags (global_return_status s)\<rparr>"
  by (simp add: rational_normalize_return_def Let_def)

section \<open>Properties of the protocol\<close>

lemma bit_provide:
  "bit (fst (provide w s)) n \<longleftrightarrow>
     (if bit w 10 then n = 0
      else bit (fst (rational_normalize_return w s)) n
        \<or> n = 10 \<and> (bit (fst (rational_normalize_return w s)) 8 \<or> bit (fst (rational_normalize_return w s)) 9))"
  by (auto simp: provide_def case_prod_beta bit_or_iff simp del: bit_rational_normalize_return)

lemma provide_state:
  "snd (provide w s) =
     (if has AWAITING w then s
      else s\<lparr>global_return_status := clean_flags (global_return_status s)\<rparr>)"
  by (simp add: provide_def case_prod_beta)

text \<open>
  The signal handler is the only writer of the two atomics apart from the
  normalisation, so they stay in one of two combinations.
\<close>

definition signal_inv :: "'a globals_scheme \<Rightarrow> bool" where
  "signal_inv s \<longleftrightarrow>
     global_return_status s = (if global_interrupt_flag s then HALTED else SUCCESS)"

lemma signal_inv_initial: "signal_inv initial_globals"
  by (simp add: signal_inv_def initial_globals_def)

lemma signal_inv_handler [simp]: "signal_inv (signal_notify_quit_handler s)"
  by (simp add: signal_inv_def signal_notify_quit_handler_def)

lemma clean_flags_signal [simp]: "clean_flags HALTED = HALTED" "clean_flags SUCCESS = SUCCESS"
  by (rule bit_word_eqI; auto)+

lemma signal_inv_clean [simp]:
  "signal_inv s \<Longrightarrow> s\<lparr>global_return_status := clean_flags (global_return_status s)\<rparr> = s"
  by (cases s) (auto simp: signal_inv_def)

text \<open>The word \<open>HALTED\<close> after a signal, nothing before it.\<close>

definition halted_mask :: "'a globals_scheme \<Rightarrow> ret" where
  "halted_mask s = (if global_interrupt_flag s then HALTED else 0)"

lemma bit_halted_mask [simp]:
  "bit (halted_mask s) n \<longleftrightarrow> n = 4 \<and> global_interrupt_flag s"
  by (auto simp: halted_mask_def)

lemma normalize_signal:
  assumes "signal_inv s"
  shows "rational_normalize_return w s = (clean_flags (w OR halted_mask s), s)"
proof (rule prod_eqI)
  show "fst (rational_normalize_return w s) = fst (clean_flags (w OR halted_mask s), s)"
    using assms by (intro bit_word_eqI) (auto simp: Let_def signal_inv_def bit_or_iff split: if_splits)
  show "snd (rational_normalize_return w s) = snd (clean_flags (w OR halted_mask s), s)"
    using assms by simp
qed

lemma clean_flags_technical [simp]:
  "clean_flags (SUCCESS OR halted_mask s) = SUCCESS OR halted_mask s"
  "clean_flags (FAILURE OR halted_mask s) = FAILURE OR halted_mask s"
  "clean_flags (WARNING OR halted_mask s) = WARNING OR halted_mask s"
  by (rule bit_word_eqI; auto simp: bit_or_iff)+

lemma provide_technical:
  assumes "signal_inv s"
  shows "provide SUCCESS s = (SUCCESS OR halted_mask s, s)"
    and "provide FAILURE s = (FAILURE OR halted_mask s, s)"
    and "provide WARNING s = (WARNING OR halted_mask s, s)"
  using assms by (simp_all add: provide_def normalize_signal bit_or_iff)

text \<open>
  No function of the program returns a contradictory status: a returned status never
  carries SUCCESS together with WARNING or FAILURE, and never YES together with NO.
\<close>

theorem provide_consistent:
  "\<not> (has CRITICAL (fst (provide w s)) \<and> has SUCCESS (fst (provide w s)))
   \<and> \<not> (has YES (fst (provide w s)) \<and> has NO (fst (provide w s)))"
  by (auto simp: bit_provide Let_def)

text \<open>
  C14: After the signal handler has run, every function return carries HALTED, so the
  caller's next run() skips its callee.
\<close>

theorem interrupt_reaches_every_return:
  assumes "\<not> has AWAITING w"
  shows "run f (fst (provide w (signal_notify_quit_handler s))) s'
       = (if has DECISION (fst (provide w (signal_notify_quit_handler s))) then FAILURE
          else fst (provide w (signal_notify_quit_handler s)), s')
    \<and> has HALTED (fst (provide w (signal_notify_quit_handler s)))"
proof -
  let ?r = "fst (provide w (signal_notify_quit_handler s))"
  have h: "bit ?r 4"
    using assms by (auto simp: bit_provide Let_def signal_notify_quit_handler_def)
  have a: "bit ?r 10 \<longleftrightarrow> bit ?r 8 \<or> bit ?r 9"
    using assms by (auto simp: bit_provide Let_def)
  show ?thesis
    using h a by (auto simp: run_def Let_def)
qed

theorem interrupt_reaches_every_return_witness:
  "run (provide SUCCESS) (fst (provide SUCCESS (signal_notify_quit_handler initial_globals)))
       initial_globals = (SUCCESS OR HALTED, initial_globals)
   \<and> has HALTED (fst (provide SUCCESS (signal_notify_quit_handler initial_globals)))"
proof -
  have a: "\<not> has AWAITING SUCCESS" by simp
  have p: "fst (provide SUCCESS (signal_notify_quit_handler initial_globals)) = SUCCESS OR HALTED"
    by (simp add: provide_technical halted_mask_def) (simp add: signal_notify_quit_handler_def)
  have d: "\<not> has DECISION (SUCCESS OR HALTED)" by (simp add: bit_or_iff)
  show ?thesis
    using interrupt_reaches_every_return [OF a, of "provide SUCCESS" initial_globals initial_globals]
    unfolding p using d by simp
qed

lemma bit_call:
  "\<not> bit w 10 \<Longrightarrow> \<not> bit (fst (f s)) 10 \<Longrightarrow>
   call f w s = rational_normalize_return (w OR fst (f s)) (snd (f s))"
  by (simp add: call_def case_prod_beta)

text \<open>
  C15: A failure is never lost: once the local status or the callee's status carries FAILURE,
  the status left by call() carries FAILURE and not SUCCESS, and a following run() leaves
  status and state alone.
\<close>

theorem call_failure_sticky:
  assumes "has FAILURE w \<or> has FAILURE (fst (f s))"
  shows "has FAILURE (fst (call f w s)) \<and> \<not> has SUCCESS (fst (call f w s))
    \<and> (has AWAITING (fst (call f w s)) \<or> run g (fst (call f w s)) s' = (fst (call f w s), s'))"
proof -
  have "bit (fst (call f w s)) 0 \<and> \<not> bit (fst (call f w s)) 3"
    using assms by (auto simp: call_def case_prod_beta Let_def bit_or_iff)
  then show ?thesis
    by (auto simp: run_def Let_def)
qed

theorem call_failure_sticky_witness:
  "has FAILURE (fst (call (provide SUCCESS) FAILURE initial_globals))
   \<and> \<not> has SUCCESS (fst (call (provide SUCCESS) FAILURE initial_globals))"
proof -
  have "has FAILURE FAILURE \<or> has FAILURE (fst (provide SUCCESS initial_globals))" by simp
  then show ?thesis
    using call_failure_sticky [where w = FAILURE and f = "provide SUCCESS" and s = initial_globals]
    by blast
qed

text \<open>
  The yes/no protocol round trip: an answer given as SUCCESS|YES or SUCCESS|NO through
  provide() is read back by ask() as the same boolean, and the caller's status keeps its
  flags with neither the answer bits nor the pending marker left in it.
\<close>

theorem ask_reads_provided_answer:
  assumes "signal_inv s"
  shows "ask (provide (SUCCESS OR (if answer then YES else NO))) SUCCESS s
       = (answer, SUCCESS OR halted_mask s, s)"
proof -
  have p: "provide (SUCCESS OR d) s = (SUCCESS OR d OR halted_mask s OR AWAITING, s)"
    if "d = YES \<or> d = NO" for d
    using assms that by (auto simp: provide_def normalize_signal bit_or_iff intro!: bit_word_eqI)
  show ?thesis
    using assms by (cases answer)
      (auto simp: ask_def p rational_ask_def normalize_signal bit_simps Let_def intro!: bit_word_eqI)
qed

theorem ask_reads_provided_answer_witness:
  "fst (ask (provide (SUCCESS OR NO)) SUCCESS initial_globals) = False
   \<and> fst (ask (provide (SUCCESS OR YES)) SUCCESS initial_globals) = True"
  using ask_reads_provided_answer [OF signal_inv_initial, of False]
    ask_reads_provided_answer [OF signal_inv_initial, of True]
  by simp

text \<open>
  The exit code is the success code 0 exactly when no interrupt arrived and the final
  status is graceful, or when the status word itself is empty; an interrupted run always
  exits with its status word.
\<close>

theorem exit_status_zero_iff:
  "exit_status w s = 0 \<longleftrightarrow> w = 0 \<or> \<not> global_interrupt_flag s \<and> has TRIUMPH w"
  by (auto simp: exit_status_def COMPLETED_def)

end
