(* ===== verification/Incremental_Hash.thy ===== *)
theory Incremental_Hash
  imports Prelude
begin

text \<open>
  The contract between the hashing loop of the scanner and an incremental hash: what
  \<open>src/sha512sum.c\<close> relies on when it feeds a file in pieces, stores the context
  between two runs and continues from it later.
\<close>

text \<open>Feeding a sequence of pieces, stopping at the first refused one.\<close>

fun feed :: "('c \<Rightarrow> bytes \<Rightarrow> 'c option) \<Rightarrow> 'c \<Rightarrow> bytes list \<Rightarrow> 'c option" where
  "feed upd c [] = Some c"
| "feed upd c (x # xs) = (case upd c x of None \<Rightarrow> None | Some c' \<Rightarrow> feed upd c' xs)"

lemma feed_append:
  "feed upd c (xs @ ys) = (case feed upd c xs of None \<Rightarrow> None | Some c' \<Rightarrow> feed upd c' ys)"
  by (induction xs arbitrary: c) (auto split: option.splits)

locale incremental_hash =
  fixes absorbed :: "'c \<Rightarrow> bytes \<Rightarrow> bool"
    and fits :: "bytes \<Rightarrow> bool"
    and start :: "'c"
    and upd :: "'c \<Rightarrow> bytes \<Rightarrow> 'c option"
    and fin :: "'c \<Rightarrow> bytes option"
    and digest :: "bytes \<Rightarrow> bytes"
  assumes fits_prefix: "fits (m @ x) \<Longrightarrow> fits m"
    and absorbed_start: "absorbed start []"
    and absorbed_upd: "absorbed c m \<Longrightarrow> fits (m @ x) \<Longrightarrow> \<exists>c'. upd c x = Some c' \<and> absorbed c' (m @ x)"
    and absorbed_fin: "absorbed c m \<Longrightarrow> fin c = Some (digest m)"
begin

lemma feed_absorbs:
  "absorbed c m \<Longrightarrow> fits (m @ concat xs) \<Longrightarrow>
   \<exists>c'. feed upd c xs = Some c' \<and> absorbed c' (m @ concat xs)"
proof (induction xs arbitrary: c m)
  case Nil
  then show ?case by simp
next
  case (Cons x xs)
  then have "fits ((m @ x) @ concat xs)" by simp
  moreover obtain c' where "upd c x = Some c'" "absorbed c' (m @ x)"
    using absorbed_upd [OF Cons.prems(1), of x] fits_prefix [of "m @ x" "concat xs"] calculation
    by blast
  ultimately show ?case using Cons.IH [of c' "m @ x"] by simp
qed

text \<open>The digest depends on the bytes only, not on how they are cut into pieces.\<close>

lemma feed_digest:
  assumes "fits (concat xs)"
  shows "\<exists>c'. feed upd start xs = Some c' \<and> fin c' = Some (digest (concat xs))"
  using feed_absorbs [OF absorbed_start, of xs] assms absorbed_fin by auto

text \<open>Stopping after some pieces and continuing from the kept context loses nothing.\<close>

lemma resume_digest:
  assumes "absorbed c m" "fits (m @ concat ys)"
  shows "\<exists>c'. feed upd c ys = Some c' \<and> fin c' = Some (digest (m @ concat ys))"
  using feed_absorbs [OF assms] absorbed_fin by blast

end

end
