(* ===== verification/Sha512.thy ===== *)
theory Sha512
  imports Incremental_Hash
begin

text \<open>
  libs/sha512: the incremental SHA-512 of \<open>sha512.c\<close> (context, initialisation, update,
  finalisation, block compression), a one-shot reference in the style of FIPS 180-4, and
  the proof that any sequence of updates followed by a finalisation computes the
  reference digest.  \<open>size_t\<close> and \<open>uint64_t\<close> are 64-bit words; a pointer argument that
  may be NULL is an option.
\<close>

section \<open>Tables and macros\<close>

text \<open>The macro that makes a literal a 64-bit constant.\<close>

abbreviation (input) UINT64_C :: "u64 \<Rightarrow> u64" where "UINT64_C v \<equiv> v"

definition K :: "u64 list" where
  "K =
    [UINT64_C 0x428a2f98d728ae22, UINT64_C 0x7137449123ef65cd,
     UINT64_C 0xb5c0fbcfec4d3b2f, UINT64_C 0xe9b5dba58189dbbc,
     UINT64_C 0x3956c25bf348b538, UINT64_C 0x59f111f1b605d019,
     UINT64_C 0x923f82a4af194f9b, UINT64_C 0xab1c5ed5da6d8118,
     UINT64_C 0xd807aa98a3030242, UINT64_C 0x12835b0145706fbe,
     UINT64_C 0x243185be4ee4b28c, UINT64_C 0x550c7dc3d5ffb4e2,
     UINT64_C 0x72be5d74f27b896f, UINT64_C 0x80deb1fe3b1696b1,
     UINT64_C 0x9bdc06a725c71235, UINT64_C 0xc19bf174cf692694,
     UINT64_C 0xe49b69c19ef14ad2, UINT64_C 0xefbe4786384f25e3,
     UINT64_C 0x0fc19dc68b8cd5b5, UINT64_C 0x240ca1cc77ac9c65,
     UINT64_C 0x2de92c6f592b0275, UINT64_C 0x4a7484aa6ea6e483,
     UINT64_C 0x5cb0a9dcbd41fbd4, UINT64_C 0x76f988da831153b5,
     UINT64_C 0x983e5152ee66dfab, UINT64_C 0xa831c66d2db43210,
     UINT64_C 0xb00327c898fb213f, UINT64_C 0xbf597fc7beef0ee4,
     UINT64_C 0xc6e00bf33da88fc2, UINT64_C 0xd5a79147930aa725,
     UINT64_C 0x06ca6351e003826f, UINT64_C 0x142929670a0e6e70,
     UINT64_C 0x27b70a8546d22ffc, UINT64_C 0x2e1b21385c26c926,
     UINT64_C 0x4d2c6dfc5ac42aed, UINT64_C 0x53380d139d95b3df,
     UINT64_C 0x650a73548baf63de, UINT64_C 0x766a0abb3c77b2a8,
     UINT64_C 0x81c2c92e47edaee6, UINT64_C 0x92722c851482353b,
     UINT64_C 0xa2bfe8a14cf10364, UINT64_C 0xa81a664bbc423001,
     UINT64_C 0xc24b8b70d0f89791, UINT64_C 0xc76c51a30654be30,
     UINT64_C 0xd192e819d6ef5218, UINT64_C 0xd69906245565a910,
     UINT64_C 0xf40e35855771202a, UINT64_C 0x106aa07032bbd1b8,
     UINT64_C 0x19a4c116b8d2d0c8, UINT64_C 0x1e376c085141ab53,
     UINT64_C 0x2748774cdf8eeb99, UINT64_C 0x34b0bcb5e19b48a8,
     UINT64_C 0x391c0cb3c5c95a63, UINT64_C 0x4ed8aa4ae3418acb,
     UINT64_C 0x5b9cca4f7763e373, UINT64_C 0x682e6ff3d6b2b8a3,
     UINT64_C 0x748f82ee5defb2fc, UINT64_C 0x78a5636f43172f60,
     UINT64_C 0x84c87814a1f0ab72, UINT64_C 0x8cc702081a6439ec,
     UINT64_C 0x90befffa23631e28, UINT64_C 0xa4506cebde82bde9,
     UINT64_C 0xbef9a3f7b2c67915, UINT64_C 0xc67178f2e372532b,
     UINT64_C 0xca273eceea26619c, UINT64_C 0xd186b8c721c0c207,
     UINT64_C 0xeada7dd6cde0eb1e, UINT64_C 0xf57d4f7fee6ed178,
     UINT64_C 0x06f067aa72176fba, UINT64_C 0x0a637dc5a2c898a6,
     UINT64_C 0x113f9804bef90dae, UINT64_C 0x1b710b35131c471b,
     UINT64_C 0x28db77f523047d84, UINT64_C 0x32caab7b40c72493,
     UINT64_C 0x3c9ebe0a15c9bebc, UINT64_C 0x431d67c49c100d4c,
     UINT64_C 0x4cc5d4becb3e42b6, UINT64_C 0x597f299cfc657e2a,
     UINT64_C 0x5fcb6fab3ad6faec, UINT64_C 0x6c44198c4a475817]"

definition ROR64c :: "u64 \<Rightarrow> nat \<Rightarrow> u64" where
  [sha_defs]: "ROR64c x y = drop_bit (y mod 64) x OR push_bit ((64 - y mod 64) mod 64) x"

definition Ch :: "u64 \<Rightarrow> u64 \<Rightarrow> u64 \<Rightarrow> u64" where
  [sha_defs]: "Ch x y z = z XOR (x AND (y XOR z))"

definition Maj :: "u64 \<Rightarrow> u64 \<Rightarrow> u64 \<Rightarrow> u64" where
  [sha_defs]: "Maj x y z = ((x OR y) AND z) OR (x AND y)"

definition Sigma0 :: "u64 \<Rightarrow> u64" where
  [sha_defs]: "Sigma0 x = ROR64c x 28 XOR ROR64c x 34 XOR ROR64c x 39"

definition Sigma1 :: "u64 \<Rightarrow> u64" where
  [sha_defs]: "Sigma1 x = ROR64c x 14 XOR ROR64c x 18 XOR ROR64c x 41"

definition Gamma0 :: "u64 \<Rightarrow> u64" where
  [sha_defs]: "Gamma0 x = ROR64c x 1 XOR ROR64c x 8 XOR drop_bit 7 x"

definition Gamma1 :: "u64 \<Rightarrow> u64" where
  [sha_defs]: "Gamma1 x = ROR64c x 19 XOR ROR64c x 61 XOR drop_bit 6 x"

text \<open>\<open>STORE64H\<close> and \<open>LOAD64H\<close>: big-endian encoding of a 64-bit word.\<close>

definition STORE64H :: "u64 \<Rightarrow> bytes" where
  "STORE64H x =
     [ucast (drop_bit 56 x AND 255), ucast (drop_bit 48 x AND 255),
      ucast (drop_bit 40 x AND 255), ucast (drop_bit 32 x AND 255),
      ucast (drop_bit 24 x AND 255), ucast (drop_bit 16 x AND 255),
      ucast (drop_bit 8 x AND 255), ucast (x AND 255)]"

definition LOAD64H :: "bytes \<Rightarrow> u64" where
  "LOAD64H y =
     push_bit 56 (ucast (y ! 0 AND 255)) OR push_bit 48 (ucast (y ! 1 AND 255)) OR
     push_bit 40 (ucast (y ! 2 AND 255)) OR push_bit 32 (ucast (y ! 3 AND 255)) OR
     push_bit 24 (ucast (y ! 4 AND 255)) OR push_bit 16 (ucast (y ! 5 AND 255)) OR
     push_bit 8 (ucast (y ! 6 AND 255)) OR ucast (y ! 7 AND 255)"

section \<open>Context\<close>

datatype SHA512_Status = CRYPT_OK | CRYPT_INVALID_ARG | CRYPT_HASH_OVERFLOW

record SHA512_Context =
  md_length :: u64
  md_state :: "u64 list"
  md_curlen :: u64
  md_buf :: bytes

abbreviation (input) SHA512_BLOCK_BYTES :: nat where "SHA512_BLOCK_BYTES \<equiv> 128"
abbreviation (input) SHA512_LENGTH_FIELD_OFFSET :: nat where "SHA512_LENGTH_FIELD_OFFSET \<equiv> 120"
abbreviation (input) SHA512_DIGEST_LENGTH :: nat where "SHA512_DIGEST_LENGTH \<equiv> 64"
abbreviation (input) SHA512_MAX_BIT_COUNT :: u64 where "SHA512_MAX_BIT_COUNT \<equiv> 0xffffffffffffffff"
abbreviation (input) SHA512_BITS_PER_BYTE :: u64 where "SHA512_BITS_PER_BYTE \<equiv> 8"

section \<open>Block compression\<close>

text \<open>The loop that fills \<open>W[16..79]\<close>; \<open>W\<close> grows by one word per iteration.\<close>

definition schedule_step :: "nat \<Rightarrow> u64 list \<Rightarrow> u64 list" where
  "schedule_step i W =
     W @ [Gamma1 (W ! (i - 2)) + W ! (i - 7) + Gamma0 (W ! (i - 15)) + W ! (i - 16)]"

definition schedule :: "bytes \<Rightarrow> u64 list" where
  "schedule buf =
     fold schedule_step [16..<80] (map (\<lambda>i. LOAD64H (drop (8 * i) buf)) [0..<16])"

text \<open>
  The macro \<open>RND\<close>: its first eight arguments are the positions in \<open>S\<close> that play the
  roles a to h.
\<close>

definition RND ::
  "u64 list \<Rightarrow> nat \<Rightarrow> nat \<Rightarrow> nat \<Rightarrow> nat \<Rightarrow> nat \<Rightarrow> nat \<Rightarrow> nat \<Rightarrow> nat \<Rightarrow> nat \<Rightarrow> u64 list \<Rightarrow> u64 list"
where
  "RND W a b c d e f g h i S =
     (let t0 = S ! h + Sigma1 (S ! e) + Ch (S ! e) (S ! f) (S ! g) + K ! i + W ! i;
          t1 = Sigma0 (S ! a) + Maj (S ! a) (S ! b) (S ! c)
      in S[d := S ! d + t0, h := t0 + t1])"

text \<open>One iteration of the round loop: eight rounds with the roles rotated.\<close>

definition rounds8 :: "u64 list \<Rightarrow> nat \<Rightarrow> u64 list \<Rightarrow> u64 list" where
  "rounds8 W i S =
     (let S = RND W 0 1 2 3 4 5 6 7 (i + 0) S;
          S = RND W 7 0 1 2 3 4 5 6 (i + 1) S;
          S = RND W 6 7 0 1 2 3 4 5 (i + 2) S;
          S = RND W 5 6 7 0 1 2 3 4 (i + 3) S;
          S = RND W 4 5 6 7 0 1 2 3 (i + 4) S;
          S = RND W 3 4 5 6 7 0 1 2 (i + 5) S;
          S = RND W 2 3 4 5 6 7 0 1 (i + 6) S;
          S = RND W 1 2 3 4 5 6 7 0 (i + 7) S
      in S)"

definition sha512_compress :: "bytes \<Rightarrow> SHA512_Context \<Rightarrow> SHA512_Context" where
  "sha512_compress buf md =
     (let W = schedule buf;
          S = fold (rounds8 W) [0, 8, 16, 24, 32, 40, 48, 56, 64, 72] (md_state md)
      in md\<lparr>md_state := map (\<lambda>i. md_state md ! i + S ! i) [0..<8]\<rparr>)"

lemma md_curlen_compress [simp]: "md_curlen (sha512_compress buf md) = md_curlen md"
  by (simp add: sha512_compress_def Let_def)

section \<open>The incremental interface\<close>

definition sha512_check_available_bytes :: "SHA512_Context \<Rightarrow> u64 \<Rightarrow> SHA512_Status" where
  "sha512_check_available_bytes md inlen =
     (if 128 \<le> md_curlen md then CRYPT_INVALID_ARG
      else
        let available_bytes = (SHA512_MAX_BIT_COUNT - md_length md) div SHA512_BITS_PER_BYTE
        in if available_bytes < md_curlen md then CRYPT_HASH_OVERFLOW
           else
             let available_bytes = available_bytes - md_curlen md
             in if available_bytes < inlen then CRYPT_HASH_OVERFLOW else CRYPT_OK)"

definition sha512_init :: "SHA512_Context option \<Rightarrow> SHA512_Status \<times> SHA512_Context option" where
  "sha512_init md =
     (case md of
        None \<Rightarrow> (CRYPT_INVALID_ARG, None)
      | Some md \<Rightarrow>
          (CRYPT_OK, Some (md\<lparr>md_curlen := 0, md_length := 0, md_state :=
             [0x6a09e667f3bcc908, 0xbb67ae8584caa73b, 0x3c6ef372fe94f82b, 0xa54ff53a5f1d36f1,
              0x510e527fade682d1, 0x9b05688c2b3e6c1f, 0x1f83d9abfb41bd6b, 0x5be0cd19137e2179]\<rparr>)))"

text \<open>
  The copy loop \<open>for(i = 0; i < n; i++) md->buf[i + md->curlen] = in[i]\<close>.
\<close>

fun copy_into :: "nat \<Rightarrow> bytes \<Rightarrow> bytes \<Rightarrow> bytes" where
  "copy_into pos [] buf = buf"
| "copy_into pos (x # xs) buf = copy_into (Suc pos) xs (buf[pos := x])"

text \<open>
  The while loop of \<open>sha512_update\<close>; \<open>input\<close> is the data at \<open>in\<close>, its length is \<open>inlen\<close>.
  The remaining room \<open>SHA512_BLOCK_BYTES - md->curlen\<close> is computed on \<open>size_t\<close>.
\<close>

function sha512_update_loop :: "bytes \<Rightarrow> SHA512_Context \<Rightarrow> SHA512_Context" where
  "sha512_update_loop input md =
     (if input = [] then md
      else if md_curlen md = 0 \<and> SHA512_BLOCK_BYTES \<le> length input then
        sha512_update_loop (drop SHA512_BLOCK_BYTES input)
          ((sha512_compress (take SHA512_BLOCK_BYTES input) md)
             \<lparr>md_length := md_length md + of_nat SHA512_BLOCK_BYTES * SHA512_BITS_PER_BYTE\<rparr>)
      else
        let n = min (length input) (unat (128 - md_curlen md));
            md = md\<lparr>md_buf := copy_into (unat (md_curlen md)) (take n input) (md_buf md),
                    md_curlen := md_curlen md + of_nat n\<rparr>;
            md = (if md_curlen md = 128
                  then (sha512_compress (md_buf md) md)
                         \<lparr>md_length := md_length md + SHA512_BITS_PER_BYTE * of_nat SHA512_BLOCK_BYTES,
                          md_curlen := 0\<rparr>
                  else md)
        in sha512_update_loop (drop n input) md)"
  by pat_completeness auto
termination
proof (relation "measure (\<lambda>(input, md). 2 * length input + (if md_curlen md = 128 then 1 else 0))",
    goal_cases)
  case 1
  show ?case by simp
next
  case (2 input md)
  then show ?case by (simp add: md_curlen_compress)
next
  case (3 input md n md1 md2)
  show ?case
  proof (cases "md_curlen md = 128")
    case True
    with 3 show ?thesis by (simp add: md_curlen_compress)
  next
    case False
    then have "0 < unat (128 - md_curlen md)" by (simp add: unat_gt_0)
    with 3 have "0 < n" "n \<le> length input" by auto
    with 3 show ?thesis by simp
  qed
qed

declare sha512_update_loop.simps [simp del]

definition sha512_update ::
  "SHA512_Context option \<Rightarrow> bytes option \<Rightarrow> SHA512_Status \<times> SHA512_Context option" where
  "sha512_update md input =
     (case md of
        None \<Rightarrow> (CRYPT_INVALID_ARG, None)
      | Some ctx \<Rightarrow>
          (case input of
             None \<Rightarrow> (CRYPT_INVALID_ARG, md)
           | Some data \<Rightarrow>
               let status = sha512_check_available_bytes ctx (of_nat (length data))
               in if status \<noteq> CRYPT_OK then (status, md)
                  else (CRYPT_OK, Some (sha512_update_loop data ctx))))"

text \<open>The two loops \<open>while(md->curlen < limit) md->buf[md->curlen++] = 0\<close> of the padding.\<close>

function pad_zeros :: "u64 \<Rightarrow> SHA512_Context \<Rightarrow> SHA512_Context" where
  "pad_zeros limit md =
     (if md_curlen md < limit then
        pad_zeros limit
          (md\<lparr>md_buf := (md_buf md)[unat (md_curlen md) := 0], md_curlen := md_curlen md + 1\<rparr>)
      else md)"
  by pat_completeness auto
termination
proof (relation "measure (\<lambda>(limit, md). unat limit - unat (md_curlen md))", goal_cases)
  case 1
  show ?case by simp
next
  case (2 limit md)
  then have lt: "unat (md_curlen md) < unat limit" by (simp add: word_less_nat_alt)
  moreover have "unat limit < 2 ^ LENGTH(64)" by (rule unsigned_less)
  ultimately have "unat (md_curlen md + 1) = unat (md_curlen md) + 1"
    using unat_add_of_nat [of "md_curlen md" 1] by simp
  with lt show ?case by simp
qed

declare pad_zeros.simps [simp del]

definition sha512_final ::
  "SHA512_Context option \<Rightarrow> bytes option
     \<Rightarrow> SHA512_Status \<times> SHA512_Context option \<times> bytes option" where
  "sha512_final md out =
     (case md of
        None \<Rightarrow> (CRYPT_INVALID_ARG, None, out)
      | Some ctx \<Rightarrow>
          (case out of
             None \<Rightarrow> (CRYPT_INVALID_ARG, md, None)
           | Some _ \<Rightarrow>
               let status = sha512_check_available_bytes ctx 0
               in if status \<noteq> CRYPT_OK then (status, md, out)
                  else
                    let ctx = ctx\<lparr>md_length := md_length ctx + md_curlen ctx * SHA512_BITS_PER_BYTE\<rparr>;
                        ctx = ctx\<lparr>md_buf := (md_buf ctx)[unat (md_curlen ctx) := 0x80],
                                  md_curlen := md_curlen ctx + 1\<rparr>;
                        ctx = (if 112 < md_curlen ctx then
                                 let ctx = pad_zeros 128 ctx
                                 in (sha512_compress (md_buf ctx) ctx)\<lparr>md_curlen := 0\<rparr>
                               else ctx);
                        ctx = pad_zeros 120 ctx;
                        ctx = ctx\<lparr>md_buf :=
                          copy_into SHA512_LENGTH_FIELD_OFFSET (STORE64H (md_length ctx)) (md_buf ctx)\<rparr>;
                        ctx = sha512_compress (md_buf ctx) ctx
                    in (CRYPT_OK, Some ctx, Some (concat (map STORE64H (md_state ctx))))))"

section \<open>Reference: FIPS 180-4\<close>

definition fips_Ch :: "u64 \<Rightarrow> u64 \<Rightarrow> u64 \<Rightarrow> u64" where
  "fips_Ch x y z = (x AND y) XOR (NOT x AND z)"

definition fips_Maj :: "u64 \<Rightarrow> u64 \<Rightarrow> u64 \<Rightarrow> u64" where
  "fips_Maj x y z = (x AND y) XOR (x AND z) XOR (y AND z)"

definition fips_Sigma0 :: "u64 \<Rightarrow> u64" where
  "fips_Sigma0 x = word_rotr 28 x XOR word_rotr 34 x XOR word_rotr 39 x"

definition fips_Sigma1 :: "u64 \<Rightarrow> u64" where
  "fips_Sigma1 x = word_rotr 14 x XOR word_rotr 18 x XOR word_rotr 41 x"

definition fips_sigma0 :: "u64 \<Rightarrow> u64" where
  "fips_sigma0 x = word_rotr 1 x XOR word_rotr 8 x XOR drop_bit 7 x"

definition fips_sigma1 :: "u64 \<Rightarrow> u64" where
  "fips_sigma1 x = word_rotr 19 x XOR word_rotr 61 x XOR drop_bit 6 x"

lemma ROR64c_rotr:
  assumes "y < 64"
  shows "ROR64c x y = word_rotr y x"
proof (rule bit_word_eqI)
  fix n assume "n < LENGTH(64)"
  then have n: "n < 64" by simp
  show "bit (ROR64c x y) n = bit (word_rotr y x) n"
  proof (cases "n + y < 64")
    case True
    with n show ?thesis
      by (cases "y = 0") (auto simp: ROR64c_def bit_or_iff bit_drop_bit_eq bit_push_bit_iff bit_word_rotr_iff add.commute)
  next
    case False
    with n assms have "(n + y) mod 64 = n + y - 64" "\<not> bit x (n + y)" "0 < y"
      by (auto simp: mod_if dest: bit_imp_le_length)
    with n False assms show ?thesis
      by (auto simp: ROR64c_def bit_or_iff bit_drop_bit_eq bit_push_bit_iff bit_word_rotr_iff add.commute)
  qed
qed

lemma macros_fips:
  "Ch x y z = fips_Ch x y z" "Maj x y z = fips_Maj x y z"
  "Sigma0 x = fips_Sigma0 x" "Sigma1 x = fips_Sigma1 x"
  "Gamma0 x = fips_sigma0 x" "Gamma1 x = fips_sigma1 x"
  by (auto intro!: bit_word_eqI simp: sha_defs(2-) fips_Ch_def fips_Maj_def ROR64c_rotr
      fips_Sigma0_def fips_Sigma1_def fips_sigma0_def fips_sigma1_def bit_simps)


text \<open>The message schedule, as the recursive definition of the standard.\<close>

fun fips_W :: "bytes \<Rightarrow> nat \<Rightarrow> u64" where
  "fips_W block t =
     (if t < 16 then LOAD64H (drop (8 * t) block)
      else fips_sigma1 (fips_W block (t - 2)) + fips_W block (t - 7)
         + fips_sigma0 (fips_W block (t - 15)) + fips_W block (t - 16))"

declare fips_W.simps [simp del]

type_synonym vars = "u64 \<times> u64 \<times> u64 \<times> u64 \<times> u64 \<times> u64 \<times> u64 \<times> u64"

fun fips_round :: "bytes \<Rightarrow> nat \<Rightarrow> vars \<Rightarrow> vars" where
  "fips_round block t (a, b, c, d, e, f, g, h) =
     (let T1 = h + fips_Sigma1 e + fips_Ch e f g + K ! t + fips_W block t;
          T2 = fips_Sigma0 a + fips_Maj a b c
      in (T1 + T2, a, b, c, d + T1, e, f, g))"

definition vars_of :: "u64 list \<Rightarrow> vars" where
  "vars_of S = (S ! 0, S ! 1, S ! 2, S ! 3, S ! 4, S ! 5, S ! 6, S ! 7)"

fun list_of :: "vars \<Rightarrow> u64 list" where
  "list_of (a, b, c, d, e, f, g, h) = [a, b, c, d, e, f, g, h]"

definition fips_compress :: "u64 list \<Rightarrow> bytes \<Rightarrow> u64 list" where
  "fips_compress H block =
     map2 (+) H (list_of (fold (fips_round block) [0..<80] (vars_of H)))"

lemma schedule_prefix:
  assumes "n \<le> 64"
  shows "fold schedule_step [16..<16 + n] (map (\<lambda>i. LOAD64H (drop (8 * i) block)) [0..<16])
       = map (fips_W block) [0..<16 + n]"
  using assms
proof (induction n)
  case 0
  show ?case by (simp add: fips_W.simps)
next
  case (Suc n)
  have "schedule_step (16 + n) (map (fips_W block) [0..<16 + n])
      = map (fips_W block) [0..<16 + n] @ [fips_W block (16 + n)]"
    by (simp add: schedule_step_def macros_fips fips_W.simps [of block "16 + n"])
  moreover have "[16..<16 + Suc n] = [16..<16 + n] @ [16 + n]"
    and "[0..<16 + Suc n] = [0..<16 + n] @ [16 + n]"
    by (simp_all add: upt_Suc_append [symmetric])
  ultimately show ?case using Suc by (simp del: upt_Suc)
qed

lemma schedule_fips: "schedule block = map (fips_W block) [0..<80]"
  using schedule_prefix [of 64 block] by (simp add: schedule_def)

text \<open>
  After \<open>j\<close> of the eight unrolled rounds the roles a to h sit at positions shifted by \<open>j\<close>.
\<close>

definition rotated :: "nat \<Rightarrow> u64 list \<Rightarrow> vars" where
  "rotated j S =
     (S ! ((8 - j) mod 8), S ! ((9 - j) mod 8), S ! ((10 - j) mod 8), S ! ((11 - j) mod 8),
      S ! ((12 - j) mod 8), S ! ((13 - j) mod 8), S ! ((14 - j) mod 8), S ! ((15 - j) mod 8))"

lemma length_RND [simp]: "length (RND W a b c d e f g h i S) = length S"
  by (simp add: RND_def Let_def)

lemma RND_round:
  assumes "length S = 8" "i < 80"
  shows
    "rotated 1 (RND (schedule block) 0 1 2 3 4 5 6 7 i S) = fips_round block i (rotated 0 S)"
    "rotated 2 (RND (schedule block) 7 0 1 2 3 4 5 6 i S) = fips_round block i (rotated 1 S)"
    "rotated 3 (RND (schedule block) 6 7 0 1 2 3 4 5 i S) = fips_round block i (rotated 2 S)"
    "rotated 4 (RND (schedule block) 5 6 7 0 1 2 3 4 i S) = fips_round block i (rotated 3 S)"
    "rotated 5 (RND (schedule block) 4 5 6 7 0 1 2 3 i S) = fips_round block i (rotated 4 S)"
    "rotated 6 (RND (schedule block) 3 4 5 6 7 0 1 2 i S) = fips_round block i (rotated 5 S)"
    "rotated 7 (RND (schedule block) 2 3 4 5 6 7 0 1 i S) = fips_round block i (rotated 6 S)"
    "rotated 0 (RND (schedule block) 1 2 3 4 5 6 7 0 i S) = fips_round block i (rotated 7 S)"
  using assms(1,2)
  by (simp_all add: RND_def Let_def rotated_def schedule_fips macros_fips)

lemma rounds8_fips:
  assumes "length S = 8" "i + 7 < 80"
  shows "rotated 0 (rounds8 (schedule block) i S) = fold (fips_round block) [i..<i + 8] (rotated 0 S)"
proof -
  have u: "[i..<i + 8] = [i, i + 1, i + 2, i + 3, i + 4, i + 5, i + 6, i + 7]"
    by (simp add: upt_rec)
  show ?thesis
    using assms unfolding u rounds8_def Let_def by (simp add: RND_round del: One_nat_def)
qed

lemma length_rounds8 [simp]: "length (rounds8 W i S) = length S"
  by (simp add: rounds8_def Let_def)


lemma rounds_fips:
  assumes "length S = 8" "n \<le> 10"
  shows "rotated 0 (fold (rounds8 (schedule block)) (map ((*) 8) [0..<n]) S)
           = fold (fips_round block) [0..<8 * n] (rotated 0 S)
       \<and> length (fold (rounds8 (schedule block)) (map ((*) 8) [0..<n]) S) = 8"
  using assms(2)
proof (induction n)
  case 0
  show ?case using assms(1) by simp
next
  case (Suc n)
  have "[0..<8 * Suc n] = [0..<8 * n] @ [8 * n..<8 * n + 8]"
    by (metis add.commute le0 mult_Suc_right upt_add_eq_append)
  with Suc show ?case by (simp add: rounds8_fips del: upt_Suc)
     (simp add: rounds8_fips)
qed

lemma list_of_rotated:
  assumes "length S = 8"
  shows "list_of (rotated 0 S) = S"
  by (rule length_8E [OF assms]) (simp add: rotated_def)

lemma sha512_compress_fips:
  assumes "length (md_state md) = 8"
  shows "sha512_compress block md = md\<lparr>md_state := fips_compress (md_state md) block\<rparr>"
proof -
  let ?S = "fold (rounds8 (schedule block)) [0, 8, 16, 24, 32, 40, 48, 56, 64, 72] (md_state md)"
  have l: "[0, 8, 16, 24, 32, 40, 48, 56, 64, 72] = map ((*) 8) [0..<10::nat]"
    by (simp add: upt_rec)
  have "length ?S = 8" and "rotated 0 ?S = fold (fips_round block) [0..<80] (vars_of (md_state md))"
    using rounds_fips [OF assms, of 10 block] unfolding l
    by (simp_all add: vars_of_def rotated_def)
  then have S: "?S = list_of (fold (fips_round block) [0..<80] (vars_of (md_state md)))"
    using list_of_rotated by metis
  have "map (\<lambda>i. md_state md ! i + ?S ! i) [0..<8] = map2 (+) (md_state md) ?S"
    using assms \<open>length ?S = 8\<close> by (intro nth_equalityI) auto
  then show ?thesis
    unfolding sha512_compress_def Let_def fips_compress_def S by simp
qed
fun fips_blocks :: "u64 list \<Rightarrow> bytes \<Rightarrow> u64 list" where
  "fips_blocks H msg =
     (if length msg < 128 then H
      else fips_blocks (fips_compress H (take 128 msg)) (drop 128 msg))"

declare fips_blocks.simps [simp del]

text \<open>The initial hash value and the padding rule; the length field is 128 bits wide.\<close>

definition fips_H0 :: "u64 list" where
  "fips_H0 =
     [0x6a09e667f3bcc908, 0xbb67ae8584caa73b, 0x3c6ef372fe94f82b, 0xa54ff53a5f1d36f1,
      0x510e527fade682d1, 0x9b05688c2b3e6c1f, 0x1f83d9abfb41bd6b, 0x5be0cd19137e2179]"

definition big_endian :: "nat \<Rightarrow> nat \<Rightarrow> bytes" where
  "big_endian k n = map (\<lambda>i. of_nat (n div 256 ^ (k - 1 - i))) [0..<k]"

definition fips_pad :: "bytes \<Rightarrow> bytes" where
  "fips_pad msg =
     msg @ [0x80] @ replicate ((239 - length msg mod 128) mod 128) 0
         @ big_endian 16 (8 * length msg)"

definition fips_sha512 :: "bytes \<Rightarrow> bytes" where
  "fips_sha512 msg = concat (map STORE64H (fips_blocks fips_H0 (fips_pad msg)))"

lemma length_list_of [simp]: "length (list_of v) = 8"
  by (cases v rule: list_of.cases) simp

lemma length_fips_compress [simp]: "length H = 8 \<Longrightarrow> length (fips_compress H block) = 8"
  by (simp add: fips_compress_def)

lemma fips_blocks_short: "length msg < 128 \<Longrightarrow> fips_blocks H msg = H"
  by (simp add: fips_blocks.simps)

lemma fips_blocks_block:
  "length block = 128 \<Longrightarrow> fips_blocks H (block @ msg) = fips_blocks (fips_compress H block) msg"
  by (simp add: fips_blocks.simps [of H "block @ msg"])

lemma fips_blocks_append:
  "128 dvd length a \<Longrightarrow> fips_blocks H (a @ b) = fips_blocks (fips_blocks H a) b"
proof (induction H a rule: fips_blocks.induct)
  case (1 H a)
  show ?case
  proof (cases "length a < 128")
    case True
    with 1 show ?thesis by (auto simp: fips_blocks_short dvd_def)
  next
    case False
    then have "128 dvd length (drop 128 a)"
      using 1(2) by (simp add: dvd_diff_nat)
    with 1(1) False show ?thesis
      by (simp add: fips_blocks.simps [of H "a @ b"] fips_blocks.simps [of H a])
  qed
qed

lemma length_fips_blocks [simp]: "length H = 8 \<Longrightarrow> length (fips_blocks H msg) = 8"
  by (induction H msg rule: fips_blocks.induct) (simp add: fips_blocks.simps)

section \<open>What a context stands for\<close>

text \<open>
  \<open>hashed md msg\<close>: the context has absorbed exactly the bytes \<open>msg\<close>.  The whole blocks are
  in the chaining value and counted in bits, the rest waits at the start of the buffer.
\<close>

definition hashed :: "SHA512_Context \<Rightarrow> bytes \<Rightarrow> bool" where
  "hashed md msg \<longleftrightarrow>
     8 * length msg < 2 ^ 64
     \<and> length (md_buf md) = 128
     \<and> unat (md_curlen md) = length msg mod 128
     \<and> take (length msg mod 128) (md_buf md) = drop (length msg - length msg mod 128) msg
     \<and> md_state md = fips_blocks fips_H0 (take (length msg - length msg mod 128) msg)
     \<and> md_length md = of_nat (8 * (length msg - length msg mod 128))"

lemma length_fips_H0 [simp]: "length fips_H0 = 8"
  by (simp add: fips_H0_def)

lemma hashed_length_state: "hashed md msg \<Longrightarrow> length (md_state md) = 8"
  by (simp add: hashed_def)

lemma length_copy_into [simp]: "length (copy_into p xs buf) = length buf"
  by (induction p xs buf rule: copy_into.induct) simp_all

lemma copy_into_eq:
  "p + length xs \<le> length buf \<Longrightarrow>
   copy_into p xs buf = take p buf @ xs @ drop (p + length xs) buf"
proof (induction p xs buf rule: copy_into.induct)
  case (1 p buf)
  show ?case by simp
next
  case (2 p x xs buf)
  then show ?case
    by (simp add: take_list_update_at)
qed

lemma hashed_init:
  assumes "length (md_buf md) = 128"
  shows "\<exists>md'. sha512_init (Some md) = (CRYPT_OK, Some md') \<and> hashed md' []"
  using assms by (simp add: sha512_init_def hashed_def fips_blocks_short fips_H0_def)

text \<open>Whole blocks already absorbed, and what is still buffered.\<close>

lemma hashed_full_block:
  assumes h: "hashed md msg" "md_curlen md = 0" and n: "length block = 128"
    and fit: "8 * (length msg + 128) < 2 ^ 64"
  shows "hashed ((sha512_compress block md)\<lparr>md_length := md_length md + of_nat 128 * 8\<rparr>) (msg @ block)"
proof -
  have m: "length msg mod 128 = 0"
    using h by (simp add: hashed_def)
  then have d: "128 dvd length msg" by presburger
  have "fips_blocks fips_H0 (msg @ block) = fips_compress (fips_blocks fips_H0 msg) block"
    using fips_blocks_append [OF d, of fips_H0 block] fips_blocks_block [OF n, of "fips_blocks fips_H0 msg" "[]"]
    by (simp add: fips_blocks_short)
  then show ?thesis
    using h n fit m by (simp add: hashed_def sha512_compress_fips algebra_simps)
qed

lemma hashed_buffer:
  assumes h: "hashed md msg" and n: "length msg mod 128 + length xs < 128"
    and fit: "8 * (length msg + length xs) < 2 ^ 64"
  shows "hashed (md\<lparr>md_buf := copy_into (unat (md_curlen md)) xs (md_buf md),
                    md_curlen := md_curlen md + of_nat (length xs)\<rparr>) (msg @ xs)"
proof -
  let ?r = "length msg mod 128"
  have mod: "(length msg + length xs) mod 128 = ?r + length xs"
    using n by (metis mod_add_left_eq mod_less)
  have diff: "length msg + length xs - (?r + length xs) = length msg - ?r" by simp
  have cur: "unat (md_curlen md) = ?r" and buf: "length (md_buf md) = 128"
    using h by (simp_all add: hashed_def)
  have "unat (md_curlen md + of_nat (length xs)) = ?r + length xs"
    using n by (subst unat_add_of_nat) (simp_all add: cur)
  then show ?thesis
    using h n fit by (simp add: hashed_def mod diff cur copy_into_eq buf)
qed

lemma hashed_fill:
  assumes h: "hashed md msg" and n: "length msg mod 128 + length xs = 128"
    and fit: "8 * (length msg + length xs) < 2 ^ 64"
  shows "hashed ((sha512_compress (copy_into (unat (md_curlen md)) xs (md_buf md))
             (md\<lparr>md_buf := copy_into (unat (md_curlen md)) xs (md_buf md),
                    md_curlen := md_curlen md + of_nat (length xs)\<rparr>))
             \<lparr>md_length := md_length md + 8 * of_nat 128, md_curlen := 0\<rparr>) (msg @ xs)"
proof -
  let ?r = "length msg mod 128"
  let ?full = "take (length msg - ?r) msg"
  have mod: "(length msg + length xs) mod 128 = 0"
    using n by (metis mod_add_left_eq mod_self)
  have cur: "unat (md_curlen md) = ?r" and buf: "length (md_buf md) = 128"
    and tk: "take ?r (md_buf md) = drop (length msg - ?r) msg"
    using h by (simp_all add: hashed_def)
  have b: "copy_into (unat (md_curlen md)) xs (md_buf md) = drop (length msg - ?r) msg @ xs"
    using n by (simp add: cur copy_into_eq buf tk)
  have "length ?full = length msg - ?r" by simp
  then have d: "128 dvd length ?full" by (simp only: dvd_minus_mod)
  have lb: "length (drop (length msg - ?r) msg @ xs) = 128"
    using n by simp
  have "msg @ xs = ?full @ (drop (length msg - ?r) msg @ xs) @ []"
    by simp
  then have st: "fips_blocks fips_H0 (msg @ xs)
      = fips_compress (fips_blocks fips_H0 ?full) (drop (length msg - ?r) msg @ xs)"
    using fips_blocks_append [OF d] fips_blocks_block [OF lb, of _ "[]"]
    by (metis fips_blocks_short list.size(3) zero_less_numeral)
  have len: "length msg - ?r + 128 = length msg + length xs"
    using n mod_less_eq_dividend [of "length msg" 128] by linarith
  have "md_length md + 8 * of_nat 128 = (of_nat (8 * (length msg + length xs)) :: u64)"
  proof -
    have "md_length md = of_nat (8 * (length msg - ?r))"
      using h unfolding hashed_def by blast
    then show ?thesis unfolding len [symmetric] by (simp only: of_nat_add of_nat_mult) simp
  qed
  moreover have "md_state md = fips_blocks fips_H0 ?full" and "length (md_buf md) = 128"
    using h unfolding hashed_def by blast+
  ultimately show ?thesis
    using fit mod lb
    by (simp add: hashed_def st sha512_compress_fips b del: of_nat_mult of_nat_add)
qed

lemma hashed_update_loop:
  assumes "hashed md msg" "8 * (length msg + length input) < 2 ^ 64"
  shows "hashed (sha512_update_loop input md) (msg @ input)"
  using assms
proof (induction input md arbitrary: msg rule: sha512_update_loop.induct)
  case (1 input md)
  let ?r = "length msg mod 128"
  have cur: "unat (md_curlen md) = ?r"
    using 1(3) by (simp add: hashed_def)
  consider "input = []" | "input \<noteq> []" "md_curlen md = 0" "128 \<le> length input"
    | "input \<noteq> []" "\<not> (md_curlen md = 0 \<and> 128 \<le> length input)" by blast
  then show ?case
  proof cases
    case 1
    with \<open>hashed md msg\<close> show ?thesis by (simp add: sha512_update_loop.simps)
  next
    case 2
    have "hashed ((sha512_compress (take 128 input) md)\<lparr>md_length := md_length md + of_nat 128 * 8\<rparr>)
        (msg @ take 128 input)"
      using 2 1(3,4) by (intro hashed_full_block) auto
    then have "hashed (sha512_update_loop (drop 128 input)
        ((sha512_compress (take 128 input) md)\<lparr>md_length := md_length md + of_nat 128 * 8\<rparr>))
        ((msg @ take 128 input) @ drop 128 input)"
      using 2 1(4) by (intro 1(1)) auto
    with 2 show ?thesis by (simp add: sha512_update_loop.simps [of input md])
  next
    case 3
    define n where "n = min (length input) (unat (128 - md_curlen md))"
    have le: "md_curlen md \<le> 128"
      using cur by (simp add: word_le_nat_alt)
    have room: "unat (128 - md_curlen md) = 128 - ?r"
      using unat_sub [OF le] cur by simp
    define md1 where "md1 = md\<lparr>md_buf := copy_into (unat (md_curlen md)) (take n input) (md_buf md),
        md_curlen := md_curlen md + of_nat n\<rparr>"
    define md2 where "md2 = (if md_curlen md1 = 128
        then (sha512_compress (md_buf md1) md1)\<lparr>md_length := md_length md1 + 8 * of_nat 128, md_curlen := 0\<rparr>
        else md1)"
    have ln: "length (take n input) = n" and mn: "min (length input) n = n" by (simp_all add: n_def)
    have nle: "?r + n \<le> 128" using room by (simp add: n_def)
    have fit: "8 * (length msg + n) < 2 ^ 64"
      using 1(4) by (simp add: n_def)
    have cur1: "unat (md_curlen md1) = ?r + n"
      using nle by (simp add: md1_def cur unat_add_of_nat)
    have "hashed md2 (msg @ take n input)"
    proof (cases "?r + n = 128")
      case True
      then have "md_curlen md1 = 128"
        using cur1 by (simp add: word_unat_eq_iff)
      then show ?thesis
        using hashed_fill [OF 1(3), of "take n input"] True fit
        by (simp add: md2_def mn) (simp add: md1_def mn)
    next
      case False
      then have "md_curlen md1 \<noteq> 128" using cur1 by auto
      then show ?thesis
        using hashed_buffer [OF 1(3), of "take n input"] False nle fit
        by (simp add: md2_def mn) (simp add: md1_def mn)
    qed
    then have "hashed (sha512_update_loop (drop n input) md2) ((msg @ take n input) @ drop n input)"
      using 3 1(4) by (intro 1(2) [OF _ _ n_def md1_def md2_def]) (auto simp: n_def)
    moreover have "sha512_update_loop input md = sha512_update_loop (drop n input) md2"
      unfolding sha512_update_loop.simps [of input md] if_not_P [OF 3(1)] if_not_P [OF 3(2)]
        Let_def md2_def md1_def n_def by (rule refl)
    ultimately show ?thesis by simp
  qed
qed

lemma hashed_check:
  assumes h: "hashed md msg" and n: "n < 2 ^ 64"
  shows "sha512_check_available_bytes md (of_nat n) =
     (if 8 * (length msg + n) < 2 ^ 64 then CRYPT_OK else CRYPT_HASH_OVERFLOW)"
proof -
  let ?full = "length msg - length msg mod 128"
  let ?av = "(SHA512_MAX_BIT_COUNT - md_length md) div SHA512_BITS_PER_BYTE"
  have cur: "unat (md_curlen md) = length msg mod 128" and fit: "8 * length msg < 2 ^ 64"
    using h by (simp_all add: hashed_def)
  have len: "unat (md_length md) = 8 * ?full"
  proof -
    have "md_length md = of_nat (8 * ?full)"
      using h unfolding hashed_def by blast
    then show ?thesis using fit by (simp add: unat_of_nat_small del: of_nat_mult of_nat_diff)
  qed
  have le: "md_length md \<le> SHA512_MAX_BIT_COUNT"
    by (simp add: word_le_nat_alt len) (use fit in simp)
  have av: "unat ?av = 2 ^ 61 - 1 - ?full"
    using fit by (simp add: unat_div unat_sub [OF le] len)
  have c1: "\<not> 128 \<le> md_curlen md"
    by (simp add: word_le_nat_alt cur not_le)
  have "length msg mod 128 \<le> 2 ^ 61 - 1 - ?full"
    using fit by simp
  then have c2: "\<not> ?av < md_curlen md" "unat (?av - md_curlen md) = 2 ^ 61 - 1 - ?full - length msg mod 128"
    by (simp_all add: word_less_nat_alt word_le_nat_alt unat_sub av cur)
  have "unat (of_nat n :: u64) = n"
    using n by (simp add: unat_of_nat_small)
  then have "?av - md_curlen md < of_nat n \<longleftrightarrow> \<not> 8 * (length msg + n) < 2 ^ 64"
    using fit by (auto simp: word_less_nat_alt c2)
  then show ?thesis
    unfolding sha512_check_available_bytes_def Let_def using c1 c2(1) by simp
qed

section \<open>Padding\<close>

lemma pad_zeros_eq:
  assumes "md_curlen md \<le> limit" "unat limit \<le> length (md_buf md)"
  shows "pad_zeros limit md =
    md\<lparr>md_buf := take (unat (md_curlen md)) (md_buf md)
          @ replicate (unat limit - unat (md_curlen md)) 0 @ drop (unat limit) (md_buf md),
       md_curlen := limit\<rparr>"
  using assms
proof (induction limit md rule: pad_zeros.induct)
  case (1 limit md)
  show ?case
  proof (cases "md_curlen md < limit")
    case False
    with 1(2) have "md_curlen md = limit" by simp
    then show ?thesis by (simp add: pad_zeros.simps)
  next
    case True
    let ?c = "unat (md_curlen md)"
    have lt: "?c < unat limit" using True by (simp add: word_less_nat_alt)
    moreover have "unat limit < 2 ^ LENGTH(64)" by (rule unsigned_less)
    ultimately have suc: "unat (md_curlen md + 1) = Suc ?c"
      using unat_add_of_nat [of "md_curlen md" 1] by simp
    have le: "md_curlen md + 1 \<le> limit"
      using lt by (simp add: word_le_nat_alt suc)
    have rep: "replicate (unat limit - ?c) (0::u8) = 0 # replicate (unat limit - Suc ?c) 0"
      using lt by (metis Suc_diff_Suc replicate_Suc)
    show ?thesis
      using 1(1) [OF True] le True 1(3) lt
      by (simp add: pad_zeros.simps [of limit md] suc take_list_update_at rep)
  qed
qed

lemma STORE64H_big_endian:
  assumes "n < 2 ^ 64"
  shows "big_endian 16 n = replicate 8 0 @ STORE64H (of_nat n)"
proof -
  have byte: "(of_nat (n div 2 ^ k) :: u8) = ucast (drop_bit k (of_nat n :: u64) AND 255)" for k
  proof (rule bit_word_eqI)
    fix i assume "i < LENGTH(8)"
    then have i: "i < 8" by simp
    have "bit (255 :: u64) i"
      using i by (simp add: less_Suc_eq numeral_eq_Suc) (elim disjE; simp)
    moreover have "k + i < 64 \<or> \<not> bit n (k + i)"
      using assms by (metis bit_take_bit_iff take_bit_nat_eq_self)
    ultimately show "bit (of_nat (n div 2 ^ k) :: u8) i = bit (ucast (drop_bit k (of_nat n :: u64) AND 255) :: u8) i"
      using i by (auto simp: bit_simps drop_bit_eq_div [symmetric])
  qed
  have zero: "n div 2 ^ k = 0" if "64 \<le> k" for k
    using assms that by (metis div_less less_le_trans one_less_numeral_iff power_increasing_iff semiring_norm(76))
  define f :: "nat \<Rightarrow> u8" where "f i = of_nat (n div 2 ^ (8 * (15 - i)))" for i
  have "big_endian 16 n = map f [0..<16]"
    unfolding big_endian_def f_def by (rule map_cong) (simp_all add: power_mult)
  also have "[0..<16] = [0, 1, 2, 3, 4, 5, 6, 7, 8, 9, 10, 11, 12, 13, 14, 15 :: nat]"
    by (simp add: upt_rec)
  finally have be: "big_endian 16 n = map f [0, 1, 2, 3, 4, 5, 6, 7, 8, 9, 10, 11, 12, 13, 14, 15]" .
  have fz: "f i = 0" if "i \<le> 7" for i
    unfolding f_def by (subst zero) (use that in simp_all)
  have "f 0 = 0" "f 1 = 0" "f 2 = 0" "f 3 = 0" "f 4 = 0" "f 5 = 0" "f 6 = 0" "f 7 = 0"
    using fz by simp_all
  moreover have "f 8 = ucast (drop_bit 56 (of_nat n :: u64) AND 255)"
    "f 9 = ucast (drop_bit 48 (of_nat n :: u64) AND 255)"
    "f 10 = ucast (drop_bit 40 (of_nat n :: u64) AND 255)"
    "f 11 = ucast (drop_bit 32 (of_nat n :: u64) AND 255)"
    "f 12 = ucast (drop_bit 24 (of_nat n :: u64) AND 255)"
    "f 13 = ucast (drop_bit 16 (of_nat n :: u64) AND 255)"
    "f 14 = ucast (drop_bit 8 (of_nat n :: u64) AND 255)"
    "f 15 = ucast ((of_nat n :: u64) AND 255)"
    using byte [of 56] byte [of 48] byte [of 40] byte [of 32] byte [of 24] byte [of 16]
      byte [of 8] byte [of 0] by (simp_all add: f_def)
  moreover have "replicate 8 (0 :: u8) = [0, 0, 0, 0, 0, 0, 0, 0]"
    by (simp add: numeral_eq_Suc)
  ultimately show ?thesis
    unfolding be by (simp only: list.map STORE64H_def append.simps)
qed

section \<open>Finalisation\<close>

text \<open>The last block: zeros up to the length field, the length, one compression.\<close>

lemma final_block:
  fixes ctx :: SHA512_Context
  assumes "length (md_buf ctx) = 128" "md_curlen ctx \<le> 120" "length (md_state ctx) = 8"
    and "length field = 8"
  defines "ctx1 \<equiv> pad_zeros 120 ctx"
  defines "ctx2 \<equiv> ctx1\<lparr>md_buf := copy_into 120 field (md_buf ctx1)\<rparr>"
  shows "md_state (sha512_compress (md_buf ctx2) ctx2)
       = fips_compress (md_state ctx)
           (take (unat (md_curlen ctx)) (md_buf ctx)
             @ replicate (120 - unat (md_curlen ctx)) 0 @ field)"
proof -
  let ?c = "unat (md_curlen ctx)"
  have c: "?c \<le> 120" using assms(2) by (simp add: word_le_nat_alt)
  have "ctx1 = ctx\<lparr>md_buf := take ?c (md_buf ctx) @ replicate (120 - ?c) 0 @ drop 120 (md_buf ctx),
      md_curlen := 120\<rparr>"
    unfolding ctx1_def using pad_zeros_eq [OF assms(2)] assms(1) by simp
  then show ?thesis
    using assms(1,3,4) c by (simp add: ctx2_def sha512_compress_fips copy_into_eq)
qed

lemma length_STORE64H [simp]: "length (STORE64H x) = 8"
  by (simp add: STORE64H_def)

lemma sha512_final_digest:
  assumes h: "hashed md msg"
  shows "\<exists>md'. sha512_final (Some md) (Some out) = (CRYPT_OK, Some md', Some (fips_sha512 msg))"
proof -
  let ?r = "length msg mod 128"
  let ?full = "take (length msg - ?r) msg"
  let ?tail = "drop (length msg - ?r) msg"
  let ?len = "STORE64H (of_nat (8 * length msg))"
  have cur: "unat (md_curlen md) = ?r" and buf: "length (md_buf md) = 128"
    and tk: "take ?r (md_buf md) = ?tail" and fit: "8 * length msg < 2 ^ 64"
    and st: "md_state md = fips_blocks fips_H0 ?full"
    and bits: "md_length md = of_nat (8 * (length msg - ?r))"
    using h unfolding hashed_def by blast+
  have r: "?r < 128" by simp
  have chk: "sha512_check_available_bytes md 0 = CRYPT_OK"
    using hashed_check [OF h, of 0] fit by simp
  have len: "md_length md + md_curlen md * 8 = of_nat (8 * length msg)"
  proof -
    have "md_curlen md = of_nat ?r"
      using r by (simp add: word_unat_eq_iff cur unat_of_nat_small)
    then have "md_length md + md_curlen md * 8 = of_nat (8 * (length msg - ?r) + ?r * 8)"
      unfolding bits by (simp only: of_nat_add of_nat_mult of_nat_numeral)
    moreover have "8 * (length msg - ?r) + ?r * 8 = 8 * length msg"
      using mod_less_eq_dividend [of "length msg" 128] by linarith
    ultimately show ?thesis by (simp only:)
  qed
  define ctx where "ctx = md\<lparr>md_length := md_length md + md_curlen md * 8,
     md_buf := (md_buf md)[unat (md_curlen md) := 0x80], md_curlen := md_curlen md + 1\<rparr>"
  have cur1: "unat (md_curlen ctx) = Suc ?r"
    using r unat_add_of_nat [of "md_curlen md" 1] by (simp add: ctx_def cur)
  have buf1: "length (md_buf ctx) = 128" "take (Suc ?r) (md_buf ctx) = ?tail @ [0x80]"
    using r by (simp_all add: ctx_def cur buf tk take_list_update_at)
  have st1: "md_state ctx = fips_blocks fips_H0 ?full" "length (md_state ctx) = 8"
    and len1: "md_length ctx = of_nat (8 * length msg)"
    by (simp_all add: ctx_def st len)
  define blk where "blk = (if 112 < md_curlen ctx then
      let c = pad_zeros 128 ctx in (sha512_compress (md_buf c) c)\<lparr>md_curlen := 0\<rparr> else ctx)"
  define fin where "fin = (pad_zeros 120 blk)\<lparr>md_buf :=
      copy_into 120 (STORE64H (md_length (pad_zeros 120 blk))) (md_buf (pad_zeros 120 blk))\<rparr>"
  have unf: "sha512_final (Some md) (Some out) = (CRYPT_OK, Some (sha512_compress (md_buf fin) fin),
      Some (concat (map STORE64H (md_state (sha512_compress (md_buf fin) fin)))))"
    by (simp add: sha512_final_def chk Let_def ctx_def blk_def fin_def)
  have pad: "fips_pad msg = ?full @ (?tail @ [0x80] @ replicate ((239 - ?r) mod 128) 0 @ replicate 8 0 @ ?len)"
    unfolding fips_pad_def STORE64H_big_endian [OF fit] by simp
  have "length ?full = length msg - ?r" by simp
  then have "128 dvd length ?full" by (simp only: dvd_minus_mod)
  then have blocks: "fips_blocks fips_H0 (fips_pad msg)
      = fips_blocks (md_state ctx) (?tail @ [0x80] @ replicate ((239 - ?r) mod 128) 0 @ replicate 8 0 @ ?len)"
    unfolding pad st1 by (rule fips_blocks_append)
  have lt: "length ?tail = ?r" by simp
  have "md_state (sha512_compress (md_buf fin) fin) = fips_blocks fips_H0 (fips_pad msg)"
  proof (cases "?r \<le> 111")
    case True
    then have blk: "blk = ctx"
      by (simp add: blk_def word_less_nat_alt cur1)
    have z: "replicate ((239 - ?r) mod 128) 0 @ replicate 8 0 = replicate (120 - Suc ?r) (0 :: u8)"
    proof -
      have "239 - ?r = (111 - ?r) + 128" using True by linarith
      then have "(239 - ?r) mod 128 = 111 - ?r" by (simp only: mod_add_self2) simp
      then show ?thesis using True by (simp add: replicate_add [symmetric])
    qed
    have "md_curlen ctx \<le> 120"
      using True by (simp add: word_le_nat_alt cur1)
    then have "md_state (sha512_compress (md_buf fin) fin)
        = fips_compress (md_state ctx) ((?tail @ [0x80]) @ replicate (120 - Suc ?r) 0 @ ?len)"
      using final_block [of ctx ?len] buf1 st1(2)
      by (simp add: fin_def blk cur1 len1 pad_zeros_eq)
    also have "\<dots> = fips_blocks (md_state ctx) ((?tail @ [0x80]) @ replicate (120 - Suc ?r) 0 @ ?len)"
      using fips_blocks_block [of "(?tail @ [0x80]) @ replicate (120 - Suc ?r) 0 @ ?len" _ "[]"] True
      by (simp add: fips_blocks_short)
    finally show ?thesis
      unfolding blocks z [symmetric] by simp
  next
    case False
    let ?b1 = "?tail @ [0x80] @ replicate (127 - ?r) 0"
    let ?b2 = "replicate 120 0 @ ?len"
    have z: "replicate ((239 - ?r) mod 128) 0 @ replicate 8 0 = replicate (127 - ?r) (0 :: u8) @ replicate 120 0"
    proof -
      have "(239 - ?r) mod 128 = 239 - ?r" using False by simp
      moreover have "239 - ?r + 8 = 127 - ?r + 120" using r by linarith
      ultimately show ?thesis by (simp add: replicate_add [symmetric])
    qed
    have "112 < md_curlen ctx" "md_curlen ctx \<le> 128"
      using False r by (simp_all add: word_less_nat_alt word_le_nat_alt cur1)
    then have blk: "blk = ctx\<lparr>md_state := fips_compress (md_state ctx) ?b1, md_buf := ?b1, md_curlen := 0\<rparr>"
      using buf1 st1(2) by (simp add: blk_def pad_zeros_eq cur1 Let_def sha512_compress_fips)
    have "md_state (sha512_compress (md_buf fin) fin)
        = fips_compress (fips_compress (md_state ctx) ?b1) ?b2"
      using final_block [of blk ?len] buf1 st1(2) r
      by (simp add: fin_def blk len1 pad_zeros_eq)
    also have "\<dots> = fips_blocks (md_state ctx) (?b1 @ ?b2 @ [])"
      using r by (simp add: fips_blocks_block fips_blocks_short del: append_assoc append_Nil2)
    also have "?b1 @ ?b2 @ [] = ?tail @ [0x80] @ replicate ((239 - ?r) mod 128) 0 @ replicate 8 0 @ ?len"
      using arg_cong [OF z, of "\<lambda>x. ?tail @ [0x80] @ x @ ?len"] by simp
    finally show ?thesis
      unfolding blocks .
  qed
  then show ?thesis
    unfolding unf by (simp add: fips_sha512_def)
qed
section \<open>The contract of the library\<close>

text \<open>The context a zero-initialised \<open>File\<close> carries, and the state after \<open>sha512_init\<close>.\<close>

definition zero_context :: SHA512_Context where
  "zero_context = \<lparr>md_length = 0, md_state = replicate 8 0, md_curlen = 0, md_buf = replicate 128 0\<rparr>"

definition sha_start :: SHA512_Context where
  "sha_start = the (snd (sha512_init (Some zero_context)))"

definition sha_upd :: "SHA512_Context \<Rightarrow> bytes \<Rightarrow> SHA512_Context option" where
  "sha_upd c x =
     (case sha512_update (Some c) (Some x) of (CRYPT_OK, Some c') \<Rightarrow> Some c' | _ \<Rightarrow> None)"

definition sha_fin :: "SHA512_Context \<Rightarrow> bytes option" where
  "sha_fin c =
     (case sha512_final (Some c) (Some (replicate 64 0)) of (CRYPT_OK, _, out) \<Rightarrow> out | _ \<Rightarrow> None)"

definition sha_fits :: "bytes \<Rightarrow> bool" where
  "sha_fits m \<longleftrightarrow> 8 * length m < 2 ^ 64"

lemma sha512_update_hashed:
  assumes "hashed c m" "8 * (length m + length x) < 2 ^ 64"
  shows "sha512_update (Some c) (Some x) = (CRYPT_OK, Some (sha512_update_loop x c))"
  using hashed_check [OF assms(1), of "length x"] assms(2)
  by (simp add: sha512_update_def)

interpretation sha: incremental_hash hashed sha_fits sha_start sha_upd sha_fin fips_sha512
proof unfold_locales
  fix m x :: bytes and c
  show "sha_fits (m @ x) \<Longrightarrow> sha_fits m" by (simp add: sha_fits_def)
  show "hashed sha_start []"
    using hashed_init [of zero_context] by (auto simp: sha_start_def zero_context_def)
  show "hashed c m \<Longrightarrow> sha_fits (m @ x) \<Longrightarrow> \<exists>c'. sha_upd c x = Some c' \<and> hashed c' (m @ x)"
    using sha512_update_hashed [of c m x] hashed_update_loop [of c m x]
    by (simp add: sha_upd_def sha_fits_def)
  show "hashed c m \<Longrightarrow> sha_fin c = Some (fips_sha512 m)"
    using sha512_final_digest [of c m "replicate 64 0"] by (auto simp: sha_fin_def)
qed

section \<open>Properties\<close>

text \<open>The driver of a caller: initialise, add the pieces in order, finalise.\<close>

fun sha512_update_all ::
  "SHA512_Context option \<Rightarrow> bytes list \<Rightarrow> SHA512_Status \<times> SHA512_Context option" where
  "sha512_update_all md [] = (CRYPT_OK, md)"
| "sha512_update_all md (x # xs) =
     (case sha512_update md (Some x) of
        (CRYPT_OK, md') \<Rightarrow> sha512_update_all md' xs
      | (e, md') \<Rightarrow> (e, md'))"

lemma sha512_update_all_hashed:
  "hashed c m \<Longrightarrow> 8 * length (m @ concat xs) < 2 ^ 64 \<Longrightarrow>
   \<exists>c'. sha512_update_all (Some c) xs = (CRYPT_OK, Some c') \<and> hashed c' (m @ concat xs)"
proof (induction xs arbitrary: c m)
  case Nil
  then show ?case by simp
next
  case (Cons x xs)
  have "hashed (sha512_update_loop x c) (m @ x)"
    using Cons.prems by (intro hashed_update_loop) auto
  from Cons.IH [OF this] Cons.prems show ?case
    by (simp add: sha512_update_hashed)
qed





text \<open>
  C17: An update that would take the message past the 64-bit bit counter is refused with
  CRYPT_HASH_OVERFLOW and leaves the context as it was; the counter never wraps.
\<close>

theorem sha512_update_overflow:
  assumes "hashed md msg" and "length input < 2 ^ 64" and "2 ^ 64 \<le> 8 * (length msg + length input)"
  shows "sha512_update (Some md) (Some input) = (CRYPT_HASH_OVERFLOW, Some md)"
  using hashed_check [OF assms(1,2)] assms(3) by (simp add: sha512_update_def)

theorem sha512_update_overflow_witness:
  "sha512_update (Some (sha512_update_loop (replicate (2 ^ 61 - 1) 0) sha_start)) (Some [7])
     = (CRYPT_HASH_OVERFLOW, Some (sha512_update_loop (replicate (2 ^ 61 - 1) 0) sha_start))"
proof -
  have h: "hashed (sha512_update_loop (replicate n 0) sha_start) (replicate n 0)"
    if "8 * n < 2 ^ 64" for n
    using hashed_update_loop [OF sha.absorbed_start, of "replicate n 0"] that by simp
  show ?thesis
    by (rule sha512_update_overflow [OF h]) simp_all
qed

text \<open>
  A damaged context, whose buffer position is outside the 128-byte buffer, is refused
  with CRYPT_INVALID_ARG by update and finalisation before any byte is written.
\<close>

theorem sha512_damaged_context:
  assumes "128 \<le> md_curlen md"
  shows "sha512_update (Some md) (Some input) = (CRYPT_INVALID_ARG, Some md)
    \<and> sha512_final (Some md) (Some out) = (CRYPT_INVALID_ARG, Some md, Some out)"
  using assms by (simp add: sha512_update_def sha512_final_def sha512_check_available_bytes_def)

theorem sha512_damaged_context_witness:
  "sha512_update (Some (zero_context\<lparr>md_curlen := 200\<rparr>)) (Some [1])
       = (CRYPT_INVALID_ARG, Some (zero_context\<lparr>md_curlen := 200\<rparr>))
    \<and> sha512_final (Some (zero_context\<lparr>md_curlen := 200\<rparr>)) (Some [])
       = (CRYPT_INVALID_ARG, Some (zero_context\<lparr>md_curlen := 200\<rparr>), Some [])"
  using sha512_damaged_context [of "zero_context\<lparr>md_curlen := 200\<rparr>" "[1]" "[]"] by simp

end
