(* ===== verification/Sha512_Constants.thy ===== *)
theory Sha512_Constants
  imports Sha512
begin

text \<open>
  The constants of \<open>sha512.c\<close> checked against their definition in FIPS 180-4: the table \<open>K\<close>
  holds the first 64 bits of the fractional parts of the cube roots of the first eighty
  primes, the initial chaining value those of the square roots of the first eight.
\<close>

text \<open>The first eighty primes, each with the integer part of its cube root.\<close>

definition prime_roots :: "(nat \<times> nat) list" where
  "prime_roots =
    [(2, 1), (3, 1), (5, 1), (7, 1), (11, 2), (13, 2), (17, 2), (19, 2), (23, 2), (29, 3),
     (31, 3), (37, 3), (41, 3), (43, 3), (47, 3), (53, 3), (59, 3), (61, 3), (67, 4), (71, 4),
     (73, 4), (79, 4), (83, 4), (89, 4), (97, 4), (101, 4), (103, 4), (107, 4), (109, 4), (113, 4),
     (127, 5), (131, 5), (137, 5), (139, 5), (149, 5), (151, 5), (157, 5), (163, 5), (167, 5), (173, 5),
     (179, 5), (181, 5), (191, 5), (193, 5), (197, 5), (199, 5), (211, 5), (223, 6), (227, 6), (229, 6),
     (233, 6), (239, 6), (241, 6), (251, 6), (257, 6), (263, 6), (269, 6), (271, 6), (277, 6), (281, 6),
     (283, 6), (293, 6), (307, 6), (311, 6), (313, 6), (317, 6), (331, 6), (337, 6), (347, 7), (349, 7),
     (353, 7), (359, 7), (367, 7), (373, 7), (379, 7), (383, 7), (389, 7), (397, 7), (401, 7), (409, 7)]"

text \<open>The first eight primes with the integer part of their square roots.\<close>

definition prime_square_roots :: "(nat \<times> nat) list" where
  "prime_square_roots = [(2, 1), (3, 1), (5, 2), (7, 2), (11, 3), (13, 3), (17, 4), (19, 4)]"

text \<open>
  \<open>root_digits k (p, r) w\<close>: the \<open>k\<close>-th root of \<open>p\<close> has integer part \<open>r\<close> and its fraction starts
  with the 64 bits of \<open>w\<close>.
\<close>

definition root_digits :: "nat \<Rightarrow> nat \<times> nat \<Rightarrow> u64 \<Rightarrow> bool" where
  "root_digits k pr w \<longleftrightarrow>
     (snd pr * 2 ^ 64 + unat w) ^ k \<le> fst pr * 2 ^ (64 * k)
       \<and> fst pr * 2 ^ (64 * k) < (snd pr * 2 ^ 64 + unat w + 1) ^ k"

lemma K_cube_roots_low: "list_all2 (root_digits 3) (take 40 prime_roots) (take 40 K)"
  by (simp add: K_def prime_roots_def) (intro conjI; simp add: root_digits_def)

lemma K_cube_roots_high: "list_all2 (root_digits 3) (drop 40 prime_roots) (drop 40 K)"
  by (simp add: K_def prime_roots_def) (intro conjI; simp add: root_digits_def)

lemma init_square_roots: "list_all2 (root_digits 2) prime_square_roots (md_state sha_start)"
  by (simp add: prime_square_roots_def sha_start_def sha512_init_def)
    (intro conjI; simp add: root_digits_def)

text \<open>
  C18: Every constant of the implementation is the one the standard prescribes: the eighty
  words of K are the fractional digits of the cube roots of the first eighty primes, and the
  chaining value set by sha512_init those of the square roots of the first eight.
\<close>

theorem sha512_constants:
  "list_all2 (root_digits 3) prime_roots K
   \<and> list_all2 (root_digits 2) prime_square_roots (md_state (the (snd (sha512_init (Some zero_context)))))"
  using list_all2_appendI [OF K_cube_roots_low K_cube_roots_high] init_square_roots
  by (simp add: sha_start_def)

end
