(* ===== verification/Metadata.thy ===== *)
theory Metadata
  imports Prelude
begin

text \<open>
  File metadata: the compact stat record the database stores (\<open>precizer.h\<close>), its copy
  from \<open>struct stat\<close> (\<open>stat_copy.c\<close>), the change detection between two records
  (\<open>file_compare_metadata_equivalence.c\<close>), the allocated size in bytes
  (\<open>blocks_to_bytes.c\<close>) and the classification of access errors
  (\<open>file_access_status.c\<close>, \<open>file_check_access.c\<close>).
\<close>

section \<open>Stat records\<close>

text \<open>
  The kernel types \<open>off_t\<close>, \<open>blkcnt_t\<close>, \<open>time_t\<close>, \<open>long\<close> are signed and \<open>dev_t\<close>, \<open>ino_t\<close>
  unsigned 64-bit integers.  All are kept as 64-bit words; signed readings use \<open>sint\<close>.
\<close>

record timespec =
  tv_sec :: u64
  tv_nsec :: u64

record stat =
  stat_size :: u64
  stat_blocks :: u64
  stat_dev :: u64
  stat_ino :: u64
  stat_mtim :: timespec
  stat_ctim :: timespec

record CmpctStat =
  st_size :: u64
  st_blocks :: u64
  st_dev :: u64
  st_ino :: u64
  mtim_tv_sec :: u64
  mtim_tv_nsec :: u64
  ctim_tv_sec :: u64
  ctim_tv_nsec :: u64

definition BLKCNT_UNKNOWN :: u64 where "BLKCNT_UNKNOWN = - 1"

text \<open>
  \<open>stat_copy\<close>: \<open>None\<close> is a NULL pointer; the result is the new content of the destination,
  \<open>None\<close> when the function returns FAILURE.
\<close>

definition stat_copy :: "stat option \<Rightarrow> CmpctStat option \<Rightarrow> CmpctStat option" where
  "stat_copy source destination =
     (case (source, destination) of
        (Some src, Some dst) \<Rightarrow>
          Some (dst\<lparr>st_size := stat_size src, st_blocks := stat_blocks src,
                   st_dev := stat_dev src, st_ino := stat_ino src,
                   mtim_tv_sec := tv_sec (stat_mtim src), mtim_tv_nsec := tv_nsec (stat_mtim src),
                   ctim_tv_sec := tv_sec (stat_ctim src), ctim_tv_nsec := tv_nsec (stat_ctim src)\<rparr>)
      | _ \<Rightarrow> None)"

section \<open>Change detection\<close>

text \<open>\<open>enum Changed : unsigned int\<close> of rational_enumerations.h.\<close>

type_synonym changed = u32

definition IDENTICAL :: changed where "IDENTICAL = 0x00"
definition NOT_EQUAL :: changed where "NOT_EQUAL = 0x01"
definition SIZE_CHANGED :: changed where "SIZE_CHANGED = 0x02"
definition STATUS_CHANGED_TIME :: changed where "STATUS_CHANGED_TIME = 0x04"
definition MODIFICATION_TIME_CHANGED :: changed where "MODIFICATION_TIME_CHANGED = 0x08"
definition ALLOCATED_SIZE_CHANGED :: changed where "ALLOCATED_SIZE_CHANGED = 0x10"
definition COMPARE_FAILED :: changed where "COMPARE_FAILED = 0x20"

lemmas changed_defs = IDENTICAL_def NOT_EQUAL_def SIZE_CHANGED_def STATUS_CHANGED_TIME_def
  MODIFICATION_TIME_CHANGED_def ALLOCATED_SIZE_CHANGED_def COMPARE_FAILED_def

definition file_compare_metadata_equivalence ::
  "CmpctStat option \<Rightarrow> CmpctStat option \<Rightarrow> changed" where
  "file_compare_metadata_equivalence source destination =
     (case (source, destination) of
        (Some src, Some dst) \<Rightarrow>
          let changes = IDENTICAL;
              changes = (if st_size src \<noteq> st_size dst then changes OR SIZE_CHANGED else changes);
              changes = (if st_blocks src \<noteq> BLKCNT_UNKNOWN \<and> st_blocks src \<noteq> st_blocks dst
                         then changes OR ALLOCATED_SIZE_CHANGED else changes);
              changes = (if \<not> (mtim_tv_sec src = mtim_tv_sec dst
                              \<and> mtim_tv_nsec src = mtim_tv_nsec dst)
                         then changes OR MODIFICATION_TIME_CHANGED else changes);
              changes = (if \<not> (ctim_tv_sec src = ctim_tv_sec dst
                              \<and> ctim_tv_nsec src = ctim_tv_nsec dst)
                         then changes OR STATUS_CHANGED_TIME else changes)
          in changes
      | _ \<Rightarrow> COMPARE_FAILED)"

text \<open>The bits of a comparison, each with the fields that set it.\<close>

lemma changed_bits [simp]:
  "bit SIZE_CHANGED n \<longleftrightarrow> n = 1" "bit STATUS_CHANGED_TIME n \<longleftrightarrow> n = 2"
  "bit MODIFICATION_TIME_CHANGED n \<longleftrightarrow> n = 3" "bit ALLOCATED_SIZE_CHANGED n \<longleftrightarrow> n = 4"
  "\<not> bit IDENTICAL n"
proof -
  have p: "SIZE_CHANGED = 2 ^ 1" "STATUS_CHANGED_TIME = 2 ^ 2" "MODIFICATION_TIME_CHANGED = 2 ^ 3"
    "ALLOCATED_SIZE_CHANGED = 2 ^ 4"
    by (simp_all add: changed_defs)
  show "bit SIZE_CHANGED n \<longleftrightarrow> n = 1" "bit STATUS_CHANGED_TIME n \<longleftrightarrow> n = 2"
    "bit MODIFICATION_TIME_CHANGED n \<longleftrightarrow> n = 3" "bit ALLOCATED_SIZE_CHANGED n \<longleftrightarrow> n = 4"
    unfolding p bit_exp_iff by auto
  show "\<not> bit IDENTICAL n" by (simp add: changed_defs)
qed

lemma bit_compare:
  "bit (file_compare_metadata_equivalence (Some src) (Some dst)) n \<longleftrightarrow>
     n = 1 \<and> st_size src \<noteq> st_size dst
   \<or> n = 4 \<and> st_blocks src \<noteq> BLKCNT_UNKNOWN \<and> st_blocks src \<noteq> st_blocks dst
   \<or> n = 3 \<and> (mtim_tv_sec src, mtim_tv_nsec src) \<noteq> (mtim_tv_sec dst, mtim_tv_nsec dst)
   \<or> n = 2 \<and> (ctim_tv_sec src, ctim_tv_nsec src) \<noteq> (ctim_tv_sec dst, ctim_tv_nsec dst)"
  by (auto simp: file_compare_metadata_equivalence_def Let_def bit_or_iff)

lemma and_single_bit: "(w AND 2 ^ n \<noteq> 0) \<longleftrightarrow> bit w n" for w :: "'a::len word"
  by (simp add: and_exp_eq_0_iff_not_bit)

lemma changed_tests [simp]:
  "(w AND SIZE_CHANGED \<noteq> 0) \<longleftrightarrow> bit w 1" "(w AND STATUS_CHANGED_TIME \<noteq> 0) \<longleftrightarrow> bit w 2"
  "(w AND MODIFICATION_TIME_CHANGED \<noteq> 0) \<longleftrightarrow> bit w 3"
  using and_single_bit [of w 1] and_single_bit [of w 2] and_single_bit [of w 3]
  by (simp_all add: changed_defs)

text \<open>The fields on which two records must agree to count as the same file state.\<close>

definition same_metadata :: "CmpctStat \<Rightarrow> CmpctStat \<Rightarrow> bool" where
  "same_metadata src dst \<longleftrightarrow>
     st_size src = st_size dst
     \<and> (st_blocks src = BLKCNT_UNKNOWN \<or> st_blocks src = st_blocks dst)
     \<and> mtim_tv_sec src = mtim_tv_sec dst \<and> mtim_tv_nsec src = mtim_tv_nsec dst
     \<and> ctim_tv_sec src = ctim_tv_sec dst \<and> ctim_tv_nsec src = ctim_tv_nsec dst"

lemma compare_identical:
  "file_compare_metadata_equivalence (Some src) (Some dst) = IDENTICAL \<longleftrightarrow> same_metadata src dst"
proof -
  have "file_compare_metadata_equivalence (Some src) (Some dst) = IDENTICAL
      \<longleftrightarrow> (\<forall>n. \<not> bit (file_compare_metadata_equivalence (Some src) (Some dst)) n)"
    by (auto intro!: bit_word_eqI)
  also have "\<dots> \<longleftrightarrow> same_metadata src dst"
    unfolding bit_compare same_metadata_def by auto
  finally show ?thesis .
qed


section \<open>Allocated size\<close>

definition POSIX_STAT_BLOCK_BYTES :: u64 where "POSIX_STAT_BLOCK_BYTES = 512"

definition blocks_to_bytes :: "u64 \<Rightarrow> u64" where
  "blocks_to_bytes blocks =
     (if sint blocks \<le> 0 then 0
      else if SIZE_MAX div POSIX_STAT_BLOCK_BYTES < blocks then SIZE_MAX
      else blocks * POSIX_STAT_BLOCK_BYTES)"

lemma unat_of_pos_sint:
  assumes "0 < sint (w :: u64)"
  shows "unat w = nat (sint w)"
proof -
  have "\<not> bit w 63" using assms bit_last_iff [of w] by simp
  moreover have "uint w < 2 ^ LENGTH(64)" by (rule unsigned_less)
  then have "take_bit 64 (uint w) = uint w" by (simp add: take_bit_int_eq_self)
  ultimately have "sint w = uint w"
    by (simp add: sint_uint signed_take_bit_eq_take_bit_minus bit_uint_iff)
  then show ?thesis by simp
qed

text \<open>
  The allocated size is computed without wrap-around: for every block count the result is
  512 times the count, saturated at SIZE_MAX, and zero for a negative count.
\<close>

theorem blocks_to_bytes_saturates:
  "unat (blocks_to_bytes blocks) = min (512 * nat (sint blocks)) (2 ^ 64 - 1)"
proof (cases "sint blocks \<le> 0")
  case True
  then show ?thesis by (simp add: blocks_to_bytes_def)
next
  case False
  then have u: "unat blocks = nat (sint blocks)"
    by (intro unat_of_pos_sint) simp
  have m: "unat SIZE_MAX = 2 ^ 64 - 1" by simp
  have q: "unat (SIZE_MAX div POSIX_STAT_BLOCK_BYTES) = 2 ^ 55 - 1"
    by (simp add: unat_div m POSIX_STAT_BLOCK_BYTES_def)
  show ?thesis
  proof (cases "SIZE_MAX div POSIX_STAT_BLOCK_BYTES < blocks")
    case True
    then have "2 ^ 55 \<le> unat blocks" by (simp add: word_less_nat_alt q)
    with True False u m show ?thesis by (simp add: blocks_to_bytes_def)
  next
    case le: False
    then have "unat blocks \<le> 2 ^ 55 - 1" by (simp add: word_less_nat_alt q)
    then have "unat (blocks * POSIX_STAT_BLOCK_BYTES) = unat blocks * 512"
      by (simp add: unat_word_ariths POSIX_STAT_BLOCK_BYTES_def)
    with le False u \<open>unat blocks \<le> 2 ^ 55 - 1\<close> show ?thesis
      by (simp add: blocks_to_bytes_def)
  qed
qed

section \<open>Access checks\<close>

text \<open>The error numbers the program distinguishes; every other value is \<open>Errno n\<close>.\<close>

datatype errno = ENOENT | ENOTDIR | EACCES | EPERM | Errno nat

datatype FileAccessStatus =
  FILE_ACCESS_ALLOWED | FILE_ACCESS_DENIED | FILE_NOT_FOUND | FILE_ACCESS_ERROR

definition file_access_status :: "errno \<Rightarrow> FileAccessStatus" where
  "file_access_status err =
     (if err = ENOENT \<or> err = ENOTDIR then FILE_NOT_FOUND
      else if err = EACCES \<or> err = EPERM then FILE_ACCESS_DENIED
      else FILE_ACCESS_ERROR)"

text \<open>
  \<open>file_check_access\<close>: \<open>answer\<close> is what \<open>faccessat\<close> reports for the path and mode, \<open>None\<close>
  for success; the path is \<open>None\<close> for a NULL descriptor.
\<close>

definition file_check_access :: "bytes option \<Rightarrow> errno option \<Rightarrow> FileAccessStatus" where
  "file_check_access relative_path answer =
     (case relative_path of
        None \<Rightarrow> FILE_ACCESS_ERROR
      | Some _ \<Rightarrow>
          (case answer of
             None \<Rightarrow> FILE_ACCESS_ALLOWED
           | Some err \<Rightarrow> file_access_status err))"

lemma file_access_status_not_allowed [simp]: "file_access_status err \<noteq> FILE_ACCESS_ALLOWED"
  by (simp add: file_access_status_def)

lemma file_check_access_allowed [simp]:
  "file_check_access (Some p) answer = FILE_ACCESS_ALLOWED \<longleftrightarrow> answer = None"
  by (simp add: file_check_access_def split: option.splits)

end
