(* ===== verification/Mem_Core.thy ===== *)
theory Mem_Core
  imports Return_Status
begin

text \<open>
  The dynamic-memory descriptor of libs/mem: the \<open>memory\<close> record, the guarded size
  arithmetic, the zero-terminator helpers, \<open>mem_delete\<close>, \<open>mem_string_truncate\<close>,
  \<open>mem_finalize_string\<close> and \<open>mem_resize\<close>, with the descriptor invariant \<open>valid\<close> they keep.

  A descriptor argument is a value, never a NULL pointer, and an output pointer is a
  component of the result; the guards against NULL descriptors and NULL output pointers,
  which answer FAILURE and touch nothing, have no counterpart.  Telemetry counters and
  \<open>report\<close> output are not modelled.  The process-wide atomics \<open>g\<close> are constant during a call.
\<close>

section \<open>Calls inside the library\<close>

text \<open>
  \<open>deliver\<close> is \<open>provide\<close> without the write-back of the atomics; \<open>run_out\<close> and \<open>call_out\<close> are
  \<open>run\<close> and \<open>call\<close> around a function whose outputs (the modified descriptor, the numbers
  behind output pointers) are the second component.
\<close>

definition deliver :: "'a globals_scheme \<Rightarrow> ret \<Rightarrow> ret" where
  "deliver g status = fst (provide status g)"

definition run_out :: "'a globals_scheme \<Rightarrow> ret \<Rightarrow> ret \<times> 'o \<Rightarrow> 'o \<Rightarrow> ret \<times> 'o" where
  "run_out g status func out =
     (if has AWAITING status then (FAILURE, out)
      else if \<not> has SKIP status then (fst (run (\<lambda>s. (fst func, s)) status g), snd func)
      else (status, out))"

definition call_out :: "'a globals_scheme \<Rightarrow> ret \<Rightarrow> ret \<times> 'o \<Rightarrow> 'o \<Rightarrow> ret \<times> 'o" where
  "call_out g status func out =
     (if has AWAITING status then (FAILURE, out)
      else (fst (call (\<lambda>s. (fst func, s)) status g), snd func))"

text \<open>Before a signal the atomics have their initial values.\<close>

definition quiet :: "'a globals_scheme \<Rightarrow> bool" where
  "quiet g \<longleftrightarrow> global_return_status g = SUCCESS"

lemma run_skip_flags [simp]: "SUCCESS \<noteq> FAILURE" "FAILURE \<noteq> SUCCESS"
  by (simp_all add: ret_defs)

lemma quiet_deliver [simp]:
  assumes "quiet g"
  shows "deliver g SUCCESS = SUCCESS" "deliver g FAILURE = FAILURE"
  using assms by (auto simp: deliver_def provide_def rational_normalize_return_def quiet_def Let_def
      intro!: bit_word_eqI) (simp_all add: bit_simps)

lemma quiet_normalize:
  assumes "quiet g"
  shows "fst (rational_normalize_return w g) = clean_flags w"
  using assms by (intro bit_word_eqI) (auto simp: quiet_def Let_def)

lemma clean_success_failure [simp]:
  "clean_flags (SUCCESS OR SUCCESS) = SUCCESS" "clean_flags (SUCCESS OR FAILURE) = FAILURE"
  "clean_flags (FAILURE OR SUCCESS) = FAILURE" "clean_flags (FAILURE OR FAILURE) = FAILURE"
  by (rule bit_word_eqI; auto simp: bit_or_iff)+

lemma quiet_run_out [simp]:
  assumes "quiet g"
  shows "run_out g SUCCESS (SUCCESS, x) y = (SUCCESS, x)"
    and "run_out g SUCCESS (FAILURE, x) y = (FAILURE, x)"
    and "run_out g FAILURE f y = (FAILURE, y)"
    and "call_out g SUCCESS (SUCCESS, x) y = (SUCCESS, x)"
    and "call_out g SUCCESS (FAILURE, x) y = (FAILURE, x)"
  using assms by (simp_all add: run_out_def call_out_def run_def call_def quiet_normalize)

text \<open>After a signal every status carries HALTED, and a \<open>run\<close> that follows is skipped.\<close>

lemma halted_deliver [simp]:
  assumes "global_return_status g = HALTED"
  shows "deliver g SUCCESS = SUCCESS OR HALTED" "deliver g (SUCCESS OR HALTED) = SUCCESS OR HALTED"
  using assms by (auto simp: deliver_def provide_def Let_def bit_or_iff case_prod_beta intro!: bit_word_eqI)

lemma halted_run_out [simp]:
  assumes "global_return_status g = HALTED"
  shows "run_out g SUCCESS (SUCCESS OR HALTED, x) y = (SUCCESS OR HALTED, x)"
    and "run_out g (SUCCESS OR HALTED) f y = (SUCCESS OR HALTED, y)"
  using assms
  by (auto simp: run_out_def run_def Let_def bit_or_iff case_prod_beta intro!: bit_word_eqI)

section \<open>Descriptors and allocation\<close>

definition MEMORY_BLOCK_BYTES :: u64 where "MEMORY_BLOCK_BYTES = 4096"

text \<open>
  \<open>struct memory\<close>.  The field \<open>length\<close> is called \<open>mlength\<close>; \<open>data = None\<close> is the NULL pointer, and
  \<open>Some buf\<close> is the whole allocated block.
\<close>

record memory =
  single_element_size :: u64
  actually_allocated_bytes :: u64
  mlength :: u64
  string_length :: u64
  is_string :: bool
  data :: "bytes option"

definition mem_init :: "u64 \<Rightarrow> bool \<Rightarrow> memory" where
  "mem_init element_size memory_string =
     \<lparr>single_element_size = element_size, actually_allocated_bytes = 0, mlength = 0,
      string_length = 0, is_string = memory_string, data = None\<rparr>"

text \<open>
  The allocator of the C library: for a requested size it returns NULL (\<open>None\<close>) or a block
  with unspecified content, given as a function of the byte offset.
\<close>

type_synonym heap = "u64 \<Rightarrow> (nat \<Rightarrow> u8) option"

definition c_malloc :: "heap \<Rightarrow> u64 \<Rightarrow> bytes option" where
  "c_malloc heap n = map_option (\<lambda>f. map f [0..<unat n]) (heap n)"

definition c_realloc :: "heap \<Rightarrow> bytes \<Rightarrow> u64 \<Rightarrow> bytes option" where
  "c_realloc heap old n =
     map_option (\<lambda>f. take (unat n) old @ map f [length old..<unat n]) (heap n)"

text \<open>\<open>memset\<close> and \<open>memmove\<close> into a block.\<close>

definition write_at :: "bytes \<Rightarrow> u64 \<Rightarrow> bytes \<Rightarrow> bytes" where
  "write_at buf offset xs = take (unat offset) buf @ xs @ drop (unat offset + length xs) buf"

section \<open>Guarded arithmetic\<close>

definition mem_guarded_add :: "'a globals_scheme \<Rightarrow> u64 \<Rightarrow> u64 \<Rightarrow> u64 \<Rightarrow> ret \<times> u64" where
  "mem_guarded_add g left right sum_out =
     (let status = (if left > SIZE_MAX - right then FAILURE else SUCCESS);
          sum_out = (if has TRIUMPH status then left + right else sum_out)
      in (deliver g status, sum_out))"

definition mem_guarded_subtract :: "'a globals_scheme \<Rightarrow> u64 \<Rightarrow> u64 \<Rightarrow> u64 \<Rightarrow> ret \<times> u64" where
  "mem_guarded_subtract g left right difference =
     (let status = (if left < right then FAILURE else SUCCESS);
          difference = (if has TRIUMPH status then left - right else difference)
      in (deliver g status, difference))"

definition mem_guarded_byte_size ::
  "'a globals_scheme \<Rightarrow> memory \<Rightarrow> u64 \<Rightarrow> u64 \<Rightarrow> ret \<times> u64" where
  "mem_guarded_byte_size g m element_count size_in_bytes =
     (if single_element_size m = 0 then (deliver g FAILURE, size_in_bytes)
      else
        let status = (if element_count > SIZE_MAX div single_element_size m then FAILURE else SUCCESS);
            size_in_bytes = (if has TRIUMPH status then single_element_size m * element_count
                             else size_in_bytes)
        in (deliver g status, size_in_bytes))"

text \<open>\<open>round_up_to_block_size\<close>: \<open>None\<close> is the error answer 1.\<close>

definition round_up_to_block_size :: "u64 \<Rightarrow> u64 option" where
  "round_up_to_block_size requested_bytes =
     (if requested_bytes = 0 then Some 0
      else
        let remainder = requested_bytes mod MEMORY_BLOCK_BYTES in
        if remainder = 0 then Some requested_bytes
        else
          let padding = MEMORY_BLOCK_BYTES - remainder in
          if requested_bytes > SIZE_MAX - padding then None
          else Some (requested_bytes + padding))"

section \<open>Zero terminators\<close>

text \<open>The view starts at the element; a NULL view is \<open>None\<close>.\<close>

definition mem_is_zero_element :: "bytes option \<Rightarrow> u64 \<Rightarrow> bool" where
  "mem_is_zero_element element_view element_size =
     (case element_view of
        None \<Rightarrow> False
      | Some view \<Rightarrow>
          if element_size = 0 then False
          else if element_size = 1 then view ! 0 = 0
          else \<forall>byte_index < unat element_size. view ! byte_index = 0)"

text \<open>\<open>memchr(p, 0, n)\<close> as an offset, and \<open>strlen\<close>.\<close>

definition c_memchr_zero :: "bytes \<Rightarrow> nat \<Rightarrow> nat option" where
  "c_memchr_zero p n =
     (let k = length (takeWhile (\<lambda>b. b \<noteq> 0) (take n p)) in
      if k < length (take n p) then Some k else None)"

definition c_strlen :: "bytes \<Rightarrow> nat" where
  "c_strlen p = length (takeWhile (\<lambda>b. b \<noteq> 0) p)"

text \<open>
  The element loop of the bounded scan: it counts elements up to the first zero element, and
  stops when no whole element is left.
\<close>

function bounded_scan :: "u64 \<Rightarrow> bytes \<Rightarrow> nat \<times> bool" where
  "bounded_scan element_size view =
     (if element_size \<noteq> 0 \<and> unat element_size \<le> length view then
        if mem_is_zero_element (Some view) element_size then (0, True)
        else
          let (measured_length, terminator_found) =
                bounded_scan element_size (drop (unat element_size) view)
          in (Suc measured_length, terminator_found)
      else (0, False))"
  by pat_completeness auto
termination
proof (relation "measure (\<lambda>(_, view). length view)", goal_cases)
  case (2 element_size view)
  then have "0 < unat element_size" by (simp add: unat_gt_0)
  moreover have "0 < length view" using calculation 2(1) by linarith
  ultimately show ?case by simp
qed simp

declare bounded_scan.simps [simp del]

text \<open>
  \<open>mem_string_measure_length\<close>.  In unbounded mode the caller guarantees a terminator; the
  scan of the model stops at the end of the readable bytes.
\<close>

definition mem_string_measure_length ::
  "'a globals_scheme \<Rightarrow> bytes option \<Rightarrow> u64 \<Rightarrow> u64 \<Rightarrow> bool \<Rightarrow> u64 \<Rightarrow> bool \<Rightarrow> ret \<times> u64 \<times> bool" where
  "mem_string_measure_length g source_string source_limit_bytes element_size
       source_limit_is_active length_out terminator_found_out =
     (case source_string of
        None \<Rightarrow> (deliver g FAILURE, length_out, terminator_found_out)
      | Some view \<Rightarrow>
          if element_size = 0 then (deliver g FAILURE, length_out, terminator_found_out)
          else
            let (measured_length, terminator_found) =
              (if element_size = 1 then
                 if source_limit_is_active then
                   case c_memchr_zero view (unat source_limit_bytes) of
                     None \<Rightarrow> (unat source_limit_bytes, False)
                   | Some found \<Rightarrow> (found, True)
                 else (c_strlen view, True)
               else if source_limit_is_active then
                 bounded_scan element_size (take (unat source_limit_bytes) view)
               else (fst (bounded_scan element_size view), True))
            in (deliver g SUCCESS, of_nat measured_length, terminator_found))"

definition mem_write_zero_terminator ::
  "'a globals_scheme \<Rightarrow> memory \<Rightarrow> u64 \<Rightarrow> ret \<times> memory" where
  "mem_write_zero_terminator g m terminator_index =
     (let status = SUCCESS;
          status = (if single_element_size m = 0 then FAILURE else status);
          status = (if has TRIUMPH status \<and> data m = None then FAILURE else status);
          (status, terminator_offset, required_bytes) =
            (if has TRIUMPH status then
               let (status, terminator_offset) =
                     run_out g status (mem_guarded_byte_size g m terminator_index 0) 0;
                   (status, required_bytes) =
                     run_out g status
                       (mem_guarded_add g terminator_offset (single_element_size m) 0) 0
               in (status, terminator_offset, required_bytes)
             else (status, 0, 0));
          status = (if has TRIUMPH status \<and> required_bytes > actually_allocated_bytes m
                    then FAILURE else status);
          m = (if has TRIUMPH status then
                 m\<lparr>data := map_option
                      (\<lambda>buf. write_at buf terminator_offset
                               (replicate (unat (single_element_size m)) 0)) (data m)\<rparr>
               else m)
      in (deliver g status, m))"

definition mem_find_zero_terminator ::
  "'a globals_scheme \<Rightarrow> memory \<Rightarrow> u64 \<Rightarrow> ret \<times> u64" where
  "mem_find_zero_terminator g m terminator_position_out =
     (let status =
            (if single_element_size m = 0 then FAILURE
             else if mlength m > 0 \<and> data m = None then FAILURE
             else SUCCESS);
          position = (if has TRIUMPH status \<and> mlength m = 0 then 0 else terminator_position_out);
          (status, position) =
            (if has TRIUMPH status \<and> mlength m > 0 then
               let (status, descriptor_size_in_bytes) =
                     run_out g status (mem_guarded_byte_size g m (mlength m) 0) 0
               in if has TRIUMPH status then
                    let (status, out) =
                      run_out g status
                        (mem_string_measure_length g (data m) descriptor_size_in_bytes
                           (single_element_size m) True position False) (position, False)
                    in (status, fst out)
                  else (status, position)
             else (status, position))
      in (deliver g status, position))"

definition mem_string_length :: "'a globals_scheme \<Rightarrow> memory \<Rightarrow> u64 \<Rightarrow> ret \<times> u64" where
  "mem_string_length g m length_out =
     (let status = (if mlength m > 0 \<and> data m = None then FAILURE else SUCCESS);
          status = (if has TRIUMPH status \<and> single_element_size m = 0 then FAILURE else status);
          length_out = (if has TRIUMPH status \<and> is_string m then string_length m else length_out);
          (status, length_out) =
            (if has TRIUMPH status \<and> \<not> is_string m
             then run_out g status (mem_find_zero_terminator g m length_out) length_out
             else (status, length_out))
      in (deliver g status, length_out))"

section \<open>Deleting, truncating, finalizing\<close>

definition mem_delete :: "'a globals_scheme \<Rightarrow> memory \<Rightarrow> ret \<times> memory" where
  "mem_delete g m =
     (let status = (if mlength m > 0 \<and> data m = None then FAILURE else SUCCESS);
          (status, m) =
            (if has TRIUMPH status then
               let (status, previous_payload_bytes) =
                     run_out g status (mem_guarded_byte_size g m (mlength m) 0) 0
               in (status, m\<lparr>data := None, mlength := 0, actually_allocated_bytes := 0,
                             string_length := 0\<rparr>)
             else (status, m))
      in (deliver g status, m))"

definition mem_string_truncate :: "'a globals_scheme \<Rightarrow> memory \<Rightarrow> u64 \<Rightarrow> ret \<times> memory" where
  "mem_string_truncate g m new_visible_length =
     (if single_element_size m = 0 then (deliver g FAILURE, m)
      else if mlength m > 0 \<and> data m = None then (deliver g FAILURE, m)
      else if actually_allocated_bytes m > 0 \<and> data m = None then (deliver g FAILURE, m)
      else if \<not> is_string m then (deliver g FAILURE, m)
      else
        let (status, current_payload_bytes) =
              (if mlength m > 0
               then run_out g SUCCESS (mem_guarded_byte_size g m (mlength m) 0) 0
               else (SUCCESS, 0))
        in
        if has TRIUMPH status \<and> mlength m > 0
           \<and> actually_allocated_bytes m < current_payload_bytes then (deliver g FAILURE, m)
        else if has TRIUMPH status \<and> mlength m = 0 then (deliver g status, m)
        else if has TRIUMPH status \<and> string_length m \<ge> mlength m then (deliver g FAILURE, m)
        else if has TRIUMPH status \<and> new_visible_length > string_length m
          then (deliver g status, m)
        else
          let (status, terminator_offset) =
                (if has TRIUMPH status \<and> new_visible_length = string_length m
                 then run_out g status (mem_guarded_byte_size g m (string_length m) 0) 0
                 else (status, 0))
          in
          if has TRIUMPH status \<and> new_visible_length = string_length m
             \<and> mem_is_zero_element (map_option (drop (unat terminator_offset)) (data m))
                  (single_element_size m)
            then (deliver g status, m)
          else
            let (status, m) = run_out g status (mem_write_zero_terminator g m new_visible_length) m;
                m = (if has TRIUMPH status then m\<lparr>string_length := new_visible_length\<rparr> else m)
            in (deliver g status, m))"

datatype TERMINATOR_WRITE_MODE = WRITE_TERMINATOR_IF_MISSING | WRITE_TERMINATOR_ALWAYS

definition mem_finalize_string ::
  "'a globals_scheme \<Rightarrow> memory \<Rightarrow> u64 \<Rightarrow> TERMINATOR_WRITE_MODE \<Rightarrow> ret \<times> memory" where
  "mem_finalize_string g m written_length flags =
     (let status =
            (if single_element_size m = 0 then FAILURE
             else if mlength m > 0 \<and> data m = None then FAILURE
             else if actually_allocated_bytes m > 0 \<and> data m = None then FAILURE
             else if \<not> is_string m then FAILURE
             else if mlength m = 0 then FAILURE
             else if written_length \<ge> mlength m then FAILURE
             else SUCCESS);
          (status, terminator_offset) =
            (if has TRIUMPH status then
               let (status, terminator_offset) =
                     run_out g status (mem_guarded_byte_size g m written_length 0) 0;
                   (status, required_bytes) =
                     run_out g status
                       (mem_guarded_add g terminator_offset (single_element_size m) 0) 0;
                   status = (if has TRIUMPH status \<and> required_bytes > actually_allocated_bytes m
                             then FAILURE else status)
               in (status, terminator_offset)
             else (status, 0));
          (status, m) =
            (if has TRIUMPH status then
               if flags = WRITE_TERMINATOR_ALWAYS
               then run_out g status (mem_write_zero_terminator g m written_length) m
               else if \<not> mem_is_zero_element
                          (map_option (drop (unat terminator_offset)) (data m)) (single_element_size m)
               then run_out g status (mem_write_zero_terminator g m written_length) m
               else (status, m)
             else (status, m));
          m = (if has TRIUMPH status then m\<lparr>string_length := written_length\<rparr> else m)
      in (deliver g status, m))"

section \<open>Resizing\<close>

definition ZERO_NEW_MEMORY :: u32 where "ZERO_NEW_MEMORY = 0x01"
definition RELEASE_UNUSED :: u32 where "RELEASE_UNUSED = 0x02"

text \<open>The branch \<open>new_count == 0\<close>.\<close>

definition resize_to_zero ::
  "'a globals_scheme \<Rightarrow> ret \<Rightarrow> bool \<Rightarrow> memory \<Rightarrow> ret \<times> memory" where
  "resize_to_zero g status allow_shrink m =
     (if allow_shrink \<and> actually_allocated_bytes m > 0
      then run_out g status (mem_delete g m) m
      else
        let m = m\<lparr>mlength := 0, string_length := 0\<rparr> in
        if is_string m \<and> data m \<noteq> None \<and> actually_allocated_bytes m \<ge> single_element_size m
        then run_out g status (mem_write_zero_terminator g m 0) m
        else (status, m))"

text \<open>The allocation step: a fresh block, a grown or a shrunk one, or the block as it is.\<close>

definition resize_block ::
  "heap \<Rightarrow> ret \<Rightarrow> bool \<Rightarrow> u64 \<Rightarrow> memory \<Rightarrow> ret \<times> memory" where
  "resize_block heap status allow_shrink slab_size_in_bytes m =
     (let needs_fresh_allocation = data m = None;
          needs_growth = slab_size_in_bytes > actually_allocated_bytes m;
          should_shrink = allow_shrink \<and> slab_size_in_bytes < actually_allocated_bytes m
      in if needs_fresh_allocation \<or> needs_growth \<or> should_shrink then
           let resized_pointer =
                 (case data m of
                    None \<Rightarrow> c_malloc heap slab_size_in_bytes
                  | Some buf \<Rightarrow> c_realloc heap buf slab_size_in_bytes)
           in case resized_pointer of
                None \<Rightarrow> (FAILURE, m)
              | Some block \<Rightarrow>
                  (status, m\<lparr>data := Some block, actually_allocated_bytes := slab_size_in_bytes\<rparr>)
         else (status, m))"

text \<open>Zero-filling and the new metadata after the block is in place.\<close>

definition resize_metadata ::
  "'a globals_scheme \<Rightarrow> ret \<Rightarrow> bool \<Rightarrow> u64 \<Rightarrow> u64 \<Rightarrow> u64 \<Rightarrow> memory \<Rightarrow> ret \<times> memory" where
  "resize_metadata g status zero_new_memory previous_payload_bytes total_size_in_bytes new_count m =
     (let bytes_to_zero =
            (if zero_new_memory \<and> total_size_in_bytes > previous_payload_bytes
             then total_size_in_bytes - previous_payload_bytes else 0)
      in if bytes_to_zero > 0 \<and> data m = None then (FAILURE, m)
         else
           let previous_length = mlength m;
               previous_string_length = string_length m;
               m = m\<lparr>data := map_option
                      (\<lambda>buf. if bytes_to_zero > 0
                             then write_at buf previous_payload_bytes (replicate (unat bytes_to_zero) 0)
                             else buf) (data m)\<rparr>
           in if is_string m then
                let resulting_string_length =
                      (if previous_length > 0 then
                         if previous_string_length \<ge> new_count then new_count - 1
                         else previous_string_length
                       else 0);
                    m = m\<lparr>mlength := new_count, string_length := resulting_string_length\<rparr>
                in run_out g status (mem_string_truncate g m resulting_string_length) m
              else (status, m\<lparr>mlength := new_count, string_length := 0\<rparr>))"

definition resize_to_count ::
  "'a globals_scheme \<Rightarrow> heap \<Rightarrow> ret \<Rightarrow> bool \<Rightarrow> bool \<Rightarrow> u64 \<Rightarrow> u64 \<Rightarrow> u64 \<Rightarrow> memory \<Rightarrow> ret \<times> memory" where
  "resize_to_count g heap status zero_new_memory allow_shrink previous_payload_bytes
       total_size_in_bytes new_count m =
     (case round_up_to_block_size total_size_in_bytes of
        None \<Rightarrow> (FAILURE, m)
      | Some slab_size_in_bytes \<Rightarrow>
          let (status, m) = resize_block heap status allow_shrink slab_size_in_bytes m in
          if has TRIUMPH status
          then resize_metadata g status zero_new_memory previous_payload_bytes total_size_in_bytes
                 new_count m
          else (status, m))"

definition mem_resize ::
  "'a globals_scheme \<Rightarrow> heap \<Rightarrow> memory \<Rightarrow> u64 \<Rightarrow> u32 \<Rightarrow> ret \<times> memory" where
  "mem_resize g heap m new_count behavior_flags =
     (let zero_new_memory = behavior_flags AND ZERO_NEW_MEMORY \<noteq> 0;
          allow_shrink = behavior_flags AND RELEASE_UNUSED \<noteq> 0
      in
      if single_element_size m = 0 then (deliver g FAILURE, m)
      else if mlength m > 0 \<and> data m = None then (deliver g FAILURE, m)
      else if \<not> is_string m \<and> string_length m \<noteq> 0 then (deliver g FAILURE, m)
      else
        let (status, previous_payload_bytes) =
              run_out g SUCCESS (mem_guarded_byte_size g m (mlength m) 0) 0
        in
        if has TRIUMPH status \<and> actually_allocated_bytes m > 0 \<and> data m = None
          then (deliver g FAILURE, m)
        else if has TRIUMPH status \<and> mlength m > 0
                \<and> actually_allocated_bytes m < previous_payload_bytes
          then (deliver g FAILURE, m)
        else if has TRIUMPH status \<and> is_string m \<and> mlength m > 0 \<and> string_length m \<ge> mlength m
          then (deliver g FAILURE, m)
        else if has TRIUMPH status \<and> is_string m \<and> mlength m = 0 \<and> string_length m \<noteq> 0
          then (deliver g FAILURE, m)
        else if has TRIUMPH status \<and> new_count = mlength m
                \<and> (new_count \<noteq> 0 \<or> \<not> allow_shrink \<or> actually_allocated_bytes m = 0)
          then (deliver g status, m)
        else
          let (status, total_size_in_bytes) =
                (if has TRIUMPH status
                 then call_out g status (mem_guarded_byte_size g m new_count 0) 0
                 else (status, 0));
              (status, m) =
                (if has TRIUMPH status then
                   if new_count = 0 then resize_to_zero g status allow_shrink m
                   else resize_to_count g heap status zero_new_memory allow_shrink
                          previous_payload_bytes total_size_in_bytes new_count m
                 else (status, m))
          in (deliver g status, m))"

end
