(* ===== verification/Mem_Invariant.thy ===== *)
theory Mem_Invariant
  imports Mem_Core
begin

text \<open>
  The descriptor invariant of libs/mem and the proof that the primitive operations of
  \<open>Mem_Core\<close> keep it: the guarded arithmetic is exact, the slab size covers the request, a
  truncation leaves a terminated text, and \<open>mem_resize\<close> either changes nothing or yields a
  valid descriptor of the requested length with the old content.
\<close>

section \<open>The descriptor invariant\<close>

text \<open>
  What the header comment of \<open>struct memory\<close> demands, together with the block lengths: the
  reserve covers the logical payload, NULL data means nothing is reserved.
\<close>

definition reserved :: "memory \<Rightarrow> bool" where
  "reserved m \<longleftrightarrow>
     single_element_size m \<noteq> 0
     \<and> (case data m of
          None \<Rightarrow> actually_allocated_bytes m = 0 \<and> mlength m = 0
        | Some buf \<Rightarrow> length buf = unat (actually_allocated_bytes m))
     \<and> unat (mlength m) * unat (single_element_size m) \<le> unat (actually_allocated_bytes m)"

text \<open>One zero element at an element index of a block.\<close>

definition terminated_at :: "memory \<Rightarrow> u64 \<Rightarrow> bool" where
  "terminated_at m n \<longleftrightarrow>
     (case data m of
        None \<Rightarrow> False
      | Some buf \<Rightarrow>
          take (unat (single_element_size m)) (drop (unat n * unat (single_element_size m)) buf)
            = replicate (unat (single_element_size m)) 0)"

text \<open>
  A data descriptor caches no string length; a string descriptor is empty, or its cached
  length lies below the logical length and a terminator follows the visible text.
\<close>

definition valid :: "memory \<Rightarrow> bool" where
  "valid m \<longleftrightarrow> reserved m \<and>
     (if is_string m
      then mlength m = 0 \<and> string_length m = 0
         \<or> string_length m < mlength m \<and> terminated_at m (string_length m)
      else string_length m = 0)"

text \<open>The bytes a user of the descriptor sees: the logical payload, the visible text.\<close>

definition payload :: "memory \<Rightarrow> bytes" where
  "payload m = (case data m of None \<Rightarrow> [] | Some buf \<Rightarrow> take (unat (mlength m) * unat (single_element_size m)) buf)"

definition visible_text :: "memory \<Rightarrow> bytes" where
  "visible_text m =
     (case data m of None \<Rightarrow> [] | Some buf \<Rightarrow> take (unat (string_length m) * unat (single_element_size m)) buf)"

lemma valid_init [simp]: "k \<noteq> 0 \<Longrightarrow> valid (mem_init k mode)"
  by (simp add: valid_def reserved_def mem_init_def)

section \<open>Guarded arithmetic is exact\<close>

lemma mult_fits_iff:
  assumes "k \<noteq> (0 :: u64)"
  shows "n \<le> SIZE_MAX div k \<longleftrightarrow> unat n * unat k < 2 ^ 64"
proof -
  have k: "0 < unat k" using assms by (simp add: unat_gt_0)
  have "n \<le> SIZE_MAX div k \<longleftrightarrow> unat n \<le> (2 ^ 64 - 1) div unat k"
    by (simp add: word_le_nat_alt unat_div)
  also have "\<dots> \<longleftrightarrow> unat n * unat k \<le> 2 ^ 64 - 1"
    using k by (simp add: less_eq_div_iff_mult_less_eq)
  also have "\<dots> \<longleftrightarrow> unat n * unat k < 2 ^ 64" by auto
  finally show ?thesis .
qed

lemma unat_mult_fits:
  "unat a * unat b < 2 ^ 64 \<Longrightarrow> unat (a * b :: u64) = unat a * unat b"
  by (simp add: unat_word_ariths)

lemma byte_size_ok:
  assumes "quiet g" "single_element_size m \<noteq> 0" "unat n * unat (single_element_size m) < 2 ^ 64"
  shows "mem_guarded_byte_size g m n x = (SUCCESS, single_element_size m * n)"
  using assms mult_fits_iff [of "single_element_size m" n]
  by (simp add: mem_guarded_byte_size_def not_less)

lemma byte_size_fail:
  assumes "quiet g" "\<not> unat n * unat (single_element_size m) < 2 ^ 64"
  shows "mem_guarded_byte_size g m n x = (FAILURE, x)"
proof (cases "single_element_size m = 0")
  case True
  with assms show ?thesis by (simp add: mem_guarded_byte_size_def)
next
  case False
  with assms mult_fits_iff [of "single_element_size m" n] show ?thesis
    by (simp add: mem_guarded_byte_size_def not_less)
qed

lemma add_fits_iff: "a > SIZE_MAX - b \<longleftrightarrow> \<not> unat a + unat b < 2 ^ 64"
proof -
  have lt: "unat b < 2 ^ LENGTH(64)" by (rule unsigned_less)
  then have "b \<le> SIZE_MAX" by (simp add: word_le_nat_alt)
  then have "unat (SIZE_MAX - b) = 2 ^ 64 - 1 - unat b" by (simp add: unat_sub)
  then show ?thesis using lt by (simp add: word_less_nat_alt) linarith
qed

lemma guarded_add_ok:
  assumes "quiet g" "unat a + unat b < 2 ^ 64"
  shows "mem_guarded_add g a b x = (SUCCESS, a + b)"
  using assms by (simp add: mem_guarded_add_def add_fits_iff)

lemma guarded_add_fail:
  assumes "quiet g" "\<not> unat a + unat b < 2 ^ 64"
  shows "mem_guarded_add g a b x = (FAILURE, x)"
  using assms by (simp add: mem_guarded_add_def add_fits_iff)

lemma guarded_subtract_exact:
  assumes "quiet g"
  shows "mem_guarded_subtract g a b x = (if b \<le> a then (SUCCESS, a - b) else (FAILURE, x))"
  using assms by (auto simp: mem_guarded_subtract_def)

lemma round_up_Some:
  assumes "round_up_to_block_size n = Some slab"
  shows "unat n \<le> unat slab" "unat slab mod 4096 = 0" "unat slab < unat n + 4096"
proof -
  have m: "unat (n mod MEMORY_BLOCK_BYTES) = unat n mod 4096"
    by (simp add: unat_mod MEMORY_BLOCK_BYTES_def)
  have le: "n mod MEMORY_BLOCK_BYTES \<le> MEMORY_BLOCK_BYTES"
    by (simp add: word_le_nat_alt m) (simp add: MEMORY_BLOCK_BYTES_def)
  have p: "unat (MEMORY_BLOCK_BYTES - n mod MEMORY_BLOCK_BYTES) = 4096 - unat n mod 4096"
    using le by (simp add: unat_sub m) (simp add: MEMORY_BLOCK_BYTES_def)
  have s: "unat (n + (MEMORY_BLOCK_BYTES - n mod MEMORY_BLOCK_BYTES)) = unat n + (4096 - unat n mod 4096)"
    if "\<not> n > SIZE_MAX - (MEMORY_BLOCK_BYTES - n mod MEMORY_BLOCK_BYTES)"
    using that by (simp add: add_fits_iff unat_word_ariths p)
  have z: "n mod MEMORY_BLOCK_BYTES = 0 \<longleftrightarrow> unat n mod 4096 = 0"
    by (simp add: m [symmetric] unat_eq_0)
  have r: "unat slab = (if unat n mod 4096 = 0 then unat n else unat n + (4096 - unat n mod 4096))"
  proof (cases "n mod MEMORY_BLOCK_BYTES = 0")
    case True
    then have "slab = n"
      using assms by (cases "n = 0") (simp_all add: round_up_to_block_size_def)
    with True z show ?thesis by simp
  next
    case False
    then have "\<not> n > SIZE_MAX - (MEMORY_BLOCK_BYTES - n mod MEMORY_BLOCK_BYTES)"
        "slab = n + (MEMORY_BLOCK_BYTES - n mod MEMORY_BLOCK_BYTES)"
      using assms by (cases "n = 0"; simp add: round_up_to_block_size_def Let_def split: if_split_asm)+
    with s False z show ?thesis by simp
  qed
  show "unat n \<le> unat slab"
    by (subst r) (rule if_split [THEN iffD2], simp only: le_add1 order_refl simp_thms)
  show "unat slab < unat n + 4096"
  proof (cases "unat n mod 4096 = 0")
    case False
    then have "0 < unat n mod 4096" by simp
    with False show ?thesis unfolding r by simp
  qed (simp add: r)
  have "k + (4096 - j) = 4096 * (d + 1)" if "4096 * d + j = k" "j < 4096" for d j k :: nat
    using that by auto
  from this [OF mult_div_mod_eq [of 4096 "unat n"]]
  have a: "unat n + (4096 - unat n mod 4096) = 4096 * (unat n div 4096 + 1)"
    by simp
  show "unat slab mod 4096 = 0"
    unfolding r a by simp
qed

section \<open>Writing into a block\<close>

lemma length_write_at [simp]:
  assumes "unat off + length xs \<le> length buf"
  shows "length (write_at buf off xs) = length buf"
  using assms by (simp add: write_at_def)

lemma take_write_at:
  assumes "unat off + length xs \<le> length buf"
  shows "n \<le> unat off \<Longrightarrow> take n (write_at buf off xs) = take n buf"
    and "take (length xs) (drop (unat off) (write_at buf off xs)) = xs"
    and "take (unat off + length xs) (write_at buf off xs) = take (unat off) buf @ xs"
proof -
  have "min (length buf) (unat off) = unat off" using assms by simp
  then show "n \<le> unat off \<Longrightarrow> take n (write_at buf off xs) = take n buf"
    and "take (length xs) (drop (unat off) (write_at buf off xs)) = xs"
    and "take (unat off + length xs) (write_at buf off xs) = take (unat off) buf @ xs"
    using assms by (simp_all add: write_at_def)
qed

lemma write_at_same:
  assumes "take (length xs) (drop (unat off) buf) = xs"
  shows "write_at buf off xs = buf"
proof -
  have "xs @ drop (unat off + length xs) buf = drop (unat off) buf"
    using assms by (metis add.commute append_take_drop_id drop_drop)
  then show ?thesis by (simp add: write_at_def)
qed

lemma zero_element_iff:
  assumes "k \<noteq> 0" "unat k \<le> length view"
  shows "mem_is_zero_element (Some view) k \<longleftrightarrow> take (unat k) view = replicate (unat k) 0"
proof -
  have "mem_is_zero_element (Some view) k \<longleftrightarrow> (\<forall>i < unat k. view ! i = 0)"
    using assms by (auto simp: mem_is_zero_element_def)
  also have "\<dots> \<longleftrightarrow> take (unat k) view = replicate (unat k) 0"
    using assms by (auto simp: list_eq_iff_nth_eq)
  finally show ?thesis .
qed

section \<open>Terminators, truncation and finalization\<close>

lemma lt_word_max: "unat (a :: u64) < 18446744073709551616"
proof -
  have "unat a < 2 ^ LENGTH(64)" by (rule unsigned_less)
  then show ?thesis by simp
qed

text \<open>An element index whose element lies inside the reserve has an exact byte offset.\<close>

lemma element_inside:
  assumes "quiet g" "reserved m" "(unat n + 1) * unat (single_element_size m) \<le> unat (actually_allocated_bytes m)"
  shows "mem_guarded_byte_size g m n x = (SUCCESS, single_element_size m * n)"
    and "unat (single_element_size m * n) = unat n * unat (single_element_size m)"
    and "mem_guarded_add g (single_element_size m * n) (single_element_size m) y
         = (SUCCESS, single_element_size m * n + single_element_size m)"
    and "unat (single_element_size m * n + single_element_size m) = (unat n + 1) * unat (single_element_size m)"
proof -
  have a: "(unat n + 1) * unat (single_element_size m) < 2 ^ 64"
    using assms(3) lt_word_max [of "actually_allocated_bytes m"] by simp
  have b: "unat n * unat (single_element_size m) < 2 ^ 64" using a by (simp add: distrib_right)
  show "mem_guarded_byte_size g m n x = (SUCCESS, single_element_size m * n)"
    using assms b by (intro byte_size_ok) (auto simp: reserved_def)
  show u: "unat (single_element_size m * n) = unat n * unat (single_element_size m)"
    using b by (simp add: unat_word_ariths mult.commute)
  show "mem_guarded_add g (single_element_size m * n) (single_element_size m) y
         = (SUCCESS, single_element_size m * n + single_element_size m)"
  proof (rule guarded_add_ok [OF assms(1)])
    show "unat (single_element_size m * n) + unat (single_element_size m) < 2 ^ 64"
      unfolding u using a by (simp add: distrib_right)
  qed
  show "unat (single_element_size m * n + single_element_size m) = (unat n + 1) * unat (single_element_size m)"
  proof -
    have "unat (single_element_size m * n) + unat (single_element_size m) < 2 ^ 64"
      unfolding u using a by (simp add: distrib_right)
    then have "unat (single_element_size m * n + single_element_size m)
        = unat (single_element_size m * n) + unat (single_element_size m)"
      by (simp add: unat_word_ariths)
    then show ?thesis unfolding u by (simp add: distrib_right)
  qed
qed

definition put_terminator :: "memory \<Rightarrow> u64 \<Rightarrow> memory" where
  "put_terminator m n =
     m\<lparr>data := map_option (\<lambda>buf. write_at buf (single_element_size m * n)
                                   (replicate (unat (single_element_size m)) 0)) (data m)\<rparr>"

lemma write_terminator_ok:
  assumes "quiet g" "reserved m" "data m \<noteq> None"
    "(unat n + 1) * unat (single_element_size m) \<le> unat (actually_allocated_bytes m)"
  shows "mem_write_zero_terminator g m n = (SUCCESS, put_terminator m n)"
proof -
  have k: "single_element_size m \<noteq> 0" using assms(2) by (simp add: reserved_def)
  have "\<not> single_element_size m * n + single_element_size m > actually_allocated_bytes m"
    using element_inside(4) [OF assms(1,2,4)] assms(4) by (simp add: word_less_nat_alt not_less)
  then show ?thesis
    using assms(1,3) k element_inside [OF assms(1,2,4)]
    by (simp add: mem_write_zero_terminator_def put_terminator_def)
qed

lemma put_terminator_fields [simp]:
  "single_element_size (put_terminator m n) = single_element_size m"
  "actually_allocated_bytes (put_terminator m n) = actually_allocated_bytes m"
  "mlength (put_terminator m n) = mlength m" "string_length (put_terminator m n) = string_length m"
  "is_string (put_terminator m n) = is_string m"
  by (simp_all add: put_terminator_def)

lemma put_terminator_reserved [simp]:
  assumes "reserved m" "(unat n + 1) * unat (single_element_size m) \<le> unat (actually_allocated_bytes m)"
    "quiet g"
  shows "reserved (put_terminator m n)"
  using assms element_inside(2) [OF assms(3,1,2)]
  by (auto simp: reserved_def put_terminator_def algebra_simps split: option.splits)

lemma put_terminator_terminated:
  assumes "reserved m" "(unat n + 1) * unat (single_element_size m) \<le> unat (actually_allocated_bytes m)"
    "quiet g" "data m \<noteq> None"
  shows "terminated_at (put_terminator m n) n"
  using assms element_inside(2) [OF assms(3,1,2)]
    take_write_at(2) [of "single_element_size m * n" "replicate (unat (single_element_size m)) 0"]
  by (auto simp: terminated_at_def put_terminator_def reserved_def algebra_simps)

text \<open>
  Truncation in a descriptor whose terminator may be missing (the state \<open>mem_resize\<close> calls it
  in): the result is the same whether or not the shortcut is taken.
\<close>

lemma terminated_put_same:
  assumes "terminated_at m n" "unat (single_element_size m * n) = unat n * unat (single_element_size m)"
  shows "put_terminator m n = m"
proof (cases "data m")
  case None
  with assms show ?thesis by (simp add: terminated_at_def)
next
  case (Some buf)
  then have "write_at buf (single_element_size m * n) (replicate (unat (single_element_size m)) 0) = buf"
    using assms by (intro write_at_same) (simp add: terminated_at_def)
  with Some show ?thesis by (simp add: put_terminator_def)
qed

lemma index_inside:
  assumes "reserved m" "n < mlength m"
  shows "(unat n + 1) * unat (single_element_size m) \<le> unat (actually_allocated_bytes m)"
    and "data m \<noteq> None"
proof -
  have "unat n + 1 \<le> unat (mlength m)" using assms(2) by (simp add: word_less_nat_alt)
  then have "(unat n + 1) * unat (single_element_size m) \<le> unat (mlength m) * unat (single_element_size m)"
    by (rule mult_le_mono1)
  also have "\<dots> \<le> unat (actually_allocated_bytes m)" using assms by (simp add: reserved_def)
  finally show "(unat n + 1) * unat (single_element_size m) \<le> unat (actually_allocated_bytes m)" .
  show "data m \<noteq> None" using assms by (auto simp: reserved_def split: option.splits)
qed

lemma payload_size_ok:
  assumes "quiet g" "reserved m"
  shows "mem_guarded_byte_size g m (mlength m) x = (SUCCESS, single_element_size m * mlength m)"
    and "unat (single_element_size m * mlength m) = unat (mlength m) * unat (single_element_size m)"
    and "\<not> actually_allocated_bytes m < single_element_size m * mlength m"
proof -
  have a: "unat (mlength m) * unat (single_element_size m) < 2 ^ 64"
    using assms(2) lt_word_max [of "actually_allocated_bytes m"] by (simp add: reserved_def)
  then show "mem_guarded_byte_size g m (mlength m) x = (SUCCESS, single_element_size m * mlength m)"
    using assms by (intro byte_size_ok) (auto simp: reserved_def)
  show u: "unat (single_element_size m * mlength m) = unat (mlength m) * unat (single_element_size m)"
    using a by (simp add: unat_word_ariths mult.commute)
  show "\<not> actually_allocated_bytes m < single_element_size m * mlength m"
    using assms(2) u by (simp add: reserved_def word_less_nat_alt)
qed

lemma truncate_ok:
  assumes "quiet g" "reserved m" "is_string m" "string_length m < mlength m" "n \<le> string_length m"
  shows "mem_string_truncate g m n = (SUCCESS, (put_terminator m n)\<lparr>string_length := n\<rparr>)"
proof -
  have n: "n < mlength m" using assms(4,5) by simp
  note ins = index_inside [OF assms(2) n]
  note w = write_terminator_ok [OF assms(1,2) ins(2,1)]
  note e = element_inside [OF assms(1,2) ins(1)]
  obtain buf where buf: "data m = Some buf" using ins(2) by auto
  have k: "single_element_size m \<noteq> 0" "0 < mlength m"
    using assms(2) n by (auto simp: reserved_def word_gt_0)
  have len: "length buf = unat (actually_allocated_bytes m)"
    using assms(2) buf by (simp add: reserved_def)
  have z: "mem_is_zero_element (Some (drop (unat (single_element_size m * n)) buf)) (single_element_size m)
      \<longleftrightarrow> terminated_at m n"
    using zero_element_iff [OF k(1), of "drop (unat (single_element_size m * n)) buf"] e(2) ins(1) len buf
    by (simp add: terminated_at_def algebra_simps)
  show ?thesis
  proof (cases "n = string_length m \<and> terminated_at m n")
    case True
    then have "put_terminator m n = m" using terminated_put_same e(2) by blast
    then show ?thesis
      using assms True k buf e z payload_size_ok [OF assms(1,2)]
      by (auto simp: mem_string_truncate_def not_le not_less)
  next
    case False
    then show ?thesis
      using assms k buf e z w payload_size_ok [OF assms(1,2)]
      by (auto simp: mem_string_truncate_def not_le not_less)
  qed
qed

text \<open>Finalizing a direct write has the same effect in both modes.\<close>

lemma finalize_ok:
  assumes "quiet g" "reserved m" "is_string m" "n < mlength m"
  shows "mem_finalize_string g m n flags = (SUCCESS, (put_terminator m n)\<lparr>string_length := n\<rparr>)"
proof -
  note ins = index_inside [OF assms(2,4)]
  note w = write_terminator_ok [OF assms(1,2) ins(2,1)]
  note e = element_inside [OF assms(1,2) ins(1)]
  obtain buf where buf: "data m = Some buf" using ins(2) by auto
  have k: "single_element_size m \<noteq> 0" "mlength m \<noteq> 0" "\<not> n \<ge> mlength m"
    using assms(2,4) by (auto simp: reserved_def not_le)
  have len: "length buf = unat (actually_allocated_bytes m)"
    using assms(2) buf by (simp add: reserved_def)
  have z: "mem_is_zero_element (Some (drop (unat (single_element_size m * n)) buf)) (single_element_size m)
      \<longleftrightarrow> terminated_at m n"
    using zero_element_iff [OF k(1), of "drop (unat (single_element_size m * n)) buf"] e(2) ins(1) len buf
    by (simp add: terminated_at_def algebra_simps)
  have room: "\<not> single_element_size m * n + single_element_size m > actually_allocated_bytes m"
    using e(4) ins(1) by (simp add: word_less_nat_alt not_less)
  have same: "put_terminator m n = m" if "terminated_at m n"
    by (rule terminated_put_same [OF that e(2)])
  show ?thesis
  proof (cases "terminated_at m n")
    case True
    then show ?thesis
      using assms(1,3) k buf room same [OF True] z w
      by (cases flags) (simp_all add: mem_finalize_string_def e(1,3) Let_def)
  next
    case False
    then show ?thesis
      using assms(1,3) k buf room z w
      by (cases flags) (simp_all add: mem_finalize_string_def e(1,3) Let_def)
  qed
qed

section \<open>Resizing keeps the content\<close>

lemma c_realloc_Some:
  assumes "c_realloc heap old n = Some block"
  shows "length block = unat n" "take (min (length old) (unat n)) block = take (unat n) old"
  using assms by (auto simp: c_realloc_def min_def)

lemma c_malloc_Some: "c_malloc heap n = Some block \<Longrightarrow> length block = unat n"
  by (auto simp: c_malloc_def)

text \<open>
  The block after the allocation step: long enough for the requested payload, with the old
  content as far as it fits.
\<close>

definition block_of :: "memory \<Rightarrow> bytes" where
  "block_of m = (case data m of None \<Rightarrow> [] | Some buf \<Rightarrow> buf)"

lemma resize_block_ok:
  assumes "reserved m" "resize_block heap SUCCESS allow_shrink slab m = (status, m')"
    "slab \<noteq> 0"
  shows "status = FAILURE \<and> m' = m
    \<or> status = SUCCESS \<and> (\<exists>buf. m' = m\<lparr>data := Some buf, actually_allocated_bytes := of_nat (length buf)\<rparr>
        \<and> unat slab \<le> length buf \<and> length buf < 2 ^ 64
        \<and> take (min (length (block_of m)) (unat slab)) buf = take (unat slab) (block_of m))"
proof (cases "data m")
  case None
  show ?thesis
  proof (cases "c_malloc heap slab")
    case (Some block)
    then show ?thesis
      using assms None c_malloc_Some [of heap slab] lt_word_max [of slab]
      by (auto simp: resize_block_def block_of_def intro!: exI [of _ block])
  qed (use assms \<open>data m = None\<close> in \<open>auto simp: resize_block_def\<close>)
next
  case (Some old)
  then have old: "length old = unat (actually_allocated_bytes m)" using assms(1) by (simp add: reserved_def)
  show ?thesis
  proof (cases "slab > actually_allocated_bytes m \<or> allow_shrink \<and> slab < actually_allocated_bytes m")
    case True
    show ?thesis
    proof (cases "c_realloc heap old slab")
      case None
      then show ?thesis using assms \<open>data m = Some old\<close> True by (auto simp: resize_block_def)
    next
      case block: (Some block)
      then show ?thesis
        using assms(2) Some True c_realloc_Some [OF block] lt_word_max [of slab]
        by (auto simp: resize_block_def block_of_def intro!: exI [of _ block])
    qed
  next
    case False
    then have "status = SUCCESS" "m' = m" using assms(2) Some
      by (auto simp: resize_block_def)
    moreover have "m = m\<lparr>data := Some old, actually_allocated_bytes := of_nat (length old)\<rparr>"
      using Some old by (cases m) simp
    moreover have "unat slab \<le> length old"
      using False old by (auto simp: word_less_nat_alt)
    moreover have "length old < 2 ^ 64"
      using old lt_word_max [of "actually_allocated_bytes m"] by simp
    moreover have "take (min (length (block_of m)) (unat slab)) old = take (unat slab) (block_of m)"
      using Some by (simp add: block_of_def min_def)
    ultimately show ?thesis by blast
  qed
qed


text \<open>What a successful resize to \<open>n\<close> elements leaves of a descriptor.\<close>

definition kept_bytes :: "memory \<Rightarrow> u64 \<Rightarrow> nat" where
  "kept_bytes m n =
     (if is_string m then (if n \<le> string_length m then unat n - 1 else unat (string_length m))
      else min (unat (mlength m)) (unat n)) * unat (single_element_size m)"

definition resized :: "memory \<Rightarrow> u64 \<Rightarrow> memory \<Rightarrow> bool" where
  "resized m n m' \<longleftrightarrow>
     valid m' \<and> mlength m' = n \<and> is_string m' = is_string m
     \<and> single_element_size m' = single_element_size m
     \<and> string_length m' = (if is_string m \<and> n \<le> string_length m \<and> n \<noteq> 0 then n - 1
                            else if n = 0 then 0 else string_length m)
     \<and> take (kept_bytes m n) (block_of m') = take (kept_bytes m n) (block_of m)"

lemma resize_metadata_ok:
  assumes "quiet g" "n \<noteq> 0" "single_element_size m \<noteq> 0"
    and buf: "data m = Some buf" "length buf = unat (actually_allocated_bytes m)"
    and fits: "unat n * unat (single_element_size m) \<le> length buf"
    and prev: "unat prev = unat (mlength m) * unat (single_element_size m)"
    and tot: "unat tot = unat n * unat (single_element_size m)"
    and cache: "is_string m \<Longrightarrow> mlength m = 0 \<and> string_length m = 0 \<or> string_length m < mlength m"
      "\<not> is_string m \<Longrightarrow> string_length m = 0"
  shows "\<exists>m'. resize_metadata g SUCCESS zero prev tot n m = (SUCCESS, m') \<and> resized m n m'"
proof -
  let ?k = "unat (single_element_size m)"
  define z where "z = (if zero \<and> tot > prev then tot - prev else 0)"
  define buf1 where "buf1 = (if z > 0 then write_at buf prev (replicate (unat z) 0) else buf)"
  have z: "0 < z \<Longrightarrow> unat z = unat tot - unat prev \<and> unat prev < unat tot"
    by (auto simp: z_def unat_sub less_imp_le word_less_nat_alt [symmetric] split: if_splits)
  have len1: "length buf1 = length buf"
    using z fits tot by (auto simp: buf1_def)
  have keep1: "take j buf1 = take j buf" if "j \<le> unat prev" for j
    using that z fits tot take_write_at(1) [of prev "replicate (unat z) 0" buf j]
    by (auto simp: buf1_def)
  show ?thesis
  proof (cases "is_string m")
    case False
    let ?m = "m\<lparr>data := Some buf1, mlength := n, string_length := 0\<rparr>"
    have "resize_metadata g SUCCESS zero prev tot n m = (SUCCESS, ?m)"
      using False buf by (simp add: resize_metadata_def z_def [symmetric] buf1_def Let_def)
    moreover have "resized m n ?m"
      using False cache(2) assms(2,3) buf fits len1 keep1 [of "kept_bytes m n"] prev
      by (auto simp: resized_def valid_def reserved_def kept_bytes_def block_of_def)
    ultimately show ?thesis by blast
  next
    case True
    define r where "r = (if mlength m > 0 then if string_length m \<ge> n then n - 1 else string_length m else 0)"
    define m1 where "m1 = m\<lparr>data := Some buf1, mlength := n, string_length := r\<rparr>"
    have n0: "0 < n" using assms(2) by (simp add: word_gt_0)
    have r: "r < n" using n0 by (auto simp: r_def word_less_nat_alt unat_sub word_le_nat_alt not_le)
    have r2: "r = (if n \<le> string_length m then n - 1 else string_length m)"
      using cache(1) [OF True] n0 by (auto simp: r_def word_neq_0_conv [symmetric])
    have un: "unat (n - 1) = unat n - 1" using n0 by (simp add: unat_sub word_le_nat_alt word_less_nat_alt)
    have res: "reserved m1"
      using assms(3) buf fits len1 by (simp add: m1_def reserved_def)
    have t: "mem_string_truncate g m1 r = (SUCCESS, (put_terminator m1 r)\<lparr>string_length := r\<rparr>)"
      using truncate_ok [OF assms(1) res, of r] True r by (simp add: m1_def)
    have in1: "(unat r + 1) * unat (single_element_size m1) \<le> unat (actually_allocated_bytes m1)"
      "data m1 \<noteq> None"
      using index_inside [OF res, of r] r by (simp_all add: m1_def)
    have eq: "(put_terminator m1 r)\<lparr>string_length := r\<rparr> = put_terminator m1 r"
      by (simp add: put_terminator_def m1_def)
    have "resize_metadata g SUCCESS zero prev tot n m = (SUCCESS, put_terminator m1 r)"
      using True buf t eq assms(1)
      by (simp add: resize_metadata_def z_def [symmetric] buf1_def [symmetric] r_def [symmetric]
          m1_def [symmetric] Let_def cong: if_cong)
    moreover have "resized m n (put_terminator m1 r)"
    proof -
      have "valid (put_terminator m1 r)"
        using True r put_terminator_reserved [OF res in1(1) assms(1)]
          put_terminator_terminated [OF res in1(1) assms(1) in1(2)]
        by (simp add: valid_def m1_def)
      moreover have "kept_bytes m n = unat r * ?k"
        using True un by (simp add: kept_bytes_def r2)
      moreover have "unat r * ?k \<le> unat prev"
        using True cache(1) r2 un unfolding prev
        by (intro mult_le_mono1) (auto simp: word_less_nat_alt word_le_nat_alt)
      moreover have "take (unat r * ?k) (block_of (put_terminator m1 r)) = take (unat r * ?k) buf1"
        using element_inside(2) [OF assms(1) res in1(1)] in1(1) len1 buf(2)
          take_write_at(1) [of "single_element_size m1 * r" "replicate ?k 0" buf1 "unat r * ?k"]
        by (simp add: block_of_def put_terminator_def m1_def algebra_simps)
      ultimately show ?thesis
        using True keep1 [of "unat r * ?k"] buf assms(2) r2
        by (auto simp: resized_def block_of_def m1_def)
    qed
    ultimately show ?thesis by blast
  qed
qed


text \<open>A request the allocator and the arithmetic can serve.\<close>

definition can_allocate :: "heap \<Rightarrow> memory \<Rightarrow> u64 \<Rightarrow> bool" where
  "can_allocate heap m n \<longleftrightarrow>
     unat n * unat (single_element_size m) + 4095 < 2 ^ 64 \<and> (\<forall>bytes. heap bytes \<noteq> None)"

lemma round_up_fits:
  assumes "unat n + 4095 < 2 ^ 64"
  shows "round_up_to_block_size n \<noteq> None"
proof -
  have m: "unat (n mod MEMORY_BLOCK_BYTES) = unat n mod 4096"
    by (simp add: unat_mod MEMORY_BLOCK_BYTES_def)
  have "n mod MEMORY_BLOCK_BYTES \<le> MEMORY_BLOCK_BYTES"
    by (simp add: word_le_nat_alt m) (simp add: MEMORY_BLOCK_BYTES_def)
  then have p: "unat (MEMORY_BLOCK_BYTES - n mod MEMORY_BLOCK_BYTES) = 4096 - unat n mod 4096"
    by (simp add: unat_sub m) (simp add: MEMORY_BLOCK_BYTES_def)
  have "\<not> n > SIZE_MAX - (MEMORY_BLOCK_BYTES - n mod MEMORY_BLOCK_BYTES)"
    if "n mod MEMORY_BLOCK_BYTES \<noteq> 0"
  proof -
    have "0 < unat n mod 4096" using that m by (metis unat_gt_0)
    then show ?thesis using assms by (simp add: add_fits_iff p)
  qed
  then show ?thesis by (auto simp: round_up_to_block_size_def Let_def)
qed

lemma resize_block_allocates:
  assumes "heap slab \<noteq> None"
  shows "fst (resize_block heap SUCCESS shrink slab m) = SUCCESS"
  using assms by (auto simp: resize_block_def c_malloc_def c_realloc_def split: option.splits)

lemma resize_to_count_ok:
  assumes "quiet g" "valid m" "n \<noteq> 0" "unat n * unat (single_element_size m) < 2 ^ 64"
  obtains (failed) "resize_to_count g heap SUCCESS zero shrink (single_element_size m * mlength m)
        (single_element_size m * n) n m = (FAILURE, m)" "\<not> can_allocate heap m n"
    | (ok) m' where "resize_to_count g heap SUCCESS zero shrink (single_element_size m * mlength m)
        (single_element_size m * n) n m = (SUCCESS, m')" "resized m n m'"
proof (cases "round_up_to_block_size (single_element_size m * n)")
  case None
  moreover have "\<not> can_allocate heap m n"
    using None round_up_fits [of "single_element_size m * n"] assms(4)
    by (auto simp: can_allocate_def unat_word_ariths mult.commute)
  ultimately show ?thesis using failed by (simp add: resize_to_count_def)
next
  case (Some slab)
  have res: "reserved m" and k: "single_element_size m \<noteq> 0"
    using assms(2) by (auto simp: valid_def reserved_def)
  have u: "unat (single_element_size m * n) = unat n * unat (single_element_size m)"
    using assms(4) by (simp add: unat_word_ariths mult.commute)
  have slab: "unat n * unat (single_element_size m) \<le> unat slab" using round_up_Some(1) [OF Some] u by simp
  moreover have "0 < unat n * unat (single_element_size m)" using assms(3) k by (simp add: unat_gt_0)
  ultimately have "slab \<noteq> 0" by auto
  obtain status m1 where b: "resize_block heap SUCCESS shrink slab m = (status, m1)" by fastforce
  from resize_block_ok [OF res b \<open>slab \<noteq> 0\<close>] show ?thesis
  proof (elim disjE conjE exE)
    assume "status = FAILURE" "m1 = m"
    moreover from this have "\<not> can_allocate heap m n"
      using b resize_block_allocates [of heap slab shrink m]
      by (cases "heap slab") (auto simp: can_allocate_def)
    ultimately show ?thesis using failed Some b by (simp add: resize_to_count_def)
  next
    fix buf
    assume st: "status = SUCCESS"
      and m1: "m1 = m\<lparr>data := Some buf, actually_allocated_bytes := of_nat (length buf)\<rparr>"
      and len: "unat slab \<le> length buf" "length buf < 2 ^ 64"
      and keep: "take (min (length (block_of m)) (unat slab)) buf = take (unat slab) (block_of m)"
    have of: "unat (of_nat (length buf) :: u64) = length buf"
      using len(2) by (intro unat_of_nat_small) simp
    have "\<exists>m2. resize_metadata g SUCCESS zero (single_element_size m * mlength m)
        (single_element_size m * n) n m1 = (SUCCESS, m2) \<and> resized m1 n m2"
    proof (rule resize_metadata_ok [OF assms(1,3)])
      show "data m1 = Some buf" "single_element_size m1 \<noteq> 0"
        "length buf = unat (actually_allocated_bytes m1)"
        using k of by (simp_all add: m1)
      show "unat n * unat (single_element_size m1) \<le> length buf"
        using slab len by (simp add: m1)
      show "unat (single_element_size m * mlength m) = unat (mlength m1) * unat (single_element_size m1)"
        using payload_size_ok(2) [OF assms(1) res] by (simp add: m1)
      show "unat (single_element_size m * n) = unat n * unat (single_element_size m1)"
        using u by (simp add: m1)
      show "mlength m1 = 0 \<and> string_length m1 = 0 \<or> string_length m1 < mlength m1" if "is_string m1"
        using assms(2) that by (auto simp: valid_def m1)
      show "string_length m1 = 0" if "\<not> is_string m1"
        using assms(2) that by (simp add: valid_def m1)
    qed
    then obtain m2 where m2: "resize_metadata g SUCCESS zero (single_element_size m * mlength m)
        (single_element_size m * n) n m1 = (SUCCESS, m2)" "resized m1 n m2" by blast
    have kb: "kept_bytes m1 n = kept_bytes m n" by (simp add: kept_bytes_def m1)
    have "kept_bytes m n \<le> unat slab"
    proof -
      have "kept_bytes m n \<le> unat n * unat (single_element_size m)"
        unfolding kept_bytes_def by (intro mult_le_mono1) (auto simp: word_le_nat_alt)
      with slab show ?thesis by simp
    qed
    moreover have "kept_bytes m n \<le> length (block_of m)"
    proof -
      have "kept_bytes m n \<le> unat (mlength m) * unat (single_element_size m)"
        unfolding kept_bytes_def using assms(2)
        by (intro mult_le_mono1) (auto simp: valid_def word_le_nat_alt word_less_nat_alt)
      also have "\<dots> \<le> length (block_of m)"
        using res by (auto simp: reserved_def block_of_def split: option.splits)
      finally show ?thesis .
    qed
    ultimately have "take (kept_bytes m n) buf = take (kept_bytes m n) (block_of m)"
      using arg_cong [OF keep, of "take (kept_bytes m n)"] by (simp add: min_def split: if_splits)
    then have "resized m n m2"
      using m2(2) kb by (simp add: resized_def m1 block_of_def)
    with m2(1) b st Some show ?thesis using ok by (simp add: resize_to_count_def)
  qed
qed


lemma resize_to_zero_ok:
  assumes "quiet g" "valid m"
  shows "\<exists>m'. resize_to_zero g SUCCESS shrink m = (SUCCESS, m') \<and> resized m 0 m'"
proof -
  have res: "reserved m" and k: "single_element_size m \<noteq> 0"
    using assms(2) by (auto simp: valid_def reserved_def)
  have kb: "kept_bytes m 0 = 0" by (simp add: kept_bytes_def)
  show ?thesis
  proof (cases "shrink \<and> actually_allocated_bytes m > 0")
    case True
    have "\<not> (mlength m > 0 \<and> data m = None)" using res
      by (auto simp: reserved_def split: option.splits)
    then have "mem_delete g m = (SUCCESS, m\<lparr>data := None, mlength := 0, actually_allocated_bytes := 0,
        string_length := 0\<rparr>)"
      using assms(1) payload_size_ok(1) [OF assms(1) res] by (auto simp: mem_delete_def)
    then show ?thesis
      using True assms(1) k kb by (simp add: resize_to_zero_def resized_def valid_def reserved_def)
  next
    case False
    let ?m = "m\<lparr>mlength := 0, string_length := 0\<rparr>"
    have res': "reserved ?m" using res by (auto simp: reserved_def split: option.splits)
    show ?thesis
    proof (cases "is_string m \<and> data m \<noteq> None \<and> actually_allocated_bytes m \<ge> single_element_size m")
      case True
      have in0: "(unat 0 + 1) * unat (single_element_size ?m) \<le> unat (actually_allocated_bytes ?m)"
        using True by (simp add: word_le_nat_alt)
      have "resize_to_zero g SUCCESS shrink m = (SUCCESS, put_terminator ?m 0)"
        using False True assms(1) write_terminator_ok [OF assms(1) res' _ in0]
        by (auto simp: resize_to_zero_def Let_def)
      moreover have "resized m 0 (put_terminator ?m 0)"
        using True put_terminator_reserved [OF res' in0 assms(1)] kb
        by (simp add: resized_def valid_def)
      ultimately show ?thesis by blast
    next
      case nostr: False
      then have "resize_to_zero g SUCCESS shrink m = (SUCCESS, ?m)"
        using False by (auto simp: resize_to_zero_def Let_def)
      moreover have "resized m 0 ?m"
        using res' kb by (simp add: resized_def valid_def)
      ultimately show ?thesis by blast
    qed
  qed
qed

lemma resized_same:
  assumes "valid m"
  shows "resized m (mlength m) m"
  using assms by (auto simp: resized_def valid_def)

lemma mem_resize_spec:
  assumes "quiet g" "valid m"
  obtains (failed) "mem_resize g heap m n flags = (FAILURE, m)" "\<not> can_allocate heap m n"
    | (ok) m' where "mem_resize g heap m n flags = (SUCCESS, m')" "resized m n m'"
proof -
  let ?shrink = "flags AND RELEASE_UNUSED \<noteq> 0"
  have res: "reserved m" and k: "single_element_size m \<noteq> 0"
    using assms(2) by (auto simp: valid_def reserved_def)
  have guards: "\<not> (mlength m > 0 \<and> data m = None)" "\<not> (\<not> is_string m \<and> string_length m \<noteq> 0)"
    "\<not> (actually_allocated_bytes m > 0 \<and> data m = None)"
    "\<not> (is_string m \<and> mlength m > 0 \<and> string_length m \<ge> mlength m)"
    "\<not> (is_string m \<and> mlength m = 0 \<and> string_length m \<noteq> 0)"
    using assms(2) by (auto simp: valid_def reserved_def split: option.splits if_splits)
  note size = payload_size_ok [OF assms(1) res]
  show ?thesis
  proof (cases "n = mlength m \<and> (n \<noteq> 0 \<or> \<not> ?shrink \<or> actually_allocated_bytes m = 0)")
    case True
    then have "mem_resize g heap m n flags = (SUCCESS, m)"
      using guards k size assms(1) by (auto simp: mem_resize_def Let_def)
    with ok resized_same [OF assms(2)] True show ?thesis by blast
  next
    case no_op: False
    have step: "mem_resize g heap m n flags =
       (let (status, total_size_in_bytes) = call_out g SUCCESS (mem_guarded_byte_size g m n 0) 0;
            (status, m) =
              (if has TRIUMPH status then
                 if n = 0 then resize_to_zero g status ?shrink m
                 else resize_to_count g heap status (flags AND ZERO_NEW_MEMORY \<noteq> 0) ?shrink
                        (single_element_size m * mlength m) total_size_in_bytes n m
               else (status, m))
        in (deliver g status, m))"
      unfolding mem_resize_def Let_def using guards k size(1,3) assms(1) no_op
      by (auto simp: Let_def)
    show ?thesis
    proof (cases "unat n * unat (single_element_size m) < 2 ^ 64")
      case False
      then have "mem_resize g heap m n flags = (FAILURE, m)"
        unfolding step using assms(1) byte_size_fail [OF assms(1) False] by simp
      moreover have "\<not> can_allocate heap m n" using False by (simp add: can_allocate_def)
      ultimately show ?thesis using failed by blast
    next
      case True
      note total = byte_size_ok [OF assms(1) k True]
      show ?thesis
      proof (cases "n = 0")
        case zero: True
        obtain m' where "resize_to_zero g SUCCESS ?shrink m = (SUCCESS, m')" "resized m 0 m'"
          using resize_to_zero_ok [OF assms] by blast
        then show ?thesis
          using ok zero total assms(1) unfolding step by simp
      next
        case False
        show ?thesis
        proof (cases rule: resize_to_count_ok [OF assms False True,
              of heap "flags AND ZERO_NEW_MEMORY \<noteq> 0" ?shrink, case_names failed ok])
          case failed
          then show ?thesis
            using that(1) False total assms(1) unfolding step by simp
        next
          case (ok m')
          then show ?thesis
            using that(2) False total assms(1) unfolding step by simp
        qed
      qed
    qed
  qed
qed

section \<open>Properties\<close>



lemma string_length_irrelevant [simp]:
  "reserved (m\<lparr>string_length := n\<rparr>) = reserved m"
  "terminated_at (m\<lparr>string_length := n\<rparr>) k = terminated_at m k"
  by (simp_all add: reserved_def terminated_at_def split: option.splits)

lemma length_visible_text:
  "length (visible_text m) \<le> unat (string_length m) * unat (single_element_size m)"
  by (simp add: visible_text_def split: option.splits)

text \<open>
  Truncating a valid string never fails: a request above the visible length changes
  nothing, any other request leaves exactly that prefix visible, terminated, with the
  allocation and the logical length kept.
\<close>

theorem mem_string_truncate_correct:
  assumes "quiet g" "valid m" "is_string m" "mem_string_truncate g m n = (status, m')"
  shows "status = SUCCESS \<and> valid m' \<and> mlength m' = mlength m
    \<and> actually_allocated_bytes m' = actually_allocated_bytes m
    \<and> visible_text m' = take (unat n * unat (single_element_size m)) (visible_text m)"
proof -
  have res: "reserved m" and k: "single_element_size m \<noteq> 0"
    using assms(2) by (auto simp: valid_def reserved_def)
  note size = payload_size_ok [OF assms(1) res]
  have guards: "\<not> (mlength m > 0 \<and> data m = None)" "\<not> (actually_allocated_bytes m > 0 \<and> data m = None)"
    using res by (auto simp: reserved_def split: option.splits)
  have cache: "mlength m = 0 \<and> string_length m = 0 \<or> string_length m < mlength m"
    using assms(2,3) by (auto simp: valid_def)
  show ?thesis
  proof (cases "n \<le> string_length m \<and> mlength m \<noteq> 0")
    case False
    then have "mem_string_truncate g m n = (SUCCESS, m)"
      using guards size(1,3) k cache assms(1,3)
      by (auto simp: mem_string_truncate_def Let_def not_le word_neq_0_conv)
    moreover have "take (unat n * unat (single_element_size m)) (visible_text m) = visible_text m"
    proof (cases "mlength m = 0")
      case True
      then show ?thesis using cache by (auto simp: visible_text_def split: option.splits)
    next
      case nz: False
      then have "unat (string_length m) \<le> unat n" using False by (simp add: word_le_nat_alt)
      then have "unat (string_length m) * unat (single_element_size m) \<le> unat n * unat (single_element_size m)"
        by (rule mult_le_mono1)
      with length_visible_text [of m] show ?thesis by (intro take_all) (rule order_trans)
    qed
    ultimately show ?thesis using assms by simp
  next
    case True
    then have lt: "string_length m < mlength m" using cache by auto
    with True have n: "n < mlength m" by (blast intro: le_less_trans)
    note ins = index_inside [OF res n]
    have m': "m' = (put_terminator m n)\<lparr>string_length := n\<rparr>" "status = SUCCESS"
      using truncate_ok [OF assms(1) res assms(3) lt] True assms(4) by auto
    obtain buf where buf: "data m = Some buf" using ins(2) by auto
    have len: "length buf = unat (actually_allocated_bytes m)" using res buf by (simp add: reserved_def)
    have le: "unat n * unat (single_element_size m) \<le> unat (string_length m) * unat (single_element_size m)"
      using True by (intro mult_le_mono1) (simp add: word_le_nat_alt)
    have "visible_text m' = take (unat n * unat (single_element_size m)) (visible_text m)"
      using take_write_at(1) [of "single_element_size m * n"
          "replicate (unat (single_element_size m)) 0" buf "unat n * unat (single_element_size m)"]
        element_inside(2) [OF assms(1) res ins(1)] ins(1) len buf le
      by (simp add: m' visible_text_def put_terminator_def min_def algebra_simps)
    moreover have "valid m'"
      using put_terminator_reserved [OF res ins(1) assms(1)] n assms(3)
        put_terminator_terminated [OF res ins(1) assms(1) ins(2)]
      by (simp add: m' valid_def)
    ultimately show ?thesis by (simp add: m')
  qed
qed

theorem mem_string_truncate_correct_witness:
  "fst (mem_string_truncate initial_globals (mem_init 1 True) 3) = SUCCESS"
  using mem_string_truncate_correct [of initial_globals "mem_init 1 True" 3
      "fst (mem_string_truncate initial_globals (mem_init 1 True) 3)"
      "snd (mem_string_truncate initial_globals (mem_init 1 True) 3)"]
  by (simp add: quiet_def initial_globals_def mem_init_def valid_def reserved_def)

end
