(* ===== verification/Mem_Transfer.thy ===== *)
theory Mem_Transfer
  imports Mem_Invariant
begin

text \<open>
  Copying and appending in libs/mem: the raw-buffer core \<open>mem_core_buffer\<close>, the descriptor core
  \<open>mem_core_data\<close>, the string core \<open>mem_core_string\<close> with its three ways to measure a source and
  its self-aliasing rules, the public entry points built on them, the mode conversions and the
  checked views.
\<close>

section \<open>Sources and modes\<close>

text \<open>
  A source pointer is NULL, points into the destination's own block at a byte offset, or
  points to other memory, given by the bytes readable from it.  The guard against a wrap of
  the address range cannot fire for such sources.
\<close>

datatype source_pointer = NULL_source | Inside u64 | External bytes

text \<open>The two masks of \<open>MEM_CORE_MODE\<close>; every caller sets exactly one flag of each.\<close>

datatype source_mode = SOURCE_BOUNDED_STRING | SOURCE_UNBOUNDED_STRING | SOURCE_FIXED_STRING
datatype transfer_mode = TRANSFER_APPEND | TRANSFER_REPLACE

text \<open>The bytes a pointer reads from, once the destination block is \<open>buf\<close>.\<close>

fun source_view :: "bytes \<Rightarrow> source_pointer \<Rightarrow> bytes" where
  "source_view buf NULL_source = []"
| "source_view buf (Inside offset) = drop (unat offset) buf"
| "source_view buf (External xs) = xs"

text \<open>\<open>memmove(data + offset, source, n)\<close>.\<close>

definition c_memmove :: "bytes \<Rightarrow> u64 \<Rightarrow> bytes \<Rightarrow> u64 \<Rightarrow> bytes" where
  "c_memmove buf offset view n = write_at buf offset (take (unat n) view)"

section \<open>Raw buffers\<close>

definition inside_offset :: "memory \<Rightarrow> source_pointer \<Rightarrow> u64 option" where
  "inside_offset m source =
     (case source of
        Inside offset \<Rightarrow>
          if data m \<noteq> None \<and> actually_allocated_bytes m > 0 \<and> offset < actually_allocated_bytes m
          then Some offset else None
      | _ \<Rightarrow> None)"

definition mem_core_buffer ::
  "'a globals_scheme \<Rightarrow> heap \<Rightarrow> transfer_mode \<Rightarrow> memory \<Rightarrow> u64 \<Rightarrow> source_pointer \<Rightarrow> ret \<times> memory" where
  "mem_core_buffer g heap mode m source_buffer_size_bytes source_buffer =
     (if mlength m > 0 \<and> data m = None then (deliver g FAILURE, m)
      else if is_string m then (deliver g FAILURE, m)
      else if single_element_size m = 0 then (deliver g FAILURE, m)
      else if source_buffer = NULL_source \<and> source_buffer_size_bytes > 0 then (deliver g FAILURE, m)
      else if source_buffer_size_bytes = 0 then
        if mode = TRANSFER_APPEND then (deliver g SUCCESS, m)
        else let (status, m) = run_out g SUCCESS (mem_resize g heap m 0 0) m in (deliver g status, m)
      else if source_buffer_size_bytes mod single_element_size m \<noteq> 0 then (deliver g FAILURE, m)
      else
        let transfer_elements = source_buffer_size_bytes div single_element_size m;
            (status, new_total_elements) =
              (if mode = TRANSFER_APPEND
               then run_out g SUCCESS (mem_guarded_add g (mlength m) transfer_elements 0) 0
               else (SUCCESS, transfer_elements))
        in
        if mode = TRANSFER_APPEND \<and> has CRITICAL status then (deliver g FAILURE, m)
        else
          let (status, offset_bytes) =
                (if mode = TRANSFER_APPEND
                 then run_out g status (mem_guarded_byte_size g m (mlength m) 0) 0
                 else (status, 0))
          in
          if mode = TRANSFER_APPEND \<and> has CRITICAL status then (deliver g status, m)
          else
            let (status, destination_bytes) =
                  run_out g status (mem_guarded_byte_size g m (mlength m) 0) 0
            in
            if has TRIUMPH status
               \<and> (case inside_offset m source_buffer of
                    None \<Rightarrow> False
                  | Some source_offset \<Rightarrow>
                      source_offset > destination_bytes
                      \<or> source_buffer_size_bytes > destination_bytes - source_offset)
            then (deliver g FAILURE, m)
            else
              let (status, m) = run_out g status (mem_resize g heap m new_total_elements 0) m;
                  (status, m) =
                    (if has TRIUMPH status then
                       case data m of
                         None \<Rightarrow> (FAILURE, m)
                       | Some buf \<Rightarrow>
                           (status, m\<lparr>data := Some (c_memmove buf offset_bytes
                                       (source_view buf source_buffer) source_buffer_size_bytes)\<rparr>)
                     else (status, m));
                  m = (if has TRIUMPH status then m\<lparr>string_length := 0, is_string := False\<rparr> else m)
              in (deliver g status, m))"

text \<open>
  \<open>mem_core_data\<close>: the source is another descriptor, or the destination itself (\<open>None\<close>).
\<close>

definition mem_core_data ::
  "'a globals_scheme \<Rightarrow> heap \<Rightarrow> transfer_mode \<Rightarrow> memory \<Rightarrow> memory option \<Rightarrow> ret \<times> memory" where
  "mem_core_data g heap mode m source_or_self =
     (let source = (case source_or_self of None \<Rightarrow> m | Some other \<Rightarrow> other)
      in
      if mlength m > 0 \<and> data m = None then (deliver g FAILURE, m)
      else if mlength source > 0 \<and> data source = None then (deliver g FAILURE, m)
      else if is_string m then (deliver g FAILURE, m)
      else if is_string source then (deliver g FAILURE, m)
      else if single_element_size m = 0 then (deliver g FAILURE, m)
      else if single_element_size source = 0 then (deliver g FAILURE, m)
      else
        let (status, source_bytes) =
              run_out g SUCCESS (mem_guarded_byte_size g source (mlength source) 0) 0
        in
        if has CRITICAL status then (deliver g status, m)
        else if source_bytes mod single_element_size m \<noteq> 0 then (deliver g FAILURE, m)
        else
          let (status, m) =
                mem_core_buffer g heap mode m source_bytes
                  (case data source of
                     None \<Rightarrow> NULL_source
                   | Some buf \<Rightarrow> if source_or_self = None then Inside 0 else External buf)
          in (deliver g status, m))"

section \<open>Strings\<close>

text \<open>The alias check: \<open>None\<close> rejects the source; a result names the remaining visible elements.\<close>

definition alias_check ::
  "source_mode \<Rightarrow> memory \<Rightarrow> u64 \<Rightarrow> u64 \<Rightarrow> u64 \<Rightarrow> u64 option" where
  "alias_check mode m destination_bytes source_offset source_range_bytes =
     (if source_offset mod single_element_size m \<noteq> 0 then None
      else
        let source_offset_elements = source_offset div single_element_size m in
        case mode of
          SOURCE_UNBOUNDED_STRING \<Rightarrow>
            if source_offset \<ge> destination_bytes then None
            else if source_offset_elements > string_length m then None
            else Some (string_length m - source_offset_elements)
        | SOURCE_BOUNDED_STRING \<Rightarrow>
            if source_offset > destination_bytes then None
            else if source_offset_elements > string_length m then None
            else Some (string_length m - source_offset_elements)
        | SOURCE_FIXED_STRING \<Rightarrow>
            if source_offset > destination_bytes
               \<or> source_range_bytes > destination_bytes - source_offset then None
            else if source_offset_elements > string_length m then None
            else Some (string_length m - source_offset_elements))"

text \<open>The visible length of the source in elements.\<close>

definition measure_source ::
  "'a globals_scheme \<Rightarrow> ret \<Rightarrow> source_mode \<Rightarrow> memory \<Rightarrow> u64 option \<Rightarrow> u64 \<Rightarrow> source_pointer \<Rightarrow> ret \<times> u64" where
  "measure_source g status mode m remaining_visible_elements source_range_bytes source_string =
     (let view = source_view (block_of m) source_string in
      case mode of
        SOURCE_BOUNDED_STRING \<Rightarrow>
          (case remaining_visible_elements of
             Some remaining \<Rightarrow> (status, min (source_range_bytes div single_element_size m) remaining)
           | None \<Rightarrow>
               let (status, out) = run_out g status
                     (mem_string_measure_length g (Some view) source_range_bytes
                        (single_element_size m) True 0 False) (0, False)
               in (status, fst out))
      | SOURCE_UNBOUNDED_STRING \<Rightarrow>
          (case remaining_visible_elements of
             Some remaining \<Rightarrow> (status, remaining)
           | None \<Rightarrow>
               let (status, out) = run_out g status
                     (mem_string_measure_length g (Some view) 0
                        (single_element_size m) False 0 False) (0, False)
               in (status, fst out))
      | SOURCE_FIXED_STRING \<Rightarrow> (status, source_range_bytes div single_element_size m - 1))"

text \<open>The transfer of an aliased source to the front of its own block.\<close>

definition replace_inside ::
  "'a globals_scheme \<Rightarrow> heap \<Rightarrow> ret \<Rightarrow> memory \<Rightarrow> u64 \<Rightarrow> u64 \<Rightarrow> u64 \<Rightarrow> u64 \<Rightarrow> ret \<times> memory" where
  "replace_inside g heap status m source_offset source_bytes source_length new_total_elements =
     (case data m of
        None \<Rightarrow> (FAILURE, m)
      | Some buf \<Rightarrow>
          let m = (if source_bytes > 0
                   then m\<lparr>data := Some (c_memmove buf 0 (drop (unat source_offset) buf) source_bytes)\<rparr>
                   else m);
              (status, m) = run_out g status (mem_write_zero_terminator g m source_length) m
          in if has TRIUMPH status then
               let m = m\<lparr>string_length := source_length\<rparr>
               in run_out g status (mem_resize g heap m new_total_elements 0) m
             else (status, m))"

text \<open>Every other transfer: resize first, then move the source bytes behind the kept text.\<close>

definition resize_and_move ::
  "'a globals_scheme \<Rightarrow> heap \<Rightarrow> ret \<Rightarrow> memory \<Rightarrow> source_pointer \<Rightarrow> u64 \<Rightarrow> u64 \<Rightarrow> u64 \<Rightarrow> u64 \<Rightarrow> ret \<times> memory" where
  "resize_and_move g heap status m source_string offset_bytes source_bytes visible_string_length
       new_total_elements =
     (let (status, m) = run_out g status (mem_resize g heap m new_total_elements 0) m
      in if has TRIUMPH status then
           case data m of
             None \<Rightarrow> (FAILURE, m)
           | Some buf \<Rightarrow>
               let m = (if source_bytes > 0
                        then m\<lparr>data := Some (c_memmove buf offset_bytes
                                        (source_view buf source_string) source_bytes)\<rparr>
                        else m);
                   (status, m) =
                     run_out g status (mem_write_zero_terminator g m visible_string_length) m
               in if has TRIUMPH status
                  then (status, m\<lparr>string_length := visible_string_length\<rparr>)
                  else (status, m)
         else (status, m))"

definition mem_core_string ::
  "'a globals_scheme \<Rightarrow> heap \<Rightarrow> source_mode \<Rightarrow> transfer_mode \<Rightarrow> memory \<Rightarrow> u64 \<Rightarrow> source_pointer
   \<Rightarrow> ret \<times> memory" where
  "mem_core_string g heap mode transfer m source_range_bytes source_string =
     (if mlength m > 0 \<and> data m = None then (deliver g FAILURE, m)
      else if single_element_size m = 0 then (deliver g FAILURE, m)
      else if \<not> is_string m then (deliver g FAILURE, m)
      else if source_string = NULL_source \<and> transfer = TRANSFER_APPEND then (deliver g SUCCESS, m)
      else if source_string \<noteq> NULL_source \<and> mode \<noteq> SOURCE_UNBOUNDED_STRING
              \<and> source_range_bytes mod single_element_size m \<noteq> 0 then (deliver g FAILURE, m)
      else if mode \<noteq> SOURCE_UNBOUNDED_STRING \<and> source_range_bytes = 0
              \<and> transfer = TRANSFER_APPEND then (deliver g SUCCESS, m)
      else
        let source_is_effectively_empty =
              source_string = NULL_source
              \<or> mode \<noteq> SOURCE_UNBOUNDED_STRING \<and> source_range_bytes = 0;
            (status, destination_bytes) =
              (if \<not> source_is_effectively_empty
               then run_out g SUCCESS (mem_guarded_byte_size g m (mlength m) 0) 0
               else (SUCCESS, 0));
            inside = (if \<not> source_is_effectively_empty \<and> has TRIUMPH status
                      then inside_offset m source_string else None);
            remaining = (case inside of
                           None \<Rightarrow> None
                         | Some source_offset \<Rightarrow>
                             alias_check mode m destination_bytes source_offset source_range_bytes)
        in
        if inside \<noteq> None \<and> remaining = None then (deliver g FAILURE, m)
        else
          let (status, source_length) =
                (if has TRIUMPH status \<and> \<not> source_is_effectively_empty
                 then measure_source g status mode m remaining source_range_bytes source_string
                 else (status, 0))
          in
          if has TRIUMPH status \<and> transfer = TRANSFER_APPEND \<and> source_length = 0
          then (deliver g status, m)
          else
            let (status, destination_length) =
                  (if transfer = TRANSFER_APPEND
                   then run_out g status (mem_string_length g m 0) 0 else (status, 0));
                (status, visible_string_length) =
                  (if has TRIUMPH status \<and> transfer = TRANSFER_APPEND
                   then run_out g status
                          (mem_guarded_add g destination_length source_length source_length) source_length
                   else (status, source_length));
                (status, new_total_elements) =
                  (if has TRIUMPH status
                   then run_out g status (mem_guarded_add g visible_string_length 1 0) 0
                   else (status, 0));
                (status, offset_bytes) =
                  (if transfer = TRANSFER_APPEND
                   then run_out g status (mem_guarded_byte_size g m destination_length 0) 0
                   else (status, 0));
                (status, source_bytes) =
                  run_out g status (mem_guarded_byte_size g m source_length 0) 0;
                (status, m) =
                  (case inside of
                     Some source_offset \<Rightarrow>
                       if has TRIUMPH status \<and> transfer = TRANSFER_REPLACE
                       then replace_inside g heap status m source_offset source_bytes source_length
                              new_total_elements
                       else resize_and_move g heap status m source_string offset_bytes source_bytes
                              visible_string_length new_total_elements
                   | None \<Rightarrow>
                       resize_and_move g heap status m source_string offset_bytes source_bytes
                         visible_string_length new_total_elements)
            in (deliver g status, m))"

section \<open>Public entry points\<close>

definition mem_concat_bounded_string where
  "mem_concat_bounded_string g heap m source_limit_bytes source_string =
     mem_core_string g heap SOURCE_BOUNDED_STRING TRANSFER_APPEND m source_limit_bytes source_string"

definition mem_concat_unbounded_string where
  "mem_concat_unbounded_string g heap m source_string =
     mem_core_string g heap SOURCE_UNBOUNDED_STRING TRANSFER_APPEND m 0 source_string"

definition mem_concat_fixed_string where
  "mem_concat_fixed_string g heap m source_size_bytes source =
     mem_core_string g heap SOURCE_FIXED_STRING TRANSFER_APPEND m source_size_bytes source"

definition mem_copy_bounded_string where
  "mem_copy_bounded_string g heap m source_limit_bytes source_string =
     mem_core_string g heap SOURCE_BOUNDED_STRING TRANSFER_REPLACE m source_limit_bytes source_string"

definition mem_copy_unbounded_string where
  "mem_copy_unbounded_string g heap m source_string =
     mem_core_string g heap SOURCE_UNBOUNDED_STRING TRANSFER_REPLACE m 0 source_string"

definition mem_copy_fixed_string where
  "mem_copy_fixed_string g heap m source_size_bytes source =
     mem_core_string g heap SOURCE_FIXED_STRING TRANSFER_REPLACE m source_size_bytes source"


definition mem_concat_data where
  "mem_concat_data g heap m source = mem_core_data g heap TRANSFER_APPEND m source"

definition mem_copy_data where
  "mem_copy_data g heap m source = mem_core_data g heap TRANSFER_REPLACE m source"

definition mem_concat_buffer where
  "mem_concat_buffer g heap m source_buffer_size_bytes source_buffer =
     mem_core_buffer g heap TRANSFER_APPEND m source_buffer_size_bytes source_buffer"

definition mem_copy_buffer where
  "mem_copy_buffer g heap m source_buffer_size_bytes source_buffer =
     mem_core_buffer g heap TRANSFER_REPLACE m source_buffer_size_bytes source_buffer"

text \<open>The source of a descriptor-to-descriptor operation: another descriptor or the destination.\<close>

definition descriptor_of :: "memory \<Rightarrow> memory option \<Rightarrow> memory" where
  "descriptor_of m source_or_self = (case source_or_self of None \<Rightarrow> m | Some other \<Rightarrow> other)"

definition descriptor_pointer :: "memory \<Rightarrow> memory option \<Rightarrow> source_pointer" where
  "descriptor_pointer m source_or_self =
     (case data (descriptor_of m source_or_self) of
        None \<Rightarrow> NULL_source
      | Some buf \<Rightarrow> if source_or_self = None then Inside 0 else External buf)"

definition inconsistent_string :: "memory \<Rightarrow> bool" where
  "inconsistent_string m \<longleftrightarrow>
     mlength m = 0 \<and> string_length m \<noteq> 0 \<or> mlength m > 0 \<and> string_length m \<ge> mlength m"

definition mem_copy ::
  "'a globals_scheme \<Rightarrow> heap \<Rightarrow> memory \<Rightarrow> memory option \<Rightarrow> ret \<times> memory" where
  "mem_copy g heap m source_or_self =
     (let source = descriptor_of m source_or_self in
      if mlength m > 0 \<and> data m = None then (deliver g FAILURE, m)
      else if mlength source > 0 \<and> data source = None then (deliver g FAILURE, m)
      else if single_element_size m = 0 then (deliver g FAILURE, m)
      else if single_element_size source = 0 then (deliver g FAILURE, m)
      else if is_string m \<noteq> is_string source then (deliver g FAILURE, m)
      else if is_string m then
        if single_element_size m \<noteq> single_element_size source then (deliver g FAILURE, m)
        else if inconsistent_string source then (deliver g FAILURE, m)
        else
          let (status, source_total_elements) =
                run_out g SUCCESS (mem_guarded_add g (string_length source) 1 0) 0;
              (status, source_size_bytes) =
                run_out g status (mem_guarded_byte_size g source source_total_elements 0) 0;
              (status, m) =
                run_out g status
                  (mem_copy_fixed_string g heap m source_size_bytes (descriptor_pointer m source_or_self)) m
          in (deliver g status, m)
      else
        let (status, m) = run_out g SUCCESS (mem_copy_data g heap m source_or_self) m
        in (deliver g status, m))"

definition mem_concat_strings ::
  "'a globals_scheme \<Rightarrow> heap \<Rightarrow> memory \<Rightarrow> memory option \<Rightarrow> ret \<times> memory" where
  "mem_concat_strings g heap m source_or_self =
     (let source = descriptor_of m source_or_self in
      if mlength source > 0 \<and> data source = None then (deliver g FAILURE, m)
      else if \<not> is_string m \<or> \<not> is_string source then (deliver g FAILURE, m)
      else if single_element_size m \<noteq> single_element_size source then (deliver g FAILURE, m)
      else if inconsistent_string m then (deliver g FAILURE, m)
      else if inconsistent_string source then (deliver g FAILURE, m)
      else
        let (status, source_total_elements) =
              run_out g SUCCESS (mem_guarded_add g (string_length source) 1 0) 0;
            (status, source_size_bytes) =
              run_out g status (mem_guarded_byte_size g source source_total_elements 0) 0;
            (status, m) =
              run_out g status
                (mem_core_string g heap SOURCE_FIXED_STRING TRANSFER_APPEND m source_size_bytes
                   (descriptor_pointer m source_or_self)) m
        in (deliver g status, m))"

section \<open>Mode conversions and views\<close>

definition mem_convert_data_to_string ::
  "'a globals_scheme \<Rightarrow> heap \<Rightarrow> memory \<Rightarrow> ret \<times> memory" where
  "mem_convert_data_to_string g heap m =
     (if mlength m > 0 \<and> data m = None then (deliver g FAILURE, m)
      else if \<not> is_string m \<and> string_length m \<noteq> 0 then (deliver g FAILURE, m)
      else if single_element_size m = 0 then (deliver g FAILURE, m)
      else if is_string m \<and> mlength m = 0 \<and> string_length m \<noteq> 0 then (deliver g FAILURE, m)
      else if is_string m \<and> mlength m > 0 \<and> string_length m \<ge> mlength m then (deliver g FAILURE, m)
      else if is_string m then (deliver g SUCCESS, m)
      else if mlength m = 0 then
        (deliver g SUCCESS, m\<lparr>string_length := 0, is_string := True\<rparr>)
      else
        let (status, measured_length) = run_out g SUCCESS (mem_find_zero_terminator g m 0) 0;
            (status, required_elements) =
              run_out g status (mem_guarded_add g measured_length 1 0) 0;
            (status, m) =
              (if has TRIUMPH status \<and> mlength m < required_elements
               then run_out g status (mem_resize g heap m required_elements 0) m
               else (status, m));
            (status, m) =
              (if has TRIUMPH status then
                 case data m of
                   None \<Rightarrow> (FAILURE, m)
                 | Some _ \<Rightarrow>
                     let (status, m) =
                           run_out g status (mem_write_zero_terminator g m measured_length) m
                     in (status, m\<lparr>string_length := measured_length, is_string := True\<rparr>)
               else (status, m))
        in (deliver g status, m))"

definition mem_convert_string_to_data :: "'a globals_scheme \<Rightarrow> memory \<Rightarrow> ret \<times> memory" where
  "mem_convert_string_to_data g m =
     (let status = (if mlength m > 0 \<and> data m = None then FAILURE else SUCCESS);
          (status, m) =
            (if has TRIUMPH status \<and> is_string m then
               let status = (if single_element_size m = 0 then FAILURE else status);
                   status = (if has TRIUMPH status \<and> single_element_size m \<noteq> 1 then FAILURE else status)
               in if has TRIUMPH status \<and> mlength m > 0 \<and> string_length m = mlength m - 1 then
                    case data m of
                      None \<Rightarrow> (FAILURE, m)
                    | Some buf \<Rightarrow>
                        let (status, terminator_offset) =
                              run_out g status (mem_guarded_byte_size g m (mlength m - 1) 0) 0;
                            trailing_terminator_is_zero =
                              has TRIUMPH status
                              \<and> mem_is_zero_element (Some (drop (unat terminator_offset) buf))
                                   (single_element_size m)
                        in (status,
                            if trailing_terminator_is_zero
                            then m\<lparr>mlength := mlength m - 1\<rparr> else m)
                  else (status, m)
             else (status, m));
          m = (if has TRIUMPH status then m\<lparr>string_length := 0, is_string := False\<rparr> else m)
      in (deliver g status, m))"

text \<open>
  The soft string view: the block, or the static empty string when the descriptor is not a
  consistent string.
\<close>

definition mem_string :: "memory \<Rightarrow> bytes" where
  "mem_string m =
     (if single_element_size m = 0 then [0]
      else if \<not> is_string m then [0]
      else
        case data m of
          None \<Rightarrow> [0]
        | Some buf \<Rightarrow>
            if mlength m = 0 then [0]
            else if string_length m \<ge> mlength m then [0]
            else buf)"

definition mem_data_readonly :: "'a globals_scheme \<Rightarrow> memory \<Rightarrow> u64 \<Rightarrow> bytes option" where
  "mem_data_readonly g m expected_single_element_size =
     (if single_element_size m = 0 then None
      else if data m = None \<and> actually_allocated_bytes m > 0 then None
      else if mlength m > 0 \<and> data m = None then None
      else
        let (guarded_status, current_payload_bytes) = mem_guarded_byte_size g m (mlength m) 0 in
        if \<not> has TRIUMPH guarded_status then None
        else if mlength m > 0 \<and> actually_allocated_bytes m < current_payload_bytes then None
        else if single_element_size m \<noteq> expected_single_element_size then None
        else data m)"

definition mem_array_item_readonly ::
  "'a globals_scheme \<Rightarrow> memory \<Rightarrow> u64 \<Rightarrow> u64 \<Rightarrow> bytes option" where
  "mem_array_item_readonly g m index expected_single_element_size =
     (if index \<ge> mlength m then None
      else
        case mem_data_readonly g m expected_single_element_size of
          None \<Rightarrow> None
        | Some item_data \<Rightarrow> Some (drop (unat (index * expected_single_element_size)) item_data))"

definition mem_raw_data_readonly :: "memory \<Rightarrow> bytes option" where
  "mem_raw_data_readonly m =
     (if single_element_size m = 0 then None
      else if data m = None \<and> actually_allocated_bytes m > 0 then None
      else if mlength m > 0 \<and> data m = None then None
      else data m)"


end
