(* ===== verification/Mem_Text.thy ===== *)
theory Mem_Text
  imports Mem_Transfer
begin

text \<open>
  What the transfers of \<open>Mem_Transfer\<close> do to the visible text: measuring a source, the
  aliasing cases, appending and replacing, raw buffers, the conversion to a string, and the
  behaviour of a transfer that starts after an interrupt.
\<close>

section \<open>Transferring into a resized block\<close>

lemma unat_Suc_word:
  assumes "unat (v :: u64) + 1 < 2 ^ 64"
  shows "unat (v + 1) = unat v + 1" "v < v + 1" "v + 1 \<noteq> 0"
proof -
  show u: "unat (v + 1) = unat v + 1" using assms by (simp add: unat_word_ariths)
  show "v < v + 1" by (simp add: word_less_nat_alt u)
  show "v + 1 \<noteq> 0" using u by (metis unat_0 add_is_0 one_neq_zero)
qed

lemma resized_block:
  assumes "resized m n m'" "n \<noteq> 0"
  obtains buf where "data m' = Some buf" "length buf = unat (actually_allocated_bytes m')"
    "unat n * unat (single_element_size m) \<le> length buf"
    "take (kept_bytes m n) buf = take (kept_bytes m n) (block_of m)"
  using assms that by (auto simp: resized_def valid_def reserved_def block_of_def split: option.splits)

lemma visible_text_block:
  assumes "valid m" "is_string m"
  shows "visible_text m = take (unat (string_length m) * unat (single_element_size m)) (block_of m)"
  by (simp add: visible_text_def block_of_def split: option.splits)

lemma length_visible_text_eq:
  assumes "valid m" "is_string m"
  shows "length (visible_text m) = unat (string_length m) * unat (single_element_size m)"
proof (cases "mlength m = 0")
  case True
  then show ?thesis using assms by (auto simp: valid_def visible_text_def split: option.splits)
next
  case False
  then have lt: "string_length m < mlength m" and res: "reserved m" using assms by (auto simp: valid_def)
  from index_inside [OF res lt] show ?thesis
    using res by (auto simp: visible_text_def reserved_def)
qed

text \<open>
  Moving \<open>t\<close> behind the first \<open>O\<close> elements of the kept text and terminating at \<open>V\<close>.
\<close>

lemma resize_and_move_ok:
  assumes g: "quiet g" and v: "valid m" "is_string m"
    and V: "unat V + 1 < 2 ^ 64" "unat keep + unat L = unat V" "keep \<le> string_length m"
    and off: "unat off = unat keep * unat (single_element_size m)"
    and sb: "unat sb = unat L * unat (single_element_size m)"
    and t: "length t = unat sb"
    and view: "\<And>buf. take (kept_bytes m (V + 1)) buf = take (kept_bytes m (V + 1)) (block_of m)
        \<Longrightarrow> take (unat sb) (source_view buf src) = t"
  shows "resize_and_move g heap SUCCESS m src off sb V (V + 1) = (FAILURE, m) \<and> \<not> can_allocate heap m (V + 1)
    \<or> (\<exists>m'. resize_and_move g heap SUCCESS m src off sb V (V + 1) = (SUCCESS, m') \<and> valid m' \<and> is_string m'
          \<and> single_element_size m' = single_element_size m
          \<and> visible_text m' = take (unat off) (visible_text m) @ t)"
proof (cases rule: mem_resize_spec [OF g v(1), of heap "V + 1" 0, case_names failed ok])
  case failed
  then show ?thesis using g by (simp add: resize_and_move_def)
next
  case (ok m1)
  let ?k = "unat (single_element_size m)"
  note su = unat_Suc_word [OF V(1)]
  obtain buf where buf: "data m1 = Some buf" "length buf = unat (actually_allocated_bytes m1)"
    "(unat V + 1) * ?k \<le> length buf"
    "take (kept_bytes m (V + 1)) buf = take (kept_bytes m (V + 1)) (block_of m)"
    using resized_block [OF ok(2) su(3)] su(1) by metis
  have k1: "single_element_size m1 = single_element_size m" "is_string m1" "mlength m1 = V + 1" "valid m1"
    using ok(2) v(2) by (auto simp: resized_def)
  define b2 where "b2 = write_at buf off t"
  define m2 where "m2 = m1\<lparr>data := Some b2\<rparr>"
  have fit: "unat off + length t \<le> length buf"
    using buf(3) V(2) by (simp add: off sb t flip: distrib_right)
  have len2: "length b2 = length buf" using fit by (simp add: b2_def)
  have res2: "reserved m2" using k1 buf len2 by (auto simp: m2_def valid_def reserved_def)
  have in2: "(unat V + 1) * unat (single_element_size m2) \<le> unat (actually_allocated_bytes m2)"
    using buf k1 by (simp add: m2_def)
  have w: "mem_write_zero_terminator g m2 V = (SUCCESS, put_terminator m2 V)"
    by (rule write_terminator_ok [OF g res2 _ in2]) (simp add: m2_def)
  have vw: "take (unat sb) (source_view buf src) = t" by (rule view) (rule buf(4))
  have m2: "(if sb > 0 then m1\<lparr>data := Some (c_memmove buf off (source_view buf src) sb)\<rparr> else m1) = m2"
  proof (cases "sb > 0")
    case False
    then have "t = []" using t by (simp add: word_neq_0_conv [symmetric])
    then have "b2 = buf" by (simp add: b2_def write_at_def)
    then show ?thesis using False buf(1) by (simp add: m2_def)
  qed (simp add: m2_def b2_def c_memmove_def vw)
  have run: "resize_and_move g heap SUCCESS m src off sb V (V + 1)
      = (SUCCESS, (put_terminator m2 V)\<lparr>string_length := V\<rparr>)"
    using g ok(1) buf(1) w by (simp add: resize_and_move_def m2 Let_def)
  have valid: "valid ((put_terminator m2 V)\<lparr>string_length := V\<rparr>)"
    using put_terminator_reserved [OF res2 in2 g] put_terminator_terminated [OF res2 in2 g] k1 su(2)
    by (simp add: valid_def m2_def)
  have "visible_text ((put_terminator m2 V)\<lparr>string_length := V\<rparr>) = take (unat V * ?k) b2"
  proof -
    have "unat (single_element_size m * V) = unat V * ?k"
      using element_inside(2) [OF g res2 in2] k1 by (simp add: m2_def)
    then show ?thesis
      using take_write_at(1) [of "single_element_size m * V" "replicate ?k 0" b2 "unat V * ?k"]
        buf(3) len2 k1 by (simp add: visible_text_def put_terminator_def m2_def algebra_simps)
  qed
  also have "unat V * ?k = unat off + length t"
    using V(2) by (simp add: off sb t flip: distrib_right)
  also have "take (unat off + length t) b2 = take (unat off) buf @ t"
    using fit take_write_at(3) by (simp add: b2_def)
  also have "take (unat off) buf = take (unat off) (visible_text m)"
  proof -
    have "unat off \<le> kept_bytes m (V + 1)"
      using V v(2) su(1) unfolding off kept_bytes_def
      by (intro mult_le_mono1) (auto simp: word_le_nat_alt)
    then have "take (unat off) buf = take (unat off) (block_of m)"
      using arg_cong [OF buf(4), of "take (unat off)"] by (simp add: min_def)
    moreover have "unat off \<le> unat (string_length m) * ?k"
      using V(3) unfolding off by (intro mult_le_mono1) (simp add: word_le_nat_alt)
    ultimately show ?thesis by (simp add: visible_text_block [OF v] min_def)
  qed
  finally show ?thesis using run valid k1 by (simp add: m2_def)
qed


lemma resized_visible_text:
  assumes "resized m n m'" "valid m" "is_string m" "string_length m < n"
  shows "visible_text m' = visible_text m" "string_length m' = string_length m"
proof -
  have n: "\<not> n \<le> string_length m" "n \<noteq> 0" using assms(4) by auto
  have m': "string_length m' = string_length m" "valid m'" "is_string m'"
    "single_element_size m' = single_element_size m"
    using assms n by (auto simp: resized_def)
  have "take (unat (string_length m) * unat (single_element_size m)) (block_of m')
      = take (unat (string_length m) * unat (single_element_size m)) (block_of m)"
    using assms n by (simp add: resized_def kept_bytes_def)
  then show "visible_text m' = visible_text m"
    by (simp add: visible_text_block [OF assms(2,3)] visible_text_block [OF m'(2,3)] m')
  show "string_length m' = string_length m" by (rule m')
qed

lemma replace_inside_ok:
  assumes g: "quiet g" and v: "valid m" "is_string m" "data m = Some buf" "string_length m < mlength m"
    and L: "L \<le> string_length m"
    and sb: "unat sb = unat L * unat (single_element_size m)"
    and inside: "unat off + unat sb \<le> unat (string_length m) * unat (single_element_size m)"
  shows "\<exists>status m'. replace_inside g heap SUCCESS m off sb L (L + 1) = (status, m') \<and> valid m' \<and> is_string m'
      \<and> single_element_size m' = single_element_size m
      \<and> visible_text m' = take (unat sb) (drop (unat off) (visible_text m))
      \<and> (status = SUCCESS \<or> status = FAILURE \<and> \<not> can_allocate heap m (L + 1))"
proof -
  let ?k = "unat (single_element_size m)"
  let ?t = "take (unat sb) (drop (unat off) buf)"
  have res: "reserved m" using v by (simp add: valid_def)
  have len: "length buf = unat (actually_allocated_bytes m)" using res v(3) by (simp add: reserved_def)
  have Llt: "L < mlength m" using L v(4) by (rule le_less_trans)
  have top: "unat (string_length m) * ?k \<le> length buf"
    using index_inside(1) [OF res v(4)] len by simp
  have lt: "length ?t = unat sb" using inside top by simp
  define b1 where "b1 = write_at buf 0 ?t"
  define m1 where "m1 = m\<lparr>data := Some b1\<rparr>"
  have len1: "length b1 = length buf" using lt inside top by (simp add: b1_def)
  have res1: "reserved m1" using res v(3) len1 by (simp add: m1_def reserved_def)
  have in1: "(unat L + 1) * unat (single_element_size m1) \<le> unat (actually_allocated_bytes m1)"
    using index_inside(1) [OF res Llt] by (simp add: m1_def)
  have w: "mem_write_zero_terminator g m1 L = (SUCCESS, put_terminator m1 L)"
    by (rule write_terminator_ok [OF g res1 _ in1]) (simp add: m1_def)
  have e1: "(if sb > 0 then m\<lparr>data := Some (c_memmove buf 0 (drop (unat off) buf) sb)\<rparr> else m) = m1"
  proof (cases "sb > 0")
    case False
    then have "b1 = buf" by (simp add: b1_def write_at_def word_neq_0_conv [symmetric])
    then show ?thesis using False v(3) by (simp add: m1_def)
  qed (simp add: m1_def b1_def c_memmove_def)
  define m2 where "m2 = (put_terminator m1 L)\<lparr>string_length := L\<rparr>"
  have m2: "valid m2" "is_string m2" "single_element_size m2 = single_element_size m" "string_length m2 = L"
    using put_terminator_reserved [OF res1 in1 g] put_terminator_terminated [OF res1 in1 g] v(2) Llt
    by (auto simp: m2_def valid_def m1_def)
  have text2: "visible_text m2 = take (unat sb) (drop (unat off) (visible_text m))"
  proof -
    have "unat (single_element_size m * L) = unat L * ?k"
      using element_inside(2) [OF g res1 in1] by (simp add: m1_def)
    then have "visible_text m2 = take (unat sb) b1"
      using take_write_at(1) [of "single_element_size m * L" "replicate ?k 0" b1 "unat sb"] in1 len1 len
      by (simp add: visible_text_def m2_def put_terminator_def m1_def sb algebra_simps)
    also have "\<dots> = ?t"
      using take_write_at(3) [of 0 ?t buf] lt inside top by (simp add: b1_def)
    also have "\<dots> = take (unat sb) (drop (unat off) (visible_text m))"
      using inside by (simp add: visible_text_def v(3) take_drop min_def)
    finally show ?thesis .
  qed
  have can: "can_allocate heap m2 (L + 1) = can_allocate heap m (L + 1)"
    by (simp add: can_allocate_def m2)
  have step: "replace_inside g heap SUCCESS m off sb L (L + 1)
      = run_out g SUCCESS (mem_resize g heap m2 (L + 1) 0) m2"
    using g v(3) w by (simp add: replace_inside_def e1 m2_def Let_def)
  show ?thesis
  proof (cases rule: mem_resize_spec [OF g m2(1), of heap "L + 1" 0, case_names failed ok])
    case failed
    then show ?thesis using step g m2 text2 can by simp
  next
    case (ok m3)
    have "unat L + 1 < 2 ^ 64"
      using Llt lt_word_max [of "mlength m"] by (simp add: word_less_nat_alt)
    then have "L < L + 1" by (rule unat_Suc_word)
    then have "visible_text m3 = visible_text m2"
      using resized_visible_text(1) [OF ok(2) m2(1,2)] m2(4) by simp
    then show ?thesis using step g ok m2 text2 by (auto simp: resized_def)
  qed
qed

section \<open>Measuring a source\<close>

lemma bounded_scan_le: "fst (bounded_scan k view) * unat k \<le> length view"
proof (induction k view rule: bounded_scan.induct)
  case (1 k view)
  show ?case
  proof (cases "k \<noteq> 0 \<and> unat k \<le> length view \<and> \<not> mem_is_zero_element (Some view) k")
    case True
    then have "fst (bounded_scan k view) = Suc (fst (bounded_scan k (drop (unat k) view)))"
      by (subst bounded_scan.simps) (simp add: case_prod_beta)
    then show ?thesis using 1 True by simp linarith
  next
    case False
    then have "fst (bounded_scan k view) = 0"
      by (subst bounded_scan.simps) (auto simp: case_prod_beta)
    then show ?thesis by simp
  qed
qed

lemma bounded_scan_bytes: "bounded_scan 1 view = (length (takeWhile (\<lambda>b. b \<noteq> 0) view), 0 \<in> set view)"
proof (induction view)
  case Nil
  then show ?case by (subst bounded_scan.simps) simp
next
  case (Cons b view)
  then show ?case
    by (subst bounded_scan.simps) (auto simp: mem_is_zero_element_def)
qed

lemma takeWhile_length_less: "length (takeWhile P xs) < length xs \<longleftrightarrow> (\<exists>x \<in> set xs. \<not> P x)"
  by (induction xs) auto

text \<open>The libc fast paths for byte strings agree with the element loop.\<close>

lemma measure_length_bounded:
  assumes "quiet g" "k \<noteq> 0" "unat rb \<le> length view"
  shows "mem_string_measure_length g (Some view) rb k True x b
    = (SUCCESS, of_nat (fst (bounded_scan k (take (unat rb) view))),
       snd (bounded_scan k (take (unat rb) view)))"
proof (cases "k = 1")
  case True
  let ?v = "take (unat rb) view"
  have n: "length ?v = unat rb" using assms(3) by simp
  show ?thesis
  proof (cases "0 \<in> set ?v")
    case in_v: True
    then have "length (takeWhile (\<lambda>b. b \<noteq> 0) ?v) < unat rb"
      using takeWhile_length_less [of "\<lambda>b. b \<noteq> 0" ?v] n by auto
    then show ?thesis
      using assms True n in_v
      by (simp add: mem_string_measure_length_def c_memchr_zero_def Let_def bounded_scan_bytes)
  next
    case notin: False
    then have "takeWhile (\<lambda>b. b \<noteq> 0) ?v = ?v" by (auto simp: takeWhile_eq_all_conv)
    then have "length (takeWhile (\<lambda>b. b \<noteq> 0) ?v) = unat rb" using n by (rule ssubst)
    then show ?thesis
      using assms True n notin
      by (simp add: mem_string_measure_length_def c_memchr_zero_def Let_def bounded_scan_bytes)
  qed
next
  case False
  then show ?thesis using assms by (simp add: mem_string_measure_length_def case_prod_beta)
qed

lemma measure_length_unbounded:
  assumes "quiet g" "k \<noteq> 0"
  shows "mem_string_measure_length g (Some view) rb k False x b
    = (SUCCESS, of_nat (fst (bounded_scan k view)), True)"
  using assms by (cases "k = 1")
    (simp_all add: mem_string_measure_length_def c_strlen_def bounded_scan_bytes)

section \<open>The text a string transfer moves\<close>

text \<open>
  The visible text a source stands for, \<open>None\<close> when the call is outside the contract: an
  external range must be readable (or terminated, in unbounded mode), an aliased source must
  start at an element of the visible text, and a fixed range must not reach past the
  terminator.
\<close>

definition source_text :: "memory \<Rightarrow> source_mode \<Rightarrow> u64 \<Rightarrow> source_pointer \<Rightarrow> bytes option" where
  "source_text m mode rb source =
     (let k = unat (single_element_size m) in
      if source = NULL_source \<or> mode \<noteq> SOURCE_UNBOUNDED_STRING \<and> rb = 0 then Some []
      else if mode \<noteq> SOURCE_UNBOUNDED_STRING \<and> unat rb mod k \<noteq> 0 then None
      else
        case source of
          NULL_source \<Rightarrow> Some []
        | External view \<Rightarrow>
            (case mode of
               SOURCE_UNBOUNDED_STRING \<Rightarrow>
                 if snd (bounded_scan (single_element_size m) view) \<and> length view < 2 ^ 64
                 then Some (take (fst (bounded_scan (single_element_size m) view) * k) view) else None
             | SOURCE_BOUNDED_STRING \<Rightarrow>
                 if unat rb \<le> length view
                 then Some (take (fst (bounded_scan (single_element_size m) (take (unat rb) view)) * k) view)
                 else None
             | SOURCE_FIXED_STRING \<Rightarrow>
                 if unat rb \<le> length view then Some (take (unat rb - k) view) else None)
        | Inside offset \<Rightarrow>
            if mlength m = 0 \<or> unat offset mod k \<noteq> 0 \<or> unat offset > unat (string_length m) * k then None
            else
              (case mode of
                 SOURCE_UNBOUNDED_STRING \<Rightarrow> Some (drop (unat offset) (visible_text m))
               | SOURCE_BOUNDED_STRING \<Rightarrow> Some (take (unat rb) (drop (unat offset) (visible_text m)))
               | SOURCE_FIXED_STRING \<Rightarrow>
                   if unat offset + unat rb \<le> (unat (string_length m) + 1) * k
                   then Some (take (unat rb - k) (drop (unat offset) (visible_text m))) else None))"

lemma word_mod_zero: "(a :: u64) mod b = 0 \<longleftrightarrow> unat a mod unat b = 0"
  by (simp add: unat_mod [symmetric] unat_eq_0)

lemma aliased_inside:
  assumes "valid m" "is_string m" "mlength m \<noteq> 0" "unat off \<le> unat (string_length m) * unat (single_element_size m)"
  shows "inside_offset m (Inside off) = Some off"
    and "unat off < unat (mlength m) * unat (single_element_size m)"
proof -
  have lt: "string_length m < mlength m" and res: "reserved m" and k: "0 < unat (single_element_size m)"
    using assms by (auto simp: valid_def reserved_def unat_gt_0)
  note ins = index_inside [OF res lt]
  have "unat off < unat (actually_allocated_bytes m)"
    using assms(4) ins(1) k by simp
  then show "inside_offset m (Inside off) = Some off"
    using ins(2) by (auto simp: inside_offset_def word_less_nat_alt)
  have "(unat (string_length m) + 1) * unat (single_element_size m)
      \<le> unat (mlength m) * unat (single_element_size m)"
    using lt by (intro mult_le_mono1) (simp add: word_less_nat_alt)
  then show "unat off < unat (mlength m) * unat (single_element_size m)"
    using assms(4) k by simp
qed

lemma alias_check_ok:
  assumes "quiet g" "valid m" "is_string m" "mlength m \<noteq> 0"
    "unat off mod unat (single_element_size m) = 0"
    "unat off \<le> unat (string_length m) * unat (single_element_size m)"
    "mode = SOURCE_FIXED_STRING \<Longrightarrow> unat off + unat rb \<le> (unat (string_length m) + 1) * unat (single_element_size m)"
  shows "alias_check mode m (single_element_size m * mlength m) off rb
    = Some (string_length m - off div single_element_size m)"
    and "unat (string_length m - off div single_element_size m) * unat (single_element_size m)
       = unat (string_length m) * unat (single_element_size m) - unat off"
proof -
  let ?k = "unat (single_element_size m)"
  have lt: "string_length m < mlength m" and res: "reserved m" and k: "0 < ?k"
    using assms by (auto simp: valid_def reserved_def unat_gt_0)
  note ins = aliased_inside [OF assms(2,3,4,6)]
  have d: "unat (single_element_size m * mlength m) = unat (mlength m) * ?k"
    using payload_size_ok(2) [OF assms(1) res] .
  have q: "unat off div ?k * ?k = unat off" using assms(5) by (metis add.right_neutral div_mult_mod_eq)
  have le: "off div single_element_size m \<le> string_length m"
    using assms(6) k by (simp add: word_le_nat_alt unat_div) (metis div_le_mono div_mult_self_is_m)
  have up: "(unat (string_length m) + 1) * ?k \<le> unat (mlength m) * ?k"
    using lt by (intro mult_le_mono1) (simp add: word_less_nat_alt)
  have f: "\<not> rb > single_element_size m * mlength m - off" if "mode = SOURCE_FIXED_STRING"
    using assms(7) [OF that] up ins(2) d by (simp add: word_less_nat_alt unat_sub word_le_nat_alt)
  show "alias_check mode m (single_element_size m * mlength m) off rb
    = Some (string_length m - off div single_element_size m)"
    using assms(5) le ins(2) d f
    by (auto simp: alias_check_def Let_def word_mod_zero word_less_nat_alt not_le not_less word_le_nat_alt
        split: source_mode.splits)
  show "unat (string_length m - off div single_element_size m) * ?k
       = unat (string_length m) * ?k - unat off"
    using le q by (simp add: unat_sub unat_div diff_mult_distrib)
qed


lemma unat_of_nat_count:
  assumes "n * unat (k :: u64) \<le> l" "k \<noteq> 0" "l < 2 ^ 64"
  shows "unat (of_nat n :: u64) = n"
proof -
  have "n \<le> n * unat k" using assms(2) by (simp add: Suc_le_eq unat_gt_0)
  then have "n < 2 ^ 64" using assms(1,3) by linarith
  then show ?thesis by (intro unat_of_nat_small) simp
qed

lemma aligned_div:
  assumes "unat rb mod unat k = 0"
  shows "unat (rb div k :: u64) * unat k = unat rb"
  using assms by (simp add: unat_div) (metis add.right_neutral div_mult_mod_eq)

lemma fixed_count:
  assumes "unat rb mod unat k = 0" "rb \<noteq> (0 :: u64)" "k \<noteq> 0"
  shows "unat (rb div k - 1) * unat k = unat rb - unat k" "unat k \<le> unat rb"
proof -
  have a: "unat (rb div k) * unat k = unat rb" by (rule aligned_div [OF assms(1)])
  then have "unat (rb div k) \<noteq> 0" using assms(2) by (auto simp: unat_eq_0)
  then have b: "1 \<le> unat (rb div k)" by simp
  then have "unat (rb div k - 1) = unat (rb div k) - 1" by (simp add: unat_sub word_le_nat_alt)
  then show "unat (rb div k - 1) * unat k = unat rb - unat k"
    using a by (simp add: diff_mult_distrib)
  show "unat k \<le> unat rb" using a b by (metis mult_le_mono1 mult_1)
qed

definition measures ::
  "'a globals_scheme \<Rightarrow> source_mode \<Rightarrow> memory \<Rightarrow> u64 option \<Rightarrow> u64 \<Rightarrow> source_pointer \<Rightarrow> u64 \<Rightarrow> bytes \<Rightarrow> bool" where
  "measures g mode m remaining rb src L t \<longleftrightarrow>
     measure_source g SUCCESS mode m remaining rb src = (SUCCESS, L)
     \<and> length t = unat L * unat (single_element_size m)
     \<and> (\<forall>buf. take (unat (string_length m) * unat (single_element_size m)) buf
               = take (unat (string_length m) * unat (single_element_size m)) (block_of m)
           \<longrightarrow> take (length t) (source_view buf src) = t)"

lemma measures_external:
  assumes "quiet g" "valid m" "source_text m mode rb (External view) = Some t"
    "mode = SOURCE_UNBOUNDED_STRING \<or> rb \<noteq> 0"
  shows "\<exists>L. measures g mode m None rb (External view) L t"
proof -
  have k: "single_element_size m \<noteq> 0" using assms(2) by (simp add: valid_def reserved_def)
  show ?thesis
  proof (cases mode)
    case SOURCE_BOUNDED_STRING
    let ?n = "fst (bounded_scan (single_element_size m) (take (unat rb) view))"
    have t: "unat rb \<le> length view" "t = take (?n * unat (single_element_size m)) view"
      using assms(3,4) SOURCE_BOUNDED_STRING by (auto simp: source_text_def Let_def split: if_splits)
    have le: "?n * unat (single_element_size m) \<le> unat rb"
      using bounded_scan_le [of "single_element_size m" "take (unat rb) view"] t(1) by simp
    have "unat (of_nat ?n :: u64) = ?n"
      by (rule unat_of_nat_count [OF le k]) (use lt_word_max [of rb] in simp)
    then show ?thesis
      using SOURCE_BOUNDED_STRING t le assms(1) measure_length_bounded [OF assms(1) k t(1)]
      by (intro exI [of _ "of_nat ?n"]) (auto simp: measures_def measure_source_def Let_def)
  next
    case SOURCE_UNBOUNDED_STRING
    let ?n = "fst (bounded_scan (single_element_size m) view)"
    have t: "length view < 2 ^ 64" "t = take (?n * unat (single_element_size m)) view"
      using assms(3) SOURCE_UNBOUNDED_STRING by (auto simp: source_text_def Let_def split: if_splits)
    have le: "?n * unat (single_element_size m) \<le> length view" by (rule bounded_scan_le)
    have "unat (of_nat ?n :: u64) = ?n"
      by (rule unat_of_nat_count [OF le k t(1)])
    then show ?thesis
      using SOURCE_UNBOUNDED_STRING t le assms(1) measure_length_unbounded [OF assms(1) k]
      by (intro exI [of _ "of_nat ?n"]) (auto simp: measures_def measure_source_def Let_def)
  next
    case SOURCE_FIXED_STRING
    have t: "unat rb mod unat (single_element_size m) = 0" "unat rb \<le> length view"
      "t = take (unat rb - unat (single_element_size m)) view" "rb \<noteq> 0"
      using assms(3,4) SOURCE_FIXED_STRING by (auto simp: source_text_def Let_def split: if_splits)
    note fc = fixed_count [OF t(1,4) k]
    show ?thesis
      using SOURCE_FIXED_STRING t fc
      by (intro exI [of _ "rb div single_element_size m - 1"])
        (auto simp: measures_def measure_source_def Let_def)
  qed
qed

lemma measures_inside:
  assumes "quiet g" "valid m" "is_string m" "source_text m mode rb (Inside off) = Some t"
    "mode = SOURCE_UNBOUNDED_STRING \<or> rb \<noteq> 0"
  shows "\<exists>L rem. inside_offset m (Inside off) = Some off
    \<and> alias_check mode m (single_element_size m * mlength m) off rb = Some rem
    \<and> measures g mode m (Some rem) rb (Inside off) L t
    \<and> unat off + length t \<le> unat (string_length m) * unat (single_element_size m)
    \<and> t = take (length t) (drop (unat off) (visible_text m))
    \<and> L \<le> string_length m \<and> string_length m < mlength m"
proof -
  let ?k = "unat (single_element_size m)"
  have k: "single_element_size m \<noteq> 0" "0 < ?k"
    using assms(2) by (auto simp: valid_def reserved_def unat_gt_0)
  have s: "mlength m \<noteq> 0" "unat off mod ?k = 0" "unat off \<le> unat (string_length m) * ?k"
    using assms(4,5) by (auto simp: source_text_def Let_def split: if_splits)
  have sf: "unat off + unat rb \<le> (unat (string_length m) + 1) * ?k" if "mode = SOURCE_FIXED_STRING"
    using assms(4,5) that by (auto simp: source_text_def Let_def split: if_splits)
  have lt: "string_length m < mlength m" using assms(2,3) s(1) by (auto simp: valid_def)
  have lv: "length (visible_text m) = unat (string_length m) * ?k"
    by (rule length_visible_text_eq [OF assms(2,3)])
  define rem where "rem = string_length m - off div single_element_size m"
  note ac = alias_check_ok [where mode = mode and rb = rb, OF assms(1,2,3) s sf, folded rem_def]
  have rb: "unat rb mod ?k = 0" if "mode \<noteq> SOURCE_UNBOUNDED_STRING"
    using assms(4,5) that by (auto simp: source_text_def Let_def split: if_splits)
  define L where "L = (case mode of SOURCE_UNBOUNDED_STRING \<Rightarrow> rem
     | SOURCE_BOUNDED_STRING \<Rightarrow> min (rb div single_element_size m) rem
     | SOURCE_FIXED_STRING \<Rightarrow> rb div single_element_size m - 1)"
  have ms: "measure_source g SUCCESS mode m (Some rem) rb (Inside off) = (SUCCESS, L)"
    by (simp add: measure_source_def L_def split: source_mode.splits)
  have tL: "t = take (unat L * ?k) (drop (unat off) (visible_text m)) \<and> length t = unat L * ?k"
  proof (cases mode)
    case SOURCE_UNBOUNDED_STRING
    then show ?thesis using assms(4) ac(2) lv
      by (auto simp: source_text_def Let_def L_def split: if_splits)
  next
    case SOURCE_BOUNDED_STRING
    have "unat L * ?k = min (unat rb) (unat (string_length m) * ?k - unat off)"
      using SOURCE_BOUNDED_STRING ac(2) aligned_div [OF rb] k(2)
      by (auto simp: L_def min_def word_le_nat_alt) (metis mult_le_mono1, metis mult_le_cancel2 nat_le_linear)
    then show ?thesis using SOURCE_BOUNDED_STRING assms(4,5) lv
      by (auto simp: source_text_def Let_def min_def split: if_splits)
  next
    case SOURCE_FIXED_STRING
    have r: "rb \<noteq> 0" using assms(5) SOURCE_FIXED_STRING by simp
    note fc = fixed_count [OF rb r k(1)]
    show ?thesis
      using SOURCE_FIXED_STRING assms(4,5) lv fc s(3)
      by (auto simp: source_text_def Let_def L_def min_def split: if_splits)
  qed
  have inb: "unat off + unat L * ?k \<le> unat (string_length m) * ?k"
    using tL lv s(3) by (metis (no_types, lifting) add.commute le_diff_conv2 length_drop length_take min.bounded_iff order_refl)
  have "unat L * ?k \<le> unat (string_length m) * ?k" using inb by linarith
  then have Lle: "L \<le> string_length m" using k(2) by (simp add: word_le_nat_alt)
  have "take (length t) (source_view buf (Inside off)) = t"
    if "take (unat (string_length m) * ?k) buf = take (unat (string_length m) * ?k) (block_of m)" for buf
  proof -
    have "take (length t) (drop (unat off) buf)
        = drop (unat off) (take (unat off + length t) (take (unat (string_length m) * ?k) buf))"
      using inb tL by (simp add: take_drop min_def add.commute)
    also have "\<dots> = take (length t) (drop (unat off) (visible_text m))"
      unfolding that visible_text_block [OF assms(2,3), symmetric] by (simp add: take_drop add.commute)
    also have "\<dots> = t" using tL by metis
    finally show ?thesis by simp
  qed
  then show ?thesis
    using ac(1) aliased_inside(1) [OF assms(2,3) s(1,3)] ms tL inb Lle lt
    by (auto simp: measures_def)
qed

section \<open>String transfers\<close>

definition enough :: "heap \<Rightarrow> memory \<Rightarrow> nat \<Rightarrow> bool" where
  "enough heap m n \<longleftrightarrow>
     n + unat (single_element_size m) + 4095 < 2 ^ 64 \<and> (\<forall>bytes. heap bytes \<noteq> None)"

lemma enough_can_allocate:
  assumes "enough heap m (unat V * unat (single_element_size m))" "unat V + 1 < 2 ^ 64"
  shows "can_allocate heap m (V + 1)"
  using assms(1) unfolding can_allocate_def unat_Suc_word(1) [OF assms(2)]
  by (simp add: enough_def distrib_right)

text \<open>The tail of \<open>mem_core_string\<close>, once the source is measured.\<close>

definition transfer_text ::
  "'a globals_scheme \<Rightarrow> heap \<Rightarrow> transfer_mode \<Rightarrow> memory \<Rightarrow> source_pointer \<Rightarrow> u64 option \<Rightarrow> u64 \<Rightarrow> ret \<times> memory" where
  "transfer_text g heap transfer m source_string inside source_length =
     (let (status, destination_length) =
            (if transfer = TRANSFER_APPEND
             then run_out g SUCCESS (mem_string_length g m 0) 0 else (SUCCESS, 0));
          (status, visible_string_length) =
            (if has TRIUMPH status \<and> transfer = TRANSFER_APPEND
             then run_out g status
                    (mem_guarded_add g destination_length source_length source_length) source_length
             else (status, source_length));
          (status, new_total_elements) =
            (if has TRIUMPH status
             then run_out g status (mem_guarded_add g visible_string_length 1 0) 0
             else (status, 0));
          (status, offset_bytes) =
            (if transfer = TRANSFER_APPEND
             then run_out g status (mem_guarded_byte_size g m destination_length 0) 0
             else (status, 0));
          (status, source_bytes) =
            run_out g status (mem_guarded_byte_size g m source_length 0) 0;
          (status, m) =
            (case inside of
               Some source_offset \<Rightarrow>
                 if has TRIUMPH status \<and> transfer = TRANSFER_REPLACE
                 then replace_inside g heap status m source_offset source_bytes source_length
                        new_total_elements
                 else resize_and_move g heap status m source_string offset_bytes source_bytes
                        visible_string_length new_total_elements
             | None \<Rightarrow>
                 resize_and_move g heap status m source_string offset_bytes source_bytes
                   visible_string_length new_total_elements)
      in (deliver g status, m))"

lemma string_guards:
  assumes "valid m"
  shows "\<not> (mlength m > 0 \<and> data m = None)" "single_element_size m \<noteq> 0"
  using assms by (auto simp: valid_def reserved_def split: option.splits)

lemma core_string_empty:
  assumes "quiet g" "valid m" "is_string m"
    "src = NULL_source \<or> mode \<noteq> SOURCE_UNBOUNDED_STRING \<and> rb = 0"
  shows "mem_core_string g heap mode transfer m rb src =
    (if transfer = TRANSFER_APPEND then (SUCCESS, m) else transfer_text g heap transfer m src None 0)"
  using assms string_guards [OF assms(2)]
  by (auto simp: mem_core_string_def transfer_text_def Let_def split: transfer_mode.splits)

lemma core_string_measured:
  assumes "quiet g" "valid m" "is_string m"
    "\<not> (src = NULL_source \<or> mode \<noteq> SOURCE_UNBOUNDED_STRING \<and> rb = 0)"
    "mode = SOURCE_UNBOUNDED_STRING \<or> unat rb mod unat (single_element_size m) = 0"
    "inside_offset m src = None \<and> remaining = None
     \<or> (\<exists>off rem. inside_offset m src = Some off \<and> remaining = Some rem
          \<and> alias_check mode m (single_element_size m * mlength m) off rb = Some rem)"
    "measures g mode m remaining rb src L t"
  shows "mem_core_string g heap mode transfer m rb src =
    (if transfer = TRANSFER_APPEND \<and> L = 0 then (SUCCESS, m)
     else transfer_text g heap transfer m src (inside_offset m src) L)"
proof -
  have res: "reserved m" using assms(2) by (simp add: valid_def)
  have rm: "(case inside_offset m src of None \<Rightarrow> None
      | Some source_offset \<Rightarrow> alias_check mode m (single_element_size m * mlength m) source_offset rb) = remaining"
    "\<not> (inside_offset m src \<noteq> None \<and> remaining = None)"
    using assms(6) by auto
  have al: "\<not> (mode \<noteq> SOURCE_UNBOUNDED_STRING \<and> rb mod single_element_size m \<noteq> 0)"
    using assms(5) by (auto simp: word_mod_zero)
  have ms: "measure_source g SUCCESS mode m remaining rb src = (SUCCESS, L)"
    using assms(7) by (simp add: measures_def)
  have guards: "(mlength m > 0 \<and> data m = None) = False" "(single_element_size m = 0) = False"
    "(\<not> is_string m) = False" "(src = NULL_source) = False"
    "(mode \<noteq> SOURCE_UNBOUNDED_STRING \<and> rb = 0) = False"
    "(mode \<noteq> SOURCE_UNBOUNDED_STRING \<and> rb mod single_element_size m \<noteq> 0) = False"
    "(inside_offset m src \<noteq> None \<and> remaining = None) = False"
    using assms(3,4) string_guards [OF assms(2)] al rm(2) by auto
  have t: "has TRIUMPH SUCCESS" by simp
  show ?thesis
    unfolding mem_core_string_def Let_def guards
    by (simp only: guards if_False if_True simp_thms payload_size_ok(1) [OF assms(1) res] ms t
        quiet_run_out(1) [OF assms(1)] quiet_deliver(1) [OF assms(1)] case_prod_conv rm(1)
        transfer_text_def Let_def conj_assoc [symmetric] cong: if_cong)
qed

lemma length_lt:
  assumes "source_text m mode rb src = Some t" "valid m" "is_string m"
  shows "length t < 2 ^ 64"
proof -
  have v: "length (visible_text m) < 2 ^ 64"
  proof (cases "mlength m = 0")
    case True
    then show ?thesis using assms(2,3) length_visible_text_eq [OF assms(2,3)] by (auto simp: valid_def)
  next
    case False
    then have "string_length m < mlength m" "reserved m" using assms(2,3) by (auto simp: valid_def)
    from index_inside(1) [OF this(2,1)] show ?thesis
      using length_visible_text_eq [OF assms(2,3)] lt_word_max [of "actually_allocated_bytes m"] by simp
  qed
  have "fst (bounded_scan k (take (unat rb) view)) * unat k < 2 ^ 64" for k view
    using bounded_scan_le [of k "take (unat rb) view"] lt_word_max [of rb] by simp
  then show ?thesis
    using assms(1) v lt_word_max [of rb]
    by (auto simp: source_text_def Let_def min_def not_le split: if_splits source_pointer.splits source_mode.splits)
      (meson le_less_trans less_le_trans not_less)+
qed

lemma transfer_text_ok:
  assumes g: "quiet g" and v: "valid m" "is_string m"
    and L: "length t = unat L * unat (single_element_size m)" "length t < 2 ^ 64"
    and view: "\<And>buf. take (unat (string_length m) * unat (single_element_size m)) buf
               = take (unat (string_length m) * unat (single_element_size m)) (block_of m)
           \<Longrightarrow> take (length t) (source_view buf src) = t"
    and inside: "\<And>off. inside = Some off \<Longrightarrow>
       unat off + length t \<le> unat (string_length m) * unat (single_element_size m)
       \<and> t = take (length t) (drop (unat off) (visible_text m))
       \<and> L \<le> string_length m \<and> string_length m < mlength m"
    and replace: "inside = None \<Longrightarrow> transfer = TRANSFER_REPLACE \<Longrightarrow> (\<And>buf. take (length t) (source_view buf src) = t)"
  defines "new \<equiv> (if transfer = TRANSFER_APPEND then visible_text m @ t else t)"
  shows "\<exists>status m'. transfer_text g heap transfer m src inside L = (status, m') \<and> valid m' \<and> is_string m'
    \<and> single_element_size m' = single_element_size m
    \<and> (status = SUCCESS \<and> visible_text m' = new \<or> status = FAILURE \<and> \<not> enough heap m (length new))"
proof -
  let ?k = "unat (single_element_size m)"
  have k: "single_element_size m \<noteq> 0" "0 < ?k" using string_guards(2) [OF v(1)] by (auto simp: unat_gt_0)
  have sb: "mem_guarded_byte_size g m L 0 = (SUCCESS, single_element_size m * L)"
    "unat (single_element_size m * L) = length t"
    using byte_size_ok [OF g k(1), of L] L by (simp_all add: unat_word_ariths mult.commute)
  have vl: "length (visible_text m) = unat (string_length m) * ?k" by (rule length_visible_text_eq [OF v])
  show ?thesis
  proof (cases transfer)
    case TRANSFER_APPEND
    have sl: "mem_string_length g m 0 = (SUCCESS, string_length m)"
      using g v string_guards [OF v(1)] by (auto simp: mem_string_length_def)
    have newlen: "length new = (unat (string_length m) + unat L) * ?k"
      using TRANSFER_APPEND L vl by (simp add: new_def distrib_right)
    have grow: "unat (string_length m) + unat L \<le> length new"
      unfolding newlen using k(2) by simp
    show ?thesis
    proof (cases "unat (string_length m) + unat L + 1 < 2 ^ 64")
      case False
      then have "\<not> enough heap m (length new)"
        using grow k(2) by (simp add: enough_def)
      moreover have "transfer_text g heap transfer m src inside L = (FAILURE, m)"
      proof (cases "unat (string_length m) + unat L < 2 ^ 64")
        case True
        then have u: "unat (string_length m + L) = unat (string_length m) + unat L"
          by (simp add: unat_word_ariths)
        have "mem_guarded_add g (string_length m + L) 1 0 = (FAILURE, 0)"
          by (rule guarded_add_fail [OF g]) (use u False in simp)
        then show ?thesis
          using g TRANSFER_APPEND sl guarded_add_ok [OF g True]
          by (simp add: transfer_text_def resize_and_move_def split: option.splits)
      next
        case no: False
        then show ?thesis
          using g TRANSFER_APPEND sl guarded_add_fail [OF g no]
          by (simp add: transfer_text_def resize_and_move_def split: option.splits)
      qed
      ultimately show ?thesis using v by simp
    next
      case True
      let ?V = "string_length m + L"
      have u: "unat ?V = unat (string_length m) + unat L" using True by (simp add: unat_word_ariths)
      have a1: "mem_guarded_add g (string_length m) L L = (SUCCESS, ?V)"
        by (rule guarded_add_ok [OF g]) (use True in simp)
      have a2: "mem_guarded_add g ?V 1 0 = (SUCCESS, ?V + 1)"
        by (rule guarded_add_ok [OF g]) (use True u in simp)
      have slk: "unat (string_length m) * ?k < 2 ^ 64"
      proof (cases "mlength m = 0")
        case True
        then show ?thesis using v by (auto simp: valid_def)
      next
        case False
        then have "string_length m < mlength m" "reserved m" using v by (auto simp: valid_def)
        from index_inside(1) [OF this(2,1)] show ?thesis
          using lt_word_max [of "actually_allocated_bytes m"] by simp
      qed
      have ob: "mem_guarded_byte_size g m (string_length m) 0 = (SUCCESS, single_element_size m * string_length m)"
        "unat (single_element_size m * string_length m) = unat (string_length m) * ?k"
        using byte_size_ok [OF g k(1) slk] slk by (simp_all add: unat_word_ariths mult.commute)
      have step: "transfer_text g heap transfer m src inside L =
        (let (status, m') = resize_and_move g heap SUCCESS m src (single_element_size m * string_length m)
               (single_element_size m * L) ?V (?V + 1) in (deliver g status, m'))"
        using g TRANSFER_APPEND sl a1 a2 ob(1) sb(1)
        by (simp add: transfer_text_def split: option.splits)
      have kb: "kept_bytes m (?V + 1) = unat (string_length m) * ?k"
        using v(2) unat_Suc_word(1) [of ?V] u True by (simp add: kept_bytes_def word_le_nat_alt)
      have "resize_and_move g heap SUCCESS m src (single_element_size m * string_length m)
            (single_element_size m * L) ?V (?V + 1) = (FAILURE, m) \<and> \<not> can_allocate heap m (?V + 1)
        \<or> (\<exists>m'. resize_and_move g heap SUCCESS m src (single_element_size m * string_length m)
            (single_element_size m * L) ?V (?V + 1) = (SUCCESS, m') \<and> valid m' \<and> is_string m'
            \<and> single_element_size m' = single_element_size m
            \<and> visible_text m' = take (unat (single_element_size m * string_length m)) (visible_text m) @ t)"
        by (rule resize_and_move_ok [OF g v, where keep = "string_length m" and L = L])
          (use u True ob(2) sb(2) L(1) view in \<open>simp_all add: kb\<close>)
      moreover have "can_allocate heap m (?V + 1)" if "enough heap m (length new)"
        using that newlen u True by (intro enough_can_allocate) simp_all
      ultimately show ?thesis
        using step g v TRANSFER_APPEND vl ob(2) by (auto simp: new_def)
    qed
  next
    case TRANSFER_REPLACE
    have newlen: "length new = unat L * ?k" using TRANSFER_REPLACE L by (simp add: new_def)
    show ?thesis
    proof (cases "unat L + 1 < 2 ^ 64")
      case False
      have "unat L \<le> length new" unfolding newlen using k(2) by simp
      then have "\<not> enough heap m (length new)" using False k(2) by (simp add: enough_def)
      moreover have "transfer_text g heap transfer m src inside L = (FAILURE, m)"
        using g TRANSFER_REPLACE guarded_add_fail [OF g, of L 1 0] False
        by (simp add: transfer_text_def resize_and_move_def split: option.splits)
      ultimately show ?thesis using v by simp
    next
      case True
      have a2: "mem_guarded_add g L 1 0 = (SUCCESS, L + 1)"
        by (rule guarded_add_ok [OF g]) (use True in simp)
      have can: "can_allocate heap m (L + 1)" if "enough heap m (length new)"
        using that newlen True by (intro enough_can_allocate) simp_all
      show ?thesis
      proof (cases inside)
        case None
        have step: "transfer_text g heap transfer m src inside L =
          (let (status, m') = resize_and_move g heap SUCCESS m src 0
                 (single_element_size m * L) L (L + 1) in (deliver g status, m'))"
          using g TRANSFER_REPLACE a2 sb(1) None by (simp add: transfer_text_def)
        have "resize_and_move g heap SUCCESS m src 0
              (single_element_size m * L) L (L + 1) = (FAILURE, m) \<and> \<not> can_allocate heap m (L + 1)
          \<or> (\<exists>m'. resize_and_move g heap SUCCESS m src 0
              (single_element_size m * L) L (L + 1) = (SUCCESS, m') \<and> valid m' \<and> is_string m'
              \<and> single_element_size m' = single_element_size m
              \<and> visible_text m' = take (unat (0 :: u64)) (visible_text m) @ t)"
          by (rule resize_and_move_ok [OF g v, where keep = 0 and L = L])
            (use True sb L replace [OF None TRANSFER_REPLACE] in \<open>simp_all\<close>)
        then show ?thesis
          using step g v TRANSFER_REPLACE can by (auto simp: new_def)
      next
        case (Some off)
        note ins = inside [OF Some]
        obtain buf where buf: "data m = Some buf"
          using ins index_inside(2) [of m "string_length m"] v by (auto simp: valid_def)
        have step: "transfer_text g heap transfer m src inside L =
          (let (status, m') = replace_inside g heap SUCCESS m off (single_element_size m * L) L (L + 1)
           in (deliver g status, m'))"
          using g TRANSFER_REPLACE a2 sb(1) Some by (simp add: transfer_text_def)
        have "\<exists>status m'. replace_inside g heap SUCCESS m off (single_element_size m * L) L (L + 1) = (status, m')
            \<and> valid m' \<and> is_string m'
            \<and> single_element_size m' = single_element_size m
            \<and> visible_text m' = take (unat (single_element_size m * L)) (drop (unat off) (visible_text m))
            \<and> (status = SUCCESS \<or> status = FAILURE \<and> \<not> can_allocate heap m (L + 1))"
          by (rule replace_inside_ok [OF g v buf]) (use ins sb L in simp_all)
        then show ?thesis
          using step g v TRANSFER_REPLACE can ins sb(2) by (auto simp: new_def)
      qed
    qed
  qed
qed

lemma mem_core_string_ok:
  fixes transfer :: transfer_mode
  assumes g: "quiet g" and v: "valid m" "is_string m" and s: "source_text m mode rb src = Some t"
  defines "new \<equiv> (if transfer = TRANSFER_APPEND then visible_text m @ t else t)"
  shows "\<exists>status m'. mem_core_string g heap mode transfer m rb src = (status, m') \<and> valid m' \<and> is_string m'
    \<and> single_element_size m' = single_element_size m
    \<and> (status = SUCCESS \<and> visible_text m' = new \<or> status = FAILURE \<and> \<not> enough heap m (length new))"
proof (cases "src = NULL_source \<or> mode \<noteq> SOURCE_UNBOUNDED_STRING \<and> rb = 0")
  case True
  then have t: "t = []" using s by (auto simp: source_text_def Let_def)
  show ?thesis
  proof (cases "transfer = TRANSFER_APPEND")
    case app: True
    then show ?thesis using core_string_empty [OF g v True] v t by (simp add: new_def)
  next
    case False
    have "\<exists>status m'. transfer_text g heap transfer m src None 0 = (status, m') \<and> valid m' \<and> is_string m'
        \<and> single_element_size m' = single_element_size m
        \<and> (status = SUCCESS \<and> visible_text m' = new \<or> status = FAILURE \<and> \<not> enough heap m (length new))"
      unfolding new_def by (rule transfer_text_ok [OF g v]) (simp_all add: t)
    then show ?thesis using core_string_empty [OF g v True] False by simp
  qed
next
  case False
  have al: "mode = SOURCE_UNBOUNDED_STRING \<or> unat rb mod unat (single_element_size m) = 0"
    using s False by (auto simp: source_text_def Let_def split: if_splits)
  have lt: "length t < 2 ^ 64" by (rule length_lt [OF s v])
  have fin: ?thesis
    if inside: "inside_offset m src = None \<and> remaining = None
         \<or> (\<exists>off rem. inside_offset m src = Some off \<and> remaining = Some rem
              \<and> alias_check mode m (single_element_size m * mlength m) off rb = Some rem)"
      and me: "measures g mode m remaining rb src L t"
      and ins: "\<And>off. inside_offset m src = Some off \<Longrightarrow>
       unat off + length t \<le> unat (string_length m) * unat (single_element_size m)
       \<and> t = take (length t) (drop (unat off) (visible_text m))
       \<and> L \<le> string_length m \<and> string_length m < mlength m"
      and ext: "inside_offset m src = None \<Longrightarrow> (\<And>buf. take (length t) (source_view buf src) = t)"
    for remaining L
  proof -
    have tt: "\<exists>status m'. transfer_text g heap transfer m src (inside_offset m src) L = (status, m') \<and> valid m'
        \<and> is_string m' \<and> single_element_size m' = single_element_size m
        \<and> (status = SUCCESS \<and> visible_text m' = new \<or> status = FAILURE \<and> \<not> enough heap m (length new))"
      unfolding new_def
      by (rule transfer_text_ok [OF g v]) (use me lt ins ext in \<open>auto simp: measures_def\<close>)
    show ?thesis
    proof (cases "transfer = TRANSFER_APPEND \<and> L = 0")
      case True
      then have "t = []" using me by (simp add: measures_def)
      then show ?thesis
        using core_string_measured [OF g v False al inside me] True v by (simp add: new_def)
    next
      case no: False
      then show ?thesis using core_string_measured [OF g v False al inside me] tt by auto
    qed
  qed
  show ?thesis
  proof (cases src)
    case NULL_source
    with False show ?thesis by simp
  next
    case (External view)
    obtain L where me: "measures g mode m None rb (External view) L t"
      using measures_external [OF g v(1) s [unfolded External]] False by blast
    have no: "inside_offset m src = None" by (simp add: inside_offset_def External)
    show ?thesis
    proof (rule fin)
      show "measures g mode m None rb src L t" using me External by simp
      have "take (length t) (source_view (block_of m) (External view)) = t"
        using me unfolding measures_def by blast
      then show "take (length t) (source_view buf src) = t" for buf
        using External by simp
    qed (use no in simp_all)
  next
    case (Inside off)
    from measures_inside [OF g v s [unfolded Inside]] False Inside
    obtain L rem where *: "inside_offset m (Inside off) = Some off"
      "alias_check mode m (single_element_size m * mlength m) off rb = Some rem"
      "measures g mode m (Some rem) rb (Inside off) L t"
      "unat off + length t \<le> unat (string_length m) * unat (single_element_size m)"
      "t = take (length t) (drop (unat off) (visible_text m))"
      "L \<le> string_length m" "string_length m < mlength m"
      by blast
    show ?thesis
    proof (rule fin)
      show "measures g mode m (Some rem) rb src L t" using * Inside by simp
    qed (use * Inside in auto)
  qed
qed

section \<open>Properties\<close>


text \<open>A string descriptor holding \<open>abc\<close> in a block of 8 bytes.\<close>

definition abc_descriptor :: memory where
  "abc_descriptor =
     \<lparr>single_element_size = 1, actually_allocated_bytes = 8, mlength = 4, string_length = 3,
      is_string = True, data = Some [97, 98, 99, 0, 1, 2, 3, 4]\<rparr>"

lemma quiet_initial [simp]: "quiet initial_globals"
  by (simp add: quiet_def initial_globals_def)

lemma valid_abc: "valid abc_descriptor" "is_string abc_descriptor"
  by (simp_all add: abc_descriptor_def valid_def reserved_def terminated_at_def)


text \<open>
  Appending raw bytes, and what the program relies on for its binary columns.
\<close>

lemma payload_block:
  assumes "valid m"
  shows "payload m = take (unat (mlength m) * unat (single_element_size m)) (block_of m)"
  by (simp add: payload_def block_of_def split: option.splits)

lemma core_buffer_external:
  assumes g: "quiet g" and v: "valid m" "\<not> is_string m"
    and n: "n \<noteq> 0" "unat n mod unat (single_element_size m) = 0" "unat n \<le> length view"
    and room: "unat (mlength m) + unat n div unat (single_element_size m) < 2 ^ 64"
  shows "\<exists>status m'. mem_core_buffer g heap TRANSFER_APPEND m n (External view) = (status, m') \<and> valid m'
    \<and> (status = SUCCESS \<and> payload m' = payload m @ take (unat n) view
       \<or> status = FAILURE \<and> m' = m
          \<and> \<not> can_allocate heap m (mlength m + n div single_element_size m))"
proof -
  let ?k = "unat (single_element_size m)"
  let ?e = "n div single_element_size m"
  have res: "reserved m" using v by (simp add: valid_def)
  note gd = string_guards [OF v(1)]
  have al: "n mod single_element_size m = 0" using n(2) by (simp add: word_mod_zero)
  have ue: "unat ?e * ?k = unat n" by (rule aligned_div [OF n(2)])
  have add: "mem_guarded_add g (mlength m) ?e 0 = (SUCCESS, mlength m + ?e)"
    by (rule guarded_add_ok [OF g]) (use room in \<open>simp add: unat_div\<close>)
  have ut: "unat (mlength m + ?e) = unat (mlength m) + unat ?e"
    using room by (simp add: unat_word_ariths unat_div)
  have e0: "?e \<noteq> 0" using ue n(1) by (auto simp: unat_eq_0)
  note size = payload_size_ok [OF g res]
  have nz: "mlength m + ?e \<noteq> 0"
    using ut e0 by (metis add_is_0 unat_0 unat_eq_0)
  show ?thesis
  proof (cases rule: mem_resize_spec [OF g v(1), of heap "mlength m + ?e" 0, case_names failed ok])
    case failed
    then have "mem_core_buffer g heap TRANSFER_APPEND m n (External view) = (FAILURE, m)"
      using g gd v n(1) al add size(1)
      by (auto simp: mem_core_buffer_def Let_def inside_offset_def)
    then show ?thesis using failed v by simp
  next
    case (ok m1)
    obtain buf where buf: "data m1 = Some buf" "length buf = unat (actually_allocated_bytes m1)"
      "unat (mlength m + ?e) * ?k \<le> length buf"
      "take (kept_bytes m (mlength m + ?e)) buf = take (kept_bytes m (mlength m + ?e)) (block_of m)"
      using resized_block [OF ok(2) nz] by metis
    have m1: "mlength m1 = mlength m + ?e" "valid m1" "\<not> is_string m1" "single_element_size m1 = single_element_size m"
      "string_length m1 = 0"
      using ok(2) v nz by (auto simp: resized_def valid_def)
    let ?b = "write_at buf (single_element_size m * mlength m) (take (unat n) view)"
    have run: "mem_core_buffer g heap TRANSFER_APPEND m n (External view)
        = (SUCCESS, m1\<lparr>data := Some ?b\<rparr>)"
      using g gd v n(1) al add size(1) ok(1) buf(1) m1
      by (auto simp: mem_core_buffer_def Let_def inside_offset_def c_memmove_def)
    have fit: "unat (single_element_size m * mlength m) + length (take (unat n) view)
        = unat (mlength m + ?e) * ?k"
      using size(2) n(3) ue by (simp add: ut distrib_right)
    have kb: "kept_bytes m (mlength m + ?e) = unat (mlength m) * ?k"
      using v(2) ut by (simp add: kept_bytes_def)
    have "payload (m1\<lparr>data := Some ?b\<rparr>) = take (unat (mlength m) * ?k) buf @ take (unat n) view"
      using take_write_at(3) [of "single_element_size m * mlength m" "take (unat n) view" buf] fit buf(3) m1 size(2)
      by (simp add: payload_def)
    then have "payload (m1\<lparr>data := Some ?b\<rparr>) = payload m @ take (unat n) view"
      using buf(4) unfolding kb by (simp add: payload_block [OF v(1)])
    moreover have "valid (m1\<lparr>data := Some ?b\<rparr>)"
      using m1 buf fit by (auto simp: valid_def reserved_def)
    ultimately show ?thesis using run by auto
  qed
qed


text \<open>
  Appending raw bytes to a data descriptor yields exactly the old payload followed by the
  given bytes, or changes nothing and reports FAILURE because the size cannot be served.
\<close>

theorem mem_concat_buffer_correct:
  assumes "quiet g" "valid m" "\<not> is_string m"
    and "n \<noteq> 0" "unat n mod unat (single_element_size m) = 0" "unat n \<le> length view"
    and "unat (mlength m) + unat n div unat (single_element_size m) < 2 ^ 64"
  shows "\<exists>status m'. mem_concat_buffer g heap m n (External view) = (status, m') \<and> valid m'
    \<and> (status = SUCCESS \<and> payload m' = payload m @ take (unat n) view
       \<or> status = FAILURE \<and> m' = m
          \<and> \<not> can_allocate heap m (mlength m + n div single_element_size m))"
  unfolding mem_concat_buffer_def by (rule core_buffer_external [OF assms])

theorem mem_concat_buffer_correct_witness:
  "payload (snd (mem_concat_buffer initial_globals (\<lambda>_. Some (\<lambda>_. 9)) (mem_init 2 False) 4
     (External [1, 2, 3, 4, 5]))) = [1, 2, 3, 4]"
proof -
  have v: "valid (mem_init 2 False)" by simp
  have "\<exists>status m'. mem_concat_buffer initial_globals (\<lambda>_. Some (\<lambda>_. 9)) (mem_init 2 False) 4
      (External [1, 2, 3, 4, 5]) = (status, m') \<and> valid m'
    \<and> (status = SUCCESS \<and> payload m' = payload (mem_init 2 False) @ take (unat (4 :: u64)) [1, 2, 3, 4, 5]
       \<or> status = FAILURE \<and> m' = mem_init 2 False
          \<and> \<not> can_allocate (\<lambda>_. Some (\<lambda>_. 9)) (mem_init 2 False)
               (mlength (mem_init 2 False) + 4 div single_element_size (mem_init 2 False)))"
    by (rule mem_concat_buffer_correct [OF quiet_initial v]) (simp_all add: mem_init_def)
  moreover have "can_allocate (\<lambda>_. Some (\<lambda>_. 9)) (mem_init 2 False)
               (mlength (mem_init 2 False) + 4 div single_element_size (mem_init 2 False))"
    by (simp add: can_allocate_def mem_init_def)
  moreover have "payload (mem_init 2 False) @ take (unat (4 :: u64)) [1, 2, 3, 4, 5] = [1, 2, 3, 4]"
    by (simp add: payload_def mem_init_def)
  ultimately show ?thesis by auto
qed

text \<open>
  After an interrupt the transfers of libs/mem report a graceful status without doing their
  work: replacing the text of a string by a literal answers SUCCESS|HALTED and leaves the
  block untouched, while the cached length becomes the length of the literal.
\<close>

theorem mem_copy_fixed_after_signal:
  assumes "global_return_status g = HALTED" "valid m" "is_string m" "mlength m \<noteq> 0"
    and "rb \<noteq> 0" "unat rb mod unat (single_element_size m) = 0"
  shows "mem_copy_fixed_string g heap m rb (External view)
       = (SUCCESS OR HALTED, m\<lparr>string_length := rb div single_element_size m - 1\<rparr>)
    \<and> has TRIUMPH (fst (mem_copy_fixed_string g heap m rb (External view)))"
proof -
  have res: "reserved m" and lt: "string_length m < mlength m"
    using assms(2-4) by (auto simp: valid_def)
  obtain buf where buf: "data m = Some buf" using index_inside(2) [OF res lt] by auto
  have k: "single_element_size m \<noteq> 0" using assms(2) by (simp add: valid_def reserved_def)
  have fits: "\<not> mlength m > SIZE_MAX div single_element_size m"
    using mult_fits_iff [OF k, of "mlength m"] res lt_word_max [of "actually_allocated_bytes m"]
    by (simp add: reserved_def not_less)
  have bs: "mem_guarded_byte_size g m (mlength m) 0 = (SUCCESS OR HALTED, single_element_size m * mlength m)"
    using assms(1) fits k by (simp add: mem_guarded_byte_size_def)
  have t: "has TRIUMPH (SUCCESS OR HALTED)" by (simp add: bit_or_iff)
  have al: "rb mod single_element_size m = 0" using assms(6) by (simp add: word_mod_zero)
  have "mem_copy_fixed_string g heap m rb (External view)
       = (SUCCESS OR HALTED, m\<lparr>string_length := rb div single_element_size m - 1\<rparr>)"
    using assms(1,3,5) buf k bs al
    by (simp add: mem_copy_fixed_string_def mem_core_string_def inside_offset_def measure_source_def
        resize_and_move_def Let_def bit_or_iff)
  then show ?thesis using t by simp
qed

theorem mem_copy_fixed_after_signal_witness:
  "visible_text (snd (mem_copy_fixed_string (signal_notify_quit_handler initial_globals)
     (\<lambda>_. Some (\<lambda>_. 9)) abc_descriptor 2 (External [46, 0]))) = [97]"
proof -
  have "mem_copy_fixed_string (signal_notify_quit_handler initial_globals)
     (\<lambda>_. Some (\<lambda>_. 9)) abc_descriptor 2 (External [46, 0])
     = (SUCCESS OR HALTED, abc_descriptor\<lparr>string_length := 2 div single_element_size abc_descriptor - 1\<rparr>)"
    using mem_copy_fixed_after_signal [OF _ valid_abc, of "signal_notify_quit_handler initial_globals" 2
        "\<lambda>_. Some (\<lambda>_. 9)" "[46, 0]"]
    by (simp add: signal_notify_quit_handler_def abc_descriptor_def)
  then show ?thesis by (simp add: visible_text_def abc_descriptor_def)
qed

text \<open>
  Converting a data descriptor to a string keeps the bytes in front of the first zero
  element as its text and leaves a valid, terminated string.
\<close>

theorem mem_convert_data_to_string_correct:
  assumes "quiet g" "valid m" "\<not> is_string m" "mlength m \<noteq> 0"
    and "can_allocate heap m (mlength m + 1)" "unat (mlength m) + 1 < 2 ^ 64"
  shows "\<exists>m'. mem_convert_data_to_string g heap m = (SUCCESS, m') \<and> valid m' \<and> is_string m'
    \<and> visible_text m' = take (fst (bounded_scan (single_element_size m) (payload m))
                             * unat (single_element_size m)) (payload m)"
proof -
  let ?k = "unat (single_element_size m)"
  let ?n = "fst (bounded_scan (single_element_size m) (payload m))"
  have res: "reserved m" using assms(2) by (simp add: valid_def)
  note gd = string_guards [OF assms(2)] and size = payload_size_ok [OF assms(1) res]
  obtain buf where buf: "data m = Some buf" "length buf = unat (actually_allocated_bytes m)"
    "unat (mlength m) * ?k \<le> length buf"
    using res assms(4) by (auto simp: reserved_def split: option.splits)
  have k: "0 < ?k" using gd(2) by (simp add: unat_gt_0)
  have nk: "?n * ?k \<le> unat (mlength m) * ?k"
    using bounded_scan_le [of "single_element_size m" "payload m"] buf by (simp add: payload_def)
  then have n: "?n \<le> unat (mlength m)" using k by simp
  define w where "w = (of_nat ?n :: u64)"
  have w: "unat w = ?n"
    unfolding w_def using n lt_word_max [of "mlength m"] by (intro unat_of_nat_small) simp
  have find: "mem_find_zero_terminator g m 0 = (SUCCESS, w)"
  proof -
    have "mem_string_measure_length g (data m) (single_element_size m * mlength m)
        (single_element_size m) True 0 False
        = (SUCCESS, w, snd (bounded_scan (single_element_size m) (payload m)))"
      using measure_length_bounded [OF assms(1) gd(2), of "single_element_size m * mlength m" buf 0 False]
        buf size(2) by (simp add: payload_def w_def)
    then show ?thesis
      using assms(1,4) gd size(1) by (simp add: mem_find_zero_terminator_def word_neq_0_conv [symmetric])
  qed
  have add: "mem_guarded_add g w 1 0 = (SUCCESS, w + 1)"
    by (rule guarded_add_ok [OF assms(1)]) (use w n assms(6) in simp)
  have w1: "unat (w + 1) = ?n + 1" "w + 1 \<noteq> 0"
    using unat_Suc_word [of w] w n assms(6) by simp_all
  define m1 where "m1 = (if mlength m < w + 1 then snd (mem_resize g heap m (w + 1) 0) else m)"
  have grow: "mlength m < w + 1 \<longleftrightarrow> ?n = unat (mlength m)"
    using n w1 by (auto simp: word_less_nat_alt)
  have m1: "(if mlength m < w + 1 then run_out g SUCCESS (mem_resize g heap m (w + 1) 0) m else (SUCCESS, m))
      = (SUCCESS, m1)"
    and m1v: "valid m1" "\<not> is_string m1" "single_element_size m1 = single_element_size m" "w < mlength m1"
      "take (?n * ?k) (block_of m1) = take (?n * ?k) (block_of m)"
  proof -
    have "(if mlength m < w + 1 then run_out g SUCCESS (mem_resize g heap m (w + 1) 0) m else (SUCCESS, m))
      = (SUCCESS, m1) \<and> valid m1 \<and> \<not> is_string m1 \<and> single_element_size m1 = single_element_size m
      \<and> w < mlength m1 \<and> take (?n * ?k) (block_of m1) = take (?n * ?k) (block_of m)"
    proof (cases "mlength m < w + 1")
      case True
      then have "w = mlength m" using grow w by (simp add: word_unat_eq_iff)
      then have can: "can_allocate heap m (w + 1)" using assms(5) by simp
      show ?thesis
      proof (cases rule: mem_resize_spec [OF assms(1,2), of heap "w + 1" 0, case_names failed ok])
        case failed
        with can show ?thesis by simp
      next
        case (ok m2)
        have "kept_bytes m (w + 1) = ?n * ?k"
          using True grow w1 assms(3) n by (simp add: kept_bytes_def)
        then show ?thesis
          using ok True assms(1,3) unat_Suc_word(2) [of w] w n assms(6)
          by (auto simp: m1_def resized_def)
      qed
    next
      case False
      then have "w < mlength m" using grow n w by (simp add: word_less_nat_alt)
      with False assms show ?thesis by (simp add: m1_def)
    qed
    then show "(if mlength m < w + 1 then run_out g SUCCESS (mem_resize g heap m (w + 1) 0) m else (SUCCESS, m))
      = (SUCCESS, m1)" "valid m1" "\<not> is_string m1" "single_element_size m1 = single_element_size m" "w < mlength m1"
      "take (?n * ?k) (block_of m1) = take (?n * ?k) (block_of m)"
      by blast+
  qed
  have res1: "reserved m1" using m1v by (simp add: valid_def)
  note ins = index_inside [OF res1 m1v(4)]
  obtain b1 where b1: "data m1 = Some b1" using ins(2) by auto
  have wr: "mem_write_zero_terminator g m1 w = (SUCCESS, put_terminator m1 w)"
    by (rule write_terminator_ok [OF assms(1) res1 ins(2,1)])
  let ?r = "(put_terminator m1 w)\<lparr>string_length := w, is_string := True\<rparr>"
  have "mem_convert_data_to_string g heap m = (SUCCESS, ?r)"
    using assms(1,3,4) gd find add m1 b1 wr assms(2)
    by (auto simp: mem_convert_data_to_string_def Let_def valid_def)
  moreover have "valid ?r \<and> is_string ?r"
    using put_terminator_reserved [OF res1 ins(1) assms(1)] m1v(4)
      put_terminator_terminated [OF res1 ins(1) assms(1) ins(2)]
    by (auto simp: valid_def reserved_def terminated_at_def split: option.splits)
  moreover have "visible_text ?r = take (?n * ?k) (payload m)"
  proof -
    have "length b1 = unat (actually_allocated_bytes m1)" using res1 b1 by (simp add: reserved_def)
    then have "visible_text ?r = take (?n * ?k) b1"
      using take_write_at(1) [of "single_element_size m1 * w" "replicate ?k 0" b1 "?n * ?k"]
        element_inside(2) [OF assms(1) res1 ins(1)] ins(1) b1 m1v(3) w
      by (simp add: visible_text_def put_terminator_def algebra_simps)
    then show ?thesis
      using m1v(5) b1 buf nk by (simp add: block_of_def payload_def min_def)
  qed
  ultimately show ?thesis by blast
qed

theorem mem_convert_data_to_string_correct_witness:
  "visible_text (snd (mem_convert_data_to_string initial_globals (\<lambda>_. Some (\<lambda>_. 9))
     (abc_descriptor\<lparr>is_string := False, string_length := 0\<rparr>))) = [97, 98, 99]"
proof -
  let ?m = "abc_descriptor\<lparr>is_string := False, string_length := 0\<rparr>"
  have v: "valid ?m" by (simp add: abc_descriptor_def valid_def reserved_def)
  have p: "payload ?m = [97, 98, 99, 0]" by (simp add: payload_def abc_descriptor_def)
  have "\<exists>m'. mem_convert_data_to_string initial_globals (\<lambda>_. Some (\<lambda>_. 9)) ?m = (SUCCESS, m')
    \<and> valid m' \<and> is_string m'
    \<and> visible_text m' = take (fst (bounded_scan (single_element_size ?m) (payload ?m))
                             * unat (single_element_size ?m)) (payload ?m)"
    by (rule mem_convert_data_to_string_correct [OF quiet_initial v])
      (simp_all add: abc_descriptor_def can_allocate_def)
  moreover have "single_element_size ?m = 1" by (simp add: abc_descriptor_def)
  ultimately show ?thesis by (auto simp: p bounded_scan_bytes)
qed

end
