(* ===== verification/Mem_Array.thy ===== *)
theory Mem_Array
  imports Mem_Text
begin

text \<open>
  The writable views of libs/mem, strings formatted by the C library, and arrays of inline string
  descriptors (\<open>mem_string_array_core.c\<close>, \<open>mem_array_delete.c\<close>): how an append grows the array,
  fills the new item and takes the growth back when that fails.
\<close>

section \<open>Writable views\<close>

definition mem_data_writable :: "'a globals_scheme \<Rightarrow> memory \<Rightarrow> u64 \<Rightarrow> bytes option" where
  "mem_data_writable g m expected_single_element_size =
     (if single_element_size m = 0 then None
      else if data m = None \<and> actually_allocated_bytes m > 0 then None
      else if mlength m > 0 \<and> data m = None then None
      else
        let (guarded_status, current_payload_bytes) = mem_guarded_byte_size g m (mlength m) 0 in
        if \<not> has TRIUMPH guarded_status then None
        else if mlength m > 0 \<and> actually_allocated_bytes m < current_payload_bytes then None
        else if single_element_size m \<noteq> expected_single_element_size then None
        else data m)"

definition mem_raw_data_writable :: "memory \<Rightarrow> bytes option" where
  "mem_raw_data_writable m =
     (if single_element_size m = 0 then None
      else if data m = None \<and> actually_allocated_bytes m > 0 then None
      else if mlength m > 0 \<and> data m = None then None
      else data m)"

text \<open>The item as the bytes from its first one on.\<close>

definition mem_array_item_writable ::
  "'a globals_scheme \<Rightarrow> memory \<Rightarrow> u64 \<Rightarrow> u64 \<Rightarrow> bytes option" where
  "mem_array_item_writable g m index expected_single_element_size =
     (if index \<ge> mlength m then None
      else
        case mem_data_writable g m expected_single_element_size of
          None \<Rightarrow> None
        | Some item_data \<Rightarrow> Some (drop (unat (index * expected_single_element_size)) item_data))"

section \<open>Formatted strings\<close>

text \<open>
  A format string with its arguments: NULL, one \<open>vsnprintf\<close> cannot render, or one that renders to
  a text.
\<close>

datatype rendering = NULL_format | Unrenderable | Renders bytes

definition mem_formatted_string_char ::
  "'a globals_scheme \<Rightarrow> heap \<Rightarrow> memory \<Rightarrow> rendering \<Rightarrow> ret \<times> memory" where
  "mem_formatted_string_char g heap destination source_string =
     (if \<not> is_string destination then (deliver g FAILURE, destination)
      else
        case source_string of
          NULL_format \<Rightarrow> (deliver g FAILURE, destination)
        | Unrenderable \<Rightarrow>
            if single_element_size destination \<noteq> 1 then (deliver g FAILURE, destination)
            else (deliver g SUCCESS, destination)
        | Renders rendered \<Rightarrow>
            if single_element_size destination \<noteq> 1 then (deliver g FAILURE, destination)
            else
              let (status, destination) =
                    run_out g SUCCESS
                      (mem_resize g heap destination (of_nat (length rendered) + 1) 0) destination;
                  destination =
                    (if has TRIUMPH status
                     then destination\<lparr>data := map_option (\<lambda>buf. write_at buf 0 (rendered @ [0])) (data destination),
                                      string_length := of_nat (length rendered)\<rparr>
                     else destination)
              in (deliver g status, destination))"

section \<open>Arrays of inline strings\<close>

text \<open>
  The root descriptor has elements of the size of a descriptor; its block read as elements is the
  list \<open>items\<close>, as long as the root says.
\<close>

definition sizeof_memory :: u64 where "sizeof_memory = 48"

record string_array =
  root_descriptor :: memory
  items :: "memory list"

definition zero_memory :: memory where
  "zero_memory = \<lparr>single_element_size = 0, actually_allocated_bytes = 0, mlength = 0,
     string_length = 0, is_string = False, data = None\<rparr>"

text \<open>
  Resizing the root keeps the elements that still fit; new ones are zero (the only growing caller
  asks for zeroed memory).
\<close>

definition array_resize ::
  "'a globals_scheme \<Rightarrow> heap \<Rightarrow> string_array \<Rightarrow> u64 \<Rightarrow> u32 \<Rightarrow> ret \<times> string_array" where
  "array_resize g heap a new_count flags =
     (let (status, r) = mem_resize g heap (root_descriptor a) new_count flags;
          n = unat (mlength r)
      in (status, \<lparr>root_descriptor = r,
                   items = take n (items a) @ replicate (n - length (items a)) zero_memory\<rparr>))"

text \<open>What is done to the item at an index, the status with it.\<close>

definition at_item ::
  "nat \<Rightarrow> (ret \<Rightarrow> memory \<Rightarrow> ret \<times> memory) \<Rightarrow> ret \<Rightarrow> string_array \<Rightarrow> ret \<times> string_array" where
  "at_item i f status a =
     (let (status, item) = f status (items a ! i) in (status, a\<lparr>items := (items a)[i := item]\<rparr>))"

definition fill_item ::
  "'a globals_scheme \<Rightarrow> heap \<Rightarrow> source_mode \<Rightarrow> u64 \<Rightarrow> u64 \<Rightarrow> source_pointer \<Rightarrow> ret \<Rightarrow> memory \<Rightarrow> ret \<times> memory" where
  "fill_item g heap source_mode element_size source_limit_bytes source_string status item =
     (let item = mem_init element_size True;
          (status, item) =
            (if source_mode = SOURCE_UNBOUNDED_STRING
             then run_out g status (mem_copy_unbounded_string g heap item source_string) item
             else (status, item))
      in if source_mode = SOURCE_BOUNDED_STRING
         then run_out g status (mem_copy_bounded_string g heap item source_limit_bytes source_string) item
         else (status, item))"

definition array_rollback ::
  "'a globals_scheme \<Rightarrow> heap \<Rightarrow> u64 \<Rightarrow> ret \<Rightarrow> string_array \<Rightarrow> ret \<times> string_array" where
  "array_rollback g heap next_index status a =
     (let (status, a) =
            (if mem_data_writable g (root_descriptor a) sizeof_memory \<noteq> None
             then at_item (unat next_index) (\<lambda>status item. call_out g status (mem_delete g item) item) status a
             else (status, a))
      in call_out g status (array_resize g heap a next_index 0) a)"

definition mem_string_array_core ::
  "'a globals_scheme \<Rightarrow> heap \<Rightarrow> source_mode \<Rightarrow> string_array \<Rightarrow> u64 \<Rightarrow> u64 \<Rightarrow> source_pointer
     \<Rightarrow> ret \<times> string_array" where
  "mem_string_array_core g heap source_mode a element_size source_limit_bytes source_string =
     (let m = root_descriptor a in
      if mlength m > 0 \<and> data m = None then (deliver g FAILURE, a)
      else if single_element_size m \<noteq> sizeof_memory then (deliver g FAILURE, a)
      else if is_string m then (deliver g FAILURE, a)
      else if string_length m \<noteq> 0 then (deliver g FAILURE, a)
      else if element_size = 0 then (deliver g FAILURE, a)
      else if source_mode \<noteq> SOURCE_UNBOUNDED_STRING \<and> source_mode \<noteq> SOURCE_BOUNDED_STRING
        then (deliver g FAILURE, a)
      else
        let next_index = mlength m;
            (status, a) = run_out g SUCCESS (array_resize g heap a (next_index + 1) ZERO_NEW_MEMORY) a;
            grown = (has TRIUMPH status \<and> mlength (root_descriptor a) > next_index);
            mapped = (grown \<and> mem_data_writable g (root_descriptor a) sizeof_memory \<noteq> None);
            status = (if grown \<and> \<not> mapped then FAILURE else status);
            (status, a) =
              (if has TRIUMPH status \<and> mapped
               then at_item (unat next_index)
                      (fill_item g heap source_mode element_size source_limit_bytes source_string) status a
               else (status, a));
            (status, a) =
              (if \<not> has TRIUMPH status \<and> mlength (root_descriptor a) > next_index
               then array_rollback g heap next_index status a else (status, a))
        in (deliver g status, a))"

definition mem_string_array_append_bounded ::
  "'a globals_scheme \<Rightarrow> heap \<Rightarrow> string_array \<Rightarrow> u64 \<Rightarrow> u64 \<Rightarrow> source_pointer \<Rightarrow> ret \<times> string_array" where
  "mem_string_array_append_bounded g heap a element_size source_limit_bytes source_string =
     mem_string_array_core g heap SOURCE_BOUNDED_STRING a element_size source_limit_bytes source_string"

definition mem_string_array_append_unbounded ::
  "'a globals_scheme \<Rightarrow> heap \<Rightarrow> string_array \<Rightarrow> u64 \<Rightarrow> source_pointer \<Rightarrow> ret \<times> string_array" where
  "mem_string_array_append_unbounded g heap a element_size source_string =
     mem_string_array_core g heap SOURCE_UNBOUNDED_STRING a element_size 0 source_string"

text \<open>The loop of \<open>mem_array_delete\<close> and the function; the items go with the block of the root.\<close>

fun delete_items :: "'a globals_scheme \<Rightarrow> ret \<Rightarrow> memory list \<Rightarrow> ret" where
  "delete_items g status [] = status"
| "delete_items g status (item # rest) =
     delete_items g (fst (call_out g status (mem_delete g item) item)) rest"

definition mem_array_delete :: "'a globals_scheme \<Rightarrow> string_array \<Rightarrow> ret \<times> string_array" where
  "mem_array_delete g a =
     (let m = root_descriptor a in
      if mlength m > 0 \<and> data m = None then (deliver g FAILURE, a)
      else if single_element_size m \<noteq> sizeof_memory then (deliver g FAILURE, a)
      else if is_string m then (deliver g FAILURE, a)
      else if string_length m \<noteq> 0 then (deliver g FAILURE, a)
      else
        let mapped = (mlength m > 0 \<and> mem_data_writable g m sizeof_memory \<noteq> None);
            status = (if mlength m > 0 \<and> \<not> mapped then FAILURE else SUCCESS);
            status = (if has TRIUMPH status \<and> mapped then delete_items g status (items a) else status);
            (status, m) = call_out g status (mem_delete g m) m
        in (deliver g status, \<lparr>root_descriptor = m, items = take (unat (mlength m)) (items a)\<rparr>))"

section \<open>Whole blocks\<close>

text \<open>The allocations of the library are whole blocks, so taking a growth back never allocates.\<close>

definition whole_blocks :: "memory \<Rightarrow> bool" where
  "whole_blocks m \<longleftrightarrow> 4096 dvd unat (actually_allocated_bytes m)"

lemma least_block:
  assumes "round_up_to_block_size n = Some slab" "4096 dvd a" "unat n \<le> a"
  shows "unat slab \<le> a"
proof -
  have s: "4096 dvd unat slab" using round_up_Some(2) [OF assms(1)] by presburger
  then show ?thesis using assms(2,3) round_up_Some(3) [OF assms(1)]
    by (elim dvdE) simp
qed

lemma shrink_in_place:
  assumes "quiet g" "valid m" "\<not> is_string m" "whole_blocks m" "n \<le> mlength m"
  shows "mem_resize g heap m n 0 = (SUCCESS, m\<lparr>mlength := n\<rparr>)"
proof -
  have res: "reserved m" and k: "single_element_size m \<noteq> 0" and sl: "string_length m = 0"
    using assms(2,3) by (auto simp: valid_def reserved_def)
  have guards: "\<not> (mlength m > 0 \<and> data m = None)" "\<not> (actually_allocated_bytes m > 0 \<and> data m = None)"
    using res by (auto simp: reserved_def split: option.splits)
  note size = payload_size_ok [OF assms(1) res]
  have a: "unat (mlength m) * unat (single_element_size m) \<le> unat (actually_allocated_bytes m)"
    using res by (simp add: reserved_def)
  have le: "unat n * unat (single_element_size m) \<le> unat (actually_allocated_bytes m)"
  proof -
    have "unat n * unat (single_element_size m) \<le> unat (mlength m) * unat (single_element_size m)"
      using assms(5) by (intro mult_le_mono1) (simp add: word_le_nat_alt)
    from this a show ?thesis by (rule order_trans)
  qed
  then have fits: "unat n * unat (single_element_size m) < 2 ^ 64"
    using lt_word_max [of "actually_allocated_bytes m"] by simp
  have nk: "unat (single_element_size m * n) = unat n * unat (single_element_size m)"
    using fits by (simp add: unat_word_ariths mult.commute)
  note total = byte_size_ok [OF assms(1) k fits]
  have keep: "m\<lparr>string_length := 0\<rparr> = m" using sl by simp
  show ?thesis
  proof (cases "n = mlength m")
    case True
    then show ?thesis using guards k size assms(1,3) sl by (auto simp: mem_resize_def Let_def)
  next
    case False
    have step: "mem_resize g heap m n 0 =
       (let (status, m) =
              (if n = 0 then resize_to_zero g SUCCESS False m
               else resize_to_count g heap SUCCESS False False
                        (single_element_size m * mlength m) (single_element_size m * n) n m)
        in (deliver g status, m))"
      unfolding mem_resize_def Let_def using guards k size(1,3) assms(1,3) False sl total by auto
    show ?thesis
    proof (cases "n = 0")
      case True
      then show ?thesis unfolding step using assms(1,3) sl
        by (simp add: resize_to_zero_def Let_def)
    next
      case pos: False
      then have "mlength m \<noteq> 0" using assms(5) by auto
      then have d: "data m \<noteq> None" using guards by (auto simp: word_gt_0)
      have "round_up_to_block_size (single_element_size m * n) \<noteq> None"
      proof (cases "unat (single_element_size m * n) + 4095 < 2 ^ 64")
        case True
        then show ?thesis by (rule round_up_fits)
      next
        case big: False
        obtain j where j: "unat (actually_allocated_bytes m) = 4096 * j" using assms(4) by (auto simp: whole_blocks_def)
        have "4096 * j < 2 ^ 64" using lt_word_max [of "actually_allocated_bytes m"] j by simp
        then have "4096 * j + 4096 \<le> 2 ^ 64" by simp
        moreover have "unat (single_element_size m * n) \<le> 4096 * j" using le nk j by simp
        ultimately have "unat (single_element_size m * n) + 4096 \<le> 2 ^ 64" by simp
        then show ?thesis using big by simp
      qed
      then obtain slab where slab: "round_up_to_block_size (single_element_size m * n) = Some slab" by auto
      have "unat slab \<le> unat (actually_allocated_bytes m)"
        by (rule least_block [OF slab]) (use assms(4) le nk in \<open>simp_all add: whole_blocks_def\<close>)
      then have ng: "\<not> slab > actually_allocated_bytes m" by (simp add: word_less_nat_alt)
      have "resize_block heap SUCCESS False slab m = (SUCCESS, m)"
        using d ng by (auto simp: resize_block_def)
      moreover have "resize_metadata g SUCCESS False (single_element_size m * mlength m) (single_element_size m * n) n m
          = (SUCCESS, m\<lparr>mlength := n\<rparr>)"
        using assms(3) sl d by (auto simp: resize_metadata_def Let_def)
      ultimately show ?thesis
        unfolding step using pos slab assms(1) by (simp add: resize_to_count_def)
    qed
  qed
qed

lemma resize_block_whole:
  assumes "resize_block heap st shrink slab m = (st', m')" "whole_blocks m" "unat slab mod 4096 = 0"
  shows "whole_blocks m'"
  using assms by (auto simp: resize_block_def Let_def whole_blocks_def dvd_eq_mod_eq_0 split: if_splits option.splits)

lemma pick_snd: "P (snd x) \<Longrightarrow> P (snd y) \<Longrightarrow> P (snd (if b then x else y))"
  by simp

lemma resize_whole:
  assumes "\<not> is_string m" "whole_blocks m"
  shows "whole_blocks (snd (mem_resize g heap m n flags))"
proof -
  have z: "whole_blocks (snd (resize_to_zero g st shrink m))" for st shrink
    using assms by (auto simp: resize_to_zero_def run_out_def mem_delete_def whole_blocks_def Let_def split: prod.splits)
  have c: "whole_blocks (snd (resize_to_count g heap st zero shrink p t n m))" for st zero shrink p t
  proof (cases "round_up_to_block_size t")
    case None
    then show ?thesis using assms by (simp add: resize_to_count_def)
  next
    case (Some slab)
    obtain st1 m1 where b: "resize_block heap st shrink slab m = (st1, m1)" by fastforce
    have w: "whole_blocks m1" "\<not> is_string m1"
      using resize_block_whole [OF b assms(2)] round_up_Some(2) [OF Some] b assms(1)
      by (auto simp: resize_block_def Let_def split: if_splits option.splits)
    have "whole_blocks (snd (resize_metadata g s zero p t n m1))" for s
      using w by (auto simp: resize_metadata_def Let_def whole_blocks_def)
    then show ?thesis using Some b w by (simp add: resize_to_count_def)
  qed
  show ?thesis
    unfolding mem_resize_def Let_def case_prod_beta
    by (intro pick_snd [of whole_blocks]) (simp_all add: z c assms(2) split: if_split)
qed

section \<open>Well-typed arrays\<close>

text \<open>
  An array is well typed when its root is a valid data descriptor of descriptor-sized elements in
  whole blocks, and each of its elements is a valid string.
\<close>

definition string_ok :: "memory \<Rightarrow> bool" where
  "string_ok m \<longleftrightarrow> valid m \<and> is_string m"

definition array_ok :: "string_array \<Rightarrow> bool" where
  "array_ok a \<longleftrightarrow>
     valid (root_descriptor a) \<and> \<not> is_string (root_descriptor a)
     \<and> single_element_size (root_descriptor a) = sizeof_memory \<and> whole_blocks (root_descriptor a)
     \<and> length (items a) = unat (mlength (root_descriptor a)) \<and> (\<forall>item \<in> set (items a). string_ok item)"

definition array_texts :: "string_array \<Rightarrow> bytes list" where
  "array_texts a = map visible_text (items a)"

lemma array_room:
  assumes "array_ok a"
  shows "unat (mlength (root_descriptor a)) + 1 < 2 ^ 64"
proof -
  have "reserved (root_descriptor a)" "single_element_size (root_descriptor a) = 48"
    using assms by (simp_all add: array_ok_def valid_def sizeof_memory_def)
  then have "unat (mlength (root_descriptor a)) * 48 \<le> unat (actually_allocated_bytes (root_descriptor a))"
    by (simp add: reserved_def)
  moreover have "unat (actually_allocated_bytes (root_descriptor a)) < 2 ^ 64" using lt_word_max by simp
  ultimately show ?thesis by simp
qed

lemma mapped_root:
  assumes "quiet g" "valid m" "single_element_size m = sizeof_memory"
  shows "mem_data_writable g m sizeof_memory = data m"
proof -
  have res: "reserved m" using assms(2) by (simp add: valid_def)
  then have "single_element_size m \<noteq> 0" "\<not> (data m = None \<and> actually_allocated_bytes m > 0)"
    "\<not> (mlength m > 0 \<and> data m = None)"
    by (auto simp: reserved_def split: option.splits)
  with payload_size_ok [OF assms(1) res] assms(1,3) show ?thesis
    by (auto simp: mem_data_writable_def)
qed

lemma call_out_failed: "quiet g \<Longrightarrow> call_out g FAILURE (SUCCESS, x) y = (FAILURE, x)"
  by (simp add: call_out_def call_def quiet_normalize)

lemma fill_item_ok:
  assumes "quiet g" "element_size \<noteq> 0"
    and "source_mode = SOURCE_UNBOUNDED_STRING \<and> limit = 0 \<or> source_mode = SOURCE_BOUNDED_STRING"
    and t: "source_text (mem_init element_size True) source_mode limit src = Some t"
  shows "\<exists>st item'. fill_item g heap source_mode element_size limit src SUCCESS item = (st, item')
    \<and> string_ok item' \<and> single_element_size item' = element_size \<and> (st = SUCCESS \<and> visible_text item' = t
         \<or> st = FAILURE \<and> \<not> enough heap (mem_init element_size True) (length t))"
proof -
  have v: "valid (mem_init element_size True)" "is_string (mem_init element_size True)"
    using assms(2) by (simp_all add: mem_init_def [symmetric]) (simp add: mem_init_def)
  from mem_core_string_ok [OF assms(1) v t, of heap TRANSFER_REPLACE]
  obtain st m' where "mem_core_string g heap source_mode TRANSFER_REPLACE (mem_init element_size True) limit src = (st, m')"
    "string_ok m'" "single_element_size m' = single_element_size (mem_init element_size True)" "st = SUCCESS \<and> visible_text m' = t
      \<or> st = FAILURE \<and> \<not> enough heap (mem_init element_size True) (length t)"
    by (auto simp: string_ok_def)
  moreover have "single_element_size (mem_init element_size True) = element_size" by (simp add: mem_init_def)
  ultimately show ?thesis
    using assms(1,3)
    by (auto simp: fill_item_def mem_copy_unbounded_string_def mem_copy_bounded_string_def Let_def)
qed

lemma append_outcome:
  assumes "quiet g" "array_ok a" "element_size \<noteq> 0"
    and "source_mode = SOURCE_UNBOUNDED_STRING \<and> limit = 0 \<or> source_mode = SOURCE_BOUNDED_STRING"
    and "source_text (mem_init element_size True) source_mode limit src = Some t"
    and "mem_string_array_core g heap source_mode a element_size limit src = (status, a')"
  shows "array_ok a' \<and> (status = SUCCESS
        \<and> (\<exists>item. items a' = items a @ [item] \<and> visible_text item = t \<and> single_element_size item = element_size)
      \<or> status = FAILURE \<and> items a' = items a
         \<and> \<not> (can_allocate heap (root_descriptor a) (mlength (root_descriptor a) + 1)
              \<and> enough heap (mem_init element_size True) (length t)))"
proof -
  define m where "m = root_descriptor a"
  define n where "n = mlength m"
  have ok: "valid m" "\<not> is_string m" "single_element_size m = sizeof_memory" "whole_blocks m"
    "length (items a) = unat n" "\<forall>item \<in> set (items a). string_ok item"
    using assms(2) by (simp_all add: array_ok_def m_def n_def)
  have sl: "string_length m = 0" "\<not> (n > 0 \<and> data m = None)"
    using ok(1,2) by (auto simp: valid_def reserved_def n_def split: option.splits)
  have suc: "unat (n + 1) = unat n + 1" "n < n + 1" "n + 1 \<noteq> 0"
    using unat_Suc_word [of n] array_room [OF assms(2)] by (simp_all add: m_def n_def)
  have step: "(status, a') =
       (let (st, a1) = run_out g SUCCESS (array_resize g heap a (n + 1) ZERO_NEW_MEMORY) a;
            grown = (has TRIUMPH st \<and> mlength (root_descriptor a1) > n);
            mapped = (grown \<and> mem_data_writable g (root_descriptor a1) sizeof_memory \<noteq> None);
            st = (if grown \<and> \<not> mapped then FAILURE else st);
            (st, a2) =
              (if has TRIUMPH st \<and> mapped
               then at_item (unat n) (fill_item g heap source_mode element_size limit src) st a1
               else (st, a1));
            (st, a3) =
              (if \<not> has TRIUMPH st \<and> mlength (root_descriptor a2) > n
               then array_rollback g heap n st a2 else (st, a2))
        in (deliver g st, a3))"
  proof -
    have guards: "(n > 0 \<and> data m = None) = False" "(single_element_size m \<noteq> sizeof_memory) = False"
      "is_string m = False" "(string_length m \<noteq> 0) = False" "(element_size = 0) = False"
      "(source_mode \<noteq> SOURCE_UNBOUNDED_STRING \<and> source_mode \<noteq> SOURCE_BOUNDED_STRING) = False"
      using assms(3,4) sl ok(2,3) by auto
    show ?thesis
      unfolding assms(6) [symmetric] mem_string_array_core_def Let_def m_def [symmetric] n_def [symmetric]
      by (simp only: guards if_False refl)
  qed
  show ?thesis
  proof (cases rule: mem_resize_spec [OF assms(1) ok(1), of heap "n + 1" ZERO_NEW_MEMORY, case_names failed ok])
    case failed
    then have "array_resize g heap a (n + 1) ZERO_NEW_MEMORY = (FAILURE, a)"
      using ok(5) by (simp add: array_resize_def Let_def flip: m_def n_def)
    then have "(status, a') = (FAILURE, a)"
      unfolding step using assms(1) by (simp add: n_def m_def)
    then show ?thesis using assms(2) failed(2) by (simp add: m_def n_def)
  next
    case grown: (ok m1)
    define a1 where "a1 = \<lparr>root_descriptor = m1, items = items a @ [zero_memory]\<rparr>"
    have m1: "valid m1" "\<not> is_string m1" "single_element_size m1 = sizeof_memory" "mlength m1 = n + 1"
      using grown(2) ok(2,3) by (simp_all add: resized_def)
    have w: "whole_blocks m1" using resize_whole [OF ok(2,4), of g heap "n + 1" ZERO_NEW_MEMORY] grown(1) by simp
    have "array_resize g heap a (n + 1) ZERO_NEW_MEMORY = (SUCCESS, a1)"
      using grown(1) ok(5) suc(1) by (simp add: array_resize_def Let_def m1(4) a1_def flip: m_def)
    moreover
    have "data m1 \<noteq> None"
      using m1(1,4) suc(3) by (auto simp: valid_def reserved_def split: option.splits)
    then obtain block where mw: "mem_data_writable g m1 sizeof_memory = Some block"
      using mapped_root [OF assms(1) m1(1,3)] by auto
    moreover obtain st item where fill: "fill_item g heap source_mode element_size limit src SUCCESS zero_memory = (st, item)"
      "string_ok item" "single_element_size item = element_size" "st = SUCCESS \<and> visible_text item = t
        \<or> st = FAILURE \<and> \<not> enough heap (mem_init element_size True) (length t)"
      using fill_item_ok [OF assms(1,3,4,5), of heap zero_memory] by blast
    moreover have "at_item (unat n) (fill_item g heap source_mode element_size limit src) SUCCESS a1
        = (st, \<lparr>root_descriptor = m1, items = items a @ [item]\<rparr>)"
      using fill(1) ok(5) by (simp add: at_item_def a1_def nth_append list_update_append)
    ultimately have res: "(status, a') =
        (let a2 = \<lparr>root_descriptor = m1, items = items a @ [item]\<rparr>;
             (st, a3) = (if \<not> has TRIUMPH st then array_rollback g heap n st a2 else (st, a2))
         in (deliver g st, a3))"
      unfolding step using assms(1) suc(2) m1(4) by (simp add: a1_def Let_def)
    show ?thesis
    proof (cases "st = SUCCESS")
      case True
      then have "(status, a') = (SUCCESS, \<lparr>root_descriptor = m1, items = items a @ [item]\<rparr>)"
        unfolding res using assms(1) by simp
      moreover have "visible_text item = t" using fill(4) True by (auto simp: SUCCESS_def FAILURE_def)
      ultimately show ?thesis
        using ok m1 w fill(2,3) suc(1) by (auto simp: array_ok_def)
    next
      case False
      then have st: "st = FAILURE" "\<not> enough heap (mem_init element_size True) (length t)"
        using fill(4) by blast+
      obtain d item' where del: "mem_delete g item = (d, item')" by fastforce
      have dd: "d = SUCCESS"
        using del fill(2) payload_size_ok(1) [OF assms(1), of item 0] assms(1)
        by (auto simp: mem_delete_def string_ok_def valid_def reserved_def split: option.splits if_splits)
      define m2 where "m2 = m1\<lparr>mlength := n\<rparr>"
      have shrunk: "mem_resize g heap m1 n 0 = (SUCCESS, m2)"
        unfolding m2_def by (rule shrink_in_place [OF assms(1) m1(1,2) w]) (use suc(2) m1(4) in simp)
      have "array_rollback g heap n FAILURE \<lparr>root_descriptor = m1, items = items a @ [item]\<rparr>
          = (FAILURE, \<lparr>root_descriptor = m2, items = items a\<rparr>)"
        using mw del dd shrunk ok(5) assms(1)
        by (simp add: array_rollback_def at_item_def array_resize_def nth_append list_update_append Let_def m2_def
            call_out_failed)
      then have "(status, a') = (FAILURE, \<lparr>root_descriptor = m2, items = items a\<rparr>)"
        unfolding res st(1) using assms(1) by simp
      moreover have "resized m1 n m2"
        by (cases rule: mem_resize_spec [OF assms(1) m1(1), of heap n 0, case_names failed ok])
          (use shrunk in \<open>auto simp: SUCCESS_def FAILURE_def\<close>)
      ultimately show ?thesis
        using ok m1 w st(2) by (auto simp: array_ok_def resized_def m2_def whole_blocks_def)
    qed
  qed
qed




section \<open>Formatted strings hold the rendered text\<close>

lemma formatted_ok:
  assumes "quiet g" "string_ok m" "single_element_size m = 1" "length text + 1 < 2 ^ 64"
  shows "\<exists>st m'. mem_formatted_string_char g heap m (Renders text) = (st, m') \<and> string_ok m'
    \<and> single_element_size m' = 1
    \<and> (st = SUCCESS \<and> visible_text m' = text
       \<or> st = FAILURE \<and> m' = m \<and> \<not> can_allocate heap m (of_nat (length text) + 1))"
proof -
  have v: "valid m" "is_string m" using assms(2) by (simp_all add: string_ok_def)
  define n :: u64 where "n = of_nat (length text)"
  have n: "unat n = length text" unfolding n_def using assms(4) by (intro unat_of_nat_small) simp
  have suc: "unat (n + 1) = unat n + 1" "n < n + 1" "n + 1 \<noteq> 0"
    using unat_Suc_word [of n] n assms(4) by simp_all
  show ?thesis
  proof (cases rule: mem_resize_spec [OF assms(1) v(1), of heap "n + 1" 0, case_names failed ok])
    case failed
    then show ?thesis
      using assms v by (simp add: mem_formatted_string_char_def flip: n_def)
  next
    case (ok m1)
    then have m1: "valid m1" "is_string m1" "single_element_size m1 = 1" "mlength m1 = n + 1"
      using v assms(3) by (simp_all add: resized_def)
    have res: "reserved m1" using m1(1) by (simp add: valid_def)
    then obtain buf where buf: "data m1 = Some buf" "length buf = unat (actually_allocated_bytes m1)"
      using suc(3) m1(4) by (auto simp: reserved_def split: option.splits)
    have len: "length text + 1 \<le> length buf"
      using res m1(3,4) suc(1) n buf(2) by (simp add: reserved_def)
    define m2 where "m2 = m1\<lparr>data := Some (write_at buf 0 (text @ [0])), string_length := n\<rparr>"
    have "mem_formatted_string_char g heap m (Renders text) = (SUCCESS, m2)"
      using ok(1) assms v buf by (simp add: mem_formatted_string_char_def m2_def flip: n_def)
    moreover have "reserved m2" using res buf len by (simp add: reserved_def m2_def write_at_def)
    moreover have "terminated_at m2 n"
      using n len m1(3) by (simp add: terminated_at_def m2_def write_at_def nth_append)
    moreover have "visible_text m2 = text"
      using n m1(3) by (simp add: visible_text_def m2_def write_at_def)
    ultimately show ?thesis
      using m1 suc(2) by (auto simp: string_ok_def valid_def m2_def)
  qed
qed

end
