(* ===== verification/Paths.thy ===== *)
theory Paths
  imports Mem_Text
begin

text \<open>
  Root-relative paths: \<open>path_build_relative.c\<close> builds the path of a traversal entry from the
  names along its parent chain, and \<open>remove_trailing_slash.c\<close> normalises a root path.
\<close>

section \<open>Traversal entries\<close>

text \<open>
  The fields of \<open>FTSENT\<close> the program reads: the level, the name of the last component and the
  parent entry.  The length field \<open>fts_namelen\<close> is the length of the name.
\<close>

datatype ftsent = FTSENT (fts_level: int) (fts_name: bytes) (fts_parent: "ftsent option")

definition FTS_ROOTLEVEL :: int where "FTS_ROOTLEVEL = 0"

definition fts_namelen :: "ftsent \<Rightarrow> u64" where
  "fts_namelen node = of_nat (length (fts_name node))"

section \<open>Building a relative path\<close>

text \<open>
  The measuring loop: the length of the path, \<open>None\<close> where the code reports an invalid name or
  an overflow.
\<close>

fun path_measure :: "ftsent \<Rightarrow> u64 \<Rightarrow> nat \<Rightarrow> u64 option" where
  "path_measure (FTSENT level name parent) relative_path_length component_count =
     (if level > FTS_ROOTLEVEL then
        let namelen = fts_namelen (FTSENT level name parent) in
        if namelen = 0 then None
        else if relative_path_length > SIZE_MAX - namelen then None
        else
          let relative_path_length = relative_path_length + namelen in
          if component_count > 0 \<and> relative_path_length = SIZE_MAX then None
          else
            let relative_path_length =
                  (if component_count > 0 then relative_path_length + 1 else relative_path_length)
            in case parent of
                 None \<Rightarrow> Some relative_path_length
               | Some node \<Rightarrow> path_measure node relative_path_length (Suc component_count)
      else Some relative_path_length)"

text \<open>The walk to the root entry, \<open>None\<close> when the chain ends before level 0.\<close>

fun root_of :: "ftsent \<Rightarrow> ftsent option" where
  "root_of (FTSENT level name parent) =
     (if level > FTS_ROOTLEVEL then
        case parent of None \<Rightarrow> None | Some node \<Rightarrow> root_of node
      else Some (FTSENT level name parent))"

text \<open>The writing loop: components are placed from right to left, \<open>write_cursor\<close> moves down.\<close>

fun path_write :: "ftsent \<Rightarrow> bytes \<Rightarrow> u64 \<Rightarrow> bytes \<times> u64" where
  "path_write (FTSENT level name parent) buf write_cursor =
     (if level > FTS_ROOTLEVEL then
        let component_length = fts_namelen (FTSENT level name parent);
            write_cursor = write_cursor - component_length;
            buf = write_at buf write_cursor name
        in case parent of
             None \<Rightarrow> (buf, write_cursor)
           | Some node \<Rightarrow>
               let (buf, write_cursor) =
                     (if fts_level node > FTS_ROOTLEVEL
                      then (write_at buf (write_cursor - 1) [47], write_cursor - 1)
                      else (buf, write_cursor))
               in path_write node buf write_cursor
      else (buf, write_cursor))"

definition path_build_relative ::
  "'a globals_scheme \<Rightarrow> heap \<Rightarrow> memory \<Rightarrow> ftsent option \<Rightarrow> ret \<times> memory" where
  "path_build_relative g heap relative_path entry =
     (case entry of
        None \<Rightarrow> (deliver g FAILURE, relative_path)
      | Some entry \<Rightarrow>
        if fts_level entry < FTS_ROOTLEVEL then (deliver g FAILURE, relative_path)
        else if fts_level entry = FTS_ROOTLEVEL then
          let (status, relative_path) =
                run_out g SUCCESS (mem_copy_fixed_string g heap relative_path 2 (External [46, 0]))
                  relative_path
          in (deliver g status, relative_path)
        else
          case path_measure entry 0 0 of
            None \<Rightarrow> (deliver g FAILURE, relative_path)
          | Some relative_path_length \<Rightarrow>
              if (case root_of entry of None \<Rightarrow> True | Some root_entry \<Rightarrow> fts_level root_entry \<noteq> FTS_ROOTLEVEL)
              then (deliver g FAILURE, relative_path)
              else if relative_path_length = SIZE_MAX then (deliver g FAILURE, relative_path)
              else
                let (status, relative_path) =
                      run_out g SUCCESS
                        (mem_resize g heap relative_path (relative_path_length + 1) 0) relative_path
                in
                if status \<noteq> SUCCESS then (deliver g status, relative_path)
                else
                  case mem_data_readonly g relative_path 1 of
                    None \<Rightarrow> (deliver g FAILURE, relative_path)
                  | Some relative_path_data \<Rightarrow>
                      let relative_path_data = relative_path_data[unat relative_path_length := 0];
                          (relative_path_data, write_cursor) =
                            path_write entry relative_path_data relative_path_length;
                          relative_path = relative_path\<lparr>data := Some relative_path_data\<rparr>
                      in
                      if write_cursor \<noteq> 0 then (deliver g FAILURE, relative_path)
                      else
                        let (status, relative_path) =
                              run_out g SUCCESS
                                (mem_finalize_string g relative_path relative_path_length
                                   WRITE_TERMINATOR_IF_MISSING) relative_path
                        in (deliver g status, relative_path))"

section \<open>Normalising a root path\<close>

text \<open>The loop that moves the end in front of trailing slashes, keeping one character.\<close>

fun trim_slashes :: "bytes \<Rightarrow> nat \<Rightarrow> nat" where
  "trim_slashes path visible_path_length =
     (if visible_path_length > 1 \<and> path ! (visible_path_length - 1) = 47
      then trim_slashes path (visible_path_length - 1) else visible_path_length)"

declare trim_slashes.simps [simp del]

definition remove_trailing_slash ::
  "'a globals_scheme \<Rightarrow> heap \<Rightarrow> memory \<Rightarrow> ret \<times> memory" where
  "remove_trailing_slash g heap path =
     (let (status, visible_path_length) = run_out g SUCCESS (mem_string_length g path 0) 0
      in if has TRIUMPH status \<and> visible_path_length > 0 then
           case mem_data_readonly g path 1 of
             None \<Rightarrow> (deliver g FAILURE, path)
           | Some path_data \<Rightarrow>
               let trimmed = trim_slashes path_data (unat visible_path_length);
                   path = path\<lparr>data := Some (path_data[trimmed := 0])\<rparr>;
                   (status, path) =
                     call_out g status (mem_resize g heap path (of_nat trimmed + 1) RELEASE_UNUSED) path
               in (deliver g status, path)
         else (deliver g status, path))"

section \<open>The path an entry stands for\<close>

text \<open>The specification: component names from below the root, joined by slashes.\<close>

fun relative_path_of :: "ftsent \<Rightarrow> bytes" where
  "relative_path_of (FTSENT level name parent) =
     (case parent of
        None \<Rightarrow> name
      | Some node \<Rightarrow>
          if fts_level node > FTS_ROOTLEVEL then relative_path_of node @ 47 # name else name)"

text \<open>
  A chain as the traversal library builds it: levels count down to a root at level 0, and every
  entry below the root has a non-empty name.
\<close>

fun chain_ok :: "ftsent \<Rightarrow> bool" where
  "chain_ok (FTSENT level name parent) \<longleftrightarrow>
     (case parent of
        None \<Rightarrow> level = FTS_ROOTLEVEL
      | Some node \<Rightarrow>
          level = FTS_ROOTLEVEL
          \<or> level > FTS_ROOTLEVEL \<and> fts_level node = level - 1 \<and> name \<noteq> [] \<and> chain_ok node)"

lemma relative_path_nonempty:
  "chain_ok node \<Longrightarrow> fts_level node > FTS_ROOTLEVEL \<Longrightarrow> relative_path_of node \<noteq> []"
  by (induction node rule: relative_path_of.induct) (auto split: option.splits)

lemma fts_namelen_small:
  "length (fts_name node) < 2 ^ 64 \<Longrightarrow> unat (fts_namelen node) = length (fts_name node)"
  unfolding fts_namelen_def by (intro unat_of_nat_small) simp

lemma path_measure_chain:
  assumes "chain_ok node" "fts_level node > FTS_ROOTLEVEL"
    and "unat len + length (relative_path_of node) + (if count > 0 then 1 else 0) < 2 ^ 64 - 1"
  shows "\<exists>total_len. path_measure node len count = Some total_len
    \<and> unat total_len = unat len + length (relative_path_of node) + (if count > 0 then 1 else 0)"
  using assms
proof (induction node len count rule: path_measure.induct)
  case (1 level name parent len count)
  let ?node = "FTSENT level name parent"
  from 1 obtain up where up: "parent = Some up" "fts_level up = level - 1" "name \<noteq> []" "chain_ok up"
    by (auto simp: FTS_ROOTLEVEL_def split: option.splits)
  have lv: "level > FTS_ROOTLEVEL" using 1 by simp
  have name: "length name \<le> length (relative_path_of ?node)"
    by (simp add: up(1))
  then have nl: "unat (fts_namelen ?node) = length name"
    using 1 fts_namelen_small [of ?node] by simp
  have nl0: "fts_namelen ?node \<noteq> 0" using nl up(3) by (auto simp: word_zero_iff_unat)
  have fit: "\<not> len > SIZE_MAX - fts_namelen ?node"
    using 1(4) name nl by (auto simp: add_fits_iff split: if_splits)
  define l1 where "l1 = len + fts_namelen ?node"
  have l1: "unat l1 = unat len + length name"
    using fit nl by (simp add: l1_def add_fits_iff unat_word_ariths)
  have bound: "unat len + length name + (if count > 0 then 1 else 0) < 2 ^ 64 - 1"
    using 1(4) name by linarith
  have nmax: "\<not> (count > 0 \<and> l1 = SIZE_MAX)"
    using bound l1 by (auto simp: word_unat_eq_iff)
  define l2 where "l2 = (if count > 0 then l1 + 1 else l1)"
  have l2: "unat l2 = unat len + length name + (if count > 0 then 1 else 0)"
    using bound l1 unat_Suc_word(1) [of l1] by (auto simp: l2_def)
  have step: "path_measure ?node len count = path_measure up l2 (Suc count)"
    using lv nl0 fit nmax up(1) by (auto simp: Let_def l1_def l2_def)
  show ?case
  proof (cases "fts_level up > FTS_ROOTLEVEL")
    case True
    have "unat l2 + length (relative_path_of up) + 1 < 2 ^ 64 - 1"
      using 1(4) True up(1) l2 by (simp add: algebra_simps)
    with 1(1) [OF lv refl nl0 fit refl, folded l1_def, OF nmax refl, folded l2_def, OF up(1) up(4) True]
    obtain tl where "path_measure up l2 (Suc count) = Some tl"
      "unat tl = unat l2 + length (relative_path_of up) + 1"
      by auto
    then show ?thesis using step l2 True up(1) by (auto simp: algebra_simps)
  next
    case False
    then have "path_measure up l2 (Suc count) = Some l2"
      by (cases up) (simp add: FTS_ROOTLEVEL_def)
    then show ?thesis using step l2 False up(1) by simp
  qed
qed

lemma root_of_chain:
  "chain_ok node \<Longrightarrow> \<exists>root. root_of node = Some root \<and> fts_level root = FTS_ROOTLEVEL"
  by (induction node rule: root_of.induct) (auto split: option.splits simp: FTS_ROOTLEVEL_def)

text \<open>The writing loop fills exactly the bytes in front of the cursor.\<close>

lemma write_at_before:
  assumes "unat off + length xs = n" "n \<le> length buf"
  shows "take n (write_at buf off xs) = take (unat off) buf @ xs"
    and "drop n (write_at buf off xs) = drop n buf"
    and "drop (unat off) (write_at buf off xs) = xs @ drop n buf"
  using assms by (simp_all add: write_at_def)

lemma path_write_chain:
  assumes "chain_ok node" "fts_level node > FTS_ROOTLEVEL"
    and "unat cursor = length (relative_path_of node)" "unat cursor \<le> length buf"
  shows "path_write node buf cursor = (relative_path_of node @ drop (unat cursor) buf, 0)"
  using assms
proof (induction node buf cursor rule: path_write.induct)
  case (1 level name parent buf cursor)
  let ?node = "FTSENT level name parent"
  from 1 obtain up where up: "parent = Some up" "fts_level up = level - 1" "name \<noteq> []" "chain_ok up"
    by (auto simp: FTS_ROOTLEVEL_def split: option.splits)
  have lv: "level > FTS_ROOTLEVEL" using 1 by simp
  have name: "length name \<le> unat cursor" using 1(4) by (simp add: up(1))
  then have nl: "unat (fts_namelen ?node) = length name"
    using fts_namelen_small [of ?node] lt_word_max [of cursor] by simp
  define c1 where "c1 = cursor - fts_namelen ?node"
  have c1: "unat c1 = unat cursor - length name"
    using name nl by (simp add: c1_def unat_sub word_le_nat_alt)
  define b1 where "b1 = write_at buf c1 name"
  have b1: "drop (unat c1) b1 = name @ drop (unat cursor) buf" "length b1 = length buf"
    using write_at_before(3) [of c1 name "unat cursor" buf] c1 name 1(5) by (simp_all add: b1_def)
  show ?case
  proof (cases "fts_level up > FTS_ROOTLEVEL")
    case True
    have len: "unat c1 = length (relative_path_of up) + 1"
      using c1 1(4) True up(1) by simp
    have c2: "unat (c1 - 1) = length (relative_path_of up)"
      using len by (simp add: unat_sub word_le_nat_alt)
    define b2 where "b2 = write_at b1 (c1 - 1) [47]"
    have b2: "drop (unat (c1 - 1)) b2 = 47 # drop (unat c1) b1" "length b2 = length b1"
      using write_at_before(3) [of "c1 - 1" "[47]" "unat c1" b1] c2 len c1 b1(2) 1(5)
      by (simp_all add: b2_def)
    have "path_write up b2 (c1 - 1) = (relative_path_of up @ drop (unat (c1 - 1)) b2, 0)"
      using 1(1) [OF lv refl refl refl, folded c1_def, folded b1_def, OF up(1)] True up(4) c2 b2(2) b1(2) 1(5) len c1
      by (simp add: b2_def)
    moreover have "path_write ?node buf cursor = path_write up b2 (c1 - 1)"
      using lv True up(1) by (simp add: Let_def c1_def b1_def b2_def)
    ultimately show ?thesis
      using True up(1) b2(1) b1(1) by simp
  next
    case False
    then have rp: "relative_path_of ?node = name" using up(1) by simp
    then have "unat c1 = 0" using c1 1(4) by simp
    then have c0: "c1 = 0" by (simp add: unat_eq_0)
    have "path_write up b1 c1 = (b1, c1)" using False by (cases up) (simp add: FTS_ROOTLEVEL_def)
    moreover have "path_write ?node buf cursor = path_write up b1 c1"
      using lv False up(1) by (simp add: Let_def c1_def b1_def)
    ultimately show ?thesis
      using rp b1(1) c0 by simp
  qed
qed


lemma mem_data_ok:
  assumes "quiet g" "valid m" "single_element_size m = k"
  shows "mem_data_readonly g m k = data m"
proof -
  have res: "reserved m" using assms(2) by (simp add: valid_def)
  then show ?thesis
    using payload_size_ok(1,3) [OF assms(1) res] assms(3) string_guards [OF assms(2)]
    by (auto simp: mem_data_readonly_def reserved_def Let_def split: option.splits)
qed

definition entry_path :: "ftsent \<Rightarrow> bytes" where
  "entry_path entry = (if fts_level entry = FTS_ROOTLEVEL then [46] else relative_path_of entry)"

text \<open>With any allocator: the path is built, or the status is FAILURE and the descriptor stays valid.\<close>

lemma path_build_total:
  assumes "quiet g" "valid m" "is_string m" "single_element_size m = 1"
    and "chain_ok entry" "length (entry_path entry) + 4096 < 2 ^ 64"
  shows "\<exists>st m'. path_build_relative g heap m (Some entry) = (st, m') \<and> valid m' \<and> is_string m'
    \<and> single_element_size m' = 1
    \<and> (st = SUCCESS \<and> visible_text m' = entry_path entry
       \<or> st = FAILURE \<and> \<not> enough heap m (length (entry_path entry)))"
proof (cases "fts_level entry = FTS_ROOTLEVEL")
  case True
  have src: "source_text m SOURCE_FIXED_STRING 2 (External [46, 0]) = Some [46]"
    using assms(4) by (simp add: source_text_def)
  from mem_core_string_ok [OF assms(1-3) src, of heap TRANSFER_REPLACE] assms(4) True
  obtain st m' where "mem_core_string g heap SOURCE_FIXED_STRING TRANSFER_REPLACE m 2 (External [46, 0])
      = (st, m')" "valid m'" "is_string m'" "single_element_size m' = 1"
    "st = SUCCESS \<and> visible_text m' = [46] \<or> st = FAILURE \<and> \<not> enough heap m (length (entry_path entry))"
    by (auto simp: entry_path_def)
  then show ?thesis
    using True assms(1) by (auto simp: path_build_relative_def mem_copy_fixed_string_def entry_path_def)
next
  case False
  have lv: "fts_level entry > FTS_ROOTLEVEL"
    using assms(5) False by (cases entry) (auto simp: FTS_ROOTLEVEL_def split: option.splits)
  let ?p = "relative_path_of entry"
  have fit: "length ?p + 4096 < 2 ^ 64"
    using assms(6) False by (simp add: entry_path_def)
  obtain n where n: "path_measure entry 0 0 = Some n" "unat n = length ?p"
    using path_measure_chain [OF assms(5) lv, of 0 0] fit by auto
  have n1: "unat n + 1 < 2 ^ 64" "n \<noteq> SIZE_MAX"
    using n(2) fit by (auto simp: word_unat_eq_iff)
  note su = unat_Suc_word [OF n1(1)]
  have root: "\<not> (case root_of entry of None \<Rightarrow> True | Some r \<Rightarrow> fts_level r \<noteq> FTS_ROOTLEVEL)"
    using root_of_chain [OF assms(5)] by auto
  have can: "can_allocate heap m (n + 1)" if "enough heap m (length (entry_path entry))"
    using assms(4) that False n(2) su(1) by (simp add: can_allocate_def enough_def entry_path_def)
  show ?thesis
  proof (cases rule: mem_resize_spec [OF assms(1,2), of heap "n + 1" 0, case_names failed ok])
    case failed
    then have "path_build_relative g heap m (Some entry) = (FAILURE, m)"
      using assms(1) lv n(1) root n1(2) by (simp add: path_build_relative_def FTS_ROOTLEVEL_def Let_def)
    then show ?thesis using failed(2) can assms(2-4) by auto
  next
    case (ok m1)
    note m1 = ok
  have m1v: "valid m1" "is_string m1" "single_element_size m1 = 1" "mlength m1 = n + 1" "reserved m1"
    using m1(2) assms(3,4) by (auto simp: resized_def valid_def)
  obtain buf where buf: "data m1 = Some buf" "length buf = unat (actually_allocated_bytes m1)"
    "unat (n + 1) * unat (single_element_size m) \<le> length buf"
    using resized_block [OF m1(2) su(3)] by metis
  have room: "length ?p + 1 \<le> length buf" using buf(3) assms(4) su(1) n(2) by simp
  define b1 where "b1 = buf[unat n := 0]"
  define b2 where "b2 = ?p @ drop (unat n) b1"
  have pw: "path_write entry b1 n = (b2, 0)"
    unfolding b2_def by (rule path_write_chain [OF assms(5) lv n(2)]) (use room n(2) in \<open>simp add: b1_def\<close>)
  have len2: "length b2 = length buf" using room n(2) by (simp add: b2_def b1_def)
  define m2 where "m2 = m1\<lparr>data := Some b2\<rparr>"
  have m2: "reserved m2" "is_string m2" "n < mlength m2" "single_element_size m2 = 1"
    using m1v buf len2 su(2) by (auto simp: m2_def reserved_def)
  note ins = index_inside [OF m2(1,3)]
  have fin: "mem_finalize_string g m2 n WRITE_TERMINATOR_IF_MISSING
      = (SUCCESS, (put_terminator m2 n)\<lparr>string_length := n\<rparr>)"
    by (rule finalize_ok [OF assms(1) m2(1-3)])
  let ?r = "(put_terminator m2 n)\<lparr>string_length := n\<rparr>"
  have "path_build_relative g heap m (Some entry) = (SUCCESS, ?r)"
    using assms(1) lv n(1) root n1(2) m1(1) pw fin
    by (simp add: path_build_relative_def FTS_ROOTLEVEL_def mem_data_ok [OF assms(1) m1v(1,3)] buf(1)
        b1_def m2_def Let_def)
  moreover have "valid ?r \<and> is_string ?r \<and> single_element_size ?r = 1"
    using put_terminator_reserved [OF m2(1) ins(1) assms(1)]
      put_terminator_terminated [OF m2(1) ins(1) assms(1) ins(2)] m2
    by (simp add: valid_def)
  moreover have "visible_text ?r = ?p"
  proof -
    have "take (unat n) (write_at b2 n [0]) = take (unat n) b2"
      by (rule take_write_at(1)) (use room n(2) len2 in simp_all)
    then show ?thesis
      using n(2) m2(4) by (simp add: visible_text_def put_terminator_def m2_def b2_def)
  qed
  ultimately show ?thesis using False by (auto simp: entry_path_def)
  qed
qed


text \<open>The entry \<open>b.txt\<close> in the directory \<open>a\<close> of a root.\<close>

definition sample_entry :: ftsent where
  "sample_entry =
     FTSENT 2 [98, 46, 116, 120, 116] (Some (FTSENT 1 [97] (Some (FTSENT 0 [47, 114] None))))"


section \<open>After an interrupt\<close>

text \<open>
  A resize that needs no allocation, started after a signal: it adjusts the lengths and skips
  the terminator.
\<close>

lemma halted_call_out [simp]:
  assumes "global_return_status g = HALTED"
  shows "call_out g (SUCCESS OR HALTED) (SUCCESS OR HALTED, x) y = (SUCCESS OR HALTED, x)"
  using assms
  by (auto simp: call_out_def call_def Let_def bit_or_iff case_prod_beta intro!: bit_word_eqI)

lemma halted_byte_size:
  assumes "global_return_status g = HALTED" "single_element_size m \<noteq> 0"
    "unat n * unat (single_element_size m) < 2 ^ 64"
  shows "mem_guarded_byte_size g m n x = (SUCCESS OR HALTED, single_element_size m * n)"
  using assms mult_fits_iff [of "single_element_size m" n]
  by (auto simp: mem_guarded_byte_size_def leD)

lemma resize_after_signal:
  assumes g: "global_return_status g = HALTED" and v: "valid m" "is_string m" "data m = Some buf"
    and n: "n \<noteq> 0" "unat n * unat (single_element_size m) < 2 ^ 64"
    and slab: "round_up_to_block_size (single_element_size m * n) = Some slab"
      "slab \<le> actually_allocated_bytes m"
  shows "\<exists>k. mem_resize g heap m n 0 = (SUCCESS OR HALTED, m\<lparr>mlength := n, string_length := k\<rparr>)
    \<and> k \<le> string_length m"
proof -
  have res: "reserved m" and k: "single_element_size m \<noteq> 0"
    using v by (auto simp: valid_def reserved_def)
  have pl: "unat (mlength m) * unat (single_element_size m) < 2 ^ 64"
    using res lt_word_max [of "actually_allocated_bytes m"] by (simp add: reserved_def)
  note b1 = halted_byte_size [OF g k pl] and b2 = halted_byte_size [OF g k n(2)]
  have ps: "\<not> actually_allocated_bytes m < single_element_size m * mlength m"
  proof -
    have "unat (single_element_size m * mlength m) = unat (mlength m) * unat (single_element_size m)"
      using pl by (simp add: unat_word_ariths mult.commute)
    then show ?thesis using res by (simp add: reserved_def word_less_nat_alt)
  qed
  have cache: "mlength m = 0 \<and> string_length m = 0 \<or> string_length m < mlength m"
    using v by (auto simp: valid_def)
  have t: "has TRIUMPH (SUCCESS OR HALTED)" by (simp add: bit_or_iff)
  show ?thesis
  proof (cases "n = mlength m")
    case True
    then have "mem_resize g heap m n 0 = (SUCCESS OR HALTED, m)"
      using g v(2,3) k n(1) b1 ps cache t
      by (auto simp: mem_resize_def Let_def not_le word_neq_0_conv)
    moreover have "m = m\<lparr>mlength := n, string_length := string_length m\<rparr>" using True by simp
    ultimately show ?thesis by (metis order_refl)
  next
    case False
    have blk: "resize_block heap (SUCCESS OR HALTED) False slab m = (SUCCESS OR HALTED, m)"
      using v(3) slab(2) by (simp add: resize_block_def leD)
    define r where "r = (if mlength m > 0 then if string_length m \<ge> n then n - 1 else string_length m else 0)"
    have step: "mem_resize g heap m n 0 =
        (SUCCESS OR HALTED, m\<lparr>mlength := n, string_length := r\<rparr>)"
    proof -
      have "resize_to_count g heap (SUCCESS OR HALTED) False False (single_element_size m * mlength m)
          (single_element_size m * n) n m = (SUCCESS OR HALTED, m\<lparr>mlength := n, string_length := r\<rparr>)"
        using g v(2,3) slab(1) blk t
        by (cases m) (simp add: resize_to_count_def resize_metadata_def Let_def r_def)
      then show ?thesis
        using g v(2,3) k n(1) b1 b2 ps cache t False
        by (auto simp: mem_resize_def Let_def not_le word_neq_0_conv)
    qed
    have "n - 1 \<le> n" using n(1) by (simp add: word_le_nat_alt unat_sub word_neq_0_conv word_less_nat_alt)
    then have "r \<le> string_length m" by (auto simp: r_def)
    with step show ?thesis by blast
  qed
qed

text \<open>
  Once an interrupt has been signalled, building the path of an entry below the root answers
  SUCCESS|HALTED, a graceful status, while the buffer keeps the bytes of the previous path.
\<close>

theorem path_not_written_after_signal:
  assumes "global_return_status g = HALTED" "valid m" "is_string m" "single_element_size m = 1"
    and "data m = Some buf" "chain_ok entry" "fts_level entry > FTS_ROOTLEVEL"
    and "length (relative_path_of entry) + 1 \<le> 4096" "4096 \<le> actually_allocated_bytes m"
  shows "\<exists>m'. path_build_relative g heap m (Some entry) = (SUCCESS OR HALTED, m')
    \<and> has TRIUMPH (SUCCESS OR HALTED) \<and> data m' = Some buf \<and> string_length m' \<le> string_length m"
proof -
  obtain n where n: "path_measure entry 0 0 = Some n" "unat n = length (relative_path_of entry)"
    using path_measure_chain [OF assms(6,7), of 0 0] assms(8) by auto
  have n1: "unat n + 1 < 2 ^ 64" "n \<noteq> SIZE_MAX"
    using n(2) assms(8) by (auto simp: word_unat_eq_iff)
  note su = unat_Suc_word [OF n1(1)]
  have root: "\<not> (case root_of entry of None \<Rightarrow> True | Some r \<Rightarrow> fts_level r \<noteq> FTS_ROOTLEVEL)"
    using root_of_chain [OF assms(6)] by auto
  have u: "unat (n + 1) + 4095 < 2 ^ 64" using su(1) n(2) assms(8) by simp
  obtain slab where slab: "round_up_to_block_size (n + 1) = Some slab"
    using round_up_fits [OF u] by auto
  have "unat slab < unat (n + 1) + 4096" "unat slab mod 4096 = 0"
    using round_up_Some [OF slab] by auto
  moreover from this have "unat slab div 4096 < 2" using su(1) n(2) assms(8) by simp
  ultimately have "unat slab \<le> 4096" using mult_div_mod_eq [of 4096 "unat slab"] by linarith
  then have le: "slab \<le> actually_allocated_bytes m"
    using assms(9) by (simp add: word_le_nat_alt)
  obtain k where k: "mem_resize g heap m (n + 1) 0
      = (SUCCESS OR HALTED, m\<lparr>mlength := n + 1, string_length := k\<rparr>)" "k \<le> string_length m"
    using resize_after_signal [OF assms(1-3,5) su(3), of slab heap] u slab le assms(4) by auto
  have ne: "SUCCESS OR HALTED \<noteq> SUCCESS"
    by (simp add: SUCCESS_def HALTED_def)
  have "path_build_relative g heap m (Some entry)
      = (SUCCESS OR HALTED, m\<lparr>mlength := n + 1, string_length := k\<rparr>)"
    using assms(1,7) n(1) root n1(2) k(1) ne
    by (simp add: path_build_relative_def FTS_ROOTLEVEL_def)
  then show ?thesis using assms(5) k(2) by (simp add: bit_or_iff)
qed

text \<open>A descriptor that still holds the path \<open>old\<close> in a block of 4096 bytes.\<close>

definition old_path :: memory where
  "old_path =
     \<lparr>single_element_size = 1, actually_allocated_bytes = 4096, mlength = 4, string_length = 3,
      is_string = True, data = Some ([111, 108, 100, 0] @ replicate 4092 0)\<rparr>"

theorem path_not_written_after_signal_witness:
  "\<exists>m'. path_build_relative (signal_notify_quit_handler initial_globals) (\<lambda>_. None) old_path (Some sample_entry)
       = (SUCCESS OR HALTED, m') \<and> data m' = data old_path"
proof -
  have v: "valid old_path" by (simp add: old_path_def valid_def reserved_def terminated_at_def)
  have "\<exists>m'. path_build_relative (signal_notify_quit_handler initial_globals) (\<lambda>_. None) old_path (Some sample_entry)
      = (SUCCESS OR HALTED, m') \<and> has TRIUMPH (SUCCESS OR HALTED)
      \<and> data m' = Some ([111, 108, 100, 0] @ replicate 4092 0) \<and> string_length m' \<le> string_length old_path"
    by (rule path_not_written_after_signal [OF _ v])
      (simp_all add: old_path_def signal_notify_quit_handler_def sample_entry_def FTS_ROOTLEVEL_def)
  then show ?thesis by (auto simp: old_path_def)
qed

end
