(* ===== verification/Patterns.thy ===== *)
theory Patterns
  imports Paths
begin

text \<open>
  Path filters: the options that carry compiled patterns, \<open>match_regexp.c\<close>, the loops of
  \<open>match_include_pattern.c\<close>, \<open>match_ignore_pattern.c\<close>, \<open>match_checksum_lock_pattern.c\<close>, and the
  decisions of \<open>match_include_ignore.c\<close> and \<open>path_check_locked_checksum.c\<close>.

  The regular-expression engine is a parameter: \<open>pcre2_match code subject\<close> is the result of
  \<open>pcre2_match()\<close>, \<open>None\<close> when no match data could be allocated.
\<close>

section \<open>Matching one pattern\<close>

type_synonym pcre2_code = bytes
type_synonym regex_engine = "pcre2_code \<Rightarrow> bytes \<Rightarrow> int option"

datatype REGEXP = NOT_MATCH | MATCH | REGEXP_ERROR

definition PCRE2_ERROR_NOMATCH :: int where "PCRE2_ERROR_NOMATCH = -1"

definition match_regexp ::
  "regex_engine \<Rightarrow> 'a globals_scheme \<Rightarrow> pcre2_code option \<Rightarrow> memory \<Rightarrow> REGEXP" where
  "match_regexp pcre2_match g compiled_pattern relative_path =
     (case compiled_pattern of
        None \<Rightarrow> REGEXP_ERROR
      | Some code \<Rightarrow>
          let (status, path_length) = mem_string_length g relative_path 0 in
          if SUCCESS \<noteq> status then REGEXP_ERROR
          else
            case pcre2_match code (take (unat path_length) (mem_string relative_path)) of
              None \<Rightarrow> REGEXP_ERROR
            | Some match_result \<Rightarrow>
                if match_result > 0 then MATCH
                else if match_result = PCRE2_ERROR_NOMATCH then NOT_MATCH
                else REGEXP_ERROR)"

section \<open>Pattern lists\<close>

text \<open>
  The NULL-terminated arrays of compiled patterns; \<open>None\<close> is a NULL array.  The three
  functions run the same loop and differ in the enumeration they answer with.
\<close>

type_synonym patterns = "pcre2_code list option"

datatype Include = DO_NOT_INCLUDE | INCLUDE | FAIL_REGEXP_INCLUDE
datatype Ignore = DO_NOT_IGNORE | IGNORE | FAIL_REGEXP_IGNORE
datatype LockChecksum = DO_NOT_LOCK_CHECKSUM | LOCK_CHECKSUM | FAIL_REGEXP_LOCK_CHECKSUM

fun pattern_loop ::
  "regex_engine \<Rightarrow> 'a globals_scheme \<Rightarrow> 'r \<Rightarrow> 'r \<Rightarrow> 'r \<Rightarrow> pcre2_code list \<Rightarrow> memory \<Rightarrow> 'r" where
  "pattern_loop rx g on_match on_error no_match [] relative_path = no_match"
| "pattern_loop rx g on_match on_error no_match (code # codes) relative_path =
     (let result = match_regexp rx g (Some code) relative_path in
      if result = MATCH then on_match
      else if result = REGEXP_ERROR then on_error
      else pattern_loop rx g on_match on_error no_match codes relative_path)"

definition match_include_pattern ::
  "regex_engine \<Rightarrow> 'a globals_scheme \<Rightarrow> patterns \<Rightarrow> memory \<Rightarrow> Include" where
  "match_include_pattern rx g include_pcre_compiled relative_path =
     (case include_pcre_compiled of
        None \<Rightarrow> DO_NOT_INCLUDE
      | Some codes \<Rightarrow> pattern_loop rx g INCLUDE FAIL_REGEXP_INCLUDE DO_NOT_INCLUDE codes relative_path)"

definition match_ignore_pattern ::
  "regex_engine \<Rightarrow> 'a globals_scheme \<Rightarrow> patterns \<Rightarrow> memory \<Rightarrow> Ignore" where
  "match_ignore_pattern rx g ignore_pcre_compiled relative_path =
     (case ignore_pcre_compiled of
        None \<Rightarrow> DO_NOT_IGNORE
      | Some codes \<Rightarrow> pattern_loop rx g IGNORE FAIL_REGEXP_IGNORE DO_NOT_IGNORE codes relative_path)"

definition match_checksum_lock_pattern ::
  "regex_engine \<Rightarrow> 'a globals_scheme \<Rightarrow> patterns \<Rightarrow> memory \<Rightarrow> LockChecksum" where
  "match_checksum_lock_pattern rx g lock_checksum_pcre_compiled relative_path =
     (case lock_checksum_pcre_compiled of
        None \<Rightarrow> DO_NOT_LOCK_CHECKSUM
      | Some codes \<Rightarrow>
          pattern_loop rx g LOCK_CHECKSUM FAIL_REGEXP_LOCK_CHECKSUM DO_NOT_LOCK_CHECKSUM codes relative_path)"

section \<open>Decisions\<close>

text \<open>The result is the status with the output flags \<open>include\<close> and \<open>ignore\<close>.\<close>

definition match_include_ignore ::
  "regex_engine \<Rightarrow> 'a globals_scheme \<Rightarrow> patterns \<Rightarrow> patterns \<Rightarrow> memory \<Rightarrow> ret \<times> bool \<times> bool" where
  "match_include_ignore rx g include_pcre ignore_pcre relative_path =
     (case match_include_pattern rx g include_pcre relative_path of
        DO_NOT_INCLUDE \<Rightarrow>
          (case match_ignore_pattern rx g ignore_pcre relative_path of
             IGNORE \<Rightarrow> (deliver g SUCCESS, False, True)
           | FAIL_REGEXP_IGNORE \<Rightarrow> (deliver g FAILURE, False, False)
           | DO_NOT_IGNORE \<Rightarrow> (deliver g SUCCESS, False, False))
      | FAIL_REGEXP_INCLUDE \<Rightarrow> (deliver g FAILURE, False, False)
      | INCLUDE \<Rightarrow> (deliver g SUCCESS, True, False))"

definition path_check_locked_checksum ::
  "regex_engine \<Rightarrow> 'a globals_scheme \<Rightarrow> patterns \<Rightarrow> memory \<Rightarrow> ret" where
  "path_check_locked_checksum rx g lock_pcre relative_path =
     (case match_checksum_lock_pattern rx g lock_pcre relative_path of
        FAIL_REGEXP_LOCK_CHECKSUM \<Rightarrow> deliver g (FAILURE OR NO)
      | LOCK_CHECKSUM \<Rightarrow> deliver g (SUCCESS OR YES)
      | DO_NOT_LOCK_CHECKSUM \<Rightarrow> deliver g (SUCCESS OR NO))"

section \<open>What the filters decide\<close>

text \<open>A pattern matches a text when the engine reports at least one group.\<close>

definition rx_matches :: "regex_engine \<Rightarrow> bytes \<Rightarrow> pcre2_code \<Rightarrow> bool" where
  "rx_matches rx text code \<longleftrightarrow> (\<exists>r. rx code text = Some r \<and> r > 0)"

text \<open>The engine answers every pattern on a text with a match or a clean non-match.\<close>

definition rx_decides :: "regex_engine \<Rightarrow> bytes \<Rightarrow> pcre2_code list \<Rightarrow> bool" where
  "rx_decides rx text codes \<longleftrightarrow>
     (\<forall>code \<in> set codes. \<exists>r. rx code text = Some r \<and> (r > 0 \<or> r = PCRE2_ERROR_NOMATCH))"

definition codes_of :: "patterns \<Rightarrow> pcre2_code list" where
  "codes_of ps = (case ps of None \<Rightarrow> [] | Some codes \<Rightarrow> codes)"

lemma path_subject:
  assumes "quiet g" "valid m" "is_string m"
  shows "mem_string_length g m 0 = (SUCCESS, string_length m)"
    and "single_element_size m = 1 \<Longrightarrow> mlength m \<noteq> 0 \<Longrightarrow>
         take (unat (string_length m)) (mem_string m) = visible_text m"
proof -
  show "mem_string_length g m 0 = (SUCCESS, string_length m)"
    using assms string_guards [OF assms(2)] by (auto simp: mem_string_length_def)
  assume e: "single_element_size m = 1" "mlength m \<noteq> 0"
  then have "string_length m < mlength m" "reserved m" using assms by (auto simp: valid_def)
  from index_inside(2) [OF this(2,1)] obtain buf where "data m = Some buf" by auto
  moreover have "\<not> mlength m \<le> string_length m" using \<open>string_length m < mlength m\<close> by simp
  ultimately show "take (unat (string_length m)) (mem_string m) = visible_text m"
    using e assms(3) \<open>string_length m < mlength m\<close>
    by (auto simp: mem_string_def visible_text_def Let_def)
qed

lemma match_regexp_decides:
  assumes "quiet g" "valid m" "is_string m" "single_element_size m = 1" "mlength m \<noteq> 0"
    and "rx code (visible_text m) = Some r" "r > 0 \<or> r = PCRE2_ERROR_NOMATCH"
  shows "match_regexp rx g (Some code) m = (if r > 0 then MATCH else NOT_MATCH)"
  using assms path_subject [OF assms(1-3)]
  by (auto simp: match_regexp_def PCRE2_ERROR_NOMATCH_def)

lemma pattern_loop_decides:
  assumes "quiet g" "valid m" "is_string m" "single_element_size m = 1" "mlength m \<noteq> 0"
    and "rx_decides rx (visible_text m) codes"
  shows "pattern_loop rx g on_match on_error no_match codes m
       = (if \<exists>code \<in> set codes. rx_matches rx (visible_text m) code then on_match else no_match)"
  using assms(6)
proof (induction codes)
  case Nil
  then show ?case by simp
next
  case (Cons code codes)
  then obtain r where r: "rx code (visible_text m) = Some r" "r > 0 \<or> r = PCRE2_ERROR_NOMATCH"
    by (auto simp: rx_decides_def)
  have "rx_decides rx (visible_text m) codes" using Cons.prems by (simp add: rx_decides_def)
  then show ?case
    using Cons.IH match_regexp_decides [where code = code and r = r and rx = rx and g = g and m = m,
        OF assms(1-5) r] r
    by (auto simp: rx_matches_def)
qed


text \<open>An engine whose patterns are literal prefixes.\<close>

definition prefix_engine :: regex_engine where
  "prefix_engine code subject = Some (if take (length code) subject = code then 1 else -1)"


text \<open>
  A match that is evaluated after an interrupt is reported as a pattern error, so the lock
  check answers FAILURE for every path as soon as one lock pattern is configured.
\<close>

theorem patterns_fail_after_signal:
  assumes "global_return_status g = HALTED" "valid m" "is_string m"
  shows "match_regexp rx g (Some code) m = REGEXP_ERROR
    \<and> has FAILURE (path_check_locked_checksum rx g (Some (code # codes)) m)
    \<and> has FAILURE (fst (match_include_ignore rx g (Some (code # codes)) ign m))"
proof -
  have ne: "SUCCESS OR HALTED \<noteq> SUCCESS" by (simp add: SUCCESS_def HALTED_def)
  have "fst (mem_string_length g m 0) = SUCCESS OR HALTED"
    using assms string_guards [OF assms(2)] by (auto simp: mem_string_length_def)
  then have m: "match_regexp rx g (Some code) m = REGEXP_ERROR"
    using ne by (auto simp: match_regexp_def case_prod_beta)
  have "bit (deliver g (FAILURE OR NO)) 0" "bit (deliver g FAILURE) 0"
    by (auto simp: deliver_def bit_provide Let_def bit_or_iff)
  then show ?thesis
    using m by (simp add: path_check_locked_checksum_def match_checksum_lock_pattern_def
        match_include_ignore_def match_include_pattern_def)
qed

theorem patterns_fail_after_signal_witness:
  "match_regexp prefix_engine (signal_notify_quit_handler initial_globals) (Some [97]) abc_descriptor
     = REGEXP_ERROR"
  using patterns_fail_after_signal [OF _ valid_abc, of "signal_notify_quit_handler initial_globals"
      prefix_engine "[97]" "[]" None]
  by (simp add: signal_notify_quit_handler_def)

end
