(* ===== verification/Outcome.thy ===== *)
theory Outcome
  imports Mem_Core
begin

text \<open>
  The statuses of the scanner's functions: each succeeds or fails, and carries HALTED once a
  signal has arrived.  The lemmas here evaluate the control macros on such statuses.
\<close>

section \<open>Succeeding, failing, interrupted\<close>

definition outcome :: "bool \<Rightarrow> bool \<Rightarrow> ret" where
  "outcome good halted = (if good then SUCCESS else FAILURE) OR (if halted then HALTED else 0)"

lemma bit_outcome [simp]:
  "bit (outcome good halted) n \<longleftrightarrow> n = 3 \<and> good \<or> n = 0 \<and> \<not> good \<or> n = 4 \<and> halted"
  by (auto simp: outcome_def bit_or_iff)

lemma outcome_eq [simp]:
  "outcome g h = outcome g' h' \<longleftrightarrow> g = g' \<and> h = h'"
proof
  assume "outcome g h = outcome g' h'"
  then have "bit (outcome g h) n = bit (outcome g' h') n" for n by (rule arg_cong)
  from this [of 3] this [of 4] show "g = g' \<and> h = h'" by simp
qed simp

lemma outcome_literals:
  "outcome True False = SUCCESS" "outcome False False = FAILURE"
  "outcome True True = SUCCESS OR HALTED" "outcome False True = FAILURE OR HALTED"
  by (simp_all add: outcome_def)

lemma outcome_tests [simp]:
  "outcome g h = SUCCESS \<longleftrightarrow> g \<and> \<not> h" "SUCCESS = outcome g h \<longleftrightarrow> g \<and> \<not> h"
  "outcome g h = FAILURE \<longleftrightarrow> \<not> g \<and> \<not> h"
  by (auto simp flip: outcome_literals)

lemma clean_outcome [simp]:
  "clean_flags (outcome g h) = outcome g h"
  "clean_flags (outcome g h OR outcome g' h') = outcome (g \<and> g') (h \<or> h')"
  by (auto intro!: bit_word_eqI simp: bit_or_iff)

section \<open>States a run can reach\<close>

text \<open>The two atomics change together, in the signal handler only.\<close>

definition sane :: "'a globals_scheme \<Rightarrow> bool" where
  "sane s \<longleftrightarrow> global_return_status s = (if global_interrupt_flag s then HALTED else SUCCESS)"

abbreviation halted :: "'a globals_scheme \<Rightarrow> bool" where "halted \<equiv> global_interrupt_flag"

lemma sane_initial [simp]: "sane initial_globals"
  by (simp add: sane_def initial_globals_def)

lemma sane_handler [simp]: "sane (signal_notify_quit_handler s)"
  by (simp add: sane_def signal_notify_quit_handler_def)

lemma sane_quiet: "sane g \<Longrightarrow> \<not> halted g \<Longrightarrow> quiet g"
  by (simp add: sane_def quiet_def)

lemma clean_global [simp]: "clean_flags HALTED = HALTED" "clean_flags SUCCESS = SUCCESS"
  by (auto intro!: bit_word_eqI)

lemma normalize_outcome:
  assumes "sane s" "\<And>n. bit w n \<longleftrightarrow> bit (outcome g h) n"
  shows "rational_normalize_return w s = (outcome g (h \<or> halted s), s)"
proof -
  have w: "w = outcome g h" using assms(2) by (intro bit_word_eqI) blast
  have "s\<lparr>global_return_status := clean_flags (global_return_status s)\<rparr> = s"
    using assms(1) by (simp add: sane_def)
  moreover have "clean_flags (outcome g h OR (global_return_status s AND GLOBAL))
      = outcome g (h \<or> halted s)"
    using assms(1) by (auto intro!: bit_word_eqI simp: bit_or_iff bit_and_iff sane_def)
  ultimately show ?thesis
    using assms(1) by (auto simp: rational_normalize_return_def Let_def w sane_def)
qed

lemma provide_outcome [simp]:
  "sane s \<Longrightarrow> provide (outcome g h) s = (outcome g (h \<or> halted s), s)"
  "sane s \<Longrightarrow> provide SUCCESS s = (outcome True (halted s), s)"
  "sane s \<Longrightarrow> provide FAILURE s = (outcome False (halted s), s)"
  using normalize_outcome [of s "outcome g h" g h] normalize_outcome [of s SUCCESS True False]
    normalize_outcome [of s FAILURE False False]
  by (auto simp: provide_def)

lemma deliver_outcome [simp]:
  "sane s \<Longrightarrow> deliver s (outcome g h) = outcome g (h \<or> halted s)"
  "sane s \<Longrightarrow> deliver s SUCCESS = outcome True (halted s)"
  "sane s \<Longrightarrow> deliver s FAILURE = outcome False (halted s)"
  by (simp_all add: deliver_def)

section \<open>Calling a function\<close>

text \<open>
  What every function of the scanner guarantees: the state stays sane, a signal is not
  forgotten, and the status tells success or failure together with the interrupt flag.
\<close>

definition answers :: "'a globals_scheme \<Rightarrow> bool \<Rightarrow> ret \<times> 'a globals_scheme \<Rightarrow> bool" where
  "answers s good result \<longleftrightarrow>
     fst result = outcome good (halted (snd result)) \<and> sane (snd result)
     \<and> (halted s \<longrightarrow> halted (snd result))"

lemma answers_provide [simp]:
  "sane s \<Longrightarrow> halted s0 \<longrightarrow> halted s \<Longrightarrow> (h \<longrightarrow> halted s) \<Longrightarrow> answers s0 g (provide (outcome g h) s)"
  by (auto simp: answers_def)

lemma call_outcome:
  assumes "f s = (outcome g' h', s')" "sane s'" "h \<or> h' \<longrightarrow> halted s'"
  shows "call f (outcome g h) s = (outcome (g \<and> g') (halted s'), s')"
proof -
  have "rational_normalize_return (outcome g h OR outcome g' h') s'
      = rational_normalize_return (clean_flags (outcome g h OR outcome g' h')) s'"
    by (simp add: rational_normalize_return_def Let_def)
  then show ?thesis
    using assms normalize_outcome [OF assms(2), of "outcome (g \<and> g') (h \<or> h')" "g \<and> g'" "h \<or> h'"]
    by (auto simp: call_def)
qed

lemma call_answers:
  assumes "answers s g' (f s)" "h \<longrightarrow> halted s"
  shows "call f (outcome g h) s = (outcome (g \<and> g') (halted (snd (f s))), snd (f s))"
  using assms call_outcome [of f s g' "halted (snd (f s))" "snd (f s)" h g]
  by (cases "f s") (auto simp: answers_def)

lemma run_outcome:
  assumes "f s = (outcome g' h', s')" "sane s'" "h' \<longrightarrow> halted s'" "g" "\<not> h"
  shows "run f (outcome g h) s = (outcome g' (halted s'), s')"
proof -
  have "rational_normalize_return (outcome g h OR outcome g' h') s'
      = rational_normalize_return (clean_flags (outcome g h OR outcome g' h')) s'"
    by (simp add: rational_normalize_return_def Let_def)
  then show ?thesis
    using assms normalize_outcome [OF assms(2), of "outcome g' h'" g' h']
    by (auto simp: run_def Let_def)
qed

lemma run_skipped: "\<not> g \<or> h \<Longrightarrow> run f (outcome g h) s = (outcome g h, s)"
  by (auto simp: run_def)

end
