(* ===== verification/App_State.thy ===== *)
theory App_State
  imports Sha512 Metadata Patterns
begin

text \<open>
  The state the scanner works on: the options of \<open>Config\<close> it reads, the per-file records
  \<open>File\<close> and \<open>DBrow\<close> of \<open>precizer.h\<close>, the process state with the primary database and the
  answers of the environment, and the status algebra of functions that succeed, fail or are
  interrupted.
\<close>

section \<open>Options\<close>

datatype OutputMode = OUTPUT_FULL | OUTPUT_MACHINE | OUTPUT_COMPACT

text \<open>
  The options of \<open>Config\<close> that steer traversal, hashing and cleanup; they are constant while these
  run.  \<open>conf_ignore\<close> and \<open>conf_lock_checksum\<close> say that the textual option arrays are not NULL; the
  compiled arrays are \<open>None\<close> for NULL.  The remaining, changing members of \<open>Config\<close> are in the
  process state below.
\<close>

record Config =
  conf_output :: OutputMode
  conf_progress :: bool
  conf_update :: bool
  conf_compare :: bool
  conf_db_drop_ignored :: bool
  conf_db_drop_inaccessible :: bool
  conf_maxdepth :: int
  conf_ignore :: bool
  conf_include_specified :: bool
  conf_lock_checksum :: bool
  conf_rehash_locked :: bool
  conf_dry_run :: bool
  conf_dry_run_with_checksums :: bool
  conf_watch_timestamps :: bool
  conf_ignore_pcre_compiled :: patterns
  conf_include_pcre_compiled :: patterns
  conf_lock_checksum_pcre_compiled :: patterns

text \<open>The defaults of \<open>init_config\<close>: no option given.\<close>

definition default_config :: Config where
  "default_config =
     \<lparr>conf_output = OUTPUT_FULL, conf_progress = False, conf_update = False, conf_compare = False,
      conf_db_drop_ignored = False, conf_db_drop_inaccessible = False, conf_maxdepth = - 1,
      conf_ignore = False, conf_include_specified = False, conf_lock_checksum = False,
      conf_rehash_locked = False, conf_dry_run = False, conf_dry_run_with_checksums = False,
      conf_watch_timestamps = False, conf_ignore_pcre_compiled = None,
      conf_include_pcre_compiled = None, conf_lock_checksum_pcre_compiled = None\<rparr>"

definition DB_CHECKPOINT_INTERVAL_NS :: int where "DB_CHECKPOINT_INTERVAL_NS = 14930016475"
definition FILE_READ_BUFFER_SIZE :: u64 where "FILE_READ_BUFFER_SIZE = 65536"
definition SHA512_DIGEST_LENGTH :: nat where "SHA512_DIGEST_LENGTH = 64"

section \<open>Per-file records\<close>

text \<open>
  Byte offsets are \<open>sqlite3_int64\<close>; they are kept as integers: \<open>sha512_update\<close> refuses a message
  before its length in bits reaches 2 to the 64, so an offset never comes near the bound.
\<close>

record DBrow =
  relative_path_was_in_db_before_processing :: bool
  saved_offset :: int
  ID :: int
  saved_stat :: CmpctStat
  saved_mdContext :: SHA512_Context
  db_sha512 :: bytes

record File =
  file_db :: DBrow
  rehashing_from_the_beginning :: bool
  file_ignore :: bool
  file_include :: bool
  locked_checksum_file :: bool
  lock_checksum_violation :: bool
  locked_checksum_mismatch :: bool
  hash_interrupted :: bool
  rehash :: bool
  is_readable :: bool
  zero_size_file :: bool
  new_db_record_inserted :: bool
  db_record_updated :: bool
  read_error :: bool
  db_record_vs_file_metadata_changes :: changed
  checksum_offset :: int
  read_errno :: errno
  wrong_file_type :: bool
  file_sha512 :: bytes
  mdContext :: SHA512_Context
  file_stat :: CmpctStat

definition zero_stat :: CmpctStat where
  "zero_stat = \<lparr>st_size = 0, st_blocks = 0, st_dev = 0, st_ino = 0, mtim_tv_sec = 0,
     mtim_tv_nsec = 0, ctim_tv_sec = 0, ctim_tv_nsec = 0\<rparr>"

text \<open>\<open>DBrow dbrow = {0}\<close> and \<open>File _file = {0}\<close> with the row attached.\<close>

definition zero_dbrow :: DBrow where
  "zero_dbrow = \<lparr>relative_path_was_in_db_before_processing = False, saved_offset = 0, ID = 0,
     saved_stat = zero_stat, saved_mdContext = zero_context,
     db_sha512 = replicate SHA512_DIGEST_LENGTH 0\<rparr>"

definition zero_file :: File where
  "zero_file = \<lparr>file_db = zero_dbrow, rehashing_from_the_beginning = False, file_ignore = False,
     file_include = False, locked_checksum_file = False, lock_checksum_violation = False,
     locked_checksum_mismatch = False, hash_interrupted = False, rehash = False,
     is_readable = False, zero_size_file = False, new_db_record_inserted = False,
     db_record_updated = False, read_error = False, db_record_vs_file_metadata_changes = IDENTICAL,
     checksum_offset = 0, read_errno = Errno 0, wrong_file_type = False,
     file_sha512 = replicate SHA512_DIGEST_LENGTH 0, mdContext = zero_context,
     file_stat = zero_stat\<rparr>"

section \<open>The process state\<close>

text \<open>
  A row of the table \<open>files\<close> of the schema in \<open>db_init.c\<close>; \<open>None\<close> is NULL.  The columns \<open>ID\<close>
  (primary key) and \<open>relative_path\<close> (unique) are not NULL.
\<close>

record row =
  row_ID :: int
  row_offset :: "int option"
  row_relative_path :: bytes
  row_sha512 :: "bytes option"
  row_stat :: "CmpctStat option"
  row_mdContext :: "SHA512_Context option"

text \<open>
  The outcome of one SQL statement as SQLite reports it: done; an error that leaves the
  database as it was; an error upon which SQLite has rolled the open transaction back.
\<close>

datatype sql_answer = Sql_Done | Sql_Error | Sql_Auto_Rollback

text \<open>
  The outcome of \<open>openat\<close>, \<open>fdopen\<close> and \<open>fseek\<close> to an offset, and what the successive \<open>fread\<close> calls
  then deliver; the end of the list is end of file.  A traversed file is given by this outcome as
  a function of the offset.
\<close>

datatype fread_answer = Bytes bytes | Ferror errno

datatype open_answer =
  Open_Fails errno | Fdopen_Fails errno | Fseek_Fails | Opened "fread_answer list"

type_synonym file_opening = "int \<Rightarrow> open_answer"

text \<open>
  The state: the process-wide atomics, the changing members of \<open>Config\<close> and \<open>TraversalSummary\<close>, the
  primary database (the \<open>table\<close> as the connection sees it, the \<open>committed\<close> rows that survive a
  crash, SQLite's autocommit flag and last inserted row ID), and the answers the environment will
  give: whether a signal arrives at the next opportunity, readings of the monotonic clock,
  outcomes of SQL statements and of \<open>faccessat\<close>.  An exhausted list answers with the
  undisturbed case.
\<close>

record app = globals +
  file_transaction_active :: bool
  file_transaction_started_ns :: int
  db_primary_file_modified :: bool
  show_remembered_messages_at_exit :: bool
  count_dirs :: nat
  count_files :: nat
  count_symlnks :: nat
  total_allocated_bytes :: u64
  total_hashed_bytes :: u64
  table :: "row list"
  committed :: "row list"
  autocommit :: bool
  last_rowid :: int
  signals :: "bool list"
  clock :: "int list"
  sql_answers :: "sql_answer list"
  access_answers :: "errno option list"

text \<open>A point where a signal may arrive.\<close>

definition tick :: "app \<Rightarrow> app" where
  "tick s =
     (case signals s of
        [] \<Rightarrow> s
      | arrives # later \<Rightarrow>
          let s = s\<lparr>signals := later\<rparr>
          in if arrives then signal_notify_quit_handler s else s)"

text \<open>\<open>cur_time_monotonic_ns()\<close>, an SQL statement, and \<open>faccessat\<close>.\<close>

definition cur_time_monotonic_ns :: "app \<Rightarrow> int \<times> app" where
  "cur_time_monotonic_ns s =
     (case clock s of [] \<Rightarrow> (0, tick s) | t # ts \<Rightarrow> (t, tick (s\<lparr>clock := ts\<rparr>)))"

definition sql_answer :: "app \<Rightarrow> sql_answer \<times> app" where
  "sql_answer s =
     (case sql_answers s of
        [] \<Rightarrow> (Sql_Done, tick s)
      | Sql_Auto_Rollback # as \<Rightarrow>
          (Sql_Auto_Rollback,
           (if autocommit s then tick (s\<lparr>sql_answers := as\<rparr>)
            else tick (s\<lparr>sql_answers := as, table := committed s, autocommit := True\<rparr>)))
      | a # as \<Rightarrow> (a, tick (s\<lparr>sql_answers := as\<rparr>)))"

definition faccessat :: "app \<Rightarrow> errno option \<times> app" where
  "faccessat s =
     (case access_answers s of
        [] \<Rightarrow> (None, tick s)
      | a # as \<Rightarrow> (a, tick (s\<lparr>access_answers := as\<rparr>)))"

end
