(* ===== verification/Database.thy ===== *)
theory Database
  imports App_State Outcome
begin

text \<open>
  The primary database during a traversal: the SQL statements on the table \<open>files\<close>, the batch
  transaction of \<open>db_file_transaction.c\<close>, reading, inserting, updating and deleting a file row
  (\<open>db_read_file_data_from.c\<close>, \<open>db_insert_the_record.c\<close>, \<open>db_update_the_record_by_id.c\<close>,
  \<open>db_delete_the_record_by_id.c\<close>) and the common save point \<open>db_save_file_record.c\<close>.

  A statement is prepared, bound, stepped and finalised; SQLite's answer stands for the whole
  sequence, since every failure of one of the four calls has the same effect in the code:
  FAILURE, and no change made by the statement.
\<close>

section \<open>The statements on the table\<close>

text \<open>\<open>UPDATE files SET \<dots> WHERE ID = ?5\<close>, \<open>INSERT INTO files \<dots>\<close>, \<open>DELETE \<dots> WHERE ID = ?1\<close> and
  \<open>SELECT \<dots> WHERE relative_path = ?1\<close>.\<close>

definition sql_update :: "int \<Rightarrow> (row \<Rightarrow> row) \<Rightarrow> row list \<Rightarrow> row list" where
  "sql_update i f rows = map (\<lambda>r. if row_ID r = i then f r else r) rows"

definition sql_insert :: "row \<Rightarrow> row list \<Rightarrow> row list" where
  "sql_insert r rows = rows @ [r]"

definition sql_delete :: "int \<Rightarrow> row list \<Rightarrow> row list" where
  "sql_delete i rows = filter (\<lambda>r. row_ID r \<noteq> i) rows"

definition sql_select :: "bytes \<Rightarrow> row list \<Rightarrow> row list" where
  "sql_select path rows = filter (\<lambda>r. row_relative_path r = path) rows"

text \<open>The row ID SQLite assigns to \<open>INTEGER PRIMARY KEY\<close>: one more than the largest in use.\<close>

definition next_rowid :: "row list \<Rightarrow> int" where
  "next_rowid rows = foldr (\<lambda>r m. max (row_ID r) m) rows 0 + 1"

text \<open>A change outside a transaction is durable at once.\<close>

definition write_table :: "(row list \<Rightarrow> row list) \<Rightarrow> app \<Rightarrow> app" where
  "write_table f s =
     (let rows = f (table s)
      in s\<lparr>table := rows, committed := (if autocommit s then rows else committed s)\<rparr>)"

section \<open>The batch transaction\<close>

definition db_file_transaction_begin :: "Config \<Rightarrow> app action" where
  "db_file_transaction_begin c s =
     (if conf_dry_run c then provide SUCCESS s
      else if file_transaction_active s then
        provide (if autocommit s then FAILURE else SUCCESS) s
      else
        let (rc, s) = sql_answer s
        in if rc \<noteq> Sql_Done \<or> \<not> autocommit s then provide FAILURE s
           else
             let s = s\<lparr>autocommit := False, file_transaction_active := True\<rparr>;
                 (now, s) = cur_time_monotonic_ns s;
                 s = s\<lparr>file_transaction_started_ns := now\<rparr>
             in provide SUCCESS s)"

definition db_file_transaction_commit :: "app action" where
  "db_file_transaction_commit s =
     (if file_transaction_active s then
        let (rc, s) = sql_answer s
        in if rc \<noteq> Sql_Done \<or> autocommit s then provide FAILURE s
           else provide SUCCESS
                  (s\<lparr>committed := table s, autocommit := True, file_transaction_active := False\<rparr>)
      else provide SUCCESS s)"

definition db_file_transaction_check :: "int \<Rightarrow> app action" where
  "db_file_transaction_check now_ns s =
     (let (status, s) =
            (if file_transaction_active s
                \<and> now_ns - file_transaction_started_ns s \<ge> DB_CHECKPOINT_INTERVAL_NS
             then call db_file_transaction_commit SUCCESS s else (SUCCESS, s))
      in provide status s)"

definition db_file_transaction_rollback :: "app action" where
  "db_file_transaction_rollback s =
     (if file_transaction_active s then
        let (status, s) =
              (if \<not> autocommit s then
                 let (rc, s) = sql_answer s
                 in if rc \<noteq> Sql_Done then (FAILURE, s)
                    else (SUCCESS, s\<lparr>table := committed s, autocommit := True\<rparr>)
               else (SUCCESS, s));
            s = (if has SUCCESS status then s\<lparr>file_transaction_active := False\<rparr> else s)
        in provide status s
      else provide SUCCESS s)"

section \<open>Reading and writing one row\<close>

text \<open>The text bound for a path: \<open>m_text\<close> with the measured length.\<close>

definition path_text :: "memory \<Rightarrow> u64 \<Rightarrow> bytes" where
  "path_text relative_path relative_path_length =
     take (unat relative_path_length) (mem_string relative_path)"

text \<open>
  One iteration of the loop over the selected rows: a NULL offset reads as 0, a NULL blob leaves
  the destination as it was.
\<close>

definition load_row :: "DBrow \<Rightarrow> row \<Rightarrow> DBrow" where
  "load_row dbrow r = dbrow\<lparr>
     ID := row_ID r,
     saved_offset := (case row_offset r of None \<Rightarrow> 0 | Some offset \<Rightarrow> offset),
     saved_stat := (case row_stat r of None \<Rightarrow> saved_stat dbrow | Some st \<Rightarrow> st),
     saved_mdContext := (case row_mdContext r of None \<Rightarrow> saved_mdContext dbrow | Some md \<Rightarrow> md),
     db_sha512 := (case row_sha512 r of None \<Rightarrow> db_sha512 dbrow | Some sha \<Rightarrow> sha),
     relative_path_was_in_db_before_processing := True\<rparr>"

definition db_read_file_data_from :: "File \<Rightarrow> memory \<Rightarrow> app \<Rightarrow> ret \<times> app \<times> File" where
  "db_read_file_data_from file relative_path s =
     (let (rc, s) = sql_answer s;
          (status, relative_path_length) =
            (if rc = Sql_Done then mem_string_length s relative_path 0 else (FAILURE, 0));
          file =
            (if has SUCCESS status then
               file\<lparr>file_db := foldl load_row (file_db file)
                       (sql_select (path_text relative_path relative_path_length) (table s))\<rparr>
             else file);
          (status, s) = provide status s
      in (status, s, file))"

text \<open>The columns both statements write from the per-file state.\<close>

definition offset_column :: "File \<Rightarrow> int option" where
  "offset_column file = (if checksum_offset file = 0 then None else Some (checksum_offset file))"

definition sha512_column :: "File \<Rightarrow> bytes option" where
  "sha512_column file =
     (if checksum_offset file = 0 \<and> \<not> zero_size_file file \<and> \<not> wrong_file_type file
      then Some (file_sha512 file) else None)"

definition mdContext_column :: "File \<Rightarrow> SHA512_Context option" where
  "mdContext_column file = (if checksum_offset file = 0 then None else Some (mdContext file))"

definition db_update_the_record_by_id :: "Config \<Rightarrow> File \<Rightarrow> app action" where
  "db_update_the_record_by_id c file s =
     (if conf_dry_run c then provide SUCCESS s
      else
        let (rc, s) = sql_answer s
        in if rc \<noteq> Sql_Done then provide FAILURE s
           else
             let s = write_table (sql_update (ID (file_db file))
                       (\<lambda>r. r\<lparr>row_offset := offset_column file, row_sha512 := sha512_column file,
                             row_stat := Some (file_stat file),
                             row_mdContext := mdContext_column file\<rparr>)) s;
                 s = s\<lparr>db_primary_file_modified := True\<rparr>
             in provide SUCCESS s)"

definition db_insert_the_record :: "Config \<Rightarrow> memory \<Rightarrow> File \<Rightarrow> app action" where
  "db_insert_the_record c relative_path file s =
     (if conf_dry_run c then provide SUCCESS s
      else
        let (rc, s) = sql_answer s;
            (status, relative_path_length) =
              (if rc = Sql_Done then mem_string_length s relative_path 0 else (FAILURE, 0));
            path = path_text relative_path relative_path_length
        in if \<not> has SUCCESS status then provide status s
           else if sql_select path (table s) \<noteq> [] then provide FAILURE s
           else
             let new_ID = next_rowid (table s);
                 s = write_table (sql_insert
                       \<lparr>row_ID = new_ID, row_offset = offset_column file, row_relative_path = path,
                        row_sha512 = sha512_column file, row_stat = Some (file_stat file),
                        row_mdContext = mdContext_column file\<rparr>) s;
                 s = s\<lparr>last_rowid := new_ID, db_primary_file_modified := True\<rparr>
             in provide status s)"

text \<open>In dry-run mode the statement is a SELECT that must find the row.\<close>

definition db_delete_the_record_by_id :: "Config \<Rightarrow> int \<Rightarrow> app action" where
  "db_delete_the_record_by_id c i s =
     (let (rc, s) = sql_answer s
      in if rc \<noteq> Sql_Done then provide FAILURE s
         else if conf_dry_run c then
           provide (if i \<in> set (map row_ID (table s)) then SUCCESS else FAILURE) s
         else
           let s = write_table (sql_delete i) s;
               s = s\<lparr>db_primary_file_modified := True\<rparr>
           in provide SUCCESS s)"

section \<open>Saving the state of a file\<close>

definition db_save_file_record ::
  "Config \<Rightarrow> memory \<Rightarrow> File \<Rightarrow> bool \<Rightarrow> bool \<Rightarrow> app \<Rightarrow> ret \<times> app \<times> File \<times> bool" where
  "db_save_file_record c relative_path file path_known mark_visible_change s =
     (if conf_dry_run c \<and> \<not> mark_visible_change then
        let (status, s) = provide SUCCESS s in (status, s, file, path_known)
      else
        let (status, s) = call (db_file_transaction_begin c) SUCCESS s
        in if has FAILURE status then
             let (status, s) = provide status s in (status, s, file, path_known)
           else
             let row_existed_before_processing =
                   relative_path_was_in_db_before_processing (file_db file);
                 (status, s, file, path_known) =
                   (if path_known then
                      let (status, s) = db_update_the_record_by_id c file s
                      in (status, s, file, path_known)
                    else
                      let (status, s) = db_insert_the_record c relative_path file s
                      in if has SUCCESS status \<and> \<not> conf_dry_run c then
                           (status, s, file\<lparr>file_db := (file_db file)\<lparr>ID := last_rowid s\<rparr>\<rparr>, True)
                         else (status, s, file, path_known));
                 file =
                   (if has SUCCESS status \<and> mark_visible_change then
                      if row_existed_before_processing then file\<lparr>db_record_updated := True\<rparr>
                      else file\<lparr>new_db_record_inserted := True\<rparr>
                    else file);
                 (status, s) = provide status s
             in (status, s, file, path_known))"

end
