(* ===== verification/Store_Invariant.thy ===== *)
theory Store_Invariant
  imports Database
begin

text \<open>
  What the row store promises and what every database operation of a traversal keeps: the
  contract of the SQL statements as a locale with its interpretation on the model's statements,
  and the invariant of the connection (\<open>store_inv\<close>) under saving, committing and rolling back.
\<close>

section \<open>The contract of the row store\<close>

locale row_store =
  fixes rows :: "'t \<Rightarrow> row set"
    and ok :: "'t \<Rightarrow> bool"
    and upd :: "int \<Rightarrow> (row \<Rightarrow> row) \<Rightarrow> 't \<Rightarrow> 't"
    and ins :: "row \<Rightarrow> 't \<Rightarrow> 't"
    and del :: "int \<Rightarrow> 't \<Rightarrow> 't"
    and sel :: "bytes \<Rightarrow> 't \<Rightarrow> row list"
    and fresh :: "'t \<Rightarrow> int"
  assumes rows_upd: "rows (upd i f t) = (\<lambda>r. if row_ID r = i then f r else r) ` rows t"
    and rows_ins: "rows (ins r t) = insert r (rows t)"
    and rows_del: "rows (del i t) = {r \<in> rows t. row_ID r \<noteq> i}"
    and rows_sel: "set (sel p t) = {r \<in> rows t. row_relative_path r = p}"
    and sel_unique: "ok t \<Longrightarrow> length (sel p t) \<le> 1"
    and fresh_above: "r \<in> rows t \<Longrightarrow> row_ID r < fresh t"
    and ok_inj: "ok t \<Longrightarrow> inj_on row_ID (rows t) \<and> inj_on row_relative_path (rows t)"
    and ok_upd: "ok t \<Longrightarrow> (\<And>r. row_ID (f r) = row_ID r \<and> row_relative_path (f r) = row_relative_path r)
      \<Longrightarrow> ok (upd i f t)"
    and ok_ins: "ok t \<Longrightarrow> row_ID r = fresh t \<Longrightarrow> sel (row_relative_path r) t = [] \<Longrightarrow> ok (ins r t)"
    and ok_del: "ok t \<Longrightarrow> ok (del i t)"
begin

lemma same_ID: "ok t \<Longrightarrow> r \<in> rows t \<Longrightarrow> r' \<in> rows t \<Longrightarrow> row_ID r = row_ID r' \<Longrightarrow> r = r'"
  using ok_inj by (auto dest: inj_onD)

lemma same_path:
  "ok t \<Longrightarrow> r \<in> rows t \<Longrightarrow> r' \<in> rows t \<Longrightarrow> row_relative_path r = row_relative_path r' \<Longrightarrow> r = r'"
  using ok_inj by (auto dest: inj_onD)

text \<open>A stored row is found under its path, and nothing else is.\<close>

lemma select_row: "ok t \<Longrightarrow> r \<in> rows t \<Longrightarrow> sel (row_relative_path r) t = [r]"
proof -
  assume a: "ok t" "r \<in> rows t"
  then have "r \<in> set (sel (row_relative_path r) t)" by (simp add: rows_sel)
  with sel_unique [OF a(1), of "row_relative_path r"] show ?thesis
    by (cases "sel (row_relative_path r) t") auto
qed

lemma select_none: "sel p t = [] \<longleftrightarrow> (\<forall>r \<in> rows t. row_relative_path r \<noteq> p)"
  using rows_sel [of p t] by (metis (mono_tags, lifting) empty_Collect_eq set_empty2)

lemma select_update:
  assumes "ok t" "r \<in> rows t" "row_ID r = i"
    and "\<And>r. row_ID (f r) = row_ID r \<and> row_relative_path (f r) = row_relative_path r"
  shows "sel (row_relative_path r) (upd i f t) = [f r]"
  using select_row [OF ok_upd [OF assms(1,4)], of "f r"] assms(2-4) rows_upd [of i f t] by auto

lemma select_insert:
  "ok t \<Longrightarrow> row_ID r = fresh t \<Longrightarrow> sel (row_relative_path r) t = [] \<Longrightarrow>
   sel (row_relative_path r) (ins r t) = [r]"
  by (rule select_row [OF ok_ins]) (simp_all add: rows_ins)

text \<open>Statements on one ID leave every row with another ID alone.\<close>

lemma update_frame: "r \<in> rows t \<Longrightarrow> row_ID r \<noteq> i \<Longrightarrow> r \<in> rows (upd i f t)"
  by (force simp: rows_upd)

lemma delete_frame: "r \<in> rows t \<Longrightarrow> row_ID r \<noteq> i \<Longrightarrow> r \<in> rows (del i t)"
  by (simp add: rows_del)

end

definition keys :: "row list \<Rightarrow> (int \<times> bytes) set" where
  "keys rows = (\<lambda>r. (row_ID r, row_relative_path r)) ` set rows"

definition keys_ok :: "row list \<Rightarrow> bool" where
  "keys_ok rows \<longleftrightarrow> distinct (map row_ID rows) \<and> distinct (map row_relative_path rows)"

lemma next_rowid_above: "r \<in> set rows \<Longrightarrow> row_ID r < next_rowid rows"
proof -
  have "r \<in> set rows \<Longrightarrow> row_ID r \<le> foldr (\<lambda>r m. max (row_ID r) m) rows 0"
    by (induction rows) auto
  then show "r \<in> set rows \<Longrightarrow> row_ID r < next_rowid rows" by (simp add: next_rowid_def)
qed

lemma sql_select_unique: "distinct (map row_relative_path rows) \<Longrightarrow> length (sql_select p rows) \<le> 1"
proof (induction rows)
  case (Cons r rows)
  have "row_relative_path r = p \<Longrightarrow> sql_select p rows = []"
    using Cons.prems by (auto simp: sql_select_def filter_empty_conv image_iff dest: sym)
  then show ?case using Cons by (auto simp: sql_select_def)
qed (simp add: sql_select_def)

interpretation files: row_store set keys_ok sql_update sql_insert sql_delete sql_select next_rowid
proof unfold_locales
  fix t :: "row list" and f :: "row \<Rightarrow> row" and i :: int
  assume t: "keys_ok t"
    and f: "\<And>r. row_ID (f r) = row_ID r \<and> row_relative_path (f r) = row_relative_path r"
  have "map row_ID (sql_update i f t) = map row_ID t"
    "map row_relative_path (sql_update i f t) = map row_relative_path t"
    using f by (simp_all add: sql_update_def)
  with t show "keys_ok (sql_update i f t)" by (simp add: keys_ok_def)
next
  fix t :: "row list" and r :: row
  assume "keys_ok t" "row_ID r = next_rowid t" "sql_select (row_relative_path r) t = []"
  then show "keys_ok (sql_insert r t)"
    using next_rowid_above [of _ t]
    by (force simp: keys_ok_def sql_insert_def sql_select_def filter_empty_conv)
next
  fix t :: "row list" and p
  assume "keys_ok t"
  then show "length (sql_select p t) \<le> 1"
    using sql_select_unique [of t p] by (simp add: keys_ok_def)
qed (auto simp: sql_update_def sql_insert_def sql_delete_def sql_select_def keys_ok_def
    next_rowid_above distinct_map intro: inj_on_subset)

section \<open>The environment\<close>

lemma sane_updates [simp]:
  "sane (file_transaction_active_update f s) = sane s"
  "sane (file_transaction_started_ns_update g s) = sane s"
  "sane (db_primary_file_modified_update f s) = sane s"
  "sane (show_remembered_messages_at_exit_update f s) = sane s"
  "sane (count_dirs_update n s) = sane s" "sane (count_files_update n s) = sane s"
  "sane (count_symlnks_update n s) = sane s" "sane (total_allocated_bytes_update w s) = sane s"
  "sane (total_hashed_bytes_update w s) = sane s" "sane (table_update rs s) = sane s"
  "sane (committed_update rs s) = sane s" "sane (autocommit_update f s) = sane s"
  "sane (last_rowid_update g s) = sane s" "sane (signals_update bs s) = sane s"
  "sane (clock_update cs s) = sane s" "sane (sql_answers_update qs s) = sane s"
  "sane (access_answers_update aa s) = sane s"
  by (simp_all add: sane_def)

text \<open>A signal is remembered, and the two atomics stay together.\<close>

definition later :: "app \<Rightarrow> app \<Rightarrow> bool" where
  "later s s' \<longleftrightarrow> sane s' \<and> (halted s \<longrightarrow> halted s')"

lemma later_trans: "later s s' \<Longrightarrow> later s' s'' \<Longrightarrow> later s s''"
  by (simp add: later_def)

text \<open>The part of the state the environment does not touch.\<close>

definition same_db :: "app \<Rightarrow> app \<Rightarrow> bool" where
  "same_db s s' \<longleftrightarrow> table s' = table s \<and> committed s' = committed s \<and> autocommit s' = autocommit s
     \<and> file_transaction_active s' = file_transaction_active s
     \<and> db_primary_file_modified s' = db_primary_file_modified s
     \<and> last_rowid s' = last_rowid s
     \<and> file_transaction_started_ns s' = file_transaction_started_ns s"

lemma same_db_refl [simp]: "same_db s s"
  by (simp add: same_db_def)

lemma tick_later: "sane s \<Longrightarrow> later s (tick s) \<and> same_db s (tick s)"
  by (cases "signals s"; cases "hd (signals s)")
    (simp_all add: tick_def later_def same_db_def sane_def signal_notify_quit_handler_def Let_def)

lemma clock_later:
  "sane s \<Longrightarrow> later s (snd (cur_time_monotonic_ns s)) \<and> same_db s (snd (cur_time_monotonic_ns s))"
proof (cases "clock s")
  case Nil
  then show "sane s \<Longrightarrow> ?thesis" using tick_later [of s] by (simp add: cur_time_monotonic_ns_def)
next
  case (Cons a as)
  then show "sane s \<Longrightarrow> ?thesis"
    using tick_later [of "s\<lparr>clock := as\<rparr>"] by (simp add: cur_time_monotonic_ns_def later_def same_db_def)
qed

lemma access_later:
  "sane s \<Longrightarrow> later s (snd (faccessat s)) \<and> same_db s (snd (faccessat s))"
proof (cases "access_answers s")
  case Nil
  then show "sane s \<Longrightarrow> ?thesis" using tick_later [of s] by (simp add: faccessat_def)
next
  case (Cons a as)
  then show "sane s \<Longrightarrow> ?thesis"
    using tick_later [of "s\<lparr>access_answers := as\<rparr>"] by (simp add: faccessat_def later_def same_db_def)
qed

text \<open>An SQL statement either leaves the database alone or has been rolled back.\<close>

definition rolled_back :: "app \<Rightarrow> app \<Rightarrow> bool" where
  "rolled_back s s' \<longleftrightarrow> table s' = committed s \<and> committed s' = committed s \<and> autocommit s'
     \<and> file_transaction_active s' = file_transaction_active s
     \<and> db_primary_file_modified s' = db_primary_file_modified s
     \<and> \<not> autocommit s"

lemma sql_answer_later:
  assumes "sane s" "sql_answer s = (rc, s')"
  shows "later s s'" "same_db s s' \<or> rc = Sql_Auto_Rollback \<and> rolled_back s s'"
proof -
  have "later s s' \<and> (same_db s s' \<or> rc = Sql_Auto_Rollback \<and> rolled_back s s')"
  proof (cases "sql_answers s")
    case Nil
    then show ?thesis using assms tick_later [of s] by (simp add: sql_answer_def)
  next
    case (Cons a as)
    let ?s1 = "s\<lparr>sql_answers := as\<rparr>"
    let ?s2 = "?s1\<lparr>table := committed s, autocommit := True\<rparr>"
    have t: "later ?s1 (tick ?s1)" "same_db ?s1 (tick ?s1)" "later ?s2 (tick ?s2)" "same_db ?s2 (tick ?s2)"
      using tick_later [of ?s1] tick_later [of ?s2] assms(1) by simp_all
    then have t1: "later s (tick ?s1)" "same_db s (tick ?s1)" and t2: "later s (tick ?s2)"
      by (simp_all add: later_def same_db_def)
    have r: "\<not> autocommit s \<Longrightarrow> rolled_back s (tick ?s2)"
      using t(4) by (simp add: rolled_back_def same_db_def)
    show ?thesis
    proof (cases "a = Sql_Auto_Rollback \<and> \<not> autocommit s")
      case True
      then have "rc = Sql_Auto_Rollback" "s' = tick ?s2" using assms(2) Cons by (simp_all add: sql_answer_def)
      then show ?thesis using t2 r True by simp
    next
      case False
      then have "s' = tick ?s1" using assms(2) Cons by (cases a) (simp_all add: sql_answer_def)
      then show ?thesis using t1 by simp
    qed
  qed
  then show "later s s'" "same_db s s' \<or> rc = Sql_Auto_Rollback \<and> rolled_back s s'" by blast+
qed

section \<open>The invariant of the connection\<close>

text \<open>
  \<open>P\<close> is the property of the rows under consideration; the rest relates what the connection sees
  to what is durable.
\<close>

definition store_inv :: "(row list \<Rightarrow> bool) \<Rightarrow> app \<Rightarrow> bool" where
  "store_inv P s \<longleftrightarrow> P (table s) \<and> P (committed s) \<and> keys_ok (table s) \<and> keys_ok (committed s)
     \<and> keys (committed s) \<subseteq> keys (table s) \<and> (autocommit s \<longrightarrow> committed s = table s)
     \<and> (\<not> file_transaction_active s \<longrightarrow> autocommit s)"

lemma store_inv_same: "same_db s s' \<Longrightarrow> store_inv P s \<Longrightarrow> store_inv P s'"
  by (simp add: store_inv_def same_db_def)

lemma store_inv_rolled_back: "rolled_back s s' \<Longrightarrow> store_inv P s \<Longrightarrow> store_inv P s'"
  by (auto simp: store_inv_def rolled_back_def)

lemma store_inv_answer:
  "sane s \<Longrightarrow> sql_answer s = (rc, s') \<Longrightarrow> store_inv P s \<Longrightarrow> store_inv P s' \<and> later s s'"
  using sql_answer_later store_inv_same store_inv_rolled_back by blast

text \<open>What an operation of the database layer guarantees.\<close>

definition keeps :: "(row list \<Rightarrow> bool) \<Rightarrow> app \<Rightarrow> ret \<times> app \<Rightarrow> bool" where
  "keeps P s result \<longleftrightarrow>
     (\<exists>good. fst result = outcome good (halted (snd result))) \<and> later s (snd result)
     \<and> store_inv P (snd result)"

lemma keeps_provide [simp]:
  assumes "later s s'" "store_inv P s'"
  shows "keeps P s (provide SUCCESS s')" "keeps P s (provide FAILURE s')"
    "(h \<longrightarrow> halted s') \<Longrightarrow> keeps P s (provide (outcome g h) s')"
  using assms by (auto simp: keeps_def later_def)

lemma keeps_call:
  assumes "keeps P s (f s)" "h \<longrightarrow> halted s"
  shows "keeps P s (call f (outcome g h) s)"
    and "snd (call f (outcome g h) s) = snd (f s)"
    and "has FAILURE (fst (call f (outcome g h) s)) \<longleftrightarrow> \<not> g \<or> has FAILURE (fst (f s))"
proof -
  obtain good where good: "answers s good (f s)"
    using assms by (auto simp: keeps_def answers_def later_def)
  note c = call_answers [where f = f and s = s and h = h and g = g, OF this assms(2)]
  show "keeps P s (call f (outcome g h) s)" "snd (call f (outcome g h) s) = snd (f s)"
    using c assms by (auto simp: keeps_def)
  show "has FAILURE (fst (call f (outcome g h) s)) \<longleftrightarrow> \<not> g \<or> has FAILURE (fst (f s))"
    using c good by (auto simp: answers_def)
qed

section \<open>Transactions keep the invariant\<close>

lemma commit_keeps:
  assumes "sane s" "store_inv P s"
  shows "keeps P s (db_file_transaction_commit s)"
    and "has SUCCESS (fst (db_file_transaction_commit s)) \<Longrightarrow>
      \<not> file_transaction_active (snd (db_file_transaction_commit s))
      \<and> table (snd (db_file_transaction_commit s)) = table s"
    and "\<not> file_transaction_active s \<Longrightarrow> db_file_transaction_commit s = (outcome True (halted s), s)"
    and "db_primary_file_modified (snd (db_file_transaction_commit s)) = db_primary_file_modified s"
proof -
  have nf: "\<not> has SUCCESS (fst (provide FAILURE s'))" if "sane s'" for s' :: app
    using that by simp
  obtain rc s1 where a: "sql_answer s = (rc, s1)" by (cases "sql_answer s")
  have s1: "store_inv P s1" "later s s1" using store_inv_answer assms a by blast+
  have sdb: "rc = Sql_Done \<Longrightarrow> same_db s s1" and m: "db_primary_file_modified s1 = db_primary_file_modified s"
    using sql_answer_later [OF assms(1) a] by (auto simp: same_db_def rolled_back_def)
  have c: "store_inv P (s1\<lparr>committed := table s1, autocommit := True, file_transaction_active := False\<rparr>)"
    "later s (s1\<lparr>committed := table s1, autocommit := True, file_transaction_active := False\<rparr>)"
    using s1 by (auto simp: store_inv_def later_def)
  have l0: "later s s" using assms(1) by (simp add: later_def)
  show "keeps P s (db_file_transaction_commit s)"
    using s1 c assms(2) l0 by (auto simp: db_file_transaction_commit_def a)
  show "has SUCCESS (fst (db_file_transaction_commit s)) \<Longrightarrow>
      \<not> file_transaction_active (snd (db_file_transaction_commit s))
      \<and> table (snd (db_file_transaction_commit s)) = table s"
    using nf s1 assms(1) sdb by (auto simp: db_file_transaction_commit_def a later_def same_db_def split: if_splits)
  show "\<not> file_transaction_active s \<Longrightarrow> db_file_transaction_commit s = (outcome True (halted s), s)"
    using assms(1) by (simp add: db_file_transaction_commit_def)
  show "db_primary_file_modified (snd (db_file_transaction_commit s)) = db_primary_file_modified s"
    using s1 m assms(1) by (auto simp: db_file_transaction_commit_def a later_def)
qed

lemma begin_keeps:
  assumes "sane s" "store_inv P s"
  shows "keeps P s (db_file_transaction_begin c s)"
    and "table (snd (db_file_transaction_begin c s)) = table s"
    and "\<not> conf_dry_run c \<Longrightarrow> \<not> has FAILURE (fst (db_file_transaction_begin c s)) \<Longrightarrow>
      \<not> autocommit (snd (db_file_transaction_begin c s))"
    and "conf_dry_run c \<Longrightarrow> db_file_transaction_begin c s = (outcome True (halted s), s)"
proof -
  obtain rc s1 where a: "sql_answer s = (rc, s1)" by (cases "sql_answer s")
  have s1: "store_inv P s1" "later s s1" using store_inv_answer assms a by blast+
  define s2 where "s2 = s1\<lparr>autocommit := False, file_transaction_active := True\<rparr>"
  obtain now s3 where n: "cur_time_monotonic_ns s2 = (now, s3)" by (cases "cur_time_monotonic_ns s2")
  have s2: "store_inv P s2" "sane s2" "later s s2"
    using s1 by (auto simp: s2_def store_inv_def later_def)
  have c: "later s2 s3" "same_db s2 s3" using clock_later [OF s2(2)] n by simp_all
  have s3: "store_inv P s3" "later s s3" "table s3 = table s1" "\<not> autocommit s3"
    using store_inv_same [OF c(2) s2(1)] later_trans [OF s2(3) c(1)] c(2)
    by (simp_all add: same_db_def s2_def)
  have s4: "store_inv P (s3\<lparr>file_transaction_started_ns := now\<rparr>)" "later s (s3\<lparr>file_transaction_started_ns := now\<rparr>)"
    using s3 by (auto simp: store_inv_def later_def)
  have l0: "later s s" using assms(1) by (simp add: later_def)
  have t: "\<not> file_transaction_active s \<Longrightarrow> table s1 = table s"
    using sql_answer_later [OF assms(1) a] assms(2)
    by (auto simp: same_db_def rolled_back_def store_inv_def)
  note defs = db_file_transaction_begin_def a n s2_def [symmetric] Let_def
  show "keeps P s (db_file_transaction_begin c s)"
    using s1 s4 assms(2) l0 by (auto simp: defs)
  show "table (snd (db_file_transaction_begin c s)) = table s"
    using s1 s4 s3 l0 t assms(1) by (auto simp: defs later_def)
  show "\<not> conf_dry_run c \<Longrightarrow> \<not> has FAILURE (fst (db_file_transaction_begin c s)) \<Longrightarrow>
      \<not> autocommit (snd (db_file_transaction_begin c s))"
    using s1 s4 s3 l0 assms(1) by (auto simp: defs later_def split: if_splits)
  show "conf_dry_run c \<Longrightarrow> db_file_transaction_begin c s = (outcome True (halted s), s)"
    using assms(1) by (simp add: defs)
qed

lemma rollback_keeps:
  assumes "sane s" "store_inv P s"
  shows "keeps P s (db_file_transaction_rollback s)"
    and "has SUCCESS (fst (db_file_transaction_rollback s)) \<Longrightarrow>
      \<not> file_transaction_active (snd (db_file_transaction_rollback s))
      \<and> committed (snd (db_file_transaction_rollback s)) = committed s"
    and "\<not> file_transaction_active s \<Longrightarrow> db_file_transaction_rollback s = (outcome True (halted s), s)"
proof -
  obtain rc s1 where a: "sql_answer s = (rc, s1)" by (cases "sql_answer s")
  have s1: "store_inv P s1" "later s s1" using store_inv_answer assms a by blast+
  have com: "committed s1 = committed s"
    using sql_answer_later [OF assms(1) a] by (auto simp: same_db_def rolled_back_def)
  have l0: "later s s" using assms(1) by (simp add: later_def)
  have c: "store_inv P (s1\<lparr>table := committed s1, autocommit := True, file_transaction_active := False\<rparr>)"
    "later s (s1\<lparr>table := committed s1, autocommit := True, file_transaction_active := False\<rparr>)"
    "autocommit s \<Longrightarrow> store_inv P (s\<lparr>file_transaction_active := False\<rparr>)"
    "later s (s\<lparr>file_transaction_active := False\<rparr>)"
    using s1 assms by (auto simp: store_inv_def later_def)
  have lit: "\<not> has SUCCESS FAILURE" "has SUCCESS SUCCESS" by simp_all
  show "keeps P s (db_file_transaction_rollback s)"
    using s1 c assms(2) l0 by (auto simp: db_file_transaction_rollback_def a Let_def)
  show "has SUCCESS (fst (db_file_transaction_rollback s)) \<Longrightarrow>
      \<not> file_transaction_active (snd (db_file_transaction_rollback s))
      \<and> committed (snd (db_file_transaction_rollback s)) = committed s"
    using s1 assms com by (auto simp: db_file_transaction_rollback_def a Let_def later_def split: if_splits)
  show "\<not> file_transaction_active s \<Longrightarrow> db_file_transaction_rollback s = (outcome True (halted s), s)"
    using assms(1) by (simp add: db_file_transaction_rollback_def)
qed

lemma check_keeps:
  assumes "sane s" "store_inv P s"
  shows "keeps P s (db_file_transaction_check now s)"
proof -
  note k = keeps_call(1) [where f = db_file_transaction_commit and g = True and h = False,
      OF commit_keeps(1) [OF assms], unfolded outcome_literals]
  have "keeps P s (provide (fst r) (snd r))" if "keeps P s r" for r
    using that by (auto simp: keeps_def later_def)
  from this [OF k] show ?thesis
    using assms
    using keeps_provide(1) [of s s P]
    by (auto simp: db_file_transaction_check_def case_prod_beta later_def)
qed

section \<open>Saving a row keeps the invariant\<close>

text \<open>The row a save writes for a file, and the update it makes on an existing row.\<close>

definition row_of :: "File \<Rightarrow> int \<Rightarrow> bytes \<Rightarrow> row" where
  "row_of file i p = \<lparr>row_ID = i, row_offset = offset_column file, row_relative_path = p,
     row_sha512 = sha512_column file, row_stat = Some (file_stat file),
     row_mdContext = mdContext_column file\<rparr>"

lemma update_row_of:
  "r\<lparr>row_offset := offset_column file, row_sha512 := sha512_column file,
     row_stat := Some (file_stat file), row_mdContext := mdContext_column file\<rparr>
   = row_of file (row_ID r) (row_relative_path r)"
  by (simp add: row_of_def)

text \<open>ID \<open>i\<close> belongs to path \<open>p\<close>.\<close>

definition owner :: "int \<Rightarrow> bytes \<Rightarrow> row list \<Rightarrow> bool" where
  "owner i p rows \<longleftrightarrow> (\<forall>r \<in> set rows. row_ID r = i \<longrightarrow> row_relative_path r = p)"

lemma owner_keys: "keys rows \<subseteq> keys rows' \<Longrightarrow> owner i p rows' \<Longrightarrow> owner i p rows"
  by (fastforce simp: owner_def keys_def)

text \<open>
  What a caller of the save point has to know: the property \<open>P\<close> of the rows survives the write the
  save would make.
\<close>

definition may_save :: "Config \<Rightarrow> (row list \<Rightarrow> bool) \<Rightarrow> bytes \<Rightarrow> File \<Rightarrow> bool" where
  "may_save c P p file \<longleftrightarrow> conf_dry_run c
     \<or> (\<forall>rows. P rows \<longrightarrow> keys_ok rows \<longrightarrow> owner (ID (file_db file)) p rows \<longrightarrow>
          P (sql_update (ID (file_db file)) (\<lambda>r. row_of file (row_ID r) (row_relative_path r)) rows))
       \<and> (\<forall>rows. P rows \<longrightarrow> keys_ok rows \<longrightarrow> sql_select p rows = [] \<longrightarrow>
          P (sql_insert (row_of file (next_rowid rows) p) rows))"

text \<open>A known path has an ID that belongs to it.\<close>

definition known_ok :: "bytes \<Rightarrow> File \<Rightarrow> bool \<Rightarrow> app \<Rightarrow> bool" where
  "known_ok p file path_known s \<longleftrightarrow> (path_known \<longrightarrow> owner (ID (file_db file)) p (table s))"

lemma keys_update:
  "keys (sql_update i (\<lambda>r. row_of file (row_ID r) (row_relative_path r)) rows) = keys rows"
  unfolding keys_def sql_update_def set_map image_image
  by (rule image_cong) (simp_all add: row_of_def)

lemma keys_insert: "keys (sql_insert r rows) = insert (row_ID r, row_relative_path r) (keys rows)"
  by (auto simp: keys_def sql_insert_def)

lemma owner_iff: "owner i p rows \<longleftrightarrow> (\<forall>p'. (i, p') \<in> keys rows \<longrightarrow> p' = p)"
  by (auto simp: owner_def keys_def)

lemma update_keeps:
  assumes "sane s" "store_inv P s" "may_save c P p file" "owner (ID (file_db file)) p (table s)"
  shows "keeps P s (db_update_the_record_by_id c file s)"
    and "keys (table (snd (db_update_the_record_by_id c file s))) \<subseteq> keys (table s)"
proof -
  obtain rc s1 where a: "sql_answer s = (rc, s1)" by (cases "sql_answer s")
  have s1: "store_inv P s1" "later s s1" using store_inv_answer assms(1,2) a by blast+
  have k1: "keys (table s1) \<subseteq> keys (table s)"
    using sql_answer_later [OF assms(1) a] assms(2)
    by (auto simp: same_db_def rolled_back_def store_inv_def)
  let ?f = "\<lambda>r. row_of file (row_ID r) (row_relative_path r)"
  let ?s2 = "write_table (sql_update (ID (file_db file)) ?f) s1\<lparr>db_primary_file_modified := True\<rparr>"
  have ok: "keys_ok (sql_update (ID (file_db file)) ?f rows)" if "keys_ok rows" for rows
    using that by (rule files.ok_upd) (simp add: row_of_def)
  have "owner (ID (file_db file)) p (table s1)" using owner_keys [OF k1 assms(4)] .
  then have s2: "\<not> conf_dry_run c \<Longrightarrow> store_inv P ?s2" "later s ?s2"
    using s1 assms(3) ok
    by (auto simp: store_inv_def write_table_def Let_def may_save_def later_def keys_update)
  have k2: "keys (table ?s2) = keys (table s1)"
    by (simp add: write_table_def Let_def keys_update)
  have l0: "later s s" using assms(1) by (simp add: later_def)
  note defs = db_update_the_record_by_id_def a Let_def update_row_of
  show "keeps P s (db_update_the_record_by_id c file s)"
    using s1 s2 l0 assms(2) by (simp add: defs)
  show "keys (table (snd (db_update_the_record_by_id c file s))) \<subseteq> keys (table s)"
    using s1 s2(2) k1 k2 assms(1) by (simp add: defs later_def)
qed

text \<open>The descriptor of the current path holds the text \<open>p\<close>.\<close>

definition path_ok :: "bytes \<Rightarrow> memory \<Rightarrow> bool" where
  "path_ok p m \<longleftrightarrow> valid m \<and> is_string m \<and> single_element_size m = 1 \<and> mlength m \<noteq> 0
     \<and> visible_text m = p"

lemma path_ok_text:
  assumes "path_ok p m" "sane s"
  shows "mem_string_length s m 0 = (outcome True (halted s), string_length m)"
    and "path_text m (string_length m) = p"
proof -
  have m: "valid m" "is_string m" "single_element_size m = 1" "mlength m \<noteq> 0" "visible_text m = p"
    using assms(1) by (simp_all add: path_ok_def)
  show "mem_string_length s m 0 = (outcome True (halted s), string_length m)"
    using m(2) string_guards [OF m(1)] deliver_outcome(2) [OF assms(2)]
    by (auto simp: mem_string_length_def)
  have "quiet initial_globals" by (simp add: quiet_def initial_globals_def)
  from path_subject(2) [OF this m(1-4)] show "path_text m (string_length m) = p"
    using m(5) by (simp add: path_text_def)
qed

lemma insert_keeps:
  assumes "sane s" "store_inv P s" "may_save c P p file" "path_ok p m"
  shows "keeps P s (db_insert_the_record c m file s)"
    and "\<not> conf_dry_run c \<Longrightarrow> has SUCCESS (fst (db_insert_the_record c m file s)) \<Longrightarrow>
      owner (last_rowid (snd (db_insert_the_record c m file s))) p
        (table (snd (db_insert_the_record c m file s)))"
proof -
  obtain rc s1 where a: "sql_answer s = (rc, s1)" by (cases "sql_answer s")
  have s1: "store_inv P s1" "later s s1" using store_inv_answer assms(1,2) a by blast+
  then have sane1: "sane s1" by (simp add: later_def)
  note pt = path_ok_text [OF assms(4) sane1]
  let ?i = "next_rowid (table s1)"
  let ?s2 = "write_table (sql_insert (row_of file ?i p)) s1\<lparr>last_rowid := ?i, db_primary_file_modified := True\<rparr>"
  have ok: "keys_ok (sql_insert (row_of file ?i p) (table s1))" if "sql_select p (table s1) = []"
    using s1(1) that by (intro files.ok_ins) (simp_all add: row_of_def store_inv_def)
  have s2: "store_inv P ?s2" if "\<not> conf_dry_run c" "sql_select p (table s1) = []"
    using that s1 assms(3) ok
    by (auto simp: store_inv_def write_table_def Let_def may_save_def keys_insert)
  have l2: "later s ?s2" using s1 by (simp add: write_table_def Let_def later_def)
  have l0: "later s s" using assms(1) by (simp add: later_def)
  have own: "owner (last_rowid ?s2) p (table ?s2)"
    using next_rowid_above [of _ "table s1"]
    by (force simp: owner_def write_table_def Let_def sql_insert_def row_of_def)
  have nf: "\<not> has SUCCESS FAILURE" by simp
  have h2: "halted ?s2 = halted s1" by (simp add: write_table_def Let_def)
  note defs = db_insert_the_record_def a Let_def pt row_of_def [symmetric]
  show "keeps P s (db_insert_the_record c m file s)"
    using s1 s2 l2 l0 assms(2) h2 by (simp add: defs)
  show "\<not> conf_dry_run c \<Longrightarrow> has SUCCESS (fst (db_insert_the_record c m file s)) \<Longrightarrow>
      owner (last_rowid (snd (db_insert_the_record c m file s))) p
        (table (snd (db_insert_the_record c m file s)))"
    using s1 l2 own sane1 by (auto simp: defs later_def split: if_splits)
qed

text \<open>A save changes the row ID and the two report flags of the per-file state.\<close>

definition same_hash :: "File \<Rightarrow> File \<Rightarrow> bool" where
  "same_hash file file' \<longleftrightarrow>
     (\<exists>i u n. file' = file\<lparr>file_db := (file_db file)\<lparr>ID := i\<rparr>, db_record_updated := u,
                              new_db_record_inserted := n\<rparr>)"

lemma same_hash_intros [intro]:
  "same_hash file file" "same_hash file (file\<lparr>file_db := (file_db file)\<lparr>ID := i\<rparr>\<rparr>)"
  "same_hash file (file\<lparr>file_db := (file_db file)\<lparr>ID := i\<rparr>, db_record_updated := u\<rparr>)"
  "same_hash file (file\<lparr>file_db := (file_db file)\<lparr>ID := i\<rparr>, new_db_record_inserted := u\<rparr>)"
  "same_hash file (file\<lparr>db_record_updated := u\<rparr>)"
  "same_hash file (file\<lparr>new_db_record_inserted := u\<rparr>)"
proof -
  let ?F = "\<lambda>i u n. file\<lparr>file_db := (file_db file)\<lparr>ID := i\<rparr>, db_record_updated := u,
      new_db_record_inserted := n\<rparr>"
  let ?i = "ID (file_db file)" and ?u = "db_record_updated file" and ?n = "new_db_record_inserted file"
  have F: "same_hash file (?F i u n)" for i u n unfolding same_hash_def by blast
  show "same_hash file file" using F [where i = "?i" and u = "?u" and n = "?n"] by simp
  show "same_hash file (file\<lparr>file_db := (file_db file)\<lparr>ID := i\<rparr>\<rparr>)" using F [where i = "i" and u = "?u" and n = "?n"] by simp
  show "same_hash file (file\<lparr>file_db := (file_db file)\<lparr>ID := i\<rparr>, db_record_updated := u\<rparr>)"
    using F [where i = "i" and u = "u" and n = "?n"] by simp
  show "same_hash file (file\<lparr>file_db := (file_db file)\<lparr>ID := i\<rparr>, new_db_record_inserted := u\<rparr>)"
    using F [where i = "i" and u = "?u" and n = "u"] by simp
  show "same_hash file (file\<lparr>db_record_updated := u\<rparr>)" using F [where i = "?i" and u = "u" and n = "?n"] by simp
  show "same_hash file (file\<lparr>new_db_record_inserted := u\<rparr>)" using F [where i = "?i" and u = "?u" and n = "u"] by simp
qed

lemma keeps_trans: "later s s' \<Longrightarrow> keeps P s' r \<Longrightarrow> keeps P s r"
  by (auto simp: keeps_def later_def)

lemma keeps_provide_result: "keeps P s r \<Longrightarrow> provide (fst r) (snd r) = r"
  by (cases r) (auto simp: keeps_def later_def)

lemma save_keeps:
  assumes "sane s" "store_inv P s" "may_save c P p file" "path_ok p m" "known_ok p file known s"
    and save: "db_save_file_record c m file known visible s = (status, s', file', known')"
  shows "keeps P s (status, s')" "known_ok p file' known' s'" "same_hash file file'"
    and "conf_dry_run c \<Longrightarrow> s' = s" "known \<longrightarrow> known'"
proof -
  have l0: "later s s" using assms(1) by (simp add: later_def)
  then have k0: "keeps P s (outcome True (halted s), s)" using assms(2) by (auto simp: keeps_def)
  define b where "b = call (db_file_transaction_begin c) SUCCESS s"
  have kb: "keeps P s b" and sb: "snd b = snd (db_file_transaction_begin c s)"
    using keeps_call [where f = "db_file_transaction_begin c" and g = True and h = False,
        OF begin_keeps(1) [OF assms(1,2)]] unfolding b_def outcome_literals by auto
  have dry: "conf_dry_run c \<Longrightarrow> b = (outcome True (halted s), s)"
    using begin_keeps(4) [OF assms(1,2)] call_outcome [of "db_file_transaction_begin c" s True "halted s" s False True]
      assms(1) unfolding b_def outcome_literals by auto
  have tb: "table (snd b) = table s" using begin_keeps(2) [OF assms(1,2)] sb by simp
  obtain st s1 where b: "b = (st, s1)" by (cases b)
  have s1: "sane s1" "store_inv P s1" "later s s1" "table s1 = table s"
    using kb tb b by (auto simp: keeps_def later_def)
  have own: "known \<Longrightarrow> owner (ID (file_db file)) p (table s1)"
    using assms(5) s1(4) by (simp add: known_ok_def)
  define w where "w = (if known then db_update_the_record_by_id c file s1 else db_insert_the_record c m file s1)"
  have kw: "keeps P s1 w"
    using update_keeps(1) [OF s1(1,2) assms(3)] own insert_keeps(1) [OF s1(1,2) assms(3,4)]
    by (simp add: w_def)
  obtain st2 s2 where w: "w = (st2, s2)" by (cases w)
  have pw: "provide st2 s2 = (st2, s2)" using keeps_provide_result [OF kw] w by simp
  have pb: "provide st s1 = (st, s1)" using keeps_provide_result [OF kb] b by simp
  have k2: "keeps P s (st2, s2)" using keeps_trans [OF s1(3) kw] w by simp
  have known2: "known \<Longrightarrow> owner (ID (file_db file)) p (table s2)"
    using update_keeps(2) [OF s1(1,2) assms(3) own] w owner_iff own by (auto simp: w_def)
  have new2: "\<not> known \<Longrightarrow> has SUCCESS st2 \<Longrightarrow> \<not> conf_dry_run c \<Longrightarrow> owner (last_rowid s2) p (table s2)"
    using insert_keeps(2) [OF s1(1,2) assms(3,4)] w by (auto simp: w_def)
  have dry2: "conf_dry_run c \<Longrightarrow> s2 = s"
    using dry b w assms(1)
    by (auto simp: w_def db_update_the_record_by_id_def db_insert_the_record_def split: if_splits)
  have "b = (st, s1)" using b .
  note ev = save [unfolded db_save_file_record_def Let_def, folded b_def, unfolded b]
  show "keeps P s (status, s')"
    using ev w pw pb kb k2 k0 b assms(1,2)
    by (auto simp: w_def case_prod_beta split: if_splits)
  show "known_ok p file' known' s'"
    using ev w pw pb known2 new2 assms(1,5) s1(4)
    by (auto simp: w_def case_prod_beta known_ok_def split: if_splits)
  show "known \<longrightarrow> known'"
    using ev by (auto simp: case_prod_beta split: if_splits)
  show "same_hash file file'"
    using ev by (auto simp: case_prod_beta split: if_splits)
  show "conf_dry_run c \<Longrightarrow> s' = s"
    using ev w pw pb dry dry2 b assms(1) by (auto simp: w_def case_prod_beta split: if_splits)
qed

end
