(* ===== verification/Hash_File.thy ===== *)
theory Hash_File
  imports Store_Invariant
begin

text \<open>
  Hashing one file: \<open>sha512sum.c\<close> with its read loop, the interruption by a signal and the
  periodic checkpoints that store the partial hash state.  The hooks compiled in for tests
  (\<open>TESTITALL_TEST_HOOKS\<close>), the elapsed-time statistics and the log output are left out.
\<close>

section \<open>The read loop\<close>

definition periodic_hash_checkpoint_is_allowed :: "Config \<Rightarrow> File \<Rightarrow> bool" where
  "periodic_hash_checkpoint_is_allowed c file =
     (if conf_dry_run c then False
      else if checksum_offset file \<le> 0 then False
      else if locked_checksum_file file \<and> relative_path_was_in_db_before_processing (file_db file)
              \<and> saved_offset (file_db file) = 0 then False
      else True)"

text \<open>
  The block \<open>if(SUCCESS == status) { \<dots> }\<close> of the loop for one buffer of data.  The last component
  says whether the block leaves the loop with \<open>break\<close>.
\<close>

definition hash_block ::
  "Config \<Rightarrow> memory \<Rightarrow> bytes \<Rightarrow> int \<Rightarrow> ret \<Rightarrow> app \<Rightarrow> File \<Rightarrow> bool
     \<Rightarrow> ret \<times> app \<times> File \<times> bool \<times> int \<times> bool" where
  "hash_block c relative_path buffer next_checkpoint_ns status s file path_known =
     (let (rc, md) = sha512_update (Some (mdContext file)) (Some buffer)
      in if rc \<noteq> CRYPT_OK then (FAILURE, s, file, path_known, next_checkpoint_ns, True)
         else
           let file = file\<lparr>mdContext := the md,
                           checksum_offset := checksum_offset file + int (length buffer)\<rparr>;
               s = s\<lparr>total_hashed_bytes := total_hashed_bytes s + of_nat (length buffer)\<rparr>;
               (checkpoint_now_ns, s) = cur_time_monotonic_ns s
           in if checkpoint_now_ns \<ge> next_checkpoint_ns
                 \<or> (file_transaction_active s
                    \<and> checkpoint_now_ns - file_transaction_started_ns s \<ge> DB_CHECKPOINT_INTERVAL_NS)
              then
                let checkpoint_allowed = periodic_hash_checkpoint_is_allowed c file;
                    (status, s, file, path_known) =
                      (if checkpoint_allowed
                       then db_save_file_record c relative_path file path_known False s
                       else (status, s, file, path_known))
                in if checkpoint_allowed \<and> has FAILURE status
                   then (status, s, file, path_known, next_checkpoint_ns, True)
                   else
                     let (status, s) = call db_file_transaction_commit status s
                     in if has FAILURE status
                        then (status, s, file, path_known, next_checkpoint_ns, True)
                        else (status, s, file, path_known,
                              checkpoint_now_ns + DB_CHECKPOINT_INTERVAL_NS, False)
              else (status, s, file, path_known, next_checkpoint_ns, False))"

text \<open>
  The loop over the results of \<open>fread\<close>.  A signal may arrive before each look at the interrupt
  flag; the last component is \<open>loop_was_interrupted\<close>.
\<close>

fun hash_loop ::
  "Config \<Rightarrow> memory \<Rightarrow> fread_answer list \<Rightarrow> int \<Rightarrow> ret \<Rightarrow> app \<Rightarrow> File \<Rightarrow> bool
     \<Rightarrow> ret \<times> app \<times> File \<times> bool \<times> bool" where
  "hash_loop c relative_path [] next_checkpoint_ns status s file path_known =
     (let s = tick s in (status, s, file, path_known, global_interrupt_flag s))"
| "hash_loop c relative_path (read # reads) next_checkpoint_ns status s file path_known =
     (let s = tick s
      in if global_interrupt_flag s then (status, s, file, path_known, True)
         else
           case read of
             Ferror err \<Rightarrow>
               (status, s, file\<lparr>read_error := True, read_errno := err\<rparr>, path_known, False)
           | Bytes buffer \<Rightarrow>
               if buffer = [] then (status, s, file, path_known, False)
               else
                 let (status, s, file, path_known, next_checkpoint_ns, stop) =
                       (if status = SUCCESS then
                          hash_block c relative_path buffer next_checkpoint_ns status s file path_known
                        else (status, s, file, path_known, next_checkpoint_ns, False))
                 in if stop then (status, s, file, path_known, False)
                    else hash_loop c relative_path reads next_checkpoint_ns status s file path_known)"

section \<open>Hashing a file\<close>

text \<open>
  The pass over an opened file: the two branches guarded by \<open>perform_file_hashing\<close>, the read loop
  between two clock readings and the finalisation of an uninterrupted pass, up to \<open>provide\<close>.
\<close>

definition hash_content ::
  "Config \<Rightarrow> memory \<Rightarrow> fread_answer list \<Rightarrow> app \<Rightarrow> File \<Rightarrow> bool \<Rightarrow> ret \<times> app \<times> File \<times> bool" where
  "hash_content c relative_path reads s file path_known =
     (let (hashing_start_ns, s) = cur_time_monotonic_ns s;
          next_checkpoint_ns = hashing_start_ns + DB_CHECKPOINT_INTERVAL_NS;
          (status, s, file, path_known, loop_was_interrupted) =
            hash_loop c relative_path reads next_checkpoint_ns SUCCESS s file path_known;
          (hashing_stop_ns, s) = cur_time_monotonic_ns s;
          (status, file) =
            (if status = SUCCESS \<and> \<not> loop_was_interrupted then
               let file = file\<lparr>checksum_offset := 0\<rparr>;
                   (rc, md, digest) = sha512_final (Some (mdContext file)) (Some (file_sha512 file));
                   file = file\<lparr>mdContext := the md, file_sha512 := the digest\<rparr>
               in (if rc \<noteq> CRYPT_OK then FAILURE else status, file)
             else (status, file));
          (status, s) = provide status s
      in (status, s, file, path_known))"

definition sha512sum ::
  "Config \<Rightarrow> memory \<Rightarrow> u64 \<Rightarrow> file_opening \<Rightarrow> File \<Rightarrow> bool \<Rightarrow> app \<Rightarrow> ret \<times> app \<times> File \<times> bool" where
  "sha512sum c relative_path file_buffer_length opens file path_known s =
     (if file_buffer_length = 0 then
        let (status, s) = provide FAILURE s in (status, s, file, path_known)
      else
        let s = tick s
        in case opens (checksum_offset file) of
             Open_Fails err \<Rightarrow>
               let file = file\<lparr>read_error := True, read_errno := err\<rparr>;
                   (status, s) = provide SUCCESS s
               in (status, s, file, path_known)
           | Fdopen_Fails err \<Rightarrow>
               let file = file\<lparr>read_error := True, read_errno := err\<rparr>;
                   (status, s) = provide SUCCESS s
               in (status, s, file, path_known)
           | Fseek_Fails \<Rightarrow>
               let file = file\<lparr>wrong_file_type := True\<rparr>;
                   (status, s) = provide SUCCESS s
               in (status, s, file, path_known)
           | Opened reads \<Rightarrow>
               let perform_file_hashing = \<not> conf_dry_run c \<or> conf_dry_run_with_checksums c;
                   (rc, md) = (if checksum_offset file = 0 then sha512_init (Some (mdContext file))
                               else (CRYPT_OK, Some (mdContext file)))
               in if rc \<noteq> CRYPT_OK then
                    let (status, s) = provide FAILURE s in (status, s, file, path_known)
                  else
                    let file = file\<lparr>mdContext := the md\<rparr>
                    in if perform_file_hashing then hash_content c relative_path reads s file path_known
                       else let (status, s) = provide SUCCESS s in (status, s, file, path_known))"

end
