(* ===== verification/Hash_Correct.thy ===== *)
theory Hash_Correct
  imports Hash_File
begin

text \<open>
  What hashing a file achieves: along every run of the read loop the context has absorbed exactly
  the bytes in front of the offset, checkpoints and interruptions included, and an undisturbed
  pass ends with the SHA-512 digest of the whole content.
\<close>

section \<open>What the reads deliver\<close>

fun delivered :: "fread_answer list \<Rightarrow> bytes" where
  "delivered [] = []"
| "delivered (Ferror err # reads) = []"
| "delivered (Bytes buffer # reads) = (if buffer = [] then [] else buffer @ delivered reads)"

fun fails :: "fread_answer list \<Rightarrow> bool" where
  "fails [] = False"
| "fails (Ferror err # reads) = True"
| "fails (Bytes buffer # reads) = (buffer \<noteq> [] \<and> fails reads)"

text \<open>The reads from offset \<open>off\<close> on belong to a file with the given content.\<close>

definition delivers :: "bytes \<Rightarrow> nat \<Rightarrow> fread_answer list \<Rightarrow> bool" where
  "delivers content off reads \<longleftrightarrow>
     (\<exists>rest. drop off content = delivered reads @ rest \<and> (\<not> fails reads \<longrightarrow> rest = []))"

lemma delivers_step:
  assumes "delivers content off (Bytes buffer # reads)" "buffer \<noteq> []" "off \<le> length content"
  shows "take (off + length buffer) content = take off content @ buffer"
    and "off + length buffer \<le> length content" "delivers content (off + length buffer) reads"
proof -
  obtain rest where r: "drop off content = buffer @ delivered reads @ rest"
    "\<not> fails reads \<longrightarrow> rest = []"
    using assms(1,2) by (auto simp: delivers_def)
  then have t: "take (length buffer) (drop off content) = buffer"
    and "drop (length buffer) (drop off content) = delivered reads @ rest" by simp_all
  then have "drop (off + length buffer) content = delivered reads @ rest" by (simp add: add.commute)
  with r(2) show "delivers content (off + length buffer) reads" by (auto simp: delivers_def)
  show "take (off + length buffer) content = take off content @ buffer" using t by (simp add: take_add)
  have "length (drop off content) = length buffer + length (delivered reads @ rest)" using r(1) by simp
  then show "off + length buffer \<le> length content" using assms(3) by simp
qed

section \<open>The per-file state while hashing\<close>

text \<open>Hashing and saving change these members of a \<open>File\<close> only.\<close>

definition frame :: "File \<Rightarrow> File" where
  "frame file = file\<lparr>file_db := (file_db file)\<lparr>ID := 0\<rparr>, db_record_updated := False,
     new_db_record_inserted := False, mdContext := zero_context, checksum_offset := 0,
     read_error := False, read_errno := Errno 0, file_sha512 := [], wrong_file_type := False,
     hash_interrupted := False\<rparr>"

definition same_file :: "File \<Rightarrow> File \<Rightarrow> bool" where
  "same_file file file' \<longleftrightarrow> frame file' = frame file"

lemma same_file_refl [simp]: "same_file file file"
  by (simp add: same_file_def)

lemma same_file_trans: "same_file a b \<Longrightarrow> same_file b d \<Longrightarrow> same_file a d"
  by (simp add: same_file_def)

lemma same_file_updates [simp]:
  "same_file f (file\<lparr>mdContext := md\<rparr>) \<longleftrightarrow> same_file f file"
  "same_file f (file\<lparr>checksum_offset := off\<rparr>) \<longleftrightarrow> same_file f file"
  "same_file f (file\<lparr>read_error := re\<rparr>) \<longleftrightarrow> same_file f file"
  "same_file f (file\<lparr>read_errno := en\<rparr>) \<longleftrightarrow> same_file f file"
  "same_file f (file\<lparr>file_sha512 := sha\<rparr>) \<longleftrightarrow> same_file f file"
  "same_file f (file\<lparr>wrong_file_type := wt\<rparr>) \<longleftrightarrow> same_file f file"
  "same_file f (file\<lparr>hash_interrupted := u\<rparr>) \<longleftrightarrow> same_file f file"
  "same_file f (file\<lparr>db_record_updated := u\<rparr>) \<longleftrightarrow> same_file f file"
  "same_file f (file\<lparr>new_db_record_inserted := u\<rparr>) \<longleftrightarrow> same_file f file"
  "same_file f (file\<lparr>file_db := (file_db file)\<lparr>ID := i\<rparr>\<rparr>) \<longleftrightarrow> same_file f file"
  by (simp_all add: same_file_def frame_def)

lemma same_hash_file: "same_hash file file' \<Longrightarrow> same_file file file'"
  by (auto simp: same_hash_def same_file_def frame_def)

lemma same_fileD:
  assumes "same_file file file'"
  shows "locked_checksum_file file' = locked_checksum_file file"
    and "relative_path_was_in_db_before_processing (file_db file')
       = relative_path_was_in_db_before_processing (file_db file)"
    and "saved_offset (file_db file') = saved_offset (file_db file)"
    and "db_sha512 (file_db file') = db_sha512 (file_db file)"
    and "file_stat file' = file_stat file" and "zero_size_file file' = zero_size_file file"
    and "rehash file' = rehash file" and "is_readable file' = is_readable file"
    and "file_ignore file' = file_ignore file"
    and "lock_checksum_violation file' = lock_checksum_violation file"
    and "locked_checksum_mismatch file' = locked_checksum_mismatch file"
    and "saved_mdContext (file_db file') = saved_mdContext (file_db file)"
    and "saved_stat (file_db file') = saved_stat (file_db file)"
proof -
  have f: "g (frame file') = g (frame file)" for g :: "File \<Rightarrow> 'a" using assms by (simp add: same_file_def)
  from f [of locked_checksum_file] f [of "\<lambda>f. relative_path_was_in_db_before_processing (file_db f)"]
    f [of "\<lambda>f. saved_offset (file_db f)"] f [of "\<lambda>f. db_sha512 (file_db f)"] f [of file_stat]
    f [of zero_size_file] f [of rehash] f [of is_readable] f [of file_ignore]
    f [of lock_checksum_violation] f [of locked_checksum_mismatch]
    f [of "\<lambda>f. saved_mdContext (file_db f)"] f [of "\<lambda>f. saved_stat (file_db f)"]
  show "locked_checksum_file file' = locked_checksum_file file"
    "relative_path_was_in_db_before_processing (file_db file')
       = relative_path_was_in_db_before_processing (file_db file)"
    "saved_offset (file_db file') = saved_offset (file_db file)"
    "db_sha512 (file_db file') = db_sha512 (file_db file)"
    "file_stat file' = file_stat file" "zero_size_file file' = zero_size_file file"
    "rehash file' = rehash file" "is_readable file' = is_readable file"
    "file_ignore file' = file_ignore file"
    "lock_checksum_violation file' = lock_checksum_violation file"
    "locked_checksum_mismatch file' = locked_checksum_mismatch file"
    "saved_mdContext (file_db file') = saved_mdContext (file_db file)"
    "saved_stat (file_db file') = saved_stat (file_db file)"
    by (simp_all add: frame_def)
qed

text \<open>The context has absorbed the bytes in front of the offset.\<close>

definition hash_state :: "bytes \<Rightarrow> File \<Rightarrow> bool" where
  "hash_state content file \<longleftrightarrow>
     0 \<le> checksum_offset file \<and> nat (checksum_offset file) \<le> length content
     \<and> hashed (mdContext file) (take (nat (checksum_offset file)) content)"

text \<open>The status of a pass under way, and what the database layer keeps meanwhile.\<close>

definition ongoing :: "(row list \<Rightarrow> bool) \<Rightarrow> app \<Rightarrow> bool \<Rightarrow> ret \<Rightarrow> app \<Rightarrow> bool" where
  "ongoing P s good status s' \<longleftrightarrow>
     (\<exists>h. status = outcome good h \<and> (h \<longrightarrow> halted s')) \<and> later s s' \<and> store_inv P s'"

lemma ongoing_trans: "later s s' \<Longrightarrow> ongoing P s' g st s'' \<Longrightarrow> ongoing P s g st s''"
  by (auto simp: ongoing_def later_def)

lemma keeps_ongoing: "keeps P s (st, s') \<longleftrightarrow> (\<exists>g. ongoing P s g st s' \<and> st = outcome g (halted s'))"
  by (auto simp: keeps_def ongoing_def)

lemma sha_step:
  assumes "hash_state content file" "sha_fits content"
    and "take (nat (checksum_offset file) + length buffer) content
       = take (nat (checksum_offset file)) content @ buffer"
    and "nat (checksum_offset file) + length buffer \<le> length content"
  shows "\<exists>md. sha512_update (Some (mdContext file)) (Some buffer) = (CRYPT_OK, Some md)
    \<and> hash_state content (file\<lparr>mdContext := md, checksum_offset := checksum_offset file + int (length buffer)\<rparr>)"
proof -
  have h: "hashed (mdContext file) (take (nat (checksum_offset file)) content)"
    and off: "0 \<le> checksum_offset file" using assms(1) by (simp_all add: hash_state_def)
  have "sha_fits (take (nat (checksum_offset file)) content @ buffer)"
    using assms(2) assms(3) [symmetric] by (simp add: sha_fits_def min_def)
  from sha.absorbed_upd [OF h this] obtain md where
    "sha_upd (mdContext file) buffer = Some md" "hashed md (take (nat (checksum_offset file)) content @ buffer)"
    by blast
  then show ?thesis
    using off assms(3,4)
    by (auto simp: sha_upd_def hash_state_def nat_add_distrib
        split: prod.splits SHA512_Status.splits option.splits)
qed

section \<open>One block of the loop\<close>

text \<open>What a caller of the hashing has to know about the rows periodic checkpoints may write.\<close>

definition checkpoints_ok :: "Config \<Rightarrow> (row list \<Rightarrow> bool) \<Rightarrow> bytes \<Rightarrow> bytes \<Rightarrow> File \<Rightarrow> bool" where
  "checkpoints_ok c P p content file \<longleftrightarrow>
     (\<forall>f. same_file file f \<longrightarrow> hash_state content f \<longrightarrow>
          periodic_hash_checkpoint_is_allowed c f \<longrightarrow> may_save c P p f)"

lemma checkpoints_same: "checkpoints_ok c P p content file \<Longrightarrow> same_file file f \<Longrightarrow> checkpoints_ok c P p content f"
  unfolding checkpoints_ok_def using same_file_trans by blast

lemma hash_block_result:
  assumes "sane s" "store_inv P s" "path_ok p m" "known_ok p file known s"
    and "hash_state content file" "sha_fits content" "checkpoints_ok c P p content file"
    and "take (nat (checksum_offset file) + length buffer) content
       = take (nat (checksum_offset file)) content @ buffer"
    and "nat (checksum_offset file) + length buffer \<le> length content"
    and run: "hash_block c m buffer due SUCCESS s file known = (status, s', file', known', due', stop)"
  shows "ongoing P s (\<not> stop) status s'" "known_ok p file' known' s'" "same_file file file'"
    "hash_state content file'" "checksum_offset file' = checksum_offset file + int (length buffer)"
    "read_error file' = read_error file" "wrong_file_type file' = wrong_file_type file"
    "known \<longrightarrow> known'"
proof -
  obtain md where md: "sha512_update (Some (mdContext file)) (Some buffer) = (CRYPT_OK, Some md)"
    and hs: "hash_state content (file\<lparr>mdContext := md,
        checksum_offset := checksum_offset file + int (length buffer)\<rparr>)"
    using sha_step [OF assms(5,6,8,9)] by blast
  define f1 where "f1 = file\<lparr>mdContext := md, checksum_offset := checksum_offset file + int (length buffer)\<rparr>"
  define s0 where "s0 = s\<lparr>total_hashed_bytes := total_hashed_bytes s + of_nat (length buffer)\<rparr>"
  obtain now s1 where n: "cur_time_monotonic_ns s0 = (now, s1)" by (cases "cur_time_monotonic_ns s0")
  have s0: "sane s0" "same_db s s0" "later s s0" using assms(1) by (simp_all add: s0_def same_db_def later_def)
  have c1: "later s0 s1" "same_db s0 s1" using clock_later [OF s0(1)] n by simp_all
  have s1: "sane s1" "later s s1" "store_inv P s1" "table s1 = table s"
    using c1 s0 later_trans store_inv_same assms(2) by (auto simp: later_def same_db_def)
  have f1: "same_file file f1" "hash_state content f1" "file_db f1 = file_db file"
    "read_error f1 = read_error file" "wrong_file_type f1 = wrong_file_type file"
    "checksum_offset f1 = checksum_offset file + int (length buffer)"
    using hs by (simp_all add: f1_def)
  have k1: "known_ok p f1 known s1" using assms(4) s1(4) f1(3) by (simp add: known_ok_def)
  define w where "w = (if periodic_hash_checkpoint_is_allowed c f1
      then db_save_file_record c m f1 known False s1 else (SUCCESS, s1, f1, known))"
  obtain st2 s2 f2 k2 where w: "w = (st2, s2, f2, k2)" by (cases w)
  have step: "keeps P s1 (st2, s2) \<and> known_ok p f2 k2 s2 \<and> same_hash f1 f2 \<and> (known \<longrightarrow> k2)"
    if "periodic_hash_checkpoint_is_allowed c f1"
  proof -
    have "may_save c P p f1" using assms(7) f1(1,2) that by (simp add: checkpoints_ok_def)
    from save_keeps(1-3,5) [OF s1(1,3) this assms(3) k1, of False st2 s2 f2 k2] w that show ?thesis
      by (simp add: w_def)
  qed
  have idle: "st2 = SUCCESS \<and> s2 = s1 \<and> f2 = f1 \<and> k2 = known" if "\<not> periodic_hash_checkpoint_is_allowed c f1"
    using w that by (simp add: w_def)
  have s2: "(\<exists>g. ongoing P s g st2 s2) \<and> known_ok p f2 k2 s2 \<and> same_hash f1 f2"
  proof (cases "periodic_hash_checkpoint_is_allowed c f1")
    case True
    then obtain g where "ongoing P s1 g st2 s2" "known_ok p f2 k2 s2" "same_hash f1 f2"
      using step by (auto simp: keeps_ongoing)
    with ongoing_trans [OF s1(2)] show ?thesis by blast
  next
    case False
    moreover have "ongoing P s True SUCCESS s1"
      using s1(2,3) unfolding ongoing_def outcome_literals(1) [symmetric] by blast
    ultimately show ?thesis using idle k1 by auto
  qed
  then obtain g h where st2: "st2 = outcome g h" "h \<longrightarrow> halted s2" "later s s2" "store_inv P s2"
    unfolding ongoing_def by blast
  then have sane2: "sane s2" by (simp add: later_def)
  have gi: "\<not> periodic_hash_checkpoint_is_allowed c f1 \<Longrightarrow> g" using idle st2(1) by simp
  define d where "d = call db_file_transaction_commit st2 s2"
  obtain st3 s3 where d: "d = (st3, s3)" by (cases d)
  have kd: "keeps P s2 d" "has FAILURE st3 \<longleftrightarrow> \<not> g \<or> has FAILURE (fst (db_file_transaction_commit s2))"
    "s3 = snd (db_file_transaction_commit s2)"
    using keeps_call [where f = db_file_transaction_commit and g = g and h = h,
        OF commit_keeps(1) [OF sane2 st2(4)] st2(2)] st2(1) d unfolding d_def by auto
  obtain g3 where "ongoing P s2 g3 st3 s3" "st3 = outcome g3 (halted s3)"
    using kd(1) unfolding d keeps_ongoing by blast
  with ongoing_trans [OF st2(3)] have g3: "ongoing P s g3 st3 s3" "st3 = outcome g3 (halted s3)"
    by blast+
  have keys3: "keys (table s3) \<subseteq> keys (table s2)"
  proof -
    obtain rc sx where a: "sql_answer s2 = (rc, sx)" by (cases "sql_answer s2")
    have "sane sx" and "keys (table sx) \<subseteq> keys (table s2)"
      using sql_answer_later [OF sane2 a] st2(4)
      by (auto simp: same_db_def rolled_back_def store_inv_def later_def)
    then show ?thesis using kd(3) sane2 by (simp add: db_file_transaction_commit_def a)
  qed
  have k3: "known_ok p f2 k2 s3" using s2 owner_keys [OF keys3] by (simp add: known_ok_def)
  have sh: "same_hash f1 f2" using s2 by blast
  have f2: "hash_state content f2" "checksum_offset f2 = checksum_offset f1"
    "read_error f2 = read_error file" "wrong_file_type f2 = wrong_file_type file"
    using sh f1(2,4,5) by (auto simp: same_hash_def hash_state_def)
  have f2s: "same_file file f2" using same_file_trans [OF f1(1) same_hash_file [OF sh]] .
  have w_eq: "(if periodic_hash_checkpoint_is_allowed c f1
      then db_save_file_record c m f1 known False s1 else (SUCCESS, s1, f1, known)) = (st2, s2, f2, k2)"
    using w by (simp add: w_def)
  have d_eq: "call db_file_transaction_commit st2 s2 = (st3, s3)" using d by (simp add: d_def)
  have ev: "(if due \<le> now \<or> file_transaction_active s1
        \<and> DB_CHECKPOINT_INTERVAL_NS \<le> now - file_transaction_started_ns s1
      then if periodic_hash_checkpoint_is_allowed c f1 \<and> has FAILURE st2 then (st2, s2, f2, k2, due, True)
           else if has FAILURE st3 then (st3, s3, f2, k2, due, True)
           else (st3, s3, f2, k2, now + DB_CHECKPOINT_INTERVAL_NS, False)
      else (SUCCESS, s1, f1, known, due, False)) = (status, s', file', known', due', stop)"
    unfolding run [symmetric]
    by (simp only: hash_block_def Let_def md prod.case option.sel simp_thms if_False
        f1_def [symmetric] s0_def [symmetric] n w_eq d_eq)
  consider (early) "status = SUCCESS" "s' = s1" "file' = f1" "known' = known" "\<not> stop"
    | (save) "periodic_hash_checkpoint_is_allowed c f1" "has FAILURE st2" "status = st2" "s' = s2"
        "file' = f2" "known' = k2" "stop"
    | (commit) "\<not> (periodic_hash_checkpoint_is_allowed c f1 \<and> has FAILURE st2)"
        "status = st3" "s' = s3" "file' = f2" "known' = k2" "stop \<longleftrightarrow> has FAILURE st3"
    using ev by (auto split: if_splits simp del: has_bits)
  note cases = this
  have o1: "ongoing P s True SUCCESS s1"
    using s1(2,3) unfolding ongoing_def outcome_literals(1) [symmetric] by blast
  have o2: "ongoing P s g st2 s2" using st2 unfolding ongoing_def by blast
  have f3: "has FAILURE st3 \<longleftrightarrow> \<not> g3" using g3(2) by simp
  show "ongoing P s (\<not> stop) status s'"
  proof (cases rule: cases)
    case save
    then have "\<not> g" using st2(1) by simp
    then show ?thesis using o2 save by simp
  qed (use o1 g3(1) f3 in simp_all)
  show "known_ok p file' known' s'" by (cases rule: cases) (use k1 k3 s2 in simp_all)
  show "same_file file file'" by (cases rule: cases) (use f1 f2 f2s in simp_all)
  show "hash_state content file'" by (cases rule: cases) (use f1 f2 f2s in simp_all)
  show "checksum_offset file' = checksum_offset file + int (length buffer)"
    by (cases rule: cases) (use f1 f2 f2s in simp_all)
  show "read_error file' = read_error file" by (cases rule: cases) (use f1 f2 f2s in simp_all)
  show "wrong_file_type file' = wrong_file_type file" by (cases rule: cases) (use f1 f2 f2s in simp_all)
  have "known \<longrightarrow> k2" using step idle by blast
  then show "known \<longrightarrow> known'" by (cases rule: cases) simp_all
qed

section \<open>The whole loop\<close>

text \<open>What a run of the loop leaves behind, whether it ended, failed or was interrupted.\<close>

definition loop_post ::
  "(row list \<Rightarrow> bool) \<Rightarrow> bytes \<Rightarrow> bytes \<Rightarrow> app \<Rightarrow> File \<Rightarrow> bool \<Rightarrow> bool \<Rightarrow> ret \<Rightarrow> app \<Rightarrow> File \<Rightarrow> bool \<Rightarrow> bool \<Rightarrow> bool" where
  "loop_post P p content s file known good status s' file' known' interrupted \<longleftrightarrow>
     ongoing P s good status s' \<and> known_ok p file' known' s' \<and> same_file file file'
     \<and> (known \<longrightarrow> known') \<and> hash_state content file' \<and> wrong_file_type file' = wrong_file_type file
     \<and> checksum_offset file \<le> checksum_offset file'
     \<and> (interrupted \<longrightarrow> good \<and> halted s')
     \<and> (good \<and> \<not> interrupted \<and> \<not> read_error file' \<longrightarrow> nat (checksum_offset file') = length content)"

lemma loop_post_trans:
  assumes "later s s1" "same_file file file1" "wrong_file_type file1 = wrong_file_type file"
    and "checksum_offset file \<le> checksum_offset file1" "known \<longrightarrow> known1"
    and "loop_post P p content s1 file1 known1 good status s' file' known' interrupted"
  shows "loop_post P p content s file known good status s' file' known' interrupted"
  using assms ongoing_trans [OF assms(1)] same_file_trans [OF assms(2)]
  unfolding loop_post_def by auto

lemma hash_loop_result:
  assumes "sane s" "store_inv P s" "path_ok p m" "known_ok p file known s"
    and "hash_state content file" "sha_fits content" "checkpoints_ok c P p content file"
    and "delivers content (nat (checksum_offset file)) reads"
    and "status = outcome True h" "h \<longrightarrow> halted s"
    and "hash_loop c m reads due status s file known = (status', s', file', known', interrupted)"
  shows "\<exists>good. loop_post P p content s file known good status' s' file' known' interrupted"
  using assms(1,2,4,5,7,8,9,10,11)
proof (induction reads arbitrary: due status h known "file" s)
  case Nil
  have t: "later s (tick s)" "same_db s (tick s)" using tick_later [OF Nil.prems(1)] by simp_all
  have e: "status' = status" "s' = tick s" "file' = file" "known' = known" "interrupted = halted (tick s)"
    using Nil.prems(9) by (auto simp: Let_def)
  have "ongoing P s True status (tick s)"
    using Nil.prems(2,7,8) t store_inv_same unfolding ongoing_def later_def by blast
  moreover have "nat (checksum_offset file) = length content"
    using Nil.prems(4,6) by (simp add: delivers_def hash_state_def)
  moreover have "known_ok p file known (tick s)"
    using Nil.prems(3) t(2) by (simp add: known_ok_def same_db_def)
  ultimately have "loop_post P p content s file known True status' s' file' known' interrupted"
    unfolding e loop_post_def using Nil.prems(4) by simp
  then show ?case by blast
next
  case (Cons read reads)
  have t: "later s (tick s)" "same_db s (tick s)" using tick_later [OF Cons.prems(1)] by simp_all
  let ?s = "tick s"
  have s: "sane ?s" "store_inv P ?s" "known_ok p file known ?s" "h \<longrightarrow> halted ?s"
    using t Cons.prems(2,3,8) store_inv_same by (auto simp: later_def known_ok_def same_db_def)
  have og: "ongoing P s True status ?s" using s t(1) Cons.prems(7) unfolding ongoing_def by blast
  have stop_here: ?case if "(status', s', known') = (status, ?s, known)" "same_file file file'"
    "hash_state content file'" "wrong_file_type file' = wrong_file_type file"
    "checksum_offset file' = checksum_offset file" "file_db file' = file_db file"
    "interrupted = halted ?s" "\<not> interrupted \<Longrightarrow> \<not> read_error file' \<Longrightarrow> nat (checksum_offset file) = length content"
  proof -
    have "loop_post P p content s file known True status' s' file' known' interrupted"
      using that og s(3) by (auto simp: loop_post_def known_ok_def)
    then show ?thesis by blast
  qed
  show ?case
  proof (cases "halted ?s")
    case True
    then show ?thesis using Cons.prems(4,9) by (intro stop_here) (simp_all add: Let_def)
  next
    case False
    then have status: "status = SUCCESS" using s(4) Cons.prems(7) by (simp add: outcome_literals)
    show ?thesis
    proof (cases read)
      case (Ferror err)
      then show ?thesis using Cons.prems(4,9) False
        by (intro stop_here) (auto simp: Let_def hash_state_def)
    next
      case (Bytes buffer)
      show ?thesis
      proof (cases "buffer = []")
        case True
        then show ?thesis using Cons.prems(4,6,9) False Bytes
          by (intro stop_here) (auto simp: Let_def delivers_def hash_state_def)
      next
        case ne: False
        have off: "nat (checksum_offset file) \<le> length content" "0 \<le> checksum_offset file"
          using Cons.prems(4) by (simp_all add: hash_state_def)
        note d = delivers_step [OF Cons.prems(6) [unfolded Bytes] ne off(1)]
        obtain st1 s1 f1 k1 n1 stop where b:
          "hash_block c m buffer due SUCCESS ?s file known = (st1, s1, f1, k1, n1, stop)"
          by (cases "hash_block c m buffer due SUCCESS ?s file known") auto
        note br = hash_block_result [OF s(1,2) assms(3) s(3) Cons.prems(4) assms(6) Cons.prems(5) d(1,2) b]
        have ev: "(if stop then (st1, s1, f1, k1, False) else hash_loop c m reads n1 st1 s1 f1 k1)
            = (status', s', file', known', interrupted)"
          using Cons.prems(9) False ne by (simp add: status Bytes Let_def b del: hash_loop.simps(1))
        have og1: "ongoing P s (\<not> stop) st1 s1" using ongoing_trans [OF t(1) br(1)] .
        show ?thesis
        proof (cases stop)
          case True
          then have "loop_post P p content s file known False status' s' file' known' interrupted"
            using ev og1 br by (simp add: loop_post_def)
          then show ?thesis by blast
        next
          case go: False
          obtain h1 where h1: "st1 = outcome True h1" "h1 \<longrightarrow> halted s1" "later s s1" "store_inv P s1"
            using og1 go unfolding ongoing_def by auto
          have "nat (checksum_offset f1) = nat (checksum_offset file) + length buffer"
            using br(5) off(2) by (simp add: nat_add_distrib)
          then have d1: "delivers content (nat (checksum_offset f1)) reads" using d(3) by simp
          have "sane s1" using h1(3) by (simp add: later_def)
          from Cons.IH [OF this h1(4) br(2,4) checkpoints_same [OF Cons.prems(5) br(3)] d1 h1(1,2)]
          obtain good where post: "loop_post P p content s1 f1 k1 good status' s' file' known' interrupted"
            using ev go by auto
          have "checksum_offset file \<le> checksum_offset f1" using br(5) by simp
          from loop_post_trans [OF h1(3) br(3,7) this br(8) post] show ?thesis by blast
        qed
      qed
    qed
  qed
qed

section \<open>Hashing a file\<close>

text \<open>
  After \<open>sha512sum\<close>: the open, fdopen and fseek failures mark the file; an interrupted or partial
  pass leaves a resumable state; a complete pass leaves offset 0 and the digest.
\<close>

definition sum_post ::
  "Config \<Rightarrow> (row list \<Rightarrow> bool) \<Rightarrow> bytes \<Rightarrow> bytes \<Rightarrow> file_opening \<Rightarrow> app \<Rightarrow> File \<Rightarrow> bool \<Rightarrow> bool \<Rightarrow> ret \<Rightarrow> app
     \<Rightarrow> File \<Rightarrow> bool \<Rightarrow> bool" where
  "sum_post c P p content opens s file known good status s' file' known' \<longleftrightarrow>
     ongoing P s good status s' \<and> status = outcome good (halted s') \<and> known_ok p file' known' s'
     \<and> same_file file file' \<and> (known \<longrightarrow> known') \<and> 0 \<le> checksum_offset file'
     \<and> (wrong_file_type file' \<longrightarrow> wrong_file_type file \<or> opens (checksum_offset file) = Fseek_Fails)
     \<and> (checksum_offset file' \<noteq> 0 \<longrightarrow> hash_state content file')
     \<and> (good \<longrightarrow> \<not> conf_dry_run c \<longrightarrow> \<not> read_error file' \<longrightarrow> \<not> wrong_file_type file' \<longrightarrow>
          checksum_offset file' = 0 \<longrightarrow> \<not> halted s' \<longrightarrow> file_sha512 file' = fips_sha512 content)"

lemma final_digest:
  assumes "hash_state content file"
  shows "\<exists>md. sha512_final (Some (mdContext file)) (Some out)
    = (CRYPT_OK, Some md, Some (fips_sha512 (take (nat (checksum_offset file)) content)))"
  using assms sha512_final_digest [of "mdContext file" _ out] by (auto simp: hash_state_def)

text \<open>What the scan has to establish before it hashes a file.\<close>

definition sum_pre ::
  "Config \<Rightarrow> (row list \<Rightarrow> bool) \<Rightarrow> bytes \<Rightarrow> bytes \<Rightarrow> memory \<Rightarrow> file_opening \<Rightarrow> app \<Rightarrow> File \<Rightarrow> bool \<Rightarrow> bool" where
  "sum_pre c P p content m opens s file known \<longleftrightarrow>
     sane s \<and> store_inv P s \<and> path_ok p m \<and> known_ok p file known s
     \<and> sha_fits content \<and> checkpoints_ok c P p content file
     \<and> (\<forall>reads. opens (checksum_offset file) = Opened reads \<longrightarrow>
          delivers content (nat (checksum_offset file)) reads)
     \<and> length (md_buf (mdContext file)) = 128 \<and> 0 \<le> checksum_offset file
     \<and> (checksum_offset file \<noteq> 0 \<longrightarrow> hash_state content file)"

lemma tick_pre: "sum_pre c P p content m opens s file known \<Longrightarrow>
   sum_pre c P p content m opens (tick s) file known \<and> later s (tick s)"
  using tick_later [of s] store_inv_same [of s "tick s" P]
  by (auto simp: sum_pre_def later_def known_ok_def same_db_def)

lemma start_context:
  assumes "sum_pre c P p content m opens s file known"
    and "(rc, md) = (if checksum_offset file = 0 then sha512_init (Some (mdContext file))
                     else (CRYPT_OK, Some (mdContext file)))"
  shows "rc = CRYPT_OK" "hash_state content (file\<lparr>mdContext := the md\<rparr>)"
proof -
  have "length (md_buf (mdContext file)) = 128" using assms(1) by (simp add: sum_pre_def)
  from hashed_init [OF this] obtain md0 where
    "sha512_init (Some (mdContext file)) = (CRYPT_OK, Some md0)" "hashed md0 []" by blast
  with assms show "rc = CRYPT_OK" "hash_state content (file\<lparr>mdContext := the md\<rparr>)"
    by (auto simp: sum_pre_def hash_state_def split: if_splits)
qed

lemma sum_post_early:
  assumes "sane s" "store_inv P s" "known_ok p file known s" "same_file file file'"
    and "0 \<le> checksum_offset file" "checksum_offset file' = checksum_offset file"
    and "checksum_offset file \<noteq> 0 \<longrightarrow> hash_state content file" "file_db file' = file_db file"
    and "mdContext file' = mdContext file"
    and "read_error file' \<or> wrong_file_type file' \<or> conf_dry_run c"
    and "wrong_file_type file' \<longrightarrow> wrong_file_type file \<or> opens (checksum_offset file) = Fseek_Fails"
  shows "sum_post c P p content opens s file known True (outcome True (halted s)) s file' known"
  using assms by (auto simp: sum_post_def ongoing_def later_def known_ok_def hash_state_def)

lemma hash_content_result:
  assumes pre: "sum_pre c P p content m opens s file known"
    and hs: "hash_state content file" and del: "delivers content (nat (checksum_offset file)) reads"
    and run: "hash_content c m reads s file known = (status, s', file', known')"
  shows "\<exists>good. sum_post c P p content opens s file known good status s' file' known'"
proof -
  have s: "sane s" "store_inv P s" "path_ok p m" "known_ok p file known s" "sha_fits content"
    "checkpoints_ok c P p content file"
    using pre by (simp_all add: sum_pre_def)
  obtain t0 s1 where t0: "cur_time_monotonic_ns s = (t0, s1)" by (cases "cur_time_monotonic_ns s")
  have c1: "later s s1" "same_db s s1" using clock_later [OF s(1)] t0 by simp_all
  have s1: "sane s1" "store_inv P s1" "known_ok p file known s1"
    using c1 store_inv_same s(2,4) by (auto simp: later_def known_ok_def same_db_def)
  obtain st2 s2 f2 k2 intr where l:
    "hash_loop c m reads (t0 + DB_CHECKPOINT_INTERVAL_NS) SUCCESS s1 file known = (st2, s2, f2, k2, intr)"
    by (cases "hash_loop c m reads (t0 + DB_CHECKPOINT_INTERVAL_NS) SUCCESS s1 file known") auto
  obtain good where post: "loop_post P p content s1 file known good st2 s2 f2 k2 intr"
    using hash_loop_result [OF s1(1,2) s(3) s1(3) hs s(5,6) del _ _ l, of False]
    by (auto simp: outcome_literals)
  then obtain h2 where st2: "st2 = outcome good h2" "h2 \<longrightarrow> halted s2" "later s1 s2" "store_inv P s2"
    and f2: "known_ok p f2 k2 s2" "same_file file f2" "hash_state content f2"
    by (auto simp: loop_post_def ongoing_def)
  obtain t1 s3 where t1: "cur_time_monotonic_ns s2 = (t1, s3)" by (cases "cur_time_monotonic_ns s2")
  have "sane s2" using st2(3) by (simp add: later_def)
  then have c3: "later s2 s3" "same_db s2 s3" using clock_later [of s2] t1 by simp_all
  have s3: "sane s3" "store_inv P s3" "known_ok p f2 k2 s3" "later s s3" "h2 \<longrightarrow> halted s3"
    using c3 store_inv_same st2 f2(1) c1(1) by (auto simp: later_def known_ok_def same_db_def)
  have og: "ongoing P s good (outcome good (halted s3)) s3"
    using s3 unfolding ongoing_def by blast
  obtain md where md: "sha512_final (Some (mdContext f2)) (Some (file_sha512 f2))
      = (CRYPT_OK, Some md, Some (fips_sha512 (take (nat (checksum_offset f2)) content)))"
    using final_digest [OF f2(3)] by blast
  define f3 where "f3 = (if st2 = SUCCESS \<and> \<not> intr then f2\<lparr>checksum_offset := 0, mdContext := md,
      file_sha512 := fips_sha512 (take (nat (checksum_offset f2)) content)\<rparr> else f2)"
  have ev: "(outcome good (halted s3), s3, f3, k2) = (status, s', file', known')"
    unfolding run [symmetric] using s3(1,5)
    by (auto simp: hash_content_def Let_def t0 l t1 md f3_def st2(1))
  have k3: "known_ok p f3 k2 s3" using s3(3) by (simp add: f3_def known_ok_def)
  have off2: "0 \<le> checksum_offset f2" using f2(3) by (simp add: hash_state_def)
  have dig: "file_sha512 f3 = fips_sha512 content"
    if "good" "\<not> read_error f3" "checksum_offset f3 = 0" "\<not> halted s3"
  proof -
    have "\<not> halted s2" using that(4) c3(1) by (auto simp: later_def)
    then have "st2 = SUCCESS" "\<not> intr" using st2(1,2) that(1) post by (auto simp: loop_post_def)
    moreover from this have "\<not> read_error f2" using that(2) by (simp add: f3_def)
    ultimately have "nat (checksum_offset f2) = length content"
      using post that(1) by (simp add: loop_post_def)
    then show ?thesis using \<open>st2 = SUCCESS\<close> \<open>\<not> intr\<close> by (simp add: f3_def)
  qed
  have "wrong_file_type f3 = wrong_file_type file" "known \<longrightarrow> k2"
    using post by (simp_all add: f3_def loop_post_def)
  then have "sum_post c P p content opens s file known good status s' file' known'"
    using ev og k3 f2 off2 dig s3(4) by (auto simp: sum_post_def f3_def)
  then show ?thesis by blast
qed

lemma sha512sum_result:
  assumes "sum_pre c P p content m opens s file known" "len \<noteq> 0"
    and "sha512sum c m len opens file known s = (status, s', file', known')"
  shows "\<exists>good. sum_post c P p content opens s file known good status s' file' known'"
proof -
  note pre = tick_pre [OF assms(1)]
  let ?s = "tick s"
  have s: "sane ?s" "store_inv P ?s" "known_ok p file known ?s" "0 \<le> checksum_offset file"
    "checksum_offset file \<noteq> 0 \<longrightarrow> hash_state content file" "path_ok p m" "sha_fits content"
    "checkpoints_ok c P p content file" "later s ?s"
    using pre by (simp_all add: sum_pre_def)
  have lift: "sum_post c P p content opens ?s file known g st s1 f1 k1 \<Longrightarrow> sum_post c P p content opens s file known g st s1 f1 k1"
    for g st s1 f1 k1
    using ongoing_trans [OF s(9)] by (auto simp: sum_post_def)
  note early = lift [OF sum_post_early [OF s(1-3)]]
  note run = assms(3) [symmetric]
  show ?thesis
  proof (cases "opens (checksum_offset file)")
    case (Open_Fails err)
    have "sum_post c P p content opens s file known True (outcome True (halted ?s)) ?s
        (file\<lparr>read_error := True, read_errno := err\<rparr>) known"
      using s(4,5) by (intro early) simp_all
    then show ?thesis using run Open_Fails s(1) assms(2) by (auto simp: sha512sum_def Let_def)
  next
    case (Fdopen_Fails err)
    have "sum_post c P p content opens s file known True (outcome True (halted ?s)) ?s
        (file\<lparr>read_error := True, read_errno := err\<rparr>) known"
      using s(4,5) by (intro early) simp_all
    then show ?thesis using run Fdopen_Fails s(1) assms(2) by (auto simp: sha512sum_def Let_def)
  next
    case Fseek_Fails
    have "sum_post c P p content opens s file known True (outcome True (halted ?s)) ?s
        (file\<lparr>wrong_file_type := True\<rparr>) known"
      using s(4,5) Fseek_Fails by (intro early) simp_all
    then show ?thesis using run Fseek_Fails s(1) assms(2) by (auto simp: sha512sum_def Let_def)
  next
    case (Opened reads)
    obtain rc md where md: "(rc, md) = (if checksum_offset file = 0 then sha512_init (Some (mdContext file))
        else (CRYPT_OK, Some (mdContext file)))" by (metis surj_pair)
    note st = start_context [OF pre [THEN conjunct1] md]
    let ?f = "file\<lparr>mdContext := the md\<rparr>"
    have pf: "sum_pre c P p content m opens ?s ?f known"
      using pre st(2) checkpoints_same [OF s(8), of ?f]
      by (auto simp: sum_pre_def known_ok_def hash_state_def hashed_def)
    have same: "same_file file ?f" "checksum_offset ?f = checksum_offset file"
      "wrong_file_type ?f = wrong_file_type file" by simp_all
    show ?thesis
    proof (cases "\<not> conf_dry_run c \<or> conf_dry_run_with_checksums c")
      case True
      have "hash_content c m reads ?s ?f known = (status, s', file', known')"
        using run Opened True st(1) assms(2)
        by (simp add: sha512sum_def Let_def md [symmetric])
      moreover have "delivers content (nat (checksum_offset ?f)) reads"
        using pre Opened by (simp add: sum_pre_def)
      ultimately obtain good where "sum_post c P p content opens ?s ?f known good status s' file' known'"
        using hash_content_result [OF pf st(2)] by blast
      then have "sum_post c P p content opens ?s file known good status s' file' known'"
        using same_file_trans [OF same(1)] unfolding sum_post_def same(2,3) by blast
      then show ?thesis using lift by blast
    next
      case False
      have "sum_post c P p content opens ?s file known True (outcome True (halted ?s)) ?s ?f known"
        using False s st(2) unfolding sum_post_def ongoing_def later_def
        by (auto simp: known_ok_def)
      moreover have "(outcome True (halted ?s), ?s, ?f, known) = (status, s', file', known')"
        using run Opened False st(1) s(1) assms(2) by (simp add: sha512sum_def Let_def md [symmetric])
      ultimately have "sum_post c P p content opens ?s file known True status s' file' known'" by auto
      then show ?thesis using lift by blast
    qed
  qed
qed

end
