(* ===== verification/File_Processing.thy ===== *)
theory File_Processing
  imports Hash_File
begin

text \<open>
  Processing one regular file of a traversal: the \<open>FTS_F\<close> branch of \<open>file_list.c\<close>, with the report of
  an unavailable locked file (\<open>show_locked_checksum.c\<close>).  The branch is cut where it can leave the
  \<open>switch\<close> early: looking the path up, deciding what to do, hashing, and saving.  What is printed
  about a file (\<open>show_file\<close>, the logger) has no effect on these and is left out.
\<close>

section \<open>The variables of the loop\<close>

text \<open>
  The local variables of \<open>file_list\<close> that outlive one entry: \<open>status\<close>, \<open>continue_the_loop\<close>,
  \<open>lock_checksum_violation_detected\<close> and the reused descriptor \<open>relative_path\<close>.
\<close>

record scan =
  status :: ret
  continue_the_loop :: bool
  lock_checksum_violation_detected :: bool
  relative_path :: memory

text \<open>Leaving the \<open>switch\<close> after \<open>continue_the_loop = false\<close>.\<close>

definition stop_with :: "ret \<Rightarrow> scan \<Rightarrow> scan" where
  "stop_with st sc = sc\<lparr>status := st, continue_the_loop := False\<rparr>"

definition show_locked_checksum_unavailable_violation :: "FileAccessStatus \<Rightarrow> app action" where
  "show_locked_checksum_unavailable_violation access_status s =
     (if access_status = FILE_NOT_FOUND \<or> access_status = FILE_ACCESS_DENIED
         \<or> access_status = FILE_ACCESS_ERROR
      then provide SUCCESS (s\<lparr>show_remembered_messages_at_exit := True\<rparr>)
      else provide FAILURE s)"

text \<open>\<open>file_check_access(fd, relative_path, mode)\<close> with the answer of \<open>faccessat\<close>.\<close>

definition check_access :: "memory \<Rightarrow> app \<Rightarrow> FileAccessStatus \<times> app" where
  "check_access path s =
     (let (answer, s) = faccessat s
      in (file_check_access (Some (mem_string path)) answer, s))"

section \<open>Looking a file up\<close>

text \<open>
  From \<open>path_build_relative\<close> to the database row; \<open>None\<close> when the branch is left.
\<close>

definition file_load :: "heap \<Rightarrow> ftsent \<Rightarrow> scan \<Rightarrow> app \<Rightarrow> scan \<times> app \<times> File option" where
  "file_load heap entry sc s =
     (let (st, path) = run_out s (status sc)
            (path_build_relative s heap (relative_path sc) (Some entry)) (relative_path sc);
          sc = sc\<lparr>relative_path := path\<rparr>
      in if \<not> has TRIUMPH st then (stop_with st sc, s, None)
         else
           let (returned, s_read, file_read) = db_read_file_data_from zero_file path s;
               file = (if has SKIP st then zero_file else file_read);
               (st, s) = run (\<lambda>_. (returned, s_read)) st s
           in if st \<noteq> SUCCESS then (stop_with st sc, s, None)
              else (sc\<lparr>status := st\<rparr>, s, Some file))"

text \<open>The lock check and the include and ignore filters.\<close>

definition file_filter ::
  "Config \<Rightarrow> regex_engine \<Rightarrow> File \<Rightarrow> scan \<Rightarrow> app \<Rightarrow> scan \<times> app \<times> File option" where
  "file_filter c rx file sc s =
     (let path = relative_path sc;
          (locked, st, s) =
            ask (\<lambda>s. (path_check_locked_checksum rx s (conf_lock_checksum_pcre_compiled c) path, s))
              (status sc) s;
          file = (if locked then file\<lparr>locked_checksum_file := True\<rparr> else file)
      in if st \<noteq> SUCCESS then (stop_with st sc, s, None)
         else
           let (st, included, ignored) =
                 match_include_ignore rx s (conf_include_pcre_compiled c)
                   (conf_ignore_pcre_compiled c) path;
               file = file\<lparr>file_include := included, file_ignore := ignored\<rparr>
           in if st \<noteq> SUCCESS then (stop_with st sc, s, None)
              else
                (sc\<lparr>status := st\<rparr>, s,
                 Some (if file_ignore file \<and> locked_checksum_file file
                       then file\<lparr>file_ignore := False\<rparr> else file)))"

text \<open>Read access for paths that are not ignored, and the violation by an unavailable locked file.\<close>

definition file_access ::
  "File \<Rightarrow> bool \<Rightarrow> scan \<Rightarrow> app \<Rightarrow> scan \<times> app \<times> File option" where
  "file_access file path_known sc s =
     (if file_ignore file then (sc, s, Some file)
      else
        let (access_status, s) = check_access (relative_path sc) s
        in if path_known \<and> locked_checksum_file file \<and> access_status \<noteq> FILE_ACCESS_ALLOWED
           then
             let (st, s) = show_locked_checksum_unavailable_violation access_status s
             in if st \<noteq> SUCCESS then (stop_with st sc, s, None)
                else (sc\<lparr>status := st, lock_checksum_violation_detected := True\<rparr>, s, None)
           else (sc, s, Some (file\<lparr>is_readable := (access_status = FILE_ACCESS_ALLOWED)\<rparr>)))"

section \<open>Deciding what to do\<close>

definition file_metadata_identical :: "File \<Rightarrow> bool" where
  "file_metadata_identical file \<longleftrightarrow> db_record_vs_file_metadata_changes file = IDENTICAL"

definition has_saved_offset :: "File \<Rightarrow> bool" where
  "has_saved_offset file \<longleftrightarrow> saved_offset (file_db file) > 0"

definition lock_checksum_ready :: "File \<Rightarrow> bool \<Rightarrow> bool" where
  "lock_checksum_ready file path_known \<longleftrightarrow>
     locked_checksum_file file \<and> path_known \<and> \<not> has_saved_offset file"

definition unchanged_and_complete :: "File \<Rightarrow> bool \<Rightarrow> bool" where
  "unchanged_and_complete file path_known \<longleftrightarrow>
     path_known \<and> file_metadata_identical file \<and> \<not> has_saved_offset file"

definition size_changed :: "File \<Rightarrow> bool" where
  "size_changed file \<longleftrightarrow> db_record_vs_file_metadata_changes file AND SIZE_CHANGED \<noteq> 0"

definition modification_time_changed :: "File \<Rightarrow> bool" where
  "modification_time_changed file \<longleftrightarrow>
     db_record_vs_file_metadata_changes file AND MODIFICATION_TIME_CHANGED \<noteq> 0"

definition timestamps_changed :: "File \<Rightarrow> bool" where
  "timestamps_changed file \<longleftrightarrow>
     db_record_vs_file_metadata_changes file AND (STATUS_CHANGED_TIME OR MODIFICATION_TIME_CHANGED) \<noteq> 0"

definition unwatched_metadata_only_changed :: "Config \<Rightarrow> File \<Rightarrow> bool \<Rightarrow> bool" where
  "unwatched_metadata_only_changed c file path_known \<longleftrightarrow>
     path_known \<and> \<not> file_metadata_identical file \<and> \<not> conf_watch_timestamps c
     \<and> \<not> size_changed file \<and> \<not> modification_time_changed file \<and> \<not> has_saved_offset file"

text \<open>The comparison with the stored metadata.\<close>

definition file_compare :: "File \<Rightarrow> bool \<Rightarrow> File" where
  "file_compare file path_known =
     (let file = file\<lparr>db_record_vs_file_metadata_changes := NOT_EQUAL\<rparr>
      in if path_known then
           file\<lparr>db_record_vs_file_metadata_changes :=
             file_compare_metadata_equivalence (Some (saved_stat (file_db file))) (Some (file_stat file))\<rparr>
         else file)"

text \<open>From \<open>file->rehash = true\<close> to the lock violation.\<close>

definition file_decide :: "Config \<Rightarrow> File \<Rightarrow> bool \<Rightarrow> File" where
  "file_decide c file path_known =
     (let file = file\<lparr>rehash := True\<rparr>;
          file = (if unwatched_metadata_only_changed c file path_known
                  then file\<lparr>rehash := False\<rparr> else file);
          file = (if lock_checksum_ready file path_known \<and> conf_rehash_locked c
                  then file\<lparr>rehash := True\<rparr> else file);
          file = (if has_saved_offset file \<and> file_metadata_identical file then
                    file\<lparr>checksum_offset := saved_offset (file_db file),
                         mdContext := saved_mdContext (file_db file)\<rparr>
                  else if has_saved_offset file \<and> \<not> file_metadata_identical file then
                    file\<lparr>rehashing_from_the_beginning := True\<rparr>
                  else file);
          file = (if st_size (file_stat file) = 0
                  then file\<lparr>zero_size_file := True, rehash := False\<rparr> else file)
      in file\<lparr>lock_checksum_violation :=
           lock_checksum_ready file path_known
           \<and> (size_changed file
              \<or> (conf_watch_timestamps c \<and> \<not> conf_rehash_locked c \<and> timestamps_changed file))\<rparr>)"

definition locked_timestamp_drift_only :: "Config \<Rightarrow> File \<Rightarrow> bool \<Rightarrow> bool" where
  "locked_timestamp_drift_only c file path_known \<longleftrightarrow>
     lock_checksum_ready file path_known \<and> \<not> conf_watch_timestamps c \<and> \<not> conf_rehash_locked c
     \<and> timestamps_changed file \<and> \<not> size_changed file"

section \<open>Hashing and checking\<close>

text \<open>
  The block \<open>if(should_process == true)\<close>; \<open>ready\<close> is the value of \<open>lock_checksum_ready\<close> computed before.
  The last component is \<open>None\<close> when an interruption left nothing to resume and the branch is left,
  and otherwise the file, \<open>path_known\<close> and \<open>hash_failed\<close>.
\<close>

definition file_hash ::
  "Config \<Rightarrow> u64 \<Rightarrow> file_opening \<Rightarrow> bool \<Rightarrow> File \<Rightarrow> bool \<Rightarrow> scan \<Rightarrow> app
     \<Rightarrow> scan \<times> app \<times> (File \<times> bool \<times> bool) option" where
  "file_hash c file_buffer_length opens ready file path_known sc s =
     (if \<not> (is_readable file \<and> \<not> file_ignore file \<and> \<not> lock_checksum_violation file)
      then (sc, s, Some (file, path_known, False))
      else
        let (st, s, file, path_known, leave, hash_failed) =
              (if rehash file then
                 let (st, s, file, path_known) =
                       (if status sc = SUCCESS
                        then sha512sum c (relative_path sc) file_buffer_length opens file path_known s
                        else (status sc, s, file, path_known))
                 in if has SUCCESS st then
                      let s = tick s
                      in if global_interrupt_flag s then
                           if checksum_offset file = 0
                           then (st, s, file, path_known, True, False)
                           else (st, s, file\<lparr>hash_interrupted := True\<rparr>, path_known, False, False)
                         else (st, s, file, path_known, False, False)
                    else (st, s, file, path_known, False, True)
               else
                 (status sc, s, file\<lparr>file_sha512 := db_sha512 (file_db file)\<rparr>, path_known, False, False));
            sc = sc\<lparr>status := st, continue_the_loop := continue_the_loop sc \<and> \<not> hash_failed\<rparr>
        in if leave then (sc, s, None)
        else
          let file =
                (if \<not> hash_failed \<and> \<not> read_error file \<and> conf_rehash_locked c \<and> ready \<and> rehash file
                    \<and> has TRIUMPH st \<and> \<not> wrong_file_type file \<and> \<not> zero_size_file file
                    \<and> checksum_offset file = 0 \<and> file_sha512 file \<noteq> db_sha512 (file_db file)
                 then file\<lparr>locked_checksum_mismatch := True\<rparr> else file)
          in (sc, s, Some (file, path_known, hash_failed)))"

section \<open>Saving\<close>

definition allow_locked_update :: "Config \<Rightarrow> File \<Rightarrow> bool" where
  "allow_locked_update c file \<longleftrightarrow>
     \<not> relative_path_was_in_db_before_processing (file_db file) \<or> \<not> locked_checksum_file file
     \<or> conf_rehash_locked c \<or> has_saved_offset file"

definition should_update_db :: "Config \<Rightarrow> File \<Rightarrow> bool" where
  "should_update_db c file \<longleftrightarrow>
     allow_locked_update c file
     \<and> (\<not> relative_path_was_in_db_before_processing (file_db file)
        \<or> checksum_offset file > saved_offset (file_db file)
        \<or> (has_saved_offset file \<and> checksum_offset file = 0)
        \<or> \<not> file_metadata_identical file)"

definition file_save ::
  "Config \<Rightarrow> File \<Rightarrow> bool \<Rightarrow> bool \<Rightarrow> scan \<Rightarrow> app \<Rightarrow> scan \<times> app \<times> File" where
  "file_save c file path_known hash_failed sc s =
     (if \<not> is_readable file \<or> file_ignore file \<or> lock_checksum_violation file \<or> hash_failed
         \<or> read_error file \<or> locked_checksum_mismatch file
      then
        if (lock_checksum_violation file \<or> locked_checksum_mismatch file) \<and> \<not> read_error file
        then (sc\<lparr>lock_checksum_violation_detected := True\<rparr>,
              s\<lparr>show_remembered_messages_at_exit := True\<rparr>, file)
        else (sc, s, file)
      else if (path_known \<longrightarrow> should_update_db c file) \<and> has SUCCESS (status sc) then
        let (st, s, file, path_known) =
              db_save_file_record c (relative_path sc) file path_known True s
        in if \<not> has SUCCESS st then (stop_with st sc, s, file)
           else (sc\<lparr>status := st\<rparr>, s, file)
      else (sc, s, file))"

section \<open>The whole branch\<close>

text \<open>From \<open>run(stat_copy(\<dots>))\<close> on.\<close>

definition file_update ::
  "Config \<Rightarrow> u64 \<Rightarrow> stat \<Rightarrow> file_opening \<Rightarrow> File \<Rightarrow> bool \<Rightarrow> scan \<Rightarrow> app \<Rightarrow> scan \<times> app" where
  "file_update c file_buffer_length statp opens file path_known sc s =
     (let (st, copied) =
            run_out s (status sc)
              (case stat_copy (Some statp) (Some (file_stat file)) of
                 None \<Rightarrow> (deliver s FAILURE, file_stat file)
               | Some copied \<Rightarrow> (deliver s SUCCESS, copied)) (file_stat file);
          sc = sc\<lparr>status := st\<rparr>;
          file = file_compare (file\<lparr>file_stat := copied\<rparr>) path_known;
          ready = lock_checksum_ready file path_known
      in if unchanged_and_complete file path_known \<and> \<not> (conf_rehash_locked c \<and> ready) then (sc, s)
         else
           let file = file_decide c file path_known
           in if locked_timestamp_drift_only c file path_known then (sc, s)
              else
                case file_hash c file_buffer_length opens ready file path_known sc s of
                  (sc, s, None) \<Rightarrow> (sc, s)
                | (sc, s, Some (file, path_known, hash_failed)) \<Rightarrow>
                    let (sc, s, file) = file_save c file path_known hash_failed sc s in (sc, s))"

definition process_file ::
  "Config \<Rightarrow> regex_engine \<Rightarrow> heap \<Rightarrow> u64 \<Rightarrow> ftsent \<Rightarrow> stat \<Rightarrow> file_opening \<Rightarrow> scan \<Rightarrow> app
     \<Rightarrow> scan \<times> app" where
  "process_file c rx heap file_buffer_length entry statp opens sc s =
     (case file_load heap entry sc s of
        (sc, s, None) \<Rightarrow> (sc, s)
      | (sc, s, Some file) \<Rightarrow>
          let path_known = relative_path_was_in_db_before_processing (file_db file)
          in case file_filter c rx file sc s of
               (sc, s, None) \<Rightarrow> (sc, s)
             | (sc, s, Some file) \<Rightarrow>
                 (case file_access file path_known sc s of
                    (sc, s, None) \<Rightarrow> (sc, s)
                  | (sc, s, Some file) \<Rightarrow>
                      file_update c file_buffer_length statp opens file path_known sc s))"

end
