(* ===== verification/Traversal.thy ===== *)
theory Traversal
  imports File_Processing
begin

text \<open>
  The traversal pass \<open>file_list.c\<close> around the processing of single files: the loop over the entries
  \<open>fts_read\<close> delivers, with the interrupt check, the batch deadline, the depth limit and the branches
  for directories (\<open>directory_access.c\<close>), symlinks and unreadable entries; the loop over the roots;
  and the final commit or rollback.
\<close>

section \<open>What the file-tree library delivers\<close>

text \<open>
  The entries of \<open>fts_read\<close>.  A directory in preorder carries the entries that follow for its
  subtree, up to and including the one that leaves it; setting \<open>FTS_SKIP\<close> on it leaves \<open>Fts_DP\<close> only.
  A file carries its \<open>struct stat\<close> and how opening it behaves.
\<close>

datatype fts_event =
  Fts_D ftsent "fts_event list"
| Fts_F ftsent stat file_opening
| Fts_SL ftsent
| Fts_DNR ftsent
| Fts_ERR ftsent
| Fts_NS ftsent
| Fts_DP ftsent
| Fts_other ftsent

fun event_entry :: "fts_event \<Rightarrow> ftsent" where
  "event_entry (Fts_D e below) = e" | "event_entry (Fts_F e st opens) = e"
| "event_entry (Fts_SL e) = e" | "event_entry (Fts_DNR e) = e" | "event_entry (Fts_ERR e) = e"
| "event_entry (Fts_NS e) = e" | "event_entry (Fts_DP e) = e" | "event_entry (Fts_other e) = e"

text \<open>The entries that follow an entry, before the rest of the stream.\<close>

fun following :: "fts_event \<Rightarrow> bool \<Rightarrow> fts_event list" where
  "following (Fts_D e below) skip = (if skip then [Fts_DP e] else below)"
| "following event skip = []"

fun event_weight :: "fts_event \<Rightarrow> nat" where
  "event_weight (Fts_D e below) = 3 + sum_list (map event_weight below)"
| "event_weight event = 1"

definition weight :: "fts_event list \<Rightarrow> nat" where
  "weight events = sum_list (map event_weight events)"

lemma weight_following:
  "weight (following event skip @ events) < weight (event # events)"
  by (cases event) (simp_all add: weight_def)

section \<open>Directories\<close>

text \<open>\<open>directory_access_verify\<close>: the status, and whether \<open>FTS_SKIP\<close> is set on the entry.\<close>

definition directory_access_verify :: "Config \<Rightarrow> memory \<Rightarrow> app \<Rightarrow> ret \<times> app \<times> bool" where
  "directory_access_verify c path s =
     (let (access_status, s) = check_access path s;
          skip = (access_status = FILE_ACCESS_DENIED \<or> access_status = FILE_NOT_FOUND
                  \<or> access_status = FILE_ACCESS_ERROR)
                 \<and> \<not> conf_include_specified c;
          (st, s) = provide SUCCESS s
      in (st, s, skip))"

definition process_directory ::
  "Config \<Rightarrow> regex_engine \<Rightarrow> heap \<Rightarrow> bool \<Rightarrow> ftsent \<Rightarrow> scan \<Rightarrow> app \<Rightarrow> scan \<times> app \<times> bool" where
  "process_directory c rx heap stats_only_pass entry sc s =
     (let s = s\<lparr>count_dirs := count_dirs s + 1\<rparr>;
          (st, path) = run_out s (status sc)
            (path_build_relative s heap (relative_path sc) (Some entry)) (relative_path sc);
          sc = sc\<lparr>relative_path := path\<rparr>
      in if \<not> has TRIUMPH st then (stop_with st sc, s, False)
      else
        let (st, included, ignored) =
              match_include_ignore rx s (conf_include_pcre_compiled c) (conf_ignore_pcre_compiled c) path
        in if \<not> has TRIUMPH st then (stop_with st sc, s, False)
        else if ignored then
          (sc\<lparr>status := st\<rparr>, s, \<not> conf_include_specified c \<and> \<not> conf_lock_checksum c)
        else
          let (st, s, skip) =
                (if stats_only_pass then (st, s, False) else directory_access_verify c path s)
          in if \<not> has TRIUMPH st then (stop_with st sc, s, skip) else (sc\<lparr>status := st\<rparr>, s, skip))"

text \<open>The branch for \<open>FTS_DNR\<close>, \<open>FTS_ERR\<close> and \<open>FTS_NS\<close>: the path is built for the report.\<close>

definition process_unreadable ::
  "heap \<Rightarrow> bool \<Rightarrow> ftsent \<Rightarrow> scan \<Rightarrow> app \<Rightarrow> scan \<times> app" where
  "process_unreadable heap stats_only_pass entry sc s =
     (if stats_only_pass then (sc, s)
      else
        let (st, path) = run_out s (status sc)
              (path_build_relative s heap (relative_path sc) (Some entry)) (relative_path sc);
            sc = sc\<lparr>relative_path := path\<rparr>
        in if \<not> has TRIUMPH st then (stop_with st sc, s) else (sc\<lparr>status := st\<rparr>, s))"

section \<open>One entry\<close>

text \<open>The \<open>switch\<close>; the last component says whether \<open>FTS_SKIP\<close> was set.\<close>

fun process_event ::
  "Config \<Rightarrow> regex_engine \<Rightarrow> heap \<Rightarrow> u64 \<Rightarrow> bool \<Rightarrow> fts_event \<Rightarrow> scan \<Rightarrow> app \<Rightarrow> scan \<times> app \<times> bool" where
  "process_event c rx heap len stats_only_pass (Fts_D entry below) sc s =
     process_directory c rx heap stats_only_pass entry sc s"
| "process_event c rx heap len stats_only_pass (Fts_F entry statp opens) sc s =
     (let s = s\<lparr>total_allocated_bytes :=
                total_allocated_bytes s + blocks_to_bytes (stat_blocks statp),
              count_files := count_files s + 1\<rparr>
      in if stats_only_pass then (sc, s, False)
         else let (sc, s) = process_file c rx heap len entry statp opens sc s in (sc, s, False))"
| "process_event c rx heap len stats_only_pass (Fts_SL entry) sc s =
     (sc, s\<lparr>count_symlnks := count_symlnks s + 1\<rparr>, False)"
| "process_event c rx heap len stats_only_pass (Fts_DNR entry) sc s =
     (let (sc, s) = process_unreadable heap stats_only_pass entry sc s in (sc, s, False))"
| "process_event c rx heap len stats_only_pass (Fts_ERR entry) sc s =
     (let (sc, s) = process_unreadable heap stats_only_pass entry sc s in (sc, s, False))"
| "process_event c rx heap len stats_only_pass (Fts_NS entry) sc s =
     (let (sc, s) = process_unreadable heap stats_only_pass entry sc s in (sc, s, False))"
| "process_event c rx heap len stats_only_pass (Fts_DP entry) sc s = (sc, s, False)"
| "process_event c rx heap len stats_only_pass (Fts_other entry) sc s = (sc, s, False)"

section \<open>The loop over the entries\<close>

text \<open>
  One round of the loop body before the \<open>switch\<close>: \<open>None\<close> for \<open>break\<close> on an interrupt, and the batch
  check with its own \<open>break\<close>.
\<close>

definition loop_head :: "scan \<Rightarrow> app \<Rightarrow> scan \<times> app \<times> bool" where
  "loop_head sc s =
     (let s = tick s
      in if global_interrupt_flag s then (sc, s, True)
         else if file_transaction_active s then
           let (now_ns, s) = cur_time_monotonic_ns s;
               (st, s) = call (db_file_transaction_check now_ns) (status sc) s
           in (sc\<lparr>status := st\<rparr>, s, has FAILURE st)
         else (sc, s, False))"

definition too_deep :: "Config \<Rightarrow> fts_event \<Rightarrow> bool" where
  "too_deep c event \<longleftrightarrow>
     conf_maxdepth c > -1 \<and> fts_level (event_entry event) > conf_maxdepth c + 1"

function walk ::
  "Config \<Rightarrow> regex_engine \<Rightarrow> heap \<Rightarrow> u64 \<Rightarrow> bool \<Rightarrow> fts_event list \<Rightarrow> scan \<Rightarrow> app \<Rightarrow> scan \<times> app" where
  "walk c rx heap len stats_only_pass [] sc s = (sc, s)"
| "walk c rx heap len stats_only_pass (event # events) sc s =
     (if \<not> continue_the_loop sc then (sc, s)
      else
        let (sc, s, leave) = loop_head sc s
        in if leave then (sc, s)
           else if too_deep c event then
             walk c rx heap len stats_only_pass (following event True @ events) sc s
           else
             let (sc, s, skip) = process_event c rx heap len stats_only_pass event sc s
             in walk c rx heap len stats_only_pass (following event skip @ events) sc s)"
  by pat_completeness auto
termination
  by (relation "measure (\<lambda>(c, rx, heap, len, stats, events, sc, s). weight events)")
    (simp_all add: weight_following del: append_eq_append_conv)

declare walk.simps [simp del]

section \<open>The loop over the roots\<close>

text \<open>
  A configured root: its text (\<open>None\<close> when \<open>m_data\<close> refuses the descriptor), the outcome of opening
  the directory, whether \<open>fts_open\<close> succeeds, the entries, and whether \<open>close\<close> succeeds.
\<close>

record root =
  root_path_text :: "bytes option"
  root_open :: "errno option"
  root_fts_open :: bool
  root_events :: "fts_event list"
  root_close :: bool

text \<open>\<open>directory_open_root\<close> with \<open>directory_open\<close>: a failed open enables the final summary.\<close>

definition directory_open_root :: "errno option \<Rightarrow> app \<Rightarrow> FileAccessStatus \<times> app" where
  "directory_open_root opened s =
     (let s = tick s
      in case opened of
           None \<Rightarrow> (FILE_ACCESS_ALLOWED, s)
         | Some err \<Rightarrow> (file_access_status err, s\<lparr>show_remembered_messages_at_exit := True\<rparr>))"

fun scan_roots ::
  "Config \<Rightarrow> regex_engine \<Rightarrow> heap \<Rightarrow> u64 \<Rightarrow> bool \<Rightarrow> root list \<Rightarrow> scan \<Rightarrow> app \<Rightarrow> scan \<times> app" where
  "scan_roots c rx heap len stats_only_pass [] sc s = (sc, s)"
| "scan_roots c rx heap len stats_only_pass (root # roots) sc s =
     (if root_path_text root = None then (sc\<lparr>status := FAILURE\<rparr>, s)
      else
        let (access_status, s) =
              (if stats_only_pass then (FILE_ACCESS_ALLOWED, s)
               else directory_open_root (root_open root) s)
        in if access_status \<noteq> FILE_ACCESS_ALLOWED then
             scan_roots c rx heap len stats_only_pass roots sc s
           else if \<not> root_fts_open root then (sc\<lparr>status := FAILURE\<rparr>, s)
           else
             let (sc, s) = walk c rx heap len stats_only_pass (root_events root) sc s;
                 sc = (if \<not> stats_only_pass \<and> \<not> root_close root then sc\<lparr>status := FAILURE\<rparr> else sc);
                 s = tick s
             in if global_interrupt_flag s \<or> \<not> has SUCCESS (status sc) then (sc, s)
                else scan_roots c rx heap len stats_only_pass roots sc s)"

section \<open>The pass\<close>

text \<open>The end of the pass: commit, roll back what is left, and the warning.\<close>

definition finish_pass :: "scan \<Rightarrow> app action" where
  "finish_pass sc s =
     (let (st, s) = (if \<not> has FAILURE (status sc)
                     then call db_file_transaction_commit (status sc) s else (status sc, s));
          (st, s) = call db_file_transaction_rollback st s;
          (stop_ns, s) = cur_time_monotonic_ns s;
          st = (if lock_checksum_violation_detected sc \<and> st = SUCCESS then WARNING else st)
      in provide st s)"

definition file_list ::
  "Config \<Rightarrow> regex_engine \<Rightarrow> heap \<Rightarrow> bool \<Rightarrow> root list \<Rightarrow> app action" where
  "file_list c rx heap stats_only_pass roots s =
     (if conf_compare c then provide SUCCESS s
      else if stats_only_pass \<and> (\<not> conf_progress c \<or> conf_output c \<noteq> OUTPUT_FULL) then provide SUCCESS s
      else
        let (start_ns, s) = cur_time_monotonic_ns s;
            s = s\<lparr>count_dirs := 0, count_files := 0, count_symlnks := 0, total_allocated_bytes := 0,
                  total_hashed_bytes := 0\<rparr>;
            (st, file_buffer) =
              (if stats_only_pass then (SUCCESS, mem_init 1 False)
               else mem_resize s heap (mem_init 1 False) FILE_READ_BUFFER_SIZE 0)
        in if \<not> stats_only_pass \<and> st \<noteq> SUCCESS then provide st s
           else
             let sc = \<lparr>status = st, continue_the_loop = True,
                       lock_checksum_violation_detected = False, relative_path = mem_init 1 True\<rparr>;
                 (sc, s) = scan_roots c rx heap (mlength file_buffer) stats_only_pass roots sc s
             in finish_pass sc s)"

end
