(* ===== verification/Scan_Invariant.thy ===== *)
theory Scan_Invariant
  imports Hash_Correct Traversal
begin

text \<open>
  The database invariant along a whole traversal pass: each branch of the scan keeps \<open>store_inv P\<close>
  when every row a save could write keeps \<open>P\<close>.
\<close>

section \<open>The filters on a sane state\<close>

text \<open>The statuses of the pattern checks, whatever the expressions and the engine are.\<close>

lemma yes_no_bits [simp]:
  "clean_flags (outcome g h OR (if b then YES else NO)) = outcome g h OR (if b then YES else NO)"
  by (auto intro!: bit_word_eqI simp: bit_or_iff)

lemma ask_yes_no:
  assumes "sane s"
  shows "ask (\<lambda>s. (deliver s (outcome g False OR (if b then YES else NO)), s)) (outcome True False) s
    = (g \<and> b, outcome g (halted s), s)"
proof -
  have n: "rational_normalize_return w s = (clean_flags (clean_flags w OR (global_return_status s AND GLOBAL)), s)" for w
    using assms by (simp add: rational_normalize_return_def sane_def Let_def)
  let ?w = "outcome g False OR (if b then YES else NO)"
  let ?r = "deliver s ?w"
  have r: "?r = outcome g (halted s) OR (if b then YES else NO) OR AWAITING"
    using assms
    by (auto simp: deliver_def provide_def n sane_def bit_or_iff bit_and_iff intro!: bit_word_eqI)
  have n2: "rational_normalize_return ?r s = (?r, s)"
    using assms unfolding n r
    by (auto simp: sane_def bit_or_iff bit_and_iff intro!: bit_word_eqI)
  have m: "rational_normalize_return ((outcome True False AND NOT (AWAITING OR DECISION))
      OR (?r AND NOT (AWAITING OR DECISION))) s = (outcome g (halted s), s)"
    using assms unfolding n r
    by (auto simp: sane_def bit_or_iff bit_and_iff bit_not_iff possible_bit_word intro!: bit_word_eqI)
  have t: "has AWAITING ?r" "has DECISION ?r" "has CRITICAL ?r \<longleftrightarrow> \<not> g" "has YES ?r \<longleftrightarrow> b"
    unfolding r by (auto simp: bit_or_iff)
  show ?thesis
    using m t by (simp add: ask_def rational_ask_def n2 Let_def)
qed

definition locked_by :: "regex_engine \<Rightarrow> patterns \<Rightarrow> bytes \<Rightarrow> bool" where
  "locked_by rx ps p \<longleftrightarrow> (\<exists>code \<in> set (codes_of ps). rx_matches rx p code)"

lemma match_regexp_sound:
  assumes "path_ok p m" "sane s"
  shows "match_regexp rx s (Some code) m = MATCH \<Longrightarrow> rx_matches rx p code"
    and "match_regexp rx s (Some code) m = NOT_MATCH \<Longrightarrow> \<not> rx_matches rx p code"
  using path_ok_text [OF assms]
  by (auto simp: match_regexp_def rx_matches_def path_text_def PCRE2_ERROR_NOMATCH_def
      split: if_splits option.splits)

lemma pattern_loop_sound:
  assumes "path_ok p m" "sane s" "on_match \<noteq> no_match" "on_match \<noteq> on_error" "on_error \<noteq> no_match"
    and "pattern_loop rx s on_match on_error no_match codes m \<noteq> on_error"
  shows "(pattern_loop rx s on_match on_error no_match codes m = on_match
      \<longleftrightarrow> (\<exists>code \<in> set codes. rx_matches rx p code))
    \<and> (pattern_loop rx s on_match on_error no_match codes m = on_match
      \<or> pattern_loop rx s on_match on_error no_match codes m = no_match)"
  using assms(6)
proof (induction codes)
  case Nil
  then show ?case using assms(3) by simp
next
  case (Cons code codes)
  note sound = match_regexp_sound [OF assms(1,2), of rx code]
  show ?case
  proof (cases "match_regexp rx s (Some code) m")
    case NOT_MATCH
    then show ?thesis using Cons sound by (auto simp: Let_def)
  next
    case MATCH
    then show ?thesis using Cons.prems sound by (simp add: Let_def)
  next
    case REGEXP_ERROR
    then show ?thesis using Cons.prems by (simp add: Let_def)
  qed
qed

text \<open>The lock check, asked for a path: it fails, or it says whether a lock pattern matches.\<close>

lemma lock_asked:
  assumes "path_ok p m" "sane s"
  shows "\<exists>g l. ask (\<lambda>s. (path_check_locked_checksum rx s lck m, s)) SUCCESS s
      = (l, outcome g (halted s), s) \<and> (g \<longrightarrow> l = locked_by rx lck p)"
proof -
  let ?r = "match_checksum_lock_pattern rx s lck m"
  have sound: "?r \<noteq> FAIL_REGEXP_LOCK_CHECKSUM \<Longrightarrow> (?r = LOCK_CHECKSUM \<longleftrightarrow> locked_by rx lck p)"
    using pattern_loop_sound [OF assms, of LOCK_CHECKSUM DO_NOT_LOCK_CHECKSUM FAIL_REGEXP_LOCK_CHECKSUM rx]
    by (auto simp: match_checksum_lock_pattern_def locked_by_def codes_of_def split: option.splits)
  define g where "g \<longleftrightarrow> ?r \<noteq> FAIL_REGEXP_LOCK_CHECKSUM"
  define l where "l \<longleftrightarrow> ?r = LOCK_CHECKSUM"
  have e: "path_check_locked_checksum rx s lck m = deliver s (outcome g False OR (if l then YES else NO))"
    by (cases ?r) (simp_all add: path_check_locked_checksum_def g_def l_def outcome_literals)
  have "ask (\<lambda>s'. (path_check_locked_checksum rx s' lck m, s')) SUCCESS s
      = ask (\<lambda>s'. (deliver s' (outcome g False OR (if l then YES else NO)), s')) SUCCESS s"
    by (simp add: ask_def e)
  also have "\<dots> = (g \<and> l, outcome g (halted s), s)"
    using ask_yes_no [OF assms(2)] by (simp add: outcome_literals)
  finally show ?thesis using sound by (auto simp: g_def l_def)
qed

lemma filters_status:
  assumes "sane s"
  shows "\<exists>g inc ign. match_include_ignore rx s ips gps m = (outcome g (halted s), inc, ign)"
  using assms
  by (auto simp: match_include_ignore_def split: Include.splits Ignore.splits)

section \<open>The variables of the loop\<close>

definition desc_ok :: "memory \<Rightarrow> bool" where
  "desc_ok m \<longleftrightarrow> valid m \<and> is_string m \<and> single_element_size m = 1"

text \<open>An entry the library can deliver: a chain of names down from the root, not absurdly long.\<close>

definition entry_ok :: "ftsent \<Rightarrow> bool" where
  "entry_ok entry \<longleftrightarrow> chain_ok entry \<and> length (entry_path entry) + 4096 < 2 ^ 64"

lemma entry_path_nonempty: "chain_ok entry \<Longrightarrow> entry_path entry \<noteq> []"
  using relative_path_nonempty [of entry]
  by (cases entry) (auto simp: entry_path_def FTS_ROOTLEVEL_def split: option.splits)

lemma path_ok_desc: "path_ok p m \<Longrightarrow> desc_ok m"
  by (simp add: path_ok_def desc_ok_def)

text \<open>Between two entries, and at the start of one.\<close>

definition scan_ok :: "(row list \<Rightarrow> bool) \<Rightarrow> app \<Rightarrow> scan \<Rightarrow> app \<Rightarrow> bool" where
  "scan_ok P s0 sc s \<longleftrightarrow> later s0 s \<and> store_inv P s \<and> desc_ok (relative_path sc)
     \<and> (\<exists>g h. status sc = outcome g h \<and> (h \<longrightarrow> halted s)
            \<and> (continue_the_loop sc \<longrightarrow> g \<or> halted s))"

definition entry_start :: "(row list \<Rightarrow> bool) \<Rightarrow> scan \<Rightarrow> app \<Rightarrow> bool" where
  "entry_start P sc s \<longleftrightarrow> sane s \<and> store_inv P s \<and> desc_ok (relative_path sc) \<and> continue_the_loop sc
     \<and> (\<exists>g. status sc = outcome g (halted s) \<and> (g \<or> halted s))"

lemma scan_ok_trans: "later s0 s1 \<Longrightarrow> scan_ok P s1 sc s \<Longrightarrow> scan_ok P s0 sc s"
  using later_trans unfolding scan_ok_def by blast

lemma build_path:
  assumes "entry_start P sc s" "entry_ok entry"
  obtains g m where "run_out s (status sc) (path_build_relative s heap (relative_path sc) (Some entry)) (relative_path sc)
      = (outcome g (halted s), m)"
    and "desc_ok m" "g \<Longrightarrow> \<not> halted s \<Longrightarrow> path_ok (entry_path entry) m"
proof (cases "halted s")
  case True
  then have "run_out s (status sc) (path_build_relative s heap (relative_path sc) (Some entry)) (relative_path sc)
      = (status sc, relative_path sc)"
    using assms(1) by (auto simp: entry_start_def run_out_def)
  then show ?thesis using that True assms(1) by (auto simp: entry_start_def)
next
  case False
  then have q: "quiet s" and d: "desc_ok (relative_path sc)" and st: "status sc = SUCCESS"
    using assms(1) sane_quiet by (auto simp: entry_start_def outcome_literals)
  from d assms(2) path_build_total [OF q, of "relative_path sc" entry heap]
  obtain st m where b: "path_build_relative s heap (relative_path sc) (Some entry) = (st, m)" "desc_ok m"
    and c: "st = SUCCESS \<and> visible_text m = entry_path entry \<or> st = FAILURE"
    by (auto simp: desc_ok_def entry_ok_def)
  have "mlength m \<noteq> 0" if "visible_text m = entry_path entry"
  proof
    assume "mlength m = 0"
    then have "visible_text m = []"
      using b(2) by (auto simp: desc_ok_def valid_def visible_text_def split: option.splits)
    then show False using that entry_path_nonempty assms(2) by (simp add: entry_ok_def)
  qed
  then have p: "st = SUCCESS \<Longrightarrow> path_ok (entry_path entry) m"
    using b(2) c by (auto simp: desc_ok_def path_ok_def)
  from c show ?thesis
  proof
    assume "st = SUCCESS \<and> visible_text m = entry_path entry"
    then show ?thesis using that [of True m] b p st q False by (simp add: outcome_literals)
  next
    assume "st = FAILURE"
    then show ?thesis using that [of False m] b st q False by (simp add: outcome_literals)
  qed
qed

section \<open>Looking a file up\<close>

text \<open>What the record of a looked-up path can hold: zeros, or a row of that path.\<close>

definition loaded :: "(row list \<Rightarrow> bool) \<Rightarrow> bytes \<Rightarrow> DBrow \<Rightarrow> bool" where
  "loaded P p db \<longleftrightarrow>
     db = zero_dbrow \<and> (\<exists>rows. P rows \<and> keys_ok rows \<and> sql_select p rows = [])
     \<or> (\<exists>rows r. P rows \<and> keys_ok rows \<and> r \<in> set rows \<and> row_relative_path r = p
          \<and> db = load_row zero_dbrow r)"

definition looked_up ::
  "Config \<Rightarrow> regex_engine \<Rightarrow> (row list \<Rightarrow> bool) \<Rightarrow> bytes \<Rightarrow> File \<Rightarrow> bool \<Rightarrow> bool" where
  "looked_up c rx P p file known \<longleftrightarrow>
     (\<exists>db inc ign rd. file = zero_file\<lparr>file_db := db,
          locked_checksum_file := locked_by rx (conf_lock_checksum_pcre_compiled c) p,
          file_include := inc, file_ignore := ign, is_readable := rd\<rparr>
        \<and> loaded P p db \<and> known = relative_path_was_in_db_before_processing db)"

lemma read_result:
  assumes "sane s" "store_inv P s" "path_ok p m"
    and "db_read_file_data_from zero_file m s = (st, s', file)"
  shows "keeps P s (st, s')"
    and "has SUCCESS st \<Longrightarrow> \<exists>db. file = zero_file\<lparr>file_db := db\<rparr> \<and> loaded P p db
      \<and> (relative_path_was_in_db_before_processing db \<longrightarrow> owner (ID db) p (table s'))"
proof -
  obtain rc s1 where a: "sql_answer s = (rc, s1)" by (cases "sql_answer s")
  have s1: "store_inv P s1" "later s s1" using store_inv_answer [OF assms(1) a assms(2)] by simp_all
  then have sane1: "sane s1" by (simp add: later_def)
  note pt = path_ok_text [OF assms(3) sane1]
  note run = assms(4) [unfolded db_read_file_data_from_def Let_def a prod.case]
  show "keeps P s (st, s')"
  proof (cases "rc = Sql_Done")
    case True
    then have "(st, s') = provide (outcome True (halted s1)) s1"
      using run sane1 by (auto simp: pt)
    then show ?thesis using s1 by simp
  next
    case False
    then have "(st, s') = provide FAILURE s1" using run sane1 by auto
    then show ?thesis using s1 by simp
  qed
  assume good: "has SUCCESS st"
  then have done': "rc = Sql_Done" "s' = s1"
    and f: "file = zero_file\<lparr>file_db := foldl load_row zero_dbrow (sql_select p (table s1))\<rparr>"
    using run sane1 by (auto simp: pt zero_file_def split: if_splits)
  have ok: "keys_ok (table s1)" "P (table s1)" using s1(1) by (simp_all add: store_inv_def)
  let ?db = "foldl load_row zero_dbrow (sql_select p (table s1))"
  have "loaded P p ?db \<and> (relative_path_was_in_db_before_processing ?db \<longrightarrow> owner (ID ?db) p (table s1))"
  proof (cases "sql_select p (table s1)")
    case Nil
    then have "loaded P p zero_dbrow" using ok unfolding loaded_def by blast
    then show ?thesis using Nil by (simp add: zero_dbrow_def)
  next
    case (Cons r rs)
    then have r: "r \<in> set (table s1)" "row_relative_path r = p"
      using files.rows_sel [of p "table s1"] by auto
    then have one: "sql_select p (table s1) = [r]" using files.select_row [OF ok(1) r(1)] by simp
    have "loaded P p (load_row zero_dbrow r)" using ok r unfolding loaded_def by blast
    moreover have "owner (row_ID r) p (table s1)"
      using files.same_ID [OF ok(1) r(1)] r(2) unfolding owner_def by metis
    ultimately show ?thesis using one by (simp add: load_row_def)
  qed
  then show "\<exists>db. file = zero_file\<lparr>file_db := db\<rparr> \<and> loaded P p db
      \<and> (relative_path_was_in_db_before_processing db \<longrightarrow> owner (ID db) p (table s'))"
    using f done'(2) by blast
qed

lemma stop_ok:
  assumes "later s0 s" "store_inv P s" "desc_ok (relative_path sc)" "h \<longrightarrow> halted s"
  shows "scan_ok P s0 (stop_with (outcome g h) sc) s"
  using assms unfolding scan_ok_def stop_with_def by auto

lemma go_ok:
  assumes "later s0 s" "store_inv P s" "desc_ok (relative_path sc)" "h \<longrightarrow> halted s"
  shows "scan_ok P s0 (sc\<lparr>status := outcome True h\<rparr>) s"
  using assms unfolding scan_ok_def by auto

lemma check_access_later:
  "sane s \<Longrightarrow> later s (snd (check_access m s)) \<and> same_db s (snd (check_access m s))"
  using access_later [of s] by (simp add: check_access_def case_prod_beta)

lemma unavailable_result:
  assumes "sane s" "a \<noteq> FILE_ACCESS_ALLOWED"
  shows "show_locked_checksum_unavailable_violation a s
    = (outcome True (halted s), s\<lparr>show_remembered_messages_at_exit := True\<rparr>)"
  using assms by (cases a) (simp_all add: show_locked_checksum_unavailable_violation_def)

lemma store_inv_remember [simp]:
  "store_inv P (s\<lparr>show_remembered_messages_at_exit := b\<rparr>) = store_inv P s"
  "later s0 (s\<lparr>show_remembered_messages_at_exit := b\<rparr>) = later s0 s"
  by (simp_all add: store_inv_def later_def)

text \<open>The state in which a looked-up file is handed on.\<close>

definition found ::
  "Config \<Rightarrow> regex_engine \<Rightarrow> (row list \<Rightarrow> bool) \<Rightarrow> bytes \<Rightarrow> scan \<Rightarrow> app \<Rightarrow> File \<Rightarrow> bool \<Rightarrow> bool" where
  "found c rx P p sc s file known \<longleftrightarrow>
     sane s \<and> store_inv P s \<and> status sc = SUCCESS \<and> continue_the_loop sc
     \<and> path_ok p (relative_path sc) \<and> looked_up c rx P p file known \<and> known_ok p file known s"

lemma file_load_result:
  assumes start: "entry_start P sc s" "entry_ok entry"
    and run: "file_load heap entry sc s = (sc', s', r)"
  shows "scan_ok P s sc' s' \<and> (\<forall>file. r = Some file \<longrightarrow>
    status sc' = SUCCESS \<and> continue_the_loop sc' \<and> \<not> halted s' \<and> sane s' \<and> store_inv P s'
    \<and> path_ok (entry_path entry) (relative_path sc')
    \<and> (\<exists>db. file = zero_file\<lparr>file_db := db\<rparr> \<and> loaded P (entry_path entry) db
        \<and> (relative_path_was_in_db_before_processing db \<longrightarrow> owner (ID db) (entry_path entry) (table s'))))"
proof -
  let ?p = "entry_path entry"
  have s: "sane s" "store_inv P s" "continue_the_loop sc" "later s s" using start(1) by (simp_all add: entry_start_def later_def)
  obtain g m where b: "run_out s (status sc) (path_build_relative s heap (relative_path sc) (Some entry)) (relative_path sc)
      = (outcome g (halted s), m)"
    and m: "desc_ok m" "g \<Longrightarrow> \<not> halted s \<Longrightarrow> path_ok ?p m"
    using build_path [OF start] by blast
  let ?sc = "sc\<lparr>relative_path := m\<rparr>"
  obtain ret s_read f_read where rd: "db_read_file_data_from zero_file m s = (ret, s_read, f_read)"
    by (cases "db_read_file_data_from zero_file m s")
  note defs = file_load_def b rd Let_def prod.case
  have stop: "scan_ok P s (stop_with (outcome g' h) ?sc) s1"
    if "later s s1" "store_inv P s1" "h \<longrightarrow> halted s1" for g' h s1
    using stop_ok [OF that(1,2) _ that(3)] m(1) by simp
  show ?thesis
  proof (cases "g \<and> \<not> halted s")
    case False
    then have "(sc', s', r) = (stop_with (outcome g (halted s)) ?sc, s, None)"
      using run unfolding defs by (auto simp: run_skipped split: if_splits)
    then show ?thesis using stop [OF s(4,2)] by simp
  next
    case True
    then have po: "path_ok ?p m" and st0: "outcome g (halted s) = outcome True False" using m(2) by simp_all
    note rr = read_result [OF s(1,2) po rd]
    obtain g1 where g1: "ret = outcome g1 (halted s_read)" "later s s_read" "store_inv P s_read"
      using rr(1) by (auto simp: keeps_def)
    then have sane1: "sane s_read" by (simp add: later_def)
    have r1: "run (\<lambda>_. (ret, s_read)) (outcome True False) s = (outcome g1 (halted s_read), s_read)"
      using run_outcome [of "\<lambda>_. (ret, s_read)" s g1 "halted s_read" s_read True False] g1 sane1 by simp
    show ?thesis
    proof (cases "g1 \<and> \<not> halted s_read")
      case False
      then have "(sc', s', r) = (stop_with (outcome g1 (halted s_read)) ?sc, s_read, None)"
        using run unfolding defs st0 r1 by (auto split: if_splits)
      then show ?thesis using stop [OF g1(2,3)] by simp
    next
      case t1: True
      then have r: "(sc', s', r) = (?sc\<lparr>status := SUCCESS\<rparr>, s_read, Some f_read)"
        using run unfolding defs st0 r1 by (auto simp: outcome_literals split: if_splits)
      have "scan_ok P s (?sc\<lparr>status := SUCCESS\<rparr>) s_read"
        using go_ok [OF g1(2,3), of ?sc False] m(1) by (simp add: outcome_literals)
      then show ?thesis using r rr(2) g1 t1 sane1 po s(3) by auto
    qed
  qed
qed

text \<open>What the filters make of a file that has been loaded.\<close>

definition filtered :: "Config \<Rightarrow> regex_engine \<Rightarrow> bytes \<Rightarrow> DBrow \<Rightarrow> File \<Rightarrow> bool" where
  "filtered c rx p db file \<longleftrightarrow>
     (\<exists>inc ign. file = zero_file\<lparr>file_db := db,
        locked_checksum_file := locked_by rx (conf_lock_checksum_pcre_compiled c) p,
        file_include := inc, file_ignore := ign\<rparr>)"

lemma file_filter_result:
  assumes "sane s" "\<not> halted s" "store_inv P s" "path_ok p (relative_path sc)"
    and "status sc = SUCCESS" "continue_the_loop sc"
    and run: "file_filter c rx (zero_file\<lparr>file_db := db\<rparr>) sc s = (sc', s', r)"
  shows "s' = s \<and> scan_ok P s sc' s \<and> (\<forall>file. r = Some file \<longrightarrow>
    sc' = sc \<and> filtered c rx p db file)"
proof -
  let ?lck = "conf_lock_checksum_pcre_compiled c"
  have l0: "later s s" using assms(1) by (simp add: later_def)
  note d = path_ok_desc [OF assms(4)]
  obtain g2 l where lk: "ask (\<lambda>s. (path_check_locked_checksum rx s ?lck (relative_path sc), s)) SUCCESS s
      = (l, outcome g2 False, s)" "g2 \<Longrightarrow> l = locked_by rx ?lck p"
    using lock_asked [OF assms(4,1), of rx ?lck] assms(2) by auto
  obtain g3 inc ign where fl: "match_include_ignore rx s (conf_include_pcre_compiled c)
      (conf_ignore_pcre_compiled c) (relative_path sc) = (outcome g3 False, inc, ign)"
    using filters_status [OF assms(1), of rx "conf_include_pcre_compiled c"
        "conf_ignore_pcre_compiled c" "relative_path sc"] assms(2) by auto
  have stop: "scan_ok P s (stop_with (outcome g' False) sc) s" for g'
    using stop_ok [OF l0 assms(3) d] by simp
  have go: "scan_ok P s sc s"
    using assms d l0 unfolding scan_ok_def by (metis outcome_literals(1))
  show ?thesis
  proof (cases "g2 \<and> g3")
    case False
    then have "(sc', s', r) = (stop_with FAILURE sc, s, None)"
      using run assms(5) unfolding file_filter_def Let_def
      by (auto simp: lk(1) fl outcome_literals split: if_splits)
    then show ?thesis using stop [of False] by (simp add: outcome_literals)
  next
    case True
    then have l: "l = locked_by rx ?lck p" using lk(2) by simp
    let ?f = "zero_file\<lparr>file_db := db, locked_checksum_file := l, file_include := inc,
        file_ignore := ign \<and> \<not> l\<rparr>"
    have "(sc', s', r) = (sc, s, Some ?f)"
      using run assms(5) True unfolding file_filter_def Let_def
      by (auto simp: lk(1) fl outcome_literals zero_file_def split: if_splits)
    moreover have "filtered c rx p db ?f" unfolding filtered_def l by blast
    ultimately show ?thesis using go by auto
  qed
qed

lemma file_access_result:
  assumes "sane s" "\<not> halted s" "store_inv P s" "path_ok p (relative_path sc)"
    and "status sc = SUCCESS" "continue_the_loop sc"
    and "filtered c rx p db file" "loaded P p db"
    and "relative_path_was_in_db_before_processing db \<longrightarrow> owner (ID db) p (table s)"
    and "known = relative_path_was_in_db_before_processing db"
    and run: "file_access file known sc s = (sc', s', r)"
  shows "scan_ok P s sc' s' \<and> (\<forall>file. r = Some file \<longrightarrow> found c rx P p sc' s' file known)"
proof -
  have l0: "later s s" using assms(1) by (simp add: later_def)
  note d = path_ok_desc [OF assms(4)]
  have stop: "scan_ok P s (stop_with (outcome g' h) sc) s1"
    if "later s s1" "store_inv P s1" "h \<longrightarrow> halted s1" for g' h s1
    using stop_ok [OF that(1,2) d that(3)] .
  have go: "scan_ok P s sc s1" if "later s s1" "store_inv P s1" for s1
  proof -
    have "sc\<lparr>status := SUCCESS\<rparr> = sc" using assms(5) by (cases sc) simp
    then show ?thesis using go_ok [OF that d, of False] by (simp add: outcome_literals)
  qed
  have go_v: "scan_ok P s (sc\<lparr>status := SUCCESS, lock_checksum_violation_detected := True\<rparr>) s1"
    if "later s s1" "store_inv P s1" for s1
    unfolding scan_ok_def outcome_literals(1) [symmetric] using that d by auto
  have fdb: "file_db file = db" using assms(7) by (auto simp: filtered_def)
  have found: "found c rx P p sc s1 f known"
    if "sane s1" "store_inv P s1" "table s1 = table s" "f = file \<or> (\<exists>b. f = file\<lparr>is_readable := b\<rparr>)" for s1 f
  proof -
    have "looked_up c rx P p f known"
      using assms(7,8,10) that(4) by (auto simp: looked_up_def filtered_def zero_file_def)
    moreover have "known_ok p f known s1" using assms(9,10) that(3,4) fdb by (auto simp: known_ok_def)
    ultimately show ?thesis using that assms(4-6) by (simp add: found_def)
  qed
  obtain a s2 where ca: "check_access (relative_path sc) s = (a, s2)" by (cases "check_access (relative_path sc) s")
  have s2: "later s s2" "store_inv P s2" "sane s2" "table s2 = table s"
    using check_access_later [OF assms(1), of "relative_path sc"] ca store_inv_same assms(3)
    by (auto simp: later_def same_db_def)
  show ?thesis
  proof (cases "file_ignore file")
    case True
    then have "(sc', s', r) = (sc, s, Some file)" using run by (simp add: file_access_def)
    then show ?thesis using go [OF l0 assms(3)] found [OF assms(1,3)] by auto
  next
    case vis: False
    show ?thesis
    proof (cases "known \<and> locked_checksum_file file \<and> a \<noteq> FILE_ACCESS_ALLOWED")
      case True
      let ?s3 = "s2\<lparr>show_remembered_messages_at_exit := True\<rparr>"
      have "(sc', s', r) = (if halted s2 then (stop_with (outcome True True) sc, ?s3, None)
          else (sc\<lparr>status := SUCCESS, lock_checksum_violation_detected := True\<rparr>, ?s3, None))"
        using run vis True unavailable_result [OF s2(3)]
        by (auto simp: file_access_def ca outcome_literals split: if_splits)
      then show ?thesis using stop [of ?s3 True True] go_v [of ?s3] s2 by (auto split: if_splits)
    next
      case False
      then have "(sc', s', r) = (sc, s2, Some (file\<lparr>is_readable := (a = FILE_ACCESS_ALLOWED)\<rparr>))"
        using run vis by (auto simp: file_access_def ca)
      then show ?thesis using go [OF s2(1,2)] found [OF s2(3,2,4)] by auto
    qed
  qed
qed

section \<open>Hashing and saving\<close>

text \<open>
  What is known about a file state \<open>f\<close> that is saved at the end, when \<open>d\<close> is the state after the
  decisions.
\<close>

definition final_core :: "Config \<Rightarrow> file_opening \<Rightarrow> File \<Rightarrow> bytes \<Rightarrow> File \<Rightarrow> bool" where
  "final_core c opens d content f \<longleftrightarrow>
     same_file d f \<and> \<not> lock_checksum_violation d \<and> 0 \<le> checksum_offset f
     \<and> (checksum_offset f \<noteq> 0 \<longrightarrow> hash_state content f)
     \<and> (wrong_file_type f \<longrightarrow> opens (checksum_offset d) = Fseek_Fails)
     \<and> (if rehash d
        then checksum_offset f = 0 \<longrightarrow> \<not> wrong_file_type f \<longrightarrow> \<not> conf_dry_run c \<longrightarrow>
             file_sha512 f = fips_sha512 content
        else file_sha512 f = db_sha512 (file_db f) \<and> checksum_offset f = checksum_offset d)"

definition final_state :: "Config \<Rightarrow> file_opening \<Rightarrow> File \<Rightarrow> bytes \<Rightarrow> File \<Rightarrow> bool" where
  "final_state c opens d content f \<longleftrightarrow> final_core c opens d content f \<and> allow_locked_update c f"

text \<open>A content the file can have: the reads deliver it, and every row a save could write is fine.\<close>

definition content_ok ::
  "Config \<Rightarrow> (row list \<Rightarrow> bool) \<Rightarrow> bytes \<Rightarrow> file_opening \<Rightarrow> File \<Rightarrow> bytes \<Rightarrow> bool" where
  "content_ok c P p opens d content \<longleftrightarrow> sha_fits content
     \<and> (\<forall>reads. opens (checksum_offset d) = Opened reads \<longrightarrow>
          delivers content (nat (checksum_offset d)) reads)
     \<and> (checksum_offset d \<noteq> 0 \<longrightarrow> hash_state content d) \<and> checkpoints_ok c P p content d
     \<and> (\<forall>f. final_state c opens d content f \<longrightarrow> may_save c P p f)"

text \<open>The state of a file after the decisions, before it is hashed.\<close>

definition fresh :: "File \<Rightarrow> bool" where
  "fresh d \<longleftrightarrow> length (md_buf (mdContext d)) = 128 \<and> 0 \<le> checksum_offset d \<and> \<not> wrong_file_type d
     \<and> \<not> read_error d \<and> \<not> locked_checksum_mismatch d"

text \<open>What hashing hands to the save.\<close>

definition hashed_file ::
  "Config \<Rightarrow> (row list \<Rightarrow> bool) \<Rightarrow> bytes \<Rightarrow> file_opening \<Rightarrow> File \<Rightarrow> bytes \<Rightarrow> bool \<Rightarrow> File \<Rightarrow> bool \<Rightarrow> bool \<Rightarrow> app \<Rightarrow> bool" where
  "hashed_file c P p opens d content known f known' failed s' \<longleftrightarrow>
     known_ok p f known' s' \<and> (known \<longrightarrow> known')
     \<and> (is_readable f \<and> \<not> file_ignore f \<and> \<not> lock_checksum_violation f \<and> \<not> failed
        \<and> \<not> read_error f \<and> \<not> locked_checksum_mismatch f \<longrightarrow> final_core c opens d content f)"

lemma sum_result_final:
  assumes "sum_post c P p content opens s d known good st s' f known'" "content_ok c P p opens d content"
    and "fresh d" "rehash d" "\<not> lock_checksum_violation d" "good" "\<not> read_error f"
    and "halted s' \<longrightarrow> checksum_offset f \<noteq> 0"
  shows "final_core c opens d content f"
  using assms by (auto simp: sum_post_def final_core_def fresh_def)

lemma final_core_interrupted [simp]:
  "final_core c opens d content (f\<lparr>hash_interrupted := b\<rparr>) = final_core c opens d content f"
  by (simp add: final_core_def hash_state_def)

lemma file_hash_result:
  assumes s: "sane s" "store_inv P s" "path_ok p (relative_path sc)" "known_ok p d known s"
    and st: "status sc = outcome True (halted s)" "continue_the_loop sc"
    and d: "content_ok c P p opens d content" "fresh d" "len \<noteq> 0"
    and run: "file_hash c len opens ready d known sc s = (sc', s', r)"
  shows "scan_ok P s sc' s' \<and> relative_path sc' = relative_path sc \<and>
    (\<forall>f known' failed. r = Some (f, known', failed) \<longrightarrow>
       hashed_file c P p opens d content known f known' failed s'
       \<and> (\<not> failed \<longrightarrow> (\<exists>h. status sc' = outcome True h) \<and> continue_the_loop sc'))"
proof (cases "is_readable d \<and> \<not> file_ignore d \<and> \<not> lock_checksum_violation d")
  case False
  then have "(sc', s', r) = (sc, s, Some (d, known, False))" using run by (simp add: file_hash_def)
  moreover have "scan_ok P s sc s"
    using s st path_ok_desc unfolding scan_ok_def later_def by blast
  moreover have "hashed_file c P p opens d content known d known False s"
    using s(4) False by (auto simp: hashed_file_def)
  ultimately show ?thesis using st by auto
next
  case proc: True
  define after where "after = (if rehash d then
       let (st, s, file, path_known) =
             (if status sc = SUCCESS
              then sha512sum c (relative_path sc) len opens d known s
              else (status sc, s, d, known))
       in if has SUCCESS st then
            let s = tick s
            in if global_interrupt_flag s then
                 if checksum_offset file = 0
                 then (st, s, file, path_known, True, False)
                 else (st, s, file\<lparr>hash_interrupted := True\<rparr>, path_known, False, False)
               else (st, s, file, path_known, False, False)
          else (st, s, file, path_known, False, True)
     else (status sc, s, d\<lparr>file_sha512 := db_sha512 (file_db d)\<rparr>, known, False, False))"
  obtain st1 s1 f1 k1 leave failed where after: "after = (st1, s1, f1, k1, leave, failed)" by (cases after) auto
  have main: "(\<exists>g h. st1 = outcome g h \<and> (h \<longrightarrow> halted s1) \<and> (g \<longleftrightarrow> \<not> failed)) \<and> later s s1 \<and> store_inv P s1
    \<and> known_ok p f1 k1 s1 \<and> (known \<longrightarrow> k1)
    \<and> (\<not> leave \<longrightarrow> \<not> failed \<longrightarrow> \<not> read_error f1 \<longrightarrow> final_core c opens d content f1)"
  proof (cases "rehash d")
    case False
    then have "after = (status sc, s, d\<lparr>file_sha512 := db_sha512 (file_db d)\<rparr>, known, False, False)"
      by (simp add: after_def)
    moreover have "final_core c opens d content (d\<lparr>file_sha512 := db_sha512 (file_db d)\<rparr>)"
      using False d(1,2) proc by (simp add: final_core_def content_ok_def fresh_def hash_state_def)
    ultimately show ?thesis using after s st by (auto simp: later_def known_ok_def)
  next
    case re: True
    define h where "h = (if status sc = SUCCESS then sha512sum c (relative_path sc) len opens d known s
        else (status sc, s, d, known))"
    obtain st2 s2 f2 k2 where h: "h = (st2, s2, f2, k2)" by (cases h) auto
    have pre: "sum_pre c P p content (relative_path sc) opens s d known"
      using s d by (simp add: sum_pre_def content_ok_def fresh_def)
    have post: "\<exists>good. st2 = outcome good (halted s2) \<and> later s s2 \<and> store_inv P s2
        \<and> known_ok p f2 k2 s2 \<and> (known \<longrightarrow> k2)
        \<and> (good \<longrightarrow> \<not> read_error f2 \<longrightarrow> (halted s2 \<longrightarrow> checksum_offset f2 \<noteq> 0) \<longrightarrow> final_core c opens d content f2)"
    proof (cases "halted s")
      case True
      then have "h = (outcome True True, s, d, known)" using st(1) by (simp add: h_def)
      then have e: "st2 = outcome True (halted s2)" "s2 = s" "f2 = d" "k2 = known" using h True by simp_all
      have "checksum_offset d \<noteq> 0 \<Longrightarrow> final_core c opens d content d"
        using d(1,2) proc re by (simp add: final_core_def content_ok_def fresh_def)
      then show ?thesis using e s True by (auto simp: later_def)
    next
      case False
      then have "sha512sum c (relative_path sc) len opens d known s = (st2, s2, f2, k2)"
        using st(1) h by (simp add: h_def outcome_literals)
      from sha512sum_result [OF pre d(3) this]
      obtain good where sp: "sum_post c P p content opens s d known good st2 s2 f2 k2" by blast
      then have "st2 = outcome good (halted s2) \<and> later s s2 \<and> store_inv P s2 \<and> known_ok p f2 k2 s2 \<and> (known \<longrightarrow> k2)"
        by (auto simp: sum_post_def ongoing_def)
      moreover have "good \<longrightarrow> \<not> read_error f2 \<longrightarrow> (halted s2 \<longrightarrow> checksum_offset f2 \<noteq> 0) \<longrightarrow> final_core c opens d content f2"
        using sum_result_final [OF sp d(1,2) re] proc by blast
      ultimately show ?thesis by blast
    qed
    then obtain good where g: "st2 = outcome good (halted s2)" "later s s2" "store_inv P s2"
        "known_ok p f2 k2 s2" "known \<longrightarrow> k2"
        "good \<longrightarrow> \<not> read_error f2 \<longrightarrow> (halted s2 \<longrightarrow> checksum_offset f2 \<noteq> 0) \<longrightarrow> final_core c opens d content f2"
      by blast
    have sane2: "sane s2" using g(2) by (simp add: later_def)
    note t = tick_later [OF sane2]
    have s3: "later s (tick s2)" "store_inv P (tick s2)" "known_ok p f2 k2 (tick s2)" "halted s2 \<longrightarrow> halted (tick s2)"
      using t later_trans [OF g(2)] store_inv_same g(3,4) by (auto simp: known_ok_def same_db_def later_def)
    have k_int: "known_ok p (f2\<lparr>hash_interrupted := b\<rparr>) k2 (tick s2)" for b
      using s3(3) by (simp add: known_ok_def)
    have ev: "after = (if good then if halted (tick s2)
          then if checksum_offset f2 = 0 then (st2, tick s2, f2, k2, True, False)
               else (st2, tick s2, f2\<lparr>hash_interrupted := True\<rparr>, k2, False, False)
          else (st2, tick s2, f2, k2, False, False)
        else (st2, s2, f2, k2, False, True))"
      using re h g(1) unfolding after_def h_def [symmetric] by (simp add: Let_def)
    show ?thesis
      using ev after g s3 k_int by (auto split: if_splits)
  qed
  have ev: "file_hash c len opens ready d known sc s =
      (let sc = sc\<lparr>status := st1, continue_the_loop := continue_the_loop sc \<and> \<not> failed\<rparr>
       in if leave then (sc, s1, None)
       else (sc, s1, Some (if \<not> failed \<and> \<not> read_error f1 \<and> conf_rehash_locked c \<and> ready \<and> rehash f1
                    \<and> has TRIUMPH st1 \<and> \<not> wrong_file_type f1 \<and> \<not> zero_size_file f1
                    \<and> checksum_offset f1 = 0 \<and> file_sha512 f1 \<noteq> db_sha512 (file_db f1)
                 then f1\<lparr>locked_checksum_mismatch := True\<rparr> else f1, k1, failed)))"
    using proc unfolding file_hash_def after_def [symmetric] after by (simp add: Let_def)
  let ?sc = "sc\<lparr>status := st1, continue_the_loop := continue_the_loop sc \<and> \<not> failed\<rparr>"
  have ok: "scan_ok P s ?sc s1"
    using main s path_ok_desc unfolding scan_ok_def by auto
  show ?thesis
  proof (cases leave)
    case True
    then show ?thesis using ok run ev by (auto simp: Let_def)
  next
    case False
    then obtain f where f: "r = Some (f, k1, failed)" "sc' = ?sc" "s' = s1"
      "f = f1 \<or> f = f1\<lparr>locked_checksum_mismatch := True\<rparr>"
      using run ev by (auto simp: Let_def split: if_splits)
    then have "hashed_file c P p opens d content known f k1 failed s1"
      using main False by (auto simp: hashed_file_def known_ok_def)
    then show ?thesis using ok f main st by auto
  qed
qed

end
