(* ===== verification/Pass_Invariant.thy ===== *)
theory Pass_Invariant
  imports Scan_Invariant
begin

text \<open>
  From one file to the whole pass: saving, the branch for a file, the loop over the entries, the
  loop over the roots and the final commit or rollback all keep \<open>store_inv P\<close>.
\<close>

section \<open>Saving and the whole branch\<close>

lemma scan_ok_violation [simp]:
  "scan_ok P s0 (sc\<lparr>lock_checksum_violation_detected := b\<rparr>) s = scan_ok P s0 sc s"
  "scan_ok P s0 sc (s\<lparr>show_remembered_messages_at_exit := b\<rparr>) = scan_ok P s0 sc s"
  by (simp_all add: scan_ok_def)

lemma file_save_result:
  assumes s: "sane s" "store_inv P s" "path_ok p (relative_path sc)" "scan_ok P s0 sc s"
    and hashed: "hashed_file c P p opens d content known f known' failed s"
    and d: "content_ok c P p opens d content"
    and known: "known = relative_path_was_in_db_before_processing (file_db d)"
    and go: "\<not> failed \<Longrightarrow> (\<exists>h. status sc = outcome True h) \<and> continue_the_loop sc"
    and run: "file_save c f known' failed sc s = (sc', s', f')"
  shows "scan_ok P s sc' s'"
proof -
  have l0: "later s s" using s(1) by (simp add: later_def)
  have sc: "scan_ok P s sc s" using s(4) l0 unfolding scan_ok_def by blast
  note dp = path_ok_desc [OF s(3)]
  show ?thesis
  proof (cases "\<not> is_readable f \<or> file_ignore f \<or> lock_checksum_violation f \<or> failed
      \<or> read_error f \<or> locked_checksum_mismatch f")
    case True
    then have "sc' = sc\<lparr>lock_checksum_violation_detected := True\<rparr>
          \<and> s' = s\<lparr>show_remembered_messages_at_exit := True\<rparr> \<or> sc' = sc \<and> s' = s"
      using run by (auto simp: file_save_def split: if_splits)
    then show ?thesis using sc by auto
  next
    case False
    then have core: "final_core c opens d content f" using hashed by (simp add: hashed_file_def)
    obtain h where h: "status sc = outcome True h" "continue_the_loop sc" using go False by blast
    show ?thesis
    proof (cases "known' \<longrightarrow> should_update_db c f")
      case no: False
      then have "sc' = sc" "s' = s" using run False h by (simp_all add: file_save_def)
      then show ?thesis using sc by simp
    next
      case yes: True
      have same: "same_file d f" using core by (simp add: final_core_def)
      have "\<not> known' \<Longrightarrow> \<not> relative_path_was_in_db_before_processing (file_db f)"
        using hashed known same_fileD(2) [OF same] by (simp add: hashed_file_def)
      then have "final_state c opens d content f"
        using core yes by (auto simp: final_state_def should_update_db_def allow_locked_update_def)
      then have may: "may_save c P p f" using d by (simp add: content_ok_def)
      obtain st s1 f1 k1 where sv: "db_save_file_record c (relative_path sc) f known' True s = (st, s1, f1, k1)"
        by (cases "db_save_file_record c (relative_path sc) f known' True s") auto
      have k: "known_ok p f known' s" using hashed by (simp add: hashed_file_def)
      note kp = save_keeps(1) [OF s(1,2) may s(3) k sv]
      then obtain g where g: "st = outcome g (halted s1)" "later s s1" "store_inv P s1"
        by (auto simp: keeps_def)
      have "(sc', s') = (if \<not> g then (stop_with st sc, s1) else (sc\<lparr>status := st\<rparr>, s1))"
        using run False yes h g(1) by (auto simp: file_save_def sv split: if_splits)
      then show ?thesis
        using stop_ok [OF g(2,3) dp, of "halted s1" g] go_ok [OF g(2,3) dp, of "halted s1"] g(1)
        by (auto split: if_splits)
    qed
  qed
qed

text \<open>The metadata of an entry, as \<open>stat_copy\<close> leaves it in a record.\<close>

definition compact :: "stat \<Rightarrow> CmpctStat" where
  "compact st = \<lparr>st_size = stat_size st, st_blocks = stat_blocks st, st_dev = stat_dev st,
     st_ino = stat_ino st, mtim_tv_sec = tv_sec (stat_mtim st), mtim_tv_nsec = tv_nsec (stat_mtim st),
     ctim_tv_sec = tv_sec (stat_ctim st), ctim_tv_nsec = tv_nsec (stat_ctim st)\<rparr>"

lemma stat_copy_compact [simp]: "stat_copy (Some st) (Some dst) = Some (compact st)"
  by (cases dst) (simp add: stat_copy_def compact_def)

text \<open>The state after the decisions.\<close>

definition decided :: "Config \<Rightarrow> stat \<Rightarrow> File \<Rightarrow> bool \<Rightarrow> File" where
  "decided c st file known = file_decide c (file_compare (file\<lparr>file_stat := compact st\<rparr>) known) known"

lemma decide_fields:
  "file_db (file_decide c f known) = file_db f" "file_stat (file_decide c f known) = file_stat f"
  "wrong_file_type (file_decide c f known) = wrong_file_type f"
  "read_error (file_decide c f known) = read_error f"
  "locked_checksum_mismatch (file_decide c f known) = locked_checksum_mismatch f"
  "locked_checksum_file (file_decide c f known) = locked_checksum_file f"
  "db_record_vs_file_metadata_changes (file_decide c f known) = db_record_vs_file_metadata_changes f"
  "zero_size_file (file_decide c f known) \<longleftrightarrow> zero_size_file f \<or> st_size (file_stat f) = 0"
  "checksum_offset (file_decide c f known) = (if has_saved_offset f \<and> file_metadata_identical f
     then saved_offset (file_db f) else checksum_offset f)"
  "mdContext (file_decide c f known) = (if has_saved_offset f \<and> file_metadata_identical f
     then saved_mdContext (file_db f) else mdContext f)"
  "is_readable (file_decide c f known) = is_readable f" "file_ignore (file_decide c f known) = file_ignore f"
  by (simp_all add: file_decide_def Let_def has_saved_offset_def file_metadata_identical_def
      if_distrib [of file_db] if_distrib [of file_stat] if_distrib [of wrong_file_type]
      if_distrib [of read_error] if_distrib [of locked_checksum_mismatch]
      if_distrib [of locked_checksum_file] if_distrib [of db_record_vs_file_metadata_changes]
      if_distrib [of zero_size_file] if_distrib [of checksum_offset] if_distrib [of mdContext]
      if_distrib [of is_readable] if_distrib [of file_ignore] cong: if_cong)

lemma compare_form:
  "file_compare f known = f\<lparr>db_record_vs_file_metadata_changes :=
     (if known then file_compare_metadata_equivalence (Some (saved_stat (file_db f))) (Some (file_stat f))
      else NOT_EQUAL)\<rparr>"
  by (simp add: file_compare_def Let_def)

lemma decided_db [simp]: "file_db (decided c st file known) = file_db file"
  by (simp add: decided_def decide_fields compare_form)

lemma decided_frame:
  assumes "looked_up c rx P p file known"
  shows "known = relative_path_was_in_db_before_processing (file_db file)"
    and "file_stat (decided c st file known) = compact st"
    and "\<not> wrong_file_type (decided c st file known)" "\<not> read_error (decided c st file known)"
    and "\<not> locked_checksum_mismatch (decided c st file known)"
    and "locked_checksum_file (decided c st file known) = locked_by rx (conf_lock_checksum_pcre_compiled c) p"
    and "zero_size_file (decided c st file known) \<longleftrightarrow> stat_size st = 0"
  using assms
  by (auto simp: looked_up_def decided_def decide_fields compare_form zero_file_def compact_def)

lemma decided_changes:
  "db_record_vs_file_metadata_changes (decided c st file known) =
     (if known then file_compare_metadata_equivalence (Some (saved_stat (file_db file))) (Some (compact st))
      else NOT_EQUAL)"
  by (simp add: decided_def decide_fields compare_form)

lemma decided_context:
  fixes st
  assumes "looked_up c rx P p file known"
  defines "d \<equiv> decided c st file known"
  shows "checksum_offset d = 0 \<and> mdContext d = zero_context
     \<or> saved_offset (file_db file) > 0 \<and> db_record_vs_file_metadata_changes d = IDENTICAL
       \<and> checksum_offset d = saved_offset (file_db file) \<and> mdContext d = saved_mdContext (file_db file)"
proof -
  have z: "checksum_offset file = 0" "mdContext file = zero_context"
    using assms(1) by (auto simp: looked_up_def zero_file_def)
  show ?thesis
    using z unfolding d_def decided_def decide_fields compare_form
    by (simp add: has_saved_offset_def file_metadata_identical_def)
qed

lemma decided_fresh:
  assumes "looked_up c rx P p file known" "content_ok c P p opens (decided c st file known) content"
  shows "fresh (decided c st file known)"
proof -
  let ?d = "decided c st file known"
  have "length (md_buf (mdContext ?d)) = 128 \<and> 0 \<le> checksum_offset ?d"
    using decided_context [OF assms(1), of st] assms(2)
    by (auto simp: content_ok_def hash_state_def hashed_def zero_context_def)
  then show ?thesis using decided_frame(2-) [OF assms(1), of st] by (simp add: fresh_def)
qed

lemma decided_known [simp]: "known_ok p (decided c st file known) k s = known_ok p file k s"
  by (simp add: known_ok_def)

lemma file_update_result:
  assumes found: "found c rx P p sc s file known"
    and d: "content_ok c P p opens (decided c st file known) content" "len \<noteq> 0"
    and run: "file_update c len st opens file known sc s = (sc', s')"
  shows "scan_ok P s sc' s'"
proof -
  let ?d = "decided c st file known"
  let ?sc = "sc\<lparr>status := outcome True (halted s)\<rparr>"
  have s: "sane s" "store_inv P s" "path_ok p (relative_path ?sc)" "continue_the_loop ?sc"
    "looked_up c rx P p file known" "known_ok p ?d known s" "status sc = SUCCESS"
    using found by (simp_all add: found_def)
  have l0: "later s s" using s(1) by (simp add: later_def)
  have ok: "scan_ok P s ?sc s"
    using go_ok [OF l0 s(2), of sc "halted s"] path_ok_desc [OF s(3)] by simp
  have copy: "run_out s (status sc) (deliver s SUCCESS, compact st) (file_stat file)
      = (outcome True (halted s), compact st)"
    using s(1,7) run_outcome [of "\<lambda>s'. (outcome True (halted s), s')" s True "halted s" s True False]
    by (simp add: run_out_def outcome_literals)
  define unchanged where "unchanged \<longleftrightarrow>
    unchanged_and_complete (file_compare (file\<lparr>file_stat := compact st\<rparr>) known) known
    \<and> \<not> (conf_rehash_locked c \<and> lock_checksum_ready (file_compare (file\<lparr>file_stat := compact st\<rparr>) known) known)
    \<or> locked_timestamp_drift_only c ?d known"
  define ready where "ready = lock_checksum_ready (file_compare (file\<lparr>file_stat := compact st\<rparr>) known) known"
  obtain sc1 s1 r where h: "file_hash c len opens ready ?d known ?sc s = (sc1, s1, r)"
    by (cases "file_hash c len opens ready ?d known ?sc s") auto
  have ev: "(sc', s') = (if unchanged then (?sc, s) else
      (case r of None \<Rightarrow> (sc1, s1)
       | Some (f, k, failed) \<Rightarrow> let (sc, s, f) = file_save c f k failed sc1 s1 in (sc, s)))"
    using run [symmetric] h copy
    unfolding file_update_def stat_copy_compact unchanged_def ready_def option.case copy Let_def
      prod.case decided_def
    by (auto split: option.splits if_splits prod.splits)
  show ?thesis
  proof (cases unchanged)
    case True
    then show ?thesis using ev ok by simp
  next
    case False
    have "status ?sc = outcome True (halted s)" by simp
    note hr = file_hash_result [OF s(1-3,6) this s(4) d(1) decided_fresh [OF s(5) d(1)] d(2) h]
    show ?thesis
    proof (cases r)
      case None
      then show ?thesis using ev False hr by simp
    next
      case (Some v)
      then obtain f k failed where v: "r = Some (f, k, failed)" by (cases v) auto
      obtain sc2 s2 f2 where sv: "file_save c f k failed sc1 s1 = (sc2, s2, f2)"
        by (cases "file_save c f k failed sc1 s1") auto
      have s1: "sane s1" "store_inv P s1" "path_ok p (relative_path sc1)" "scan_ok P s sc1 s1" "later s s1"
        using hr s(3) by (auto simp: scan_ok_def later_def)
      have hf: "hashed_file c P p opens ?d content known f k failed s1"
        "\<not> failed \<Longrightarrow> (\<exists>h. status sc1 = outcome True h) \<and> continue_the_loop sc1"
        using hr v by auto
      have kn: "known = relative_path_was_in_db_before_processing (file_db ?d)"
        using decided_frame(1) [OF s(5)] by simp
      have "(sc', s') = (sc2, s2)" using ev False v sv by simp
      then show ?thesis
        using scan_ok_trans [OF s1(5) file_save_result [OF s1(1-4) hf(1) d(1) kn hf(2) sv]] by simp
    qed
  qed
qed

text \<open>A traversed file whose content suits every record its path can be looked up with.\<close>

definition file_ok ::
  "Config \<Rightarrow> regex_engine \<Rightarrow> (row list \<Rightarrow> bool) \<Rightarrow> bytes \<Rightarrow> stat \<Rightarrow> file_opening \<Rightarrow> bool" where
  "file_ok c rx P p st opens \<longleftrightarrow>
     (\<forall>file known. looked_up c rx P p file known \<longrightarrow>
        (\<exists>content. content_ok c P p opens (decided c st file known) content))"

lemma process_file_result:
  assumes start: "entry_start P sc s" "entry_ok entry"
    and ok: "file_ok c rx P (entry_path entry) st opens" "len \<noteq> 0"
    and run: "process_file c rx heap len entry st opens sc s = (sc', s')"
  shows "scan_ok P s sc' s'"
proof -
  let ?p = "entry_path entry"
  obtain sc1 s1 r1 where l: "file_load heap entry sc s = (sc1, s1, r1)" by (cases "file_load heap entry sc s") auto
  note lr = file_load_result [OF start l]
  then have so1: "scan_ok P s sc1 s1" by blast
  then have l1: "later s s1" by (simp add: scan_ok_def)
  show ?thesis
  proof (cases r1)
    case None
    then show ?thesis using run so1 by (simp add: process_file_def l)
  next
    case (Some file1)
    obtain db where db: "file1 = zero_file\<lparr>file_db := db\<rparr>" "loaded P ?p db"
      "relative_path_was_in_db_before_processing db \<longrightarrow> owner (ID db) ?p (table s1)"
      and s1: "status sc1 = SUCCESS" "continue_the_loop sc1" "\<not> halted s1" "sane s1" "store_inv P s1"
        "path_ok ?p (relative_path sc1)"
      using lr Some by blast
    let ?k = "relative_path_was_in_db_before_processing db"
    obtain sc2 s2 r2 where f: "file_filter c rx (zero_file\<lparr>file_db := db\<rparr>) sc1 s1 = (sc2, s2, r2)"
      by (cases "file_filter c rx (zero_file\<lparr>file_db := db\<rparr>) sc1 s1") auto
    note fr = file_filter_result [OF s1(4,3,5,6,1,2) f]
    show ?thesis
    proof (cases r2)
      case None
      then have "(sc', s') = (sc2, s1)" using run fr Some by (simp add: process_file_def l db(1) f)
      then show ?thesis using fr scan_ok_trans [OF l1] by blast
    next
      case s2: (Some file2)
      then have e2: "sc2 = sc1" "s2 = s1" "filtered c rx ?p db file2" using fr by auto
      obtain sc3 s3 r3 where a: "file_access file2 ?k sc1 s1 = (sc3, s3, r3)"
        by (cases "file_access file2 ?k sc1 s1") auto
      note ar = file_access_result [OF s1(4,3,5,6,1,2) e2(3) db(2,3) refl a]
      have so3: "scan_ok P s sc3 s3" using ar scan_ok_trans [OF l1] by blast
      show ?thesis
      proof (cases r3)
        case None
        then have "(sc', s') = (sc3, s3)" using run Some s2 by (simp add: process_file_def l db(1) f e2 a)
        then show ?thesis using so3 by simp
      next
        case s3: (Some file3)
        then have fd: "found c rx P ?p sc3 s3 file3 ?k" using ar by blast
        then have "looked_up c rx P ?p file3 ?k" by (simp add: found_def)
        then obtain content where ct: "content_ok c P ?p opens (decided c st file3 ?k) content"
          using ok(1) by (auto simp: file_ok_def)
        have "file_update c len st opens file3 ?k sc3 s3 = (sc', s')"
          using run Some s2 s3 by (simp add: process_file_def l db(1) f e2 a)
        note so' = file_update_result [OF fd ct ok(2) this]
        have "later s s3" using so3 by (simp add: scan_ok_def)
        then show ?thesis using so' by (rule scan_ok_trans)
      qed
    qed
  qed
qed

section \<open>Directories and unreadable entries\<close>

lemma store_inv_counters [simp]:
  "store_inv P (s\<lparr>count_dirs := n\<rparr>) = store_inv P s" "later s0 (s\<lparr>count_dirs := n\<rparr>) = later s0 s"
  "store_inv P (s\<lparr>count_files := n\<rparr>) = store_inv P s" "later s0 (s\<lparr>count_files := n\<rparr>) = later s0 s"
  "store_inv P (s\<lparr>count_symlnks := n\<rparr>) = store_inv P s" "later s0 (s\<lparr>count_symlnks := n\<rparr>) = later s0 s"
  "store_inv P (s\<lparr>total_allocated_bytes := w\<rparr>) = store_inv P s"
  "later s0 (s\<lparr>total_allocated_bytes := w\<rparr>) = later s0 s"
  "store_inv P (s\<lparr>total_hashed_bytes := w\<rparr>) = store_inv P s"
  "later s0 (s\<lparr>total_hashed_bytes := w\<rparr>) = later s0 s"
  by (simp_all add: store_inv_def later_def)

lemma later_counters [simp]:
  "later (s\<lparr>count_dirs := n\<rparr>) s' = later s s'" "later (s\<lparr>count_files := n\<rparr>) s' = later s s'"
  "later (s\<lparr>count_symlnks := n\<rparr>) s' = later s s'" "later (s\<lparr>total_allocated_bytes := w\<rparr>) s' = later s s'"
  "later (s\<lparr>total_hashed_bytes := w\<rparr>) s' = later s s'"
  by (simp_all add: later_def)

lemma scan_ok_counters [simp]:
  "scan_ok P (s\<lparr>count_dirs := n\<rparr>) sc s' = scan_ok P s sc s'"
  "scan_ok P (s\<lparr>count_files := n\<rparr>) sc s' = scan_ok P s sc s'"
  "scan_ok P (s\<lparr>total_allocated_bytes := w\<rparr>) sc s' = scan_ok P s sc s'"
  "scan_ok P s0 sc (s\<lparr>count_symlnks := n\<rparr>) = scan_ok P s0 sc s"
  "scan_ok P s0 sc (s\<lparr>count_files := n\<rparr>) = scan_ok P s0 sc s"
  "scan_ok P s0 sc (s\<lparr>total_allocated_bytes := w\<rparr>) = scan_ok P s0 sc s"
  by (simp_all add: scan_ok_def)

lemma entry_start_counters [simp]:
  "entry_start P sc (s\<lparr>count_dirs := n\<rparr>) = entry_start P sc s"
  "entry_start P sc (s\<lparr>count_files := n\<rparr>) = entry_start P sc s"
  "entry_start P sc (s\<lparr>total_allocated_bytes := w\<rparr>) = entry_start P sc s"
  by (simp_all add: entry_start_def)

lemma entry_start_ok:
  assumes "entry_start P sc s"
  shows "scan_ok P s sc s"
  using assms unfolding entry_start_def scan_ok_def later_def by blast

text \<open>An interrupted entry may be left with a failure that the next look at the flag ends.\<close>

lemma pass_ok:
  assumes "later s0 s" "store_inv P s" "desc_ok (relative_path sc)" "g \<or> halted s" "h \<longrightarrow> halted s"
  shows "scan_ok P s0 (sc\<lparr>status := outcome g h\<rparr>) s"
  using assms unfolding scan_ok_def by auto

lemma directory_access_result:
  assumes "sane s" "store_inv P s" "directory_access_verify c m s = (st, s', skip)"
  shows "st = outcome True (halted s') \<and> later s s' \<and> store_inv P s'"
proof -
  obtain a s1 where a: "check_access m s = (a, s1)" by (cases "check_access m s")
  have s1: "later s s1" "store_inv P s1" "sane s1"
    using check_access_later [OF assms(1), of m] a store_inv_same assms(2) by (auto simp: later_def)
  have "(st, s') = (outcome True (halted s1), s1)"
    using assms(3) s1(3) by (auto simp: directory_access_verify_def a Let_def)
  then show ?thesis using s1 by simp
qed

lemma process_directory_result:
  assumes start: "entry_start P sc s" "entry_ok entry"
    and run: "process_directory c rx heap stats entry sc s = (sc', s', skip)"
  shows "scan_ok P s sc' s'"
proof -
  let ?s = "s\<lparr>count_dirs := count_dirs s + 1\<rparr>"
  have st: "entry_start P sc ?s" using start(1) by simp
  obtain g m where b: "run_out ?s (status sc) (path_build_relative ?s heap (relative_path sc) (Some entry))
      (relative_path sc) = (outcome g (halted s), m)" and m: "desc_ok m"
    by (rule build_path [OF st start(2), of heap]) auto
  have s: "sane ?s" "store_inv P ?s" "later s ?s" "continue_the_loop sc"
    using start(1) by (simp_all add: entry_start_def later_def)
  let ?sc = "sc\<lparr>relative_path := m\<rparr>"
  obtain g2 inc ign where f: "match_include_ignore rx ?s (conf_include_pcre_compiled c)
      (conf_ignore_pcre_compiled c) m = (outcome g2 (halted s), inc, ign)"
    using filters_status [OF s(1)] by fastforce
  obtain st3 s3 skip3 where v: "directory_access_verify c m ?s = (st3, s3, skip3)"
    by (cases "directory_access_verify c m ?s") auto
  note vr = directory_access_result [OF s(1,2) v]
  have l3: "later s s3" using vr later_trans [OF s(3)] by blast
  note defs = process_directory_def b f v Let_def prod.case
  have stop: "scan_ok P s (stop_with (outcome g' (halted s)) ?sc) ?s" for g'
    using stop_ok [OF s(3,2), of ?sc "halted s"] m by simp
  have on: "scan_ok P s (?sc\<lparr>status := outcome g2 (halted s)\<rparr>) ?s" if "g2 \<or> halted s"
    using pass_ok [OF s(3,2), of ?sc g2 "halted s"] m that by simp
  have verified: "scan_ok P s (?sc\<lparr>status := st3\<rparr>) s3" "has TRIUMPH st3"
    using go_ok [OF l3 _, of P ?sc "halted s3"] vr m by auto
  show ?thesis
    using run verified stop [of g] stop [of g2] on unfolding defs by (auto split: if_splits)
qed

lemma process_unreadable_result:
  assumes start: "entry_start P sc s" "entry_ok entry"
    and run: "process_unreadable heap stats entry sc s = (sc', s')"
  shows "scan_ok P s sc' s'"
proof -
  obtain g m where b: "run_out s (status sc) (path_build_relative s heap (relative_path sc) (Some entry))
      (relative_path sc) = (outcome g (halted s), m)" and m: "desc_ok m"
    by (rule build_path [OF start, of heap]) blast
  have s: "store_inv P s" "later s s" using start(1) by (simp_all add: entry_start_def later_def)
  let ?sc = "sc\<lparr>relative_path := m\<rparr>"
  have "(sc', s') = (sc, s) \<or> sc' = stop_with (outcome g (halted s)) ?sc \<and> s' = s
      \<or> (g \<or> halted s) \<and> sc' = ?sc\<lparr>status := outcome g (halted s)\<rparr> \<and> s' = s"
    using run unfolding process_unreadable_def b Let_def prod.case by (auto split: if_splits)
  then show ?thesis
    using entry_start_ok [OF start(1)] stop_ok [OF s(2,1), of ?sc "halted s" g]
      pass_ok [OF s(2,1), of ?sc g "halted s"] m by auto
qed

section \<open>One round of the loop\<close>

text \<open>What is known after the loop, however it was left.\<close>

definition scan_over :: "(row list \<Rightarrow> bool) \<Rightarrow> app \<Rightarrow> scan \<Rightarrow> app \<Rightarrow> bool" where
  "scan_over P s0 sc s \<longleftrightarrow> later s0 s \<and> store_inv P s \<and> desc_ok (relative_path sc)
     \<and> (\<exists>g h. status sc = outcome g h \<and> (h \<longrightarrow> halted s))"

lemma scan_ok_over: "scan_ok P s0 sc s \<Longrightarrow> scan_over P s0 sc s"
  unfolding scan_ok_def scan_over_def by blast

lemma scan_over_trans: "later s0 s1 \<Longrightarrow> scan_over P s1 sc s \<Longrightarrow> scan_over P s0 sc s"
  using later_trans unfolding scan_over_def by blast

lemma loop_head_result:
  assumes ok: "scan_ok P s0 sc s" "continue_the_loop sc" and run: "loop_head sc s = (sc', s', leave)"
  shows "scan_over P s sc' s'" and "\<not> leave \<Longrightarrow> entry_start P sc' s'"
proof -
  obtain g h where gh: "status sc = outcome g h" "h \<longrightarrow> halted s" "g \<or> halted s"
    using ok unfolding scan_ok_def by blast
  have s: "sane s" "store_inv P s" "desc_ok (relative_path sc)"
    using ok(1) by (simp_all add: scan_ok_def later_def)
  note t = tick_later [OF s(1)]
  let ?s = "tick s"
  have s1: "sane ?s" "store_inv P ?s" "later s ?s" "halted s \<longrightarrow> halted ?s"
    using t s store_inv_same by (auto simp: later_def)
  obtain now s2 where n: "cur_time_monotonic_ns ?s = (now, s2)" by (cases "cur_time_monotonic_ns ?s")
  have s2: "sane s2" "store_inv P s2" "later ?s s2"
    using clock_later [OF s1(1)] n store_inv_same [OF _ s1(2)] by (auto simp: later_def)
  have l2: "later s s2" using later_trans [OF s1(3) s2(3)] .
  define k where "k = call (db_file_transaction_check now) (status sc) s2"
  obtain st3 s3 where k: "k = (st3, s3)" by (cases k)
  have hs2: "h \<longrightarrow> halted s2" using gh(2) l2 by (simp add: later_def)
  have kk: "keeps P s2 k"
    using keeps_call(1) [where f = "db_file_transaction_check now", OF check_keeps [OF s2(1,2)] hs2]
    unfolding k_def gh(1) by blast
  then obtain g3 where g3: "st3 = outcome g3 (halted s3)" "later s2 s3" "store_inv P s3" "sane s3"
    using k by (auto simp: keeps_def later_def)
  have l3: "later s s3" using later_trans [OF l2 g3(2)] .
  have "(sc', s', leave) = (if halted ?s then (sc, ?s, True)
      else if file_transaction_active ?s then (sc\<lparr>status := st3\<rparr>, s3, has FAILURE st3)
      else (sc, ?s, False))"
    using run k unfolding loop_head_def Let_def n prod.case k_def by (auto split: if_splits)
  then consider (stop) "sc' = sc" "s' = ?s" "leave" "halted ?s"
    | (check) "sc' = sc\<lparr>status := st3\<rparr>" "s' = s3" "leave \<longleftrightarrow> \<not> g3"
    | (quiet) "sc' = sc" "s' = ?s" "\<not> leave" "\<not> halted ?s"
    using g3(1) by (auto split: if_splits)
  note cases = this
  show "scan_over P s sc' s'"
    using cases s1 gh g3 l3 s(3) unfolding scan_over_def by cases auto
  show "entry_start P sc' s'" if "\<not> leave"
    using cases s1 gh g3 s(3) ok(2) that unfolding entry_start_def by cases auto
qed

section \<open>The loop over the entries\<close>

fun event_ok :: "Config \<Rightarrow> regex_engine \<Rightarrow> (row list \<Rightarrow> bool) \<Rightarrow> fts_event \<Rightarrow> bool" where
  "event_ok c rx P (Fts_D e below) \<longleftrightarrow> entry_ok e \<and> (\<forall>event \<in> set below. event_ok c rx P event)"
| "event_ok c rx P (Fts_F e st opens) \<longleftrightarrow> entry_ok e \<and> file_ok c rx P (entry_path e) st opens"
| "event_ok c rx P event \<longleftrightarrow> entry_ok (event_entry event)"

lemma event_ok_following:
  "event_ok c rx P event \<Longrightarrow> x \<in> set (following event skip) \<Longrightarrow> event_ok c rx P x"
  by (cases event) (auto split: if_splits)

lemma process_event_result:
  assumes start: "entry_start P sc s" "event_ok c rx P event" "len \<noteq> 0 \<or> stats"
    and run: "process_event c rx heap len stats event sc s = (sc', s', skip)"
  shows "scan_ok P s sc' s'"
proof (cases event)
  case (Fts_D e below)
  then show ?thesis using process_directory_result [OF start(1)] start(2) run by auto
next
  case (Fts_F e st opens)
  let ?s = "s\<lparr>total_allocated_bytes := total_allocated_bytes s + blocks_to_bytes (stat_blocks st),
      count_files := count_files s + 1\<rparr>"
  have en: "entry_start P sc ?s" using start(1) by simp
  show ?thesis
  proof (cases stats)
    case True
    then have "sc' = sc" "s' = ?s" using run Fts_F by (simp_all add: Let_def)
    then show ?thesis using entry_start_ok [OF start(1)] by simp
  next
    case False
    then have ok: "entry_ok e" "file_ok c rx P (entry_path e) st opens" "len \<noteq> 0" using start Fts_F by simp_all
    have "process_file c rx heap len e st opens sc ?s = (sc', s')"
      using run Fts_F False by (simp add: Let_def split: prod.splits)
    from process_file_result [OF en ok this] show ?thesis by simp
  qed
next
  case (Fts_SL e)
  then show ?thesis using run entry_start_ok [OF start(1)] by auto
qed (use process_unreadable_result [OF start(1)] start run entry_start_ok [OF start(1)] in
    \<open>auto split: prod.splits\<close>)

lemma walk_result:
  assumes "scan_ok P s0 sc s" "\<forall>event \<in> set events. event_ok c rx P event" "len \<noteq> 0 \<or> stats"
    and "walk c rx heap len stats events sc s = (sc', s')"
  shows "scan_over P s0 sc' s'"
  using assms
proof (induction c rx heap len stats events sc s arbitrary: s0 rule: walk.induct)
  case (1 c rx heap len stats sc s)
  then show ?case by (auto simp: walk.simps intro: scan_ok_over)
next
  case (2 c rx heap len stats event events sc s)
  show ?case
  proof (cases "continue_the_loop sc")
    case False
    then show ?thesis using 2 by (auto simp: walk.simps intro: scan_ok_over)
  next
    case go: True
    obtain sc1 s1 leave where h: "loop_head sc s = (sc1, s1, leave)" by (cases "loop_head sc s") auto
    note hr = loop_head_result [OF 2(3) go h]
    have l: "later s0 s" using 2(3) by (simp add: scan_ok_def)
    have l1: "later s s1" using hr(1) by (simp add: scan_over_def)
    have follow: "\<forall>x \<in> set (following event skip @ events). event_ok c rx P x" for skip
      using 2(4) event_ok_following by auto
    show ?thesis
    proof (cases leave)
      case True
      then show ?thesis using 2(6) go h hr(1) scan_over_trans [OF l] by (simp add: walk.simps)
    next
      case stay: False
      note en = hr(2) [OF stay]
      show ?thesis
      proof (cases "too_deep c event")
        case True
        then have "walk c rx heap len stats (following event True @ events) sc1 s1 = (sc', s')"
          using 2(6) go h stay by (simp add: walk.simps)
        from 2(1) [OF _ refl h [symmetric] refl _ True entry_start_ok [OF en] follow 2(5) this]
        show ?thesis using go stay scan_over_trans [OF later_trans [OF l l1]] by simp
      next
        case False
        obtain sc2 s2 skip where p: "process_event c rx heap len stats event sc1 s1 = (sc2, s2, skip)"
          by (cases "process_event c rx heap len stats event sc1 s1") auto
        have w: "walk c rx heap len stats (following event skip @ events) sc2 s2 = (sc', s')"
          using 2(6) go h stay False p by (simp add: walk.simps)
        have "scan_ok P s1 sc2 s2" using process_event_result [OF en _ 2(5) p] 2(4) by simp
        from 2(2) [OF _ refl h [symmetric] refl _ False refl p [symmetric] refl this follow 2(5) w]
        show ?thesis using go stay scan_over_trans [OF later_trans [OF l l1]] by simp
      qed
    qed
  qed
qed

section \<open>The loop over the roots\<close>

definition roots_ok :: "Config \<Rightarrow> regex_engine \<Rightarrow> (row list \<Rightarrow> bool) \<Rightarrow> root list \<Rightarrow> bool" where
  "roots_ok c rx P roots \<longleftrightarrow> (\<forall>root \<in> set roots. \<forall>event \<in> set (root_events root). event_ok c rx P event)"

lemma scan_roots_result:
  assumes "scan_ok P s0 sc s" "roots_ok c rx P roots" "len \<noteq> 0 \<or> stats"
    and "scan_roots c rx heap len stats roots sc s = (sc', s')"
  shows "scan_over P s0 sc' s'"
  using assms(1,2,4)
proof (induction roots arbitrary: s0 sc s)
  case Nil
  then show ?case by (auto intro: scan_ok_over)
next
  case (Cons root roots)
  have l: "later s0 s" and s: "sane s" "store_inv P s" "desc_ok (relative_path sc)"
    using Cons.prems(1) by (simp_all add: scan_ok_def later_def)
  have rok: "roots_ok c rx P roots" "\<forall>event \<in> set (root_events root). event_ok c rx P event"
    using Cons.prems(2) by (simp_all add: roots_ok_def)
  have fail: "scan_over P s0 (sc1\<lparr>status := FAILURE\<rparr>) s1" if "scan_over P s0 sc1 s1" for sc1 s1
    using that unfolding scan_over_def outcome_literals(2) [symmetric] by auto
  obtain a s1 where a: "(if stats then (FILE_ACCESS_ALLOWED, s) else directory_open_root (root_open root) s) = (a, s1)"
    by (cases "if stats then (FILE_ACCESS_ALLOWED, s) else directory_open_root (root_open root) s") auto
  have s1: "scan_ok P s0 sc s1" "later s s1"
  proof -
    note t = tick_later [OF s(1)]
    have "s1 = s \<or> s1 = tick s \<or> s1 = tick s\<lparr>show_remembered_messages_at_exit := True\<rparr>"
      using a by (auto simp: directory_open_root_def Let_def split: if_splits option.splits)
    moreover have "scan_ok P s0 sc (tick s)"
      using Cons.prems(1) t later_trans store_inv_same unfolding scan_ok_def later_def by blast
    moreover have "later s s" using s(1) by (simp add: later_def)
    ultimately show "scan_ok P s0 sc s1" "later s s1" using Cons.prems(1) t by auto
  qed
  obtain sc2 s2 where w: "walk c rx heap len stats (root_events root) sc s1 = (sc2, s2)"
    by (cases "walk c rx heap len stats (root_events root) sc s1")
  define sc3 where "sc3 = (if \<not> stats \<and> \<not> root_close root then sc2\<lparr>status := FAILURE\<rparr> else sc2)"
  have over2: "scan_over P s0 sc2 s2" using walk_result [OF s1(1) rok(2) assms(3) w] .
  then have over3: "scan_over P s0 sc3 s2" using fail by (simp add: sc3_def)
  have sane2: "sane s2" using over2 by (simp add: scan_over_def later_def)
  note t = tick_later [OF sane2]
  have over4: "scan_over P s0 sc3 (tick s2)"
    using over3 t later_trans store_inv_same unfolding scan_over_def later_def by blast
  have next_root: "scan_ok P s0 sc3 (tick s2)" if "has SUCCESS (status sc3)"
  proof -
    obtain g h where gh: "status sc3 = outcome g h" "h \<longrightarrow> halted (tick s2)"
      using over4 unfolding scan_over_def by blast
    then have "g" using that by simp
    then show ?thesis using over4 gh unfolding scan_over_def scan_ok_def by blast
  qed
  have ev: "(if root_path_text root = None then (sc\<lparr>status := FAILURE\<rparr>, s)
      else if a \<noteq> FILE_ACCESS_ALLOWED then scan_roots c rx heap len stats roots sc s1
      else if \<not> root_fts_open root then (sc\<lparr>status := FAILURE\<rparr>, s1)
      else if halted (tick s2) \<or> \<not> has SUCCESS (status sc3) then (sc3, tick s2)
      else scan_roots c rx heap len stats roots sc3 (tick s2)) = (sc', s')"
    using Cons.prems(3) unfolding scan_roots.simps a Let_def prod.case w sc3_def .
  consider (bad) "(sc', s') = (sc\<lparr>status := FAILURE\<rparr>, s)"
    | (skip) "scan_roots c rx heap len stats roots sc s1 = (sc', s')"
    | (closed) "(sc', s') = (sc\<lparr>status := FAILURE\<rparr>, s1)"
    | (left) "(sc', s') = (sc3, tick s2)"
    | (more) "has SUCCESS (status sc3)" "scan_roots c rx heap len stats roots sc3 (tick s2) = (sc', s')"
    using ev [symmetric] by (simp only: split: if_split_asm) metis+
  then show ?case
  proof cases
    case bad
    then show ?thesis using fail [OF scan_ok_over [OF Cons.prems(1)]] by simp
  next
    case skip
    from Cons.IH [OF s1(1) rok(1) this] show ?thesis .
  next
    case closed
    then show ?thesis using fail [OF scan_ok_over [OF s1(1)]] by simp
  next
    case left
    then show ?thesis using over4 by simp
  next
    case more
    from Cons.IH [OF next_root [OF more(1)] rok(1) more(2)] show ?thesis .
  qed
qed

section \<open>The pass\<close>

lemma warning_provided:
  assumes "sane s"
  shows "snd (provide WARNING s) = s" and "\<not> has FAILURE (fst (provide WARNING s))"
  using assms by (auto simp: provide_def rational_normalize_return_def Let_def sane_def bit_or_iff bit_and_iff)

text \<open>
  The end of the pass: what was saved is durable when the pass does not fail, and after a failed
  traversal the durable rows are those of the last commit.
\<close>

lemma rollback_committed:
  assumes "sane s"
  shows "committed (snd (db_file_transaction_rollback s)) = committed s"
proof -
  obtain rc s1 where a: "sql_answer s = (rc, s1)" by (cases "sql_answer s")
  have "committed s1 = committed s" "sane s1"
    using sql_answer_later [OF assms a] by (auto simp: same_db_def rolled_back_def later_def)
  then show ?thesis using assms by (auto simp: db_file_transaction_rollback_def a Let_def)
qed

lemma finish_result:
  assumes over: "scan_over P s0 sc s" and run: "finish_pass sc s = (st, s')"
  shows "later s0 s'" "store_inv P s'"
    and "\<not> has FAILURE st \<Longrightarrow> committed s' = table s \<and> table s' = table s \<and> \<not> file_transaction_active s'"
    and "has FAILURE (status sc) \<Longrightarrow> committed s' = committed s"
proof -
  obtain g h where gh: "status sc = outcome g h" "h \<longrightarrow> halted s"
    using over unfolding scan_over_def by blast
  have s: "sane s" "store_inv P s" "later s0 s" "later s s"
    using over by (simp_all add: scan_over_def later_def)
  define k where "k = (if \<not> has FAILURE (status sc) then call db_file_transaction_commit (status sc) s else (status sc, s))"
  obtain st1 s1 where k: "k = (st1, s1)" by (cases k)
  note ck = commit_keeps [OF s(1,2)]
  note cc = keeps_call [where f = db_file_transaction_commit and g = g, OF ck(1) gh(2)]
  have k_eq: "k = (if g then call db_file_transaction_commit (outcome g h) s else (outcome g h, s))"
    by (simp add: k_def gh(1))
  have "\<exists>g1 h1. st1 = outcome g1 h1 \<and> (h1 \<longrightarrow> halted s1) \<and> later s s1 \<and> store_inv P s1"
    using cc(1) k k_eq s gh(2) by (auto simp: keeps_def split: if_splits)
  then obtain g1 h1 where k1: "st1 = outcome g1 h1" "h1 \<longrightarrow> halted s1" "later s s1" "store_inv P s1" by blast
  have sane1: "sane s1" using k1(3) by (simp add: later_def)
  have good1: "table s1 = table s \<and> \<not> file_transaction_active s1" if "g1"
  proof -
    have g: "g" using that k1(1) k k_eq by (auto split: if_splits)
    then have e: "fst (call db_file_transaction_commit (outcome g h) s) = st1"
      "snd (db_file_transaction_commit s) = s1" using k k_eq cc(2) by auto
    have "\<not> has FAILURE (fst (db_file_transaction_commit s))" using cc(3) e(1) k1(1) that by simp
    moreover obtain g' where "fst (db_file_transaction_commit s) = outcome g' (halted s1)"
      using ck(1) e(2) by (auto simp: keeps_def)
    ultimately show ?thesis using ck(2) e(2) by simp
  qed
  have fail1: "s1 = s" if "\<not> g" using that k k_eq by auto
  note rk = rollback_keeps [OF sane1 k1(4)]
  note rc = keeps_call [where f = db_file_transaction_rollback and g = g1, OF rk(1) k1(2)]
  obtain st2 s2 where r: "call db_file_transaction_rollback st1 s1 = (st2, s2)" by fastforce
  then have s2: "sane s2" "store_inv P s2" "later s1 s2" "s2 = snd (db_file_transaction_rollback s1)"
    "has FAILURE st2 \<longleftrightarrow> \<not> g1 \<or> has FAILURE (fst (db_file_transaction_rollback s1))"
    "\<exists>g2. st2 = outcome g2 (halted s2)"
    using rc k1(1) by (auto simp: keeps_def later_def)
  obtain now s3 where n: "cur_time_monotonic_ns s2 = (now, s3)" by (cases "cur_time_monotonic_ns s2")
  have c: "later s2 s3" "same_db s2 s3" using clock_later [OF s2(1)] n by simp_all
  then have s3: "sane s3" "store_inv P s3" using store_inv_same [OF c(2) s2(2)] by (simp_all add: later_def)
  define w where "w = (if lock_checksum_violation_detected sc \<and> st2 = SUCCESS then WARNING else st2)"
  have ev: "provide w s3 = (st, s')"
    using run r n unfolding finish_pass_def k_def [symmetric] k w_def by (simp add: Let_def)
  have "s' = s3 \<and> (\<not> has FAILURE st \<longrightarrow> \<not> has FAILURE st2)"
  proof (cases "w = WARNING")
    case True
    obtain g2 where g2: "st2 = outcome g2 (halted s2)" using s2(6) by blast
    have "\<not> bit st2 5" "bit WARNING 5" by (simp_all add: g2)
    then have "st2 \<noteq> WARNING" by metis
    then have "st2 = SUCCESS" using True by (simp add: w_def split: if_splits)
    then show ?thesis using ev True warning_provided [OF s3(1)] by (simp add: prod_eq_iff)
  next
    case False
    then show ?thesis using ev s3(1) s2(6) by (auto simp: w_def split: if_splits)
  qed
  then have e: "s' = s3" "\<not> has FAILURE st \<Longrightarrow> \<not> has FAILURE st2" by simp_all
  show "later s0 s'" "store_inv P s'"
    using e(1) s3(2) later_trans [OF s(3) later_trans [OF k1(3) later_trans [OF s2(3) c(1)]]] by simp_all
  show "committed s' = table s \<and> table s' = table s \<and> \<not> file_transaction_active s'" if "\<not> has FAILURE st"
  proof -
    have "g1" using e(2) that s2(5) by blast
    then have t: "table s1 = table s" "\<not> file_transaction_active s1" using good1 by simp_all
    then have "s2 = s1" using rk(3) s2(4) by simp
    then have "table s3 = table s" "\<not> file_transaction_active s3" using t c(2) by (simp_all add: same_db_def)
    then show ?thesis using s3(2) e(1) by (simp add: store_inv_def)
  qed
  show "committed s' = committed s" if "has FAILURE (status sc)"
    using that gh(1) fail1 rollback_committed [OF sane1] s2(4) c(2) e(1) by (simp add: same_db_def)
qed

lemma resize_not_clean:
  assumes "sane s" "halted s"
  shows "fst (mem_resize s heap m n flags) \<noteq> SUCCESS"
proof -
  have "has HALTED (deliver s w) \<or> has FAILURE (deliver s w)" for w
    using assms by (simp add: deliver_def provide_def rational_normalize_return_def Let_def sane_def bit_or_iff bit_and_iff)
  moreover have "\<not> has HALTED SUCCESS" "\<not> has FAILURE SUCCESS" by simp_all
  ultimately have d: "deliver s w \<noteq> SUCCESS" for w by metis
  show ?thesis
    by (simp only: mem_resize_def Let_def case_prod_beta if_distrib [of fst] fst_conv split: if_split)
      (simp only: d simp_thms)
qed

lemma file_list_result:
  assumes "sane s" "store_inv P s" "roots_ok c rx P roots"
    and "file_list c rx heap stats roots s = (st, s')"
  shows "later s s' \<and> store_inv P s'"
proof -
  have l0: "later s s" using assms(1) by (simp add: later_def)
  have pr: "snd (provide SUCCESS s) = s" using assms(1) by simp
  show ?thesis
  proof (cases "conf_compare c \<or> stats \<and> (\<not> conf_progress c \<or> conf_output c \<noteq> OUTPUT_FULL)")
    case True
    then have "s' = s" using assms(4) pr by (auto simp: file_list_def split: if_splits)
    then show ?thesis using l0 assms(2) by simp
  next
    case False
    obtain now s1 where n: "cur_time_monotonic_ns s = (now, s1)" by (cases "cur_time_monotonic_ns s")
    let ?s = "s1\<lparr>count_dirs := 0, count_files := 0, count_symlnks := 0, total_allocated_bytes := 0,
        total_hashed_bytes := 0\<rparr>"
    have c: "later s s1" "same_db s s1" using clock_later [OF assms(1)] n by simp_all
    then have s1: "sane ?s" "store_inv P ?s" "later s ?s" "later ?s ?s"
      using store_inv_same [OF c(2) assms(2)] by (simp_all add: later_def)
    obtain st0 b where b: "(if stats then (SUCCESS, mem_init 1 False)
        else mem_resize ?s heap (mem_init 1 False) FILE_READ_BUFFER_SIZE 0) = (st0, b)"
      by (cases "if stats then (SUCCESS, mem_init 1 False)
        else mem_resize ?s heap (mem_init 1 False) FILE_READ_BUFFER_SIZE 0") auto
    let ?sc = "\<lparr>status = st0, continue_the_loop = True, lock_checksum_violation_detected = False,
        relative_path = mem_init 1 True\<rparr>"
    obtain sc2 s2 where r: "scan_roots c rx heap (mlength b) stats roots ?sc ?s = (sc2, s2)"
      by (cases "scan_roots c rx heap (mlength b) stats roots ?sc ?s")
    have ev: "(st, s') = (if \<not> stats \<and> st0 \<noteq> SUCCESS then provide st0 ?s else finish_pass sc2 s2)"
      using assms(4) False unfolding file_list_def n prod.case Let_def b r by (auto split: if_splits)
    show ?thesis
    proof (cases "\<not> stats \<and> st0 \<noteq> SUCCESS")
      case True
      have "snd (provide st0 ?s) = ?s"
        using s1(1) by (simp add: provide_def rational_normalize_return_def Let_def sane_def)
      then have "s' = ?s" using ev True by (metis snd_conv)
      then show ?thesis using s1 by simp
    next
      case ok: False
      have good: "st0 = SUCCESS" "mlength b \<noteq> 0 \<or> stats"
      proof -
        show "st0 = SUCCESS" using ok b by (auto split: if_splits)
        show "mlength b \<noteq> 0 \<or> stats"
        proof (cases stats)
          case False
          then have rs: "mem_resize ?s heap (mem_init 1 False) FILE_READ_BUFFER_SIZE 0 = (SUCCESS, b)"
            using b ok by auto
          then have "\<not> halted ?s" using resize_not_clean [OF s1(1)] by (metis fst_conv)
          then have q: "quiet ?s" using sane_quiet [OF s1(1)] by blast
          have v: "valid (mem_init 1 False)" by simp
          have "FAILURE \<noteq> SUCCESS" by simp
          with mem_resize_spec [OF q v, of heap FILE_READ_BUFFER_SIZE 0] rs
          have "mlength b = FILE_READ_BUFFER_SIZE" by (metis prod.inject resized_def)
          then show ?thesis by (simp add: FILE_READ_BUFFER_SIZE_def)
        qed simp
      qed
      have "desc_ok (mem_init 1 True)" by (simp add: desc_ok_def) (simp add: mem_init_def)
      then have "scan_ok P ?s ?sc ?s"
        using s1 good(1) unfolding scan_ok_def by (auto simp flip: outcome_literals)
      note over = scan_roots_result [OF this assms(3) good(2) r]
      have "finish_pass sc2 s2 = (st, s')" using ev ok by presburger
      from finish_result(1,2) [OF over this] show ?thesis using later_trans [OF s1(3)] by blast
    qed
  qed
qed

end
