(* ===== verification/Truthful.thy ===== *)
theory Truthful
  imports Pass_Invariant
begin

text \<open>
  What a pass guarantees about the rows: complete rows carry the SHA-512 digest of the content their
  stored metadata stands for, partial rows can be resumed, and sealed rows of checksum-locked paths
  stay as they are.
\<close>

section \<open>Truthful rows\<close>

text \<open>
  The content a path has had is a function of the path, the size and the modification time: this is
  what the scanner relies on when it does not read a file again.
\<close>

definition stable_content :: "(bytes \<Rightarrow> CmpctStat \<Rightarrow> bytes) \<Rightarrow> bool" where
  "stable_content content_of \<longleftrightarrow>
     (\<forall>p st st'. st_size st = st_size st' \<and> mtim_tv_sec st = mtim_tv_sec st'
        \<and> mtim_tv_nsec st = mtim_tv_nsec st' \<longrightarrow> content_of p st = content_of p st')"

definition truthful_row :: "(bytes \<Rightarrow> CmpctStat \<Rightarrow> bytes) \<Rightarrow> row \<Rightarrow> bool" where
  "truthful_row content_of r \<longleftrightarrow>
     (\<exists>st. row_stat r = Some st \<and>
        (case row_offset r of
           None \<Rightarrow> row_sha512 r = (if st_size st = 0 then None
                     else Some (fips_sha512 (content_of (row_relative_path r) st)))
         | Some offset \<Rightarrow> 0 < offset \<and> nat offset \<le> length (content_of (row_relative_path r) st)
             \<and> (\<exists>md. row_mdContext r = Some md
                  \<and> hashed md (take (nat offset) (content_of (row_relative_path r) st)))))"

definition truthful :: "(bytes \<Rightarrow> CmpctStat \<Rightarrow> bytes) \<Rightarrow> row list \<Rightarrow> bool" where
  "truthful content_of rows \<longleftrightarrow> (\<forall>r \<in> set rows. truthful_row content_of r)"

text \<open>A row whose digest is complete.\<close>

definition sealed :: "row \<Rightarrow> bool" where
  "sealed r \<longleftrightarrow> row_offset r = None"

text \<open>Truthful rows that contain the rows of \<open>R\<close>.\<close>

definition guarded :: "(bytes \<Rightarrow> CmpctStat \<Rightarrow> bytes) \<Rightarrow> row set \<Rightarrow> row list \<Rightarrow> bool" where
  "guarded content_of R rows \<longleftrightarrow> truthful content_of rows \<and> R \<subseteq> set rows"

text \<open>Rows a pass must not touch: sealed rows of locked paths, unless they are to be hashed again.\<close>

definition protects :: "Config \<Rightarrow> regex_engine \<Rightarrow> row set \<Rightarrow> bool" where
  "protects c rx R \<longleftrightarrow> (R \<noteq> {} \<longrightarrow> \<not> conf_rehash_locked c)
     \<and> (\<forall>r \<in> R. sealed r \<and> locked_by rx (conf_lock_checksum_pcre_compiled c) (row_relative_path r))"

lemma truthful_row_of:
  assumes "final_core c opens d content f" "content = content_of p (file_stat f)"
    and "\<not> wrong_file_type f" "\<not> conf_dry_run c" "0 \<le> checksum_offset f"
    and "zero_size_file f \<longleftrightarrow> st_size (file_stat f) = 0"
    and "checksum_offset f = 0 \<Longrightarrow> \<not> zero_size_file f \<Longrightarrow> \<not> rehash d \<Longrightarrow> db_sha512 (file_db f) = fips_sha512 content"
  shows "truthful_row content_of (row_of f i p)"
proof (cases "checksum_offset f = 0")
  case True
  then have "\<not> zero_size_file f \<Longrightarrow> file_sha512 f = fips_sha512 content"
    using assms(1,3,4,7) by (cases "rehash d") (simp_all add: final_core_def)
  then show ?thesis using True assms(2,3,6)
    by (simp add: truthful_row_def row_of_def offset_column_def sha512_column_def)
next
  case False
  then have "hash_state content f" using assms(1) by (simp add: final_core_def)
  then show ?thesis using False assms(2,5)
    by (auto simp: truthful_row_def row_of_def offset_column_def mdContext_column_def hash_state_def)
qed

lemma truthful_partial_row:
  assumes "hash_state (content_of p (file_stat f)) f" "0 < checksum_offset f"
  shows "truthful_row content_of (row_of f i p)"
  using assms by (auto simp: truthful_row_def row_of_def offset_column_def mdContext_column_def hash_state_def)

text \<open>Writing one truthful row keeps the guarded rows, when the path is not one of theirs.\<close>

lemma guarded_save:
  assumes "\<And>i. truthful_row content_of (row_of f i p)" "\<And>r. r \<in> R \<Longrightarrow> row_relative_path r \<noteq> p"
  shows "may_save c (guarded content_of R) p f"
  unfolding may_save_def
proof (intro disjI2 conjI allI impI)
  fix rows
  assume g: "guarded content_of R rows" and k: "keys_ok rows" and o: "owner (ID (file_db f)) p rows"
  let ?u = "sql_update (ID (file_db f)) (\<lambda>r. row_of f (row_ID r) (row_relative_path r)) rows"
  have "truthful content_of ?u"
    using g o assms(1) by (auto simp: truthful_def guarded_def sql_update_def owner_def)
  moreover have "R \<subseteq> set ?u"
  proof
    fix r assume r: "r \<in> R"
    then have "r \<in> set rows" "row_ID r \<noteq> ID (file_db f)" using g o assms(2) by (auto simp: guarded_def owner_def)
    then show "r \<in> set ?u" by (rule files.update_frame)
  qed
  ultimately show "guarded content_of R ?u" by (simp add: guarded_def)
next
  fix rows
  assume g: "guarded content_of R rows"
  then show "guarded content_of R (sql_insert (row_of f (next_rowid rows) p) rows)"
    using assms(1) by (auto simp: guarded_def truthful_def sql_insert_def)
qed

section \<open>A traversed file\<close>

text \<open>
  A file whose content is the one its metadata stands for: short enough to be hashed, delivered by
  the reads from every offset, and seekable.
\<close>

definition file_reads ::
  "(bytes \<Rightarrow> CmpctStat \<Rightarrow> bytes) \<Rightarrow> bytes \<Rightarrow> stat \<Rightarrow> file_opening \<Rightarrow> bool" where
  "file_reads content_of p st opens \<longleftrightarrow>
     sha_fits (content_of p (compact st)) \<and>
     (\<forall>offset. opens offset \<noteq> Fseek_Fails \<and>
        (\<forall>reads. opens offset = Opened reads \<longrightarrow> delivers (content_of p (compact st)) (nat offset) reads))"

text \<open>What the record of a looked-up path says about the row it was loaded from.\<close>

lemma loaded_cases:
  assumes "looked_up c rx (guarded content_of R) p file known"
  obtains (new) "\<not> known" "file_db file = zero_dbrow" "\<And>r. r \<in> R \<Longrightarrow> row_relative_path r \<noteq> p"
    | (row) r where "known" "row_relative_path r = p" "truthful_row content_of r"
        "file_db file = load_row zero_dbrow r" "\<And>r'. r' \<in> R \<Longrightarrow> row_relative_path r' = p \<Longrightarrow> r' = r"
proof -
  have db: "loaded (guarded content_of R) p (file_db file)"
    "known = relative_path_was_in_db_before_processing (file_db file)"
    using assms by (auto simp: looked_up_def)
  from db(1) show ?thesis
    unfolding loaded_def
  proof
    assume "file_db file = zero_dbrow
      \<and> (\<exists>rows. guarded content_of R rows \<and> keys_ok rows \<and> sql_select p rows = [])"
    then obtain rows where z: "file_db file = zero_dbrow" "guarded content_of R rows" "sql_select p rows = []"
      by blast
    moreover have "row_relative_path r \<noteq> p" if "r \<in> R" for r
      using that z files.select_none [of p rows] by (auto simp: guarded_def)
    moreover have "\<not> known" using db(2) z(1) by (simp add: zero_dbrow_def)
    ultimately show ?thesis using new by blast
  next
    assume "\<exists>rows r. guarded content_of R rows \<and> keys_ok rows \<and> r \<in> set rows
      \<and> row_relative_path r = p \<and> file_db file = load_row zero_dbrow r"
    then obtain rows r where r: "guarded content_of R rows" "keys_ok rows" "r \<in> set rows"
      "row_relative_path r = p" "file_db file = load_row zero_dbrow r" by blast
    moreover have "r' = r" if "r' \<in> R" "row_relative_path r' = p" for r'
      using files.same_path [OF r(2) _ r(3)] that r(1,4) by (auto simp: guarded_def)
    moreover have "known" using db(2) r(5) by (simp add: load_row_def)
    moreover have "truthful_row content_of r" using r(1,3) by (simp add: guarded_def truthful_def)
    ultimately show ?thesis using row by blast
  qed
qed

lemma truthful_loaded:
  assumes "truthful_row content_of r"
  obtains st where "saved_stat (load_row zero_dbrow r) = st" "row_stat r = Some st"
    "saved_offset (load_row zero_dbrow r) = 0 \<longleftrightarrow> sealed r"
    "sealed r \<Longrightarrow> st_size st \<noteq> 0 \<Longrightarrow> db_sha512 (load_row zero_dbrow r) = fips_sha512 (content_of (row_relative_path r) st)"
    "\<not> sealed r \<Longrightarrow> 0 < saved_offset (load_row zero_dbrow r)
      \<and> nat (saved_offset (load_row zero_dbrow r)) \<le> length (content_of (row_relative_path r) st)
      \<and> hashed (saved_mdContext (load_row zero_dbrow r))
          (take (nat (saved_offset (load_row zero_dbrow r))) (content_of (row_relative_path r) st))"
  using assms that
  by (cases "row_offset r") (auto simp: truthful_row_def load_row_def sealed_def split: if_splits)

lemma decision_ignores [simp]:
  "unwatched_metadata_only_changed c (f\<lparr>rehash := b\<rparr>) known = unwatched_metadata_only_changed c f known"
  "lock_checksum_ready (f\<lparr>rehash := b\<rparr>) known = lock_checksum_ready f known"
  by (simp_all add: unwatched_metadata_only_changed_def lock_checksum_ready_def size_changed_def
      modification_time_changed_def has_saved_offset_def file_metadata_identical_def)

lemma decide_rehash:
  "rehash (file_decide c f known) \<Longrightarrow> st_size (file_stat f) \<noteq> 0"
  "\<not> rehash (file_decide c f known) \<Longrightarrow> st_size (file_stat f) = 0 \<or> unwatched_metadata_only_changed c f known"
  by (auto simp: file_decide_def Let_def has_saved_offset_def file_metadata_identical_def
      if_distrib [of rehash] if_distrib [of file_stat] split: if_splits)

lemma decided_rehash:
  assumes "\<not> rehash (decided c st file known)"
  shows "stat_size st = 0 \<or> known \<and> saved_offset (file_db file) \<le> 0
    \<and> st_size (saved_stat (file_db file)) = stat_size st
    \<and> mtim_tv_sec (saved_stat (file_db file)) = mtim_tv_sec (compact st)
    \<and> mtim_tv_nsec (saved_stat (file_db file)) = mtim_tv_nsec (compact st)"
  using decide_rehash(2) [OF assms [unfolded decided_def]]
  by (auto simp: unwatched_metadata_only_changed_def size_changed_def modification_time_changed_def
      compare_form has_saved_offset_def bit_compare compact_def)

lemma same_fileD_locked:
  assumes "same_file d f" "relative_path_was_in_db_before_processing (file_db d)"
    and "locked_checksum_file d" "saved_offset (file_db d) = 0" "\<not> conf_rehash_locked c"
  shows "\<not> allow_locked_update c f" "\<not> periodic_hash_checkpoint_is_allowed c f"
  using assms(2-) same_fileD(1-3) [OF assms(1)]
  by (simp_all add: allow_locked_update_def periodic_hash_checkpoint_is_allowed_def has_saved_offset_def)

lemma guarded_file_ok:
  assumes stable: "stable_content content_of" and prot: "protects c rx R"
    and reads: "file_reads content_of p st opens"
  shows "file_ok c rx (guarded content_of R) p st opens"
  unfolding file_ok_def
proof (intro allI impI)
  fix "file" known
  assume look: "looked_up c rx (guarded content_of R) p file known"
  let ?d = "decided c st file known"
  let ?content = "content_of p (compact st)"
  note fr = decided_frame [OF look]
  have hash: "hash_state ?content ?d" if "checksum_offset ?d \<noteq> 0"
  proof -
    have ctx: "saved_offset (file_db file) > 0" "db_record_vs_file_metadata_changes ?d = IDENTICAL"
      "checksum_offset ?d = saved_offset (file_db file)" "mdContext ?d = saved_mdContext (file_db file)"
      using decided_context [OF look, of st] that by auto
    show ?thesis
    proof (cases rule: loaded_cases [OF look])
      case 1
      then show ?thesis using ctx(1) by (simp add: zero_dbrow_def)
    next
      case (2 r)
      obtain sst where sst: "saved_stat (load_row zero_dbrow r) = sst"
        "\<not> sealed r \<Longrightarrow> nat (saved_offset (load_row zero_dbrow r)) \<le> length (content_of p sst)
         \<and> hashed (saved_mdContext (load_row zero_dbrow r)) (take (nat (saved_offset (load_row zero_dbrow r))) (content_of p sst))"
        "saved_offset (load_row zero_dbrow r) = 0 \<longleftrightarrow> sealed r"
        by (rule truthful_loaded [OF 2(3)]) (use 2(2) in blast)
      have "same_metadata sst (compact st)"
        using ctx(2) 2(1,4) sst(1) unfolding decided_changes by (simp add: compare_identical)
      then have "content_of p sst = ?content"
        using stable unfolding stable_content_def same_metadata_def by blast
      then show ?thesis using ctx 2(4) sst by (auto simp: hash_state_def)
    qed
  qed
  have guard: "\<not> allow_locked_update c f \<and> \<not> periodic_hash_checkpoint_is_allowed c f"
    if r: "r \<in> R" "row_relative_path r = p" and f: "same_file ?d f" for r f
  proof -
    have rl: "sealed r" "locked_by rx (conf_lock_checksum_pcre_compiled c) p" "\<not> conf_rehash_locked c"
      using prot r by (auto simp: protects_def)
    show ?thesis
    proof (cases rule: loaded_cases [OF look])
      case 1
      then show ?thesis using r by blast
    next
      case (2 r')
      then have "r = r'" using r by blast
      then have "saved_offset (file_db ?d) = 0" using 2(4) rl(1) by (simp add: load_row_def sealed_def)
      moreover have "relative_path_was_in_db_before_processing (file_db ?d)" using 2(1) fr(1) by simp
      moreover have "locked_checksum_file ?d" using fr(6) rl(2) by simp
      ultimately show ?thesis using same_fileD_locked [OF f _ _ _ rl(3)] by blast
    qed
  qed
  have free: "\<And>r. r \<in> R \<Longrightarrow> row_relative_path r \<noteq> p"
    if "same_file ?d f" "allow_locked_update c f \<or> periodic_hash_checkpoint_is_allowed c f" for f
    using guard that by blast
  have old: "db_sha512 (file_db file) = fips_sha512 ?content" if "\<not> rehash ?d" "stat_size st \<noteq> 0"
  proof -
    note rh = decided_rehash [OF that(1)]
    show ?thesis
    proof (cases rule: loaded_cases [OF look])
      case 1
      then show ?thesis using rh that(2) by simp
    next
      case (2 r)
      obtain sst where sst: "saved_stat (load_row zero_dbrow r) = sst"
        "sealed r \<Longrightarrow> st_size sst \<noteq> 0 \<Longrightarrow> db_sha512 (load_row zero_dbrow r) = fips_sha512 (content_of p sst)"
        "\<not> sealed r \<Longrightarrow> 0 < saved_offset (load_row zero_dbrow r)"
        by (rule truthful_loaded [OF 2(3)]) (use 2(2) in blast)
      have "sealed r" using sst(3) rh that(2) 2(4) by force
      moreover have "st_size sst = st_size (compact st)" using rh that(2) 2(4) sst(1) by (simp add: compact_def)
      moreover have "content_of p sst = ?content"
        using stable rh that(2) 2(4) sst(1) unfolding stable_content_def by (simp add: compact_def)
      ultimately show ?thesis using sst(2) 2(4) that(2) by (simp add: compact_def)
    qed
  qed
  have "may_save c (guarded content_of R) p f" if "final_state c opens ?d ?content f" for f
  proof (cases "conf_dry_run c")
    case True
    then show ?thesis by (simp add: may_save_def)
  next
    case False
    have core: "final_core c opens ?d ?content f" and al: "allow_locked_update c f"
      using that by (simp_all add: final_state_def)
    then have same: "same_file ?d f" and nw: "\<not> wrong_file_type f" and off: "0 \<le> checksum_offset f"
      using reads by (auto simp: final_core_def file_reads_def)
    note sf = same_fileD [OF same]
    have st: "file_stat f = compact st" "zero_size_file f \<longleftrightarrow> st_size (file_stat f) = 0"
      using sf(5,6) fr(2,7) by (simp_all add: compact_def)
    have "truthful_row content_of (row_of f i p)" for i
      by (rule truthful_row_of [OF core _ nw False off st(2)])
        (use st old sf(4) fr(7) in \<open>auto simp: compact_def\<close>)
    then show ?thesis using guarded_save free [OF same] al by blast
  qed
  moreover have "checkpoints_ok c (guarded content_of R) p ?content ?d"
    unfolding checkpoints_ok_def
  proof (intro allI impI)
    fix f
    assume same: "same_file ?d f" and hs: "hash_state ?content f" and al: "periodic_hash_checkpoint_is_allowed c f"
    have "file_stat f = compact st" using same_fileD(5) [OF same] fr(2) by simp
    then have "truthful_row content_of (row_of f i p)" for i
      using truthful_partial_row hs al by (auto simp: periodic_hash_checkpoint_is_allowed_def split: if_splits)
    then show "may_save c (guarded content_of R) p f" using guarded_save free [OF same] al by blast
  qed
  ultimately have "content_ok c (guarded content_of R) p opens ?d ?content"
    using hash reads by (simp add: content_ok_def file_reads_def)
  then show "\<exists>content. content_ok c (guarded content_of R) p opens ?d content" by blast
qed

end
