(* ===== verification/Scan_Properties.thy ===== *)
theory Scan_Properties
  imports Truthful
begin

text \<open>
  The properties of a whole traversal pass, with a small directory tree as a concrete input for
  their witnesses.
\<close>

section \<open>Passes over well-behaved trees\<close>

fun event_reads :: "(bytes \<Rightarrow> CmpctStat \<Rightarrow> bytes) \<Rightarrow> fts_event \<Rightarrow> bool" where
  "event_reads content_of (Fts_D e below) \<longleftrightarrow> entry_ok e \<and> (\<forall>event \<in> set below. event_reads content_of event)"
| "event_reads content_of (Fts_F e st opens) \<longleftrightarrow> entry_ok e \<and> file_reads content_of (entry_path e) st opens"
| "event_reads content_of event \<longleftrightarrow> entry_ok (event_entry event)"

definition tree_reads :: "(bytes \<Rightarrow> CmpctStat \<Rightarrow> bytes) \<Rightarrow> root list \<Rightarrow> bool" where
  "tree_reads content_of roots \<longleftrightarrow>
     (\<forall>root \<in> set roots. \<forall>event \<in> set (root_events root). event_reads content_of event)"

lemma event_reads_ok:
  assumes "stable_content content_of" "protects c rx R"
  shows "event_reads content_of event \<Longrightarrow> event_ok c rx (guarded content_of R) event"
  by (induction event) (simp_all add: guarded_file_ok [OF assms])

lemma tree_reads_ok:
  "stable_content content_of \<Longrightarrow> protects c rx R \<Longrightarrow> tree_reads content_of roots
   \<Longrightarrow> roots_ok c rx (guarded content_of R) roots"
  using event_reads_ok unfolding tree_reads_def roots_ok_def by blast

text \<open>A consistent connection: distinct keys, and no batch left open by accident.\<close>

definition connected :: "app \<Rightarrow> bool" where
  "connected s \<longleftrightarrow> sane s \<and> store_inv (\<lambda>rows. True) s"

lemma store_inv_parts:
  "store_inv P s \<longleftrightarrow> store_inv (\<lambda>rows. True) s \<and> P (table s) \<and> P (committed s)"
  by (auto simp: store_inv_def)

lemma guarded_pass:
  assumes "connected s" "stable_content content_of" "protects c rx R" "tree_reads content_of roots"
    and "guarded content_of R (table s)" "guarded content_of R (committed s)"
    and "file_list c rx heap stats roots s = (st, s')"
  shows "connected s' \<and> guarded content_of R (table s') \<and> guarded content_of R (committed s')"
proof -
  have "store_inv (guarded content_of R) s"
    using assms(1,5,6) store_inv_parts [of "guarded content_of R" s] by (simp add: connected_def)
  with file_list_result [OF _ this tree_reads_ok [OF assms(2-4)] assms(7)] assms(1)
  have "later s s'" "store_inv (guarded content_of R) s'" by (simp_all add: connected_def)
  then show ?thesis using store_inv_parts [of "guarded content_of R" s'] by (simp add: connected_def later_def)
qed

section \<open>A small tree\<close>

text \<open>
  One root with the file \<open>a/b.txt\<close> of three bytes that can be read from every offset, and a
  database that knows this file from an earlier, interrupted pass.
\<close>

definition small_content :: bytes where
  "small_content = [104, 105, 33]"

definition small_stat :: stat where
  "small_stat = \<lparr>stat_size = 3, stat_blocks = 8, stat_dev = 1, stat_ino = 2,
     stat_mtim = \<lparr>tv_sec = 5, tv_nsec = 0\<rparr>, stat_ctim = \<lparr>tv_sec = 6, tv_nsec = 0\<rparr>\<rparr>"

definition small_opens :: file_opening where
  "small_opens offset = Opened [Bytes (drop (nat offset) small_content)]"

definition small_root :: root where
  "small_root = \<lparr>root_path_text = Some [47, 100], root_open = None, root_fts_open = True,
     root_events = [Fts_F sample_entry small_stat small_opens], root_close = True\<rparr>"

definition fresh_state :: "row list \<Rightarrow> app" where
  "fresh_state rows = \<lparr>global_return_status = SUCCESS, global_interrupt_flag = False,
     file_transaction_active = False, file_transaction_started_ns = 0,
     db_primary_file_modified = False, show_remembered_messages_at_exit = False, count_dirs = 0,
     count_files = 0, count_symlnks = 0, total_allocated_bytes = 0, total_hashed_bytes = 0,
     table = rows, committed = rows, autocommit = True, last_rowid = 0, signals = [], clock = [],
     sql_answers = [], access_answers = []\<rparr>"

text \<open>A complete row of the small file, with the digest of its content.\<close>

definition small_row :: row where
  "small_row = \<lparr>row_ID = 7, row_offset = None, row_relative_path = entry_path sample_entry,
     row_sha512 = Some (fips_sha512 small_content), row_stat = Some (compact small_stat),
     row_mdContext = None\<rparr>"

abbreviation any_memory :: heap where "any_memory \<equiv> \<lambda>n. Some (\<lambda>i. 0)"

text \<open>An engine for which an expression matches the paths it is equal to.\<close>

definition equal_engine :: regex_engine where
  "equal_engine code path = (if code = path then Some 1 else Some PCRE2_ERROR_NOMATCH)"

definition locking_config :: Config where
  "locking_config = default_config\<lparr>conf_update := True, conf_lock_checksum := True,
     conf_lock_checksum_pcre_compiled := Some [entry_path sample_entry]\<rparr>"

lemma small_stable [simp]: "stable_content (\<lambda>p st. small_content)"
  by (simp add: stable_content_def)

lemma small_entry_ok [simp]: "entry_ok sample_entry"
  by (simp add: entry_ok_def sample_entry_def entry_path_def FTS_ROOTLEVEL_def)

lemma small_tree_reads [simp]: "tree_reads (\<lambda>p st. small_content) [small_root]"
  by (auto simp: tree_reads_def small_root_def file_reads_def small_opens_def delivers_def
      sha_fits_def small_content_def)

lemma fresh_connected [simp]: "keys_ok rows \<Longrightarrow> connected (fresh_state rows)"
  by (simp add: connected_def fresh_state_def sane_def store_inv_def)

lemma fresh_tables [simp]: "table (fresh_state rows) = rows" "committed (fresh_state rows) = rows"
  by (simp_all add: fresh_state_def)

lemma small_row_truthful [simp]: "truthful (\<lambda>p st. small_content) [small_row]"
  by (simp add: truthful_def truthful_row_def small_row_def compact_def small_stat_def)

lemma small_row_keys [simp]: "keys_ok [small_row]"
  by (simp add: keys_ok_def)

lemma small_row_locked [simp]:
  "sealed small_row"
  "locked_by equal_engine (conf_lock_checksum_pcre_compiled locking_config) (row_relative_path small_row)"
  "\<not> conf_rehash_locked locking_config"
  by (simp_all add: sealed_def small_row_def locked_by_def locking_config_def codes_of_def
      rx_matches_def equal_engine_def default_config_def PCRE2_ERROR_NOMATCH_def)

section \<open>Rows stay truthful\<close>

text \<open>
  C1: Whatever the options, the answers of the file system and of SQLite, and the moment a signal
  arrives: a traversal pass over readable content leaves every row, in the connection and on disk,
  truthful.  A complete row carries the SHA-512 digest of the content its metadata stands for, and a
  partial row carries an offset and a hash context from which hashing can be resumed.
\<close>

theorem pass_keeps_rows_truthful:
  assumes "connected s" "stable_content content_of" "tree_reads content_of roots"
    and "truthful content_of (table s)" "truthful content_of (committed s)"
    and "file_list c rx heap stats_only_pass roots s = (st, s')"
  shows "truthful content_of (table s') \<and> truthful content_of (committed s')"
  using guarded_pass [OF assms(1,2) _ assms(3) _ _ assms(6), of "{}"] assms(4,5)
  by (simp add: protects_def guarded_def)

theorem pass_keeps_rows_truthful_witness:
  "truthful (\<lambda>p st. small_content)
     (table (snd (file_list default_config equal_engine any_memory False [small_root] (fresh_state [small_row]))))"
proof -
  obtain st s' where run: "file_list default_config equal_engine any_memory False [small_root]
      (fresh_state [small_row]) = (st, s')" by fastforce
  show ?thesis
    using pass_keeps_rows_truthful [OF _ small_stable small_tree_reads _ _ run] run by simp
qed

section \<open>Locked rows\<close>



end
