(* ===== verification/Dry_Run.thy ===== *)
theory Dry_Run
  imports Scan_Properties
begin

text \<open>
  With \<open>--dry-run\<close> a traversal pass does not write: no matter what the environment answers, the rows
  the connection sees, the rows on disk and the record that the database was modified stay as they
  were.
\<close>

section \<open>The part of the state a dry run leaves alone\<close>

definition db_view :: "app \<Rightarrow> row list \<times> row list \<times> bool \<times> bool \<times> bool" where
  "db_view s = (table s, committed s, autocommit s, file_transaction_active s, db_primary_file_modified s)"

text \<open>No transaction is open.\<close>

definition idle :: "row list \<times> row list \<times> bool \<times> bool \<times> bool \<Rightarrow> bool" where
  "idle view \<longleftrightarrow> (case view of (t, com, auto, active, modified) \<Rightarrow> auto \<and> \<not> active)"

lemma idle_view [simp]: "idle (db_view s) \<longleftrightarrow> autocommit s \<and> \<not> file_transaction_active s"
  by (simp add: idle_def db_view_def)

lemma view_updates [simp]:
  "db_view (show_remembered_messages_at_exit_update f s) = db_view s"
  "db_view (count_dirs_update n s) = db_view s" "db_view (count_files_update n s) = db_view s"
  "db_view (count_symlnks_update n s) = db_view s" "db_view (total_allocated_bytes_update w s) = db_view s"
  "db_view (total_hashed_bytes_update w s) = db_view s" "db_view (signals_update bs s) = db_view s"
  "db_view (clock_update cs s) = db_view s" "db_view (sql_answers_update qs s) = db_view s"
  "db_view (access_answers_update aa s) = db_view s" "db_view (global_return_status_update g s) = db_view s"
  "db_view (global_interrupt_flag_update b s) = db_view s"
  by (simp_all add: db_view_def)

lemma tick_view [simp]: "db_view (tick s) = db_view s"
  by (simp add: tick_def signal_notify_quit_handler_def Let_def split: list.split)

lemma clock_view [simp]: "db_view (snd (cur_time_monotonic_ns s)) = db_view s"
  by (simp add: cur_time_monotonic_ns_def split: list.split)

lemma access_view [simp]:
  "db_view (snd (faccessat s)) = db_view s" "db_view (snd (check_access m s)) = db_view s"
proof -
  show f: "db_view (snd (faccessat s)) = db_view s"
    by (simp add: faccessat_def split: list.split)
  show "db_view (snd (check_access m s)) = db_view s"
    using f by (simp add: check_access_def case_prod_beta)
qed

lemma answer_view [simp]:
  "idle (db_view s) \<Longrightarrow> db_view (snd (sql_answer s)) = db_view s"
  by (simp add: sql_answer_def split: list.split sql_answer.split)

lemma normalize_view [simp]: "db_view (snd (rational_normalize_return w s)) = db_view s"
  by (simp add: rational_normalize_return_def Let_def)

lemma provide_view [simp]: "db_view (snd (provide w s)) = db_view s"
  by (simp add: provide_def case_prod_beta)

lemma call_view: "db_view (snd (f s)) = db_view s \<Longrightarrow> db_view (snd (call f w s)) = db_view s"
  by (simp add: call_def case_prod_beta Let_def)

lemma run_view: "db_view (snd (f s)) = db_view s \<Longrightarrow> db_view (snd (run f w s)) = db_view s"
  by (simp add: run_def case_prod_beta Let_def)

lemma idle_flags:
  "db_view s' = db_view s \<Longrightarrow> autocommit s' = autocommit s"
  "db_view s' = db_view s \<Longrightarrow> file_transaction_active s' = file_transaction_active s"
  by (simp_all add: db_view_def)

section \<open>The database layer\<close>

lemma transaction_view [simp]:
  "conf_dry_run c \<Longrightarrow> db_view (snd (db_file_transaction_begin c s)) = db_view s"
  "idle (db_view s) \<Longrightarrow> db_view (snd (db_file_transaction_commit s)) = db_view s"
  "idle (db_view s) \<Longrightarrow> db_view (snd (db_file_transaction_check now s)) = db_view s"
  "idle (db_view s) \<Longrightarrow> db_view (snd (db_file_transaction_rollback s)) = db_view s"
  by (simp_all add: db_file_transaction_begin_def db_file_transaction_commit_def
      db_file_transaction_check_def db_file_transaction_rollback_def)

lemma read_view [simp]:
  "idle (db_view s) \<Longrightarrow> db_view (fst (snd (db_read_file_data_from file m s))) = db_view s"
  by (simp add: db_read_file_data_from_def case_prod_beta Let_def)

lemma save_view [simp]:
  assumes "conf_dry_run c"
  shows "db_view (fst (snd (db_save_file_record c m file known visible s))) = db_view s"
  using assms call_view [of "db_file_transaction_begin c" s SUCCESS]
  by (simp add: db_save_file_record_def db_update_the_record_by_id_def db_insert_the_record_def
      case_prod_beta Let_def)

section \<open>Hashing\<close>

lemma hash_block_view:
  assumes "conf_dry_run c" "idle (db_view s)"
  shows "db_view (fst (snd (hash_block c m buffer due st s file known))) = db_view s"
proof -
  define s1 where "s1 = snd (cur_time_monotonic_ns (s\<lparr>total_hashed_bytes := total_hashed_bytes s + of_nat (length buffer)\<rparr>))"
  have v: "db_view s1 = db_view s" by (simp add: s1_def)
  then have "db_view (snd (db_file_transaction_commit s1)) = db_view s1" using assms(2) transaction_view(2) by simp
  from call_view [of db_file_transaction_commit, OF this]
  have "db_view (snd (call db_file_transaction_commit w s1)) = db_view s" for w using v by simp
  then show ?thesis
    using assms(1) v
    by (simp add: hash_block_def case_prod_beta Let_def s1_def [symmetric]
        periodic_hash_checkpoint_is_allowed_def)
qed

lemma hash_loop_view:
  assumes "conf_dry_run c"
  shows "idle (db_view s) \<Longrightarrow> db_view (fst (snd (hash_loop c m reads due st s file known))) = db_view s"
proof (induction reads arbitrary: due st s "file" known)
  case (Cons read reads)
  let ?b = "\<lambda>buffer st. hash_block c m buffer due st (tick s) file known"
  have b: "db_view (fst (snd (?b buffer st))) = db_view s" for buffer st
    using hash_block_view [OF assms, of "tick s"] Cons.prems by simp
  have i: "idle (db_view (fst (snd (?b buffer st))))" "idle (db_view (tick s))" for buffer st
    using b Cons.prems by simp_all
  note ih = Cons.IH [OF i(1)] Cons.IH [OF i(2)]
  show ?case using b ih by (simp add: case_prod_beta Let_def split: fread_answer.split)
qed (simp add: Let_def)

lemma sha512sum_view:
  assumes "conf_dry_run c" "idle (db_view s)"
  shows "db_view (fst (snd (sha512sum c m len opens file known s))) = db_view s"
proof -
  have "db_view (fst (snd (hash_content c m reads s1 f known))) = db_view s"
    if "db_view s1 = db_view s" for reads s1 f
    using hash_loop_view [OF assms(1), of "snd (cur_time_monotonic_ns s1)"] that assms(2)
    by (simp add: hash_content_def case_prod_beta Let_def)
  from this [of "tick s"] show ?thesis
    by (simp add: sha512sum_def case_prod_beta Let_def split: open_answer.split)
qed

section \<open>One file\<close>

lemma file_load_view:
  "idle (db_view s) \<Longrightarrow> db_view (fst (snd (file_load heap entry sc s))) = db_view s"
  using run_view [of "\<lambda>_. (r, fst (snd (db_read_file_data_from zero_file m s)))" s w for r m w]
  by (simp add: file_load_def case_prod_beta Let_def)

lemma ask_view: "(\<And>s. db_view (snd (f s)) = db_view s) \<Longrightarrow> db_view (snd (snd (ask f w s))) = db_view s"
  by (simp add: ask_def rational_ask_def case_prod_beta Let_def)

lemma file_filter_view: "db_view (fst (snd (file_filter c rx file sc s))) = db_view s"
  by (simp add: file_filter_def case_prod_beta Let_def ask_view)

lemma file_access_view: "db_view (fst (snd (file_access file known sc s))) = db_view s"
  by (simp add: file_access_def show_locked_checksum_unavailable_violation_def case_prod_beta Let_def)

lemma file_hash_view:
  assumes "conf_dry_run c" "idle (db_view s)"
  shows "db_view (fst (snd (file_hash c len opens ready file known sc s))) = db_view s"
  using sha512sum_view [OF assms] by (simp add: file_hash_def case_prod_beta Let_def)

lemma file_save_view:
  "conf_dry_run c \<Longrightarrow> db_view (fst (snd (file_save c file known failed sc s))) = db_view s"
  by (simp add: file_save_def case_prod_beta Let_def)

lemma file_update_view:
  assumes "conf_dry_run c" "idle (db_view s)"
  shows "db_view (snd (file_update c len st opens file known sc s)) = db_view s"
  using file_hash_view [OF assms] file_save_view [OF assms(1)]
  by (auto simp: file_update_def case_prod_beta Let_def split: option.split)

lemma process_file_view:
  assumes "conf_dry_run c" "idle (db_view s)"
  shows "db_view (snd (process_file c rx heap len entry st opens sc s)) = db_view s"
proof -
  let ?l = "file_load heap entry sc s"
  have l: "db_view (fst (snd ?l)) = db_view s" using file_load_view [OF assms(2)] .
  have f: "db_view (fst (snd (file_filter c rx f1 sc1 (fst (snd ?l))))) = db_view s" for f1 sc1
    using l file_filter_view by simp
  have a: "db_view (fst (snd (file_access f2 k sc2 (fst (snd (file_filter c rx f1 sc1 (fst (snd ?l)))))))) = db_view s"
    for f1 sc1 f2 k sc2
    using f file_access_view by simp
  have u: "db_view (snd (file_update c len st opens f3 k3 sc3 (fst (snd (file_access f2 k sc2
      (fst (snd (file_filter c rx f1 sc1 (fst (snd ?l)))))))))) = db_view s" for f1 sc1 f2 k sc2 f3 k3 sc3
    using file_update_view [OF assms(1), where s = "fst (snd (file_access f2 k sc2
      (fst (snd (file_filter c rx f1 sc1 (fst (snd ?l)))))))"] a assms(2) by simp
  show ?thesis
    using l f a u by (simp add: process_file_def case_prod_beta Let_def split: option.split)
qed

section \<open>The loop and the pass\<close>

lemma process_event_view:
  assumes "conf_dry_run c" "idle (db_view s)"
  shows "db_view (fst (snd (process_event c rx heap len stats event sc s))) = db_view s"
proof -
  have d: "db_view (fst (snd (process_directory c rx heap stats e sc s))) = db_view s" for e
    by (simp add: process_directory_def directory_access_verify_def case_prod_beta Let_def)
  have u: "db_view (snd (process_unreadable heap stats e sc s)) = db_view s" for e
    by (simp add: process_unreadable_def case_prod_beta Let_def)
  show ?thesis
    using d u process_file_view [OF assms(1)] assms(2)
    by (cases event) (simp_all add: case_prod_beta Let_def)
qed

lemma loop_head_view:
  assumes "idle (db_view s)"
  shows "db_view (fst (snd (loop_head sc s))) = db_view s"
  using assms by (auto simp: loop_head_def Let_def idle_flags(2) [OF tick_view])

lemma walk_view:
  "conf_dry_run c \<Longrightarrow> idle (db_view s) \<Longrightarrow> db_view (snd (walk c rx heap len stats events sc s)) = db_view s"
proof (induction c rx heap len stats events sc s rule: walk.induct)
  case (2 c rx heap len stats event events sc s)
  obtain sc1 s1 leave where h: "loop_head sc s = (sc1, s1, leave)" by (cases "loop_head sc s") auto
  obtain sc2 s2 skip where p: "process_event c rx heap len stats event sc1 s1 = (sc2, s2, skip)"
    by (cases "process_event c rx heap len stats event sc1 s1") auto
  have v1: "db_view s1 = db_view s" using loop_head_view [OF 2(4), of sc] h by simp
  have v2: "db_view s2 = db_view s" using process_event_view [OF 2(3), of s1 rx heap len stats event sc1] 2(4) p v1 by simp
  have i: "idle (db_view s1)" "idle (db_view s2)" using 2(4) v1 v2 by simp_all
  have skip: "db_view (snd (walk c rx heap len stats (following event True @ events) sc1 s1)) = db_view s"
    if "continue_the_loop sc" "\<not> leave" "too_deep c event"
    using 2(1) [OF _ refl h [symmetric] refl _ that(3) 2(3) i(1)] that v1 by simp
  have rest: "db_view (snd (walk c rx heap len stats (following event skip @ events) sc2 s2)) = db_view s"
    if "continue_the_loop sc" "\<not> leave" "\<not> too_deep c event"
    using 2(2) [OF _ refl h [symmetric] refl _ that(3) refl p [symmetric] refl 2(3) i(2)] that v2 by simp
  show ?case using v1 skip rest by (simp add: walk.simps h p)
qed (simp add: walk.simps)

lemma scan_roots_view:
  assumes "conf_dry_run c"
  shows "idle (db_view s) \<Longrightarrow> db_view (snd (scan_roots c rx heap len stats roots sc s)) = db_view s"
proof (induction roots arbitrary: sc s)
  case (Cons root roots)
  let ?a = "if stats then (FILE_ACCESS_ALLOWED, s) else directory_open_root (root_open root) s"
  obtain a s1 where a: "?a = (a, s1)" by (cases ?a) auto
  have v1: "db_view s1 = db_view s"
    using a by (auto simp: directory_open_root_def Let_def split: if_splits option.splits)
  obtain sc2 s2 where w: "walk c rx heap len stats (root_events root) sc s1 = (sc2, s2)"
    by (cases "walk c rx heap len stats (root_events root) sc s1")
  have v2: "db_view s2 = db_view s"
    using walk_view [OF assms, of s1 rx heap len stats "root_events root" sc] Cons.prems v1 w by simp
  have i: "idle (db_view s1)" "idle (db_view (tick s2))" using Cons.prems v1 v2 by simp_all
  note ih = Cons.IH [OF i(1)] Cons.IH [OF i(2)]
  show ?case
    unfolding scan_roots.simps a Let_def prod.case w using v1 v2 ih by (simp add: split: if_split)
qed simp

lemma finish_view:
  assumes "idle (db_view s)"
  shows "db_view (snd (finish_pass sc s)) = db_view s"
proof -
  have c: "db_view (snd (call db_file_transaction_commit w s)) = db_view s" for w
    using assms by (simp add: call_view)
  have r: "db_view (snd (call db_file_transaction_rollback w s1)) = db_view s" if "db_view s1 = db_view s" for w s1
    using assms that by (simp add: call_view)
  show ?thesis using c r by (simp add: finish_pass_def case_prod_beta Let_def)
qed

lemma file_list_view:
  assumes "conf_dry_run c" "idle (db_view s)"
  shows "db_view (snd (file_list c rx heap stats_only_pass roots s)) = db_view s"
proof -
  let ?s = "snd (cur_time_monotonic_ns s)\<lparr>count_dirs := 0, count_files := 0, count_symlnks := 0,
    total_allocated_bytes := 0, total_hashed_bytes := 0\<rparr>"
  have i: "db_view ?s = db_view s" "idle (db_view ?s)" using assms(2) by simp_all
  have r: "db_view (snd (scan_roots c rx heap len stats_only_pass roots sc ?s)) = db_view s" for len sc
    using scan_roots_view [OF assms(1) i(2)] i(1) by simp
  have f: "db_view (snd (finish_pass sc2 (snd (scan_roots c rx heap len stats_only_pass roots sc ?s)))) = db_view s"
    for len sc sc2
  proof -
    have "idle (db_view (snd (scan_roots c rx heap len stats_only_pass roots sc ?s)))"
      unfolding r using assms(2) .
    from finish_view [OF this] show ?thesis using r by simp
  qed
  show ?thesis using i(1) f by (simp add: file_list_def case_prod_beta Let_def)
qed

text \<open>
  C3: With \<open>--dry-run\<close> a pass writes nothing: whatever the tree holds, however the reads, SQLite and
  the file system answer, and whenever a signal arrives, the rows the connection sees, the rows on
  disk and the modified mark of the database are the same after the pass as before.
\<close>

theorem dry_run_writes_nothing:
  assumes "conf_dry_run c" "autocommit s" "\<not> file_transaction_active s"
    and "file_list c rx heap stats_only_pass roots s = (st, s')"
  shows "table s' = table s \<and> committed s' = committed s
    \<and> db_primary_file_modified s' = db_primary_file_modified s"
  using file_list_view [OF assms(1), of s rx heap stats_only_pass roots] assms(2-4) by (simp add: db_view_def idle_def)

theorem dry_run_writes_nothing_witness:
  "table (snd (file_list (default_config\<lparr>conf_dry_run := True\<rparr>) equal_engine any_memory False
     [small_root] (fresh_state []))) = []"
proof -
  let ?c = "default_config\<lparr>conf_dry_run := True\<rparr>"
  obtain st s' where run: "file_list ?c equal_engine any_memory False [small_root] (fresh_state [])
      = (st, s')" by fastforce
  show ?thesis
    using dry_run_writes_nothing [OF _ _ _ run] run by (simp add: fresh_state_def)
qed

end
