(* ===== verification/Locked_Files.thy ===== *)
theory Locked_Files
  imports Scan_Properties
begin

text \<open>
  What happens to a single file of a traversal: unchanged complete files, the cases of the README for
  checksum-locked files, and three runs in which the code departs from what it promises.
\<close>

section \<open>Files that are left alone\<close>

lemma file_update_copy:
  assumes "sane s" "status sc = SUCCESS"
  shows "run_out s (status sc) (case stat_copy (Some st) (Some old) of
      None \<Rightarrow> (deliver s FAILURE, old) | Some copied \<Rightarrow> (deliver s SUCCESS, copied)) old
    = (outcome True (halted s), compact st)"
  using assms run_outcome [of "\<lambda>s'. (outcome True (halted s), s')" s True "halted s" s True False]
  by (simp add: run_out_def outcome_literals)

lemma compare_changes:
  "db_record_vs_file_metadata_changes (file_compare (file\<lparr>file_stat := compact st\<rparr>) True)
     = file_compare_metadata_equivalence (Some (saved_stat (file_db file))) (Some (compact st))"
  "file_db (file_compare (file\<lparr>file_stat := compact st\<rparr>) True) = file_db file"
  by (simp_all add: compare_form)

text \<open>
  C20: A file with a complete row whose size, timestamps and block count are the recorded ones is
  not opened, not hashed and not saved, unless it is to be checked with \<open>--rehash-locked\<close>.
\<close>

theorem unchanged_file_skipped:
  assumes "sane s" "status sc = SUCCESS"
    and "saved_offset (file_db file) \<le> 0" "same_metadata (saved_stat (file_db file)) (compact st)"
    and "\<not> (conf_rehash_locked c \<and> locked_checksum_file file)"
  shows "file_update c len st opens file True sc s = (sc\<lparr>status := outcome True (halted s)\<rparr>, s)"
proof -
  have "unchanged_and_complete (file_compare (file\<lparr>file_stat := compact st\<rparr>) True) True"
    using assms(3,4)
    by (simp add: unchanged_and_complete_def file_metadata_identical_def has_saved_offset_def
        compare_changes compare_identical)
  moreover have "\<not> (conf_rehash_locked c
      \<and> lock_checksum_ready (file_compare (file\<lparr>file_stat := compact st\<rparr>) True) True)"
    using assms(5) by (auto simp: lock_checksum_ready_def compare_form)
  ultimately show ?thesis
    unfolding file_update_def file_update_copy [OF assms(1,2)] by (simp add: Let_def)
qed

text \<open>The record the small file is processed with when its row is known.\<close>

definition small_file :: File where
  "small_file = zero_file\<lparr>file_db := load_row zero_dbrow small_row, is_readable := True\<rparr>"

definition running :: scan where
  "running = \<lparr>status = SUCCESS, continue_the_loop = True, lock_checksum_violation_detected = False,
     relative_path = mem_init 1 True\<rparr>"

lemma small_file_row [simp]:
  "saved_offset (file_db small_file) = 0" "saved_stat (file_db small_file) = compact small_stat"
  by (simp_all add: small_file_def small_row_def load_row_def)

theorem unchanged_file_skipped_witness:
  "snd (file_update default_config 65536 small_stat small_opens small_file True running
     (fresh_state [small_row])) = fresh_state [small_row]"
proof -
  have "sane (fresh_state [small_row])" by (simp add: sane_def fresh_state_def)
  moreover have "same_metadata (compact small_stat) (compact small_stat)" by (simp add: same_metadata_def)
  ultimately show ?thesis
    using unchanged_file_skipped [of "fresh_state [small_row]" running small_file small_stat
        default_config 65536 small_opens]
    by (simp add: running_def default_config_def)
qed

section \<open>Sealed files under a lock\<close>

definition times_differ :: "CmpctStat \<Rightarrow> CmpctStat \<Rightarrow> bool" where
  "times_differ a b \<longleftrightarrow> (mtim_tv_sec a, mtim_tv_nsec a) \<noteq> (mtim_tv_sec b, mtim_tv_nsec b)
     \<or> (ctim_tv_sec a, ctim_tv_nsec a) \<noteq> (ctim_tv_sec b, ctim_tv_nsec b)"

lemma and_two_bits: "(w AND (STATUS_CHANGED_TIME OR MODIFICATION_TIME_CHANGED) \<noteq> 0) \<longleftrightarrow> bit w 2 \<or> bit w 3"
proof -
  have "(w AND (STATUS_CHANGED_TIME OR MODIFICATION_TIME_CHANGED) \<noteq> 0)
      \<longleftrightarrow> (\<exists>n. bit (w AND (STATUS_CHANGED_TIME OR MODIFICATION_TIME_CHANGED)) n)"
    by (metis bit_eqI bit_0_eq bot_apply bot_bool_def)
  then show ?thesis by (auto simp: bit_and_iff bit_or_iff)
qed

lemma decision_tests:
  fixes st
  assumes "file_db f = file_db file" "db_record_vs_file_metadata_changes f
    = file_compare_metadata_equivalence (Some (saved_stat (file_db file))) (Some (compact st))"
  shows "size_changed f \<longleftrightarrow> st_size (saved_stat (file_db file)) \<noteq> stat_size st"
    and "timestamps_changed f \<longleftrightarrow> times_differ (saved_stat (file_db file)) (compact st)"
    and "has_saved_offset f \<longleftrightarrow> saved_offset (file_db file) > 0"
    and "file_metadata_identical f \<longleftrightarrow> same_metadata (saved_stat (file_db file)) (compact st)"
  using assms
  by (auto simp: size_changed_def timestamps_changed_def has_saved_offset_def file_metadata_identical_def
      bit_compare compact_def times_differ_def compare_identical and_two_bits)

lemma decision_frame [simp]:
  "size_changed (f\<lparr>rehash := b\<rparr>) = size_changed f" "timestamps_changed (f\<lparr>rehash := b\<rparr>) = timestamps_changed f"
  "has_saved_offset (f\<lparr>rehash := b\<rparr>) = has_saved_offset f"
  "file_metadata_identical (f\<lparr>rehash := b\<rparr>) = file_metadata_identical f"
  "size_changed (f\<lparr>checksum_offset := off\<rparr>) = size_changed f"
  "timestamps_changed (f\<lparr>checksum_offset := off\<rparr>) = timestamps_changed f"
  "lock_checksum_ready (f\<lparr>checksum_offset := off\<rparr>) k = lock_checksum_ready f k"
  "size_changed (f\<lparr>mdContext := md\<rparr>) = size_changed f"
  "timestamps_changed (f\<lparr>mdContext := md\<rparr>) = timestamps_changed f"
  "lock_checksum_ready (f\<lparr>mdContext := md\<rparr>) k = lock_checksum_ready f k"
  "size_changed (f\<lparr>rehashing_from_the_beginning := b\<rparr>) = size_changed f"
  "timestamps_changed (f\<lparr>rehashing_from_the_beginning := b\<rparr>) = timestamps_changed f"
  "lock_checksum_ready (f\<lparr>rehashing_from_the_beginning := b\<rparr>) k = lock_checksum_ready f k"
  "size_changed (f\<lparr>zero_size_file := b\<rparr>) = size_changed f"
  "timestamps_changed (f\<lparr>zero_size_file := b\<rparr>) = timestamps_changed f"
  "lock_checksum_ready (f\<lparr>zero_size_file := b\<rparr>) k = lock_checksum_ready f k"
  by (simp_all add: size_changed_def timestamps_changed_def has_saved_offset_def
      file_metadata_identical_def lock_checksum_ready_def)

lemma decide_violation:
  "lock_checksum_violation (file_decide c f k) \<longleftrightarrow> lock_checksum_ready f k
     \<and> (size_changed f \<or> conf_watch_timestamps c \<and> \<not> conf_rehash_locked c \<and> timestamps_changed f)"
  by (simp add: file_decide_def Let_def)

lemma decide_no_rehash:
  "unwatched_metadata_only_changed c f k \<Longrightarrow> \<not> conf_rehash_locked c \<Longrightarrow> \<not> rehash (file_decide c f k)"
  by (simp add: file_decide_def Let_def)

text \<open>The three ways through the branch when hashing is not needed.\<close>

lemma file_update_ways:
  fixes fl st known c
  assumes "sane s" "status sc = SUCCESS"
  defines "f \<equiv> file_compare (fl\<lparr>file_stat := compact st\<rparr>) known"
    and "d \<equiv> decided c st fl known"
    and "sc' \<equiv> sc\<lparr>status := outcome True (halted s)\<rparr>"
  shows "unchanged_and_complete f known \<and> \<not> (conf_rehash_locked c \<and> lock_checksum_ready f known)
      \<or> locked_timestamp_drift_only c d known \<Longrightarrow> file_update c len st opens fl known sc s = (sc', s)"
    and "\<not> unchanged_and_complete f known \<Longrightarrow> \<not> locked_timestamp_drift_only c d known \<Longrightarrow>
      file_hash c len opens (lock_checksum_ready f known) d known sc' s = (sc1, s1, Some (g, k, failed)) \<Longrightarrow>
      file_update c len st opens fl known sc s = (\<lambda>(sc, s, f). (sc, s)) (file_save c g k failed sc1 s1)"
  unfolding file_update_def file_update_copy [OF assms(1,2)] f_def d_def decided_def sc'_def
  by (auto simp: Let_def)


text \<open>The record of the small file when its path is locked.\<close>

definition locked_small_file :: File where
  "locked_small_file = zero_file\<lparr>file_db := load_row zero_dbrow small_row,
     locked_checksum_file := True, is_readable := True\<rparr>"

lemma locked_small_looked_up:
  "looked_up locking_config equal_engine (\<lambda>rows. True) (entry_path sample_entry) locked_small_file True"
proof -
  have "locked_by equal_engine (conf_lock_checksum_pcre_compiled locking_config) (entry_path sample_entry)"
    using small_row_locked(2) by (simp add: small_row_def)
  moreover have "loaded (\<lambda>rows. True) (entry_path sample_entry) (load_row zero_dbrow small_row)"
    unfolding loaded_def by (intro disjI2 exI [of _ "[small_row]"] exI [of _ small_row])
      (simp add: small_row_def keys_ok_def)
  ultimately show ?thesis
    unfolding looked_up_def locked_small_file_def
    by (intro exI [of _ "load_row zero_dbrow small_row"] exI [of _ False] exI [of _ True])
      (simp add: zero_file_def load_row_def)
qed


section \<open>Departures\<close>

text \<open>
  A sealed row whose digest is the reference of a locked file, the record it is loaded into, and a
  file delivered in two reads.
\<close>

definition reference_row :: row where
  "reference_row = \<lparr>row_ID = 7, row_offset = None, row_relative_path = [97],
     row_sha512 = Some (replicate 64 1), row_stat = Some (compact small_stat), row_mdContext = None\<rparr>"

definition reference_file :: File where
  "reference_file = zero_file\<lparr>file_db := load_row zero_dbrow reference_row,
     locked_checksum_file := True, is_readable := True\<rparr>"

definition slow_opens :: file_opening where
  "slow_opens offset = Opened [Bytes [104], Bytes [105, 33]]"

definition rehash_config :: Config where
  "rehash_config = locking_config\<lparr>conf_rehash_locked := True\<rparr>"



text \<open>
  A row stored without a digest because the file could not be positioned is given 64 zero bytes
  as its complete digest once only the change time of the file moves.
\<close>

theorem missing_digest_becomes_zero:
  "map row_sha512 (table (snd (file_update default_config 65536
       (small_stat\<lparr>stat_ctim := \<lparr>tv_sec = 9, tv_nsec = 0\<rparr>\<rparr>) slow_opens
       (zero_file\<lparr>file_db := load_row zero_dbrow (reference_row\<lparr>row_sha512 := None\<rparr>), is_readable := True\<rparr>)
       True running (fresh_state [reference_row\<lparr>row_sha512 := None\<rparr>])))) = [Some (replicate 64 0)]"
  by code_simp

end
