(* ===== verification/Cleanup.thy ===== *)
theory Cleanup
  imports Traversal
begin

text \<open>
  The cleanup after an update (\<open>db_delete_missing_metadata.c\<close>, with \<open>db_retrieve_root_path.c\<close>): every stored row is checked against the file system and removed when its
  file is missing, or inaccessible or ignored and the options ask for it.
\<close>

section \<open>The root\<close>

text \<open>
  \<open>SELECT prefix FROM paths LIMIT 1\<close>: \<open>prefixes\<close> are the values of the column, \<open>None\<close> for NULL.
\<close>

definition db_retrieve_root_path ::
  "heap \<Rightarrow> bytes option list \<Rightarrow> memory \<Rightarrow> app \<Rightarrow> ret \<times> app \<times> memory" where
  "db_retrieve_root_path heap prefixes root_path s =
     (let (rc, s) = sql_answer s;
          (st, root_path) =
            (if rc \<noteq> Sql_Done then (FAILURE, root_path)
             else
               case prefixes of
                 [] \<Rightarrow> (FAILURE, root_path)
               | None # _ \<Rightarrow> (FAILURE, root_path)
               | Some prefix # _ \<Rightarrow>
                   if prefix = [] then (FAILURE, root_path)
                   else mem_copy_fixed_string s heap root_path (of_nat (length prefix + 1))
                          (External (prefix @ [0])));
          (st, s) = provide st s
      in (st, s, root_path))"

section \<open>Locked rows\<close>

definition db_check_locked_unavailable_violation ::
  "Config \<Rightarrow> regex_engine \<Rightarrow> memory \<Rightarrow> FileAccessStatus \<Rightarrow> app action" where
  "db_check_locked_unavailable_violation c rx path access_status s =
     (let (locked, st, s) =
            ask (\<lambda>s. (path_check_locked_checksum rx s (conf_lock_checksum_pcre_compiled c) path, s))
              SUCCESS s;
          (st, s) =
            (if locked then show_locked_checksum_unavailable_violation access_status s else (st, s))
      in provide (st OR (if locked then YES else NO)) s)"

text \<open>The last component is \<open>locked_unavailable_violation_out\<close>.\<close>

definition db_preserve_locked_ignored_record ::
  "Config \<Rightarrow> regex_engine \<Rightarrow> memory \<Rightarrow> app \<Rightarrow> ret \<times> app \<times> bool" where
  "db_preserve_locked_ignored_record c rx path s =
     (let (locked, st, s) =
            ask (\<lambda>s. (path_check_locked_checksum rx s (conf_lock_checksum_pcre_compiled c) path, s))
              SUCCESS s;
          (keep, violation, st, s) =
            (if locked then
               let (access_status, s) = check_access path s;
                   (violation, st, s) =
                     (if st = SUCCESS \<and> access_status \<noteq> FILE_ACCESS_ALLOWED
                      then ask (db_check_locked_unavailable_violation c rx path access_status) st s
                      else (False, st, s))
               in (has TRIUMPH st, violation, st, s)
             else (False, False, st, s));
          (st, s) = provide (st OR (if keep then YES else NO)) s
      in (st, s, violation))"

section \<open>One row\<close>

text \<open>What is decided about a row: the results of the checks before the deletion.\<close>

datatype row_decision = Keep_Row | Leave_Loop | Delete_Row

text \<open>An ignored row that \<open>--db-drop-ignored\<close> does not cover.\<close>

definition cleanup_ignored ::
  "Config \<Rightarrow> regex_engine \<Rightarrow> memory \<Rightarrow> ret \<Rightarrow> app \<Rightarrow> bool \<Rightarrow> ret \<times> app \<times> bool \<times> row_decision" where
  "cleanup_ignored c rx path st s detected =
     (let (locked, st, s) =
            ask (\<lambda>s. (path_check_locked_checksum rx s (conf_lock_checksum_pcre_compiled c) path, s))
              st s;
          (st, s, detected) =
            (if locked then
               let (access_status, s) = check_access path s
               in if access_status \<noteq> FILE_ACCESS_ALLOWED then
                    let (violation, st, s) =
                          ask (db_check_locked_unavailable_violation c rx path access_status) st s
                    in (st, s, detected \<or> violation)
                  else (st, s, detected)
             else (st, s, detected))
      in (st, s, detected, if st \<noteq> SUCCESS then Leave_Loop else Keep_Row))"

definition cleanup_dropped ::
  "Config \<Rightarrow> regex_engine \<Rightarrow> memory \<Rightarrow> ret \<Rightarrow> app \<Rightarrow> bool \<Rightarrow> ret \<times> app \<times> bool \<times> row_decision" where
  "cleanup_dropped c rx path st s detected =
     (let (returned, s_checked, violation) = db_preserve_locked_ignored_record c rx path s;
          (keep, st, s) = ask (\<lambda>_. (returned, s_checked)) st s
      in if keep then (st, s, detected \<or> violation, Keep_Row)
         else (st, s, detected, if st \<noteq> SUCCESS then Leave_Loop else Delete_Row))"

definition cleanup_visible ::
  "Config \<Rightarrow> regex_engine \<Rightarrow> memory \<Rightarrow> ret \<Rightarrow> app \<Rightarrow> bool \<Rightarrow> ret \<times> app \<times> bool \<times> row_decision" where
  "cleanup_visible c rx path st s detected =
     (let (access_status, s) = check_access path s
      in if access_status = FILE_ACCESS_ALLOWED then (st, s, detected, Keep_Row)
         else
           let (violation, st, s) =
                 ask (db_check_locked_unavailable_violation c rx path access_status) st s
           in if violation then (st, s, True, Keep_Row)
              else if st \<noteq> SUCCESS then (st, s, detected, Leave_Loop)
              else if access_status = FILE_NOT_FOUND \<or> conf_db_drop_inaccessible c
                   then (st, s, detected, Delete_Row)
              else (st, s, detected, Keep_Row))"

text \<open>The body of the loop; the last component says whether it was left with \<open>break\<close>.\<close>

definition cleanup_row ::
  "Config \<Rightarrow> regex_engine \<Rightarrow> heap \<Rightarrow> row \<Rightarrow> ret \<Rightarrow> app \<Rightarrow> memory \<Rightarrow> bool
     \<Rightarrow> ret \<times> app \<times> memory \<times> bool \<times> bool" where
  "cleanup_row c rx heap r st s path detected =
     (let db_relative_path = row_relative_path r;
          (st, path) =
            run_out s st
              (mem_copy_fixed_string s heap path (of_nat (length db_relative_path + 1))
                 (External (db_relative_path @ [0]))) path
      in if st \<noteq> SUCCESS then (st, s, path, detected, True)
         else
           let (st, ignored) =
                 (if conf_ignore c then
                    let (st, included, ignored) =
                          match_include_ignore rx s (conf_include_pcre_compiled c)
                            (conf_ignore_pcre_compiled c) path
                    in (st, ignored)
                  else (st, False))
           in if st \<noteq> SUCCESS then (st, s, path, detected, True)
              else
                let (st, s, detected, decision) =
                      (if ignored \<and> \<not> conf_db_drop_ignored c
                       then cleanup_ignored c rx path st s detected
                       else if ignored then cleanup_dropped c rx path st s detected
                       else cleanup_visible c rx path st s detected)
                in if decision = Keep_Row then (st, s, path, detected, False)
                   else if decision = Leave_Loop then (st, s, path, detected, True)
                   else if \<not> conf_dry_run c \<and> autocommit s
                        then (FAILURE, s, path, detected, True)
                   else
                     let (st, s) = db_delete_the_record_by_id c (row_ID r) s
                     in (st, s, path, detected, st \<noteq> SUCCESS))"

section \<open>The loop\<close>

text \<open>What the last \<open>sqlite3_step\<close> of the SELECT returned.\<close>

datatype step_result = Step_Row | Step_Done | Step_Error

text \<open>
  The SELECT delivers the rows present when it starts: the loop deletes no row but the current one.
\<close>

fun cleanup_loop ::
  "Config \<Rightarrow> regex_engine \<Rightarrow> heap \<Rightarrow> row list \<Rightarrow> ret \<Rightarrow> app \<Rightarrow> memory \<Rightarrow> bool
     \<Rightarrow> ret \<times> app \<times> memory \<times> bool \<times> step_result" where
  "cleanup_loop c rx heap rows st s path detected =
     (if st \<noteq> SUCCESS then (st, s, path, detected, Step_Row)
      else
        let (rc, s) = sql_answer s
        in if rc \<noteq> Sql_Done then (st, s, path, detected, Step_Error)
           else
             case rows of
               [] \<Rightarrow> (st, s, path, detected, Step_Done)
             | r # rest \<Rightarrow>
                 if global_interrupt_flag s then (st, s, path, detected, Step_Row)
                 else
                   let (st, s, path, detected, leave) =
                         cleanup_row c rx heap r st s path detected
                   in if leave then (st, s, path, detected, Step_Row)
                      else cleanup_loop c rx heap rest st s path detected)"

declare cleanup_loop.simps [simp del]

section \<open>The transaction\<close>

definition cleanup_begin :: "Config \<Rightarrow> ret \<Rightarrow> app \<Rightarrow> ret \<times> app" where
  "cleanup_begin c st s =
     (if st = SUCCESS \<and> \<not> conf_dry_run c then
        let (rc, s) = sql_answer s
        in if rc \<noteq> Sql_Done \<or> \<not> autocommit s then (FAILURE, s) else (st, s\<lparr>autocommit := False\<rparr>)
      else (st, s))"

definition cleanup_commit :: "ret \<Rightarrow> app \<Rightarrow> ret \<times> app" where
  "cleanup_commit st s =
     (if \<not> has FAILURE st then
        let (rc, s) = sql_answer s
        in if rc \<noteq> Sql_Done \<or> autocommit s then (FAILURE, s)
           else (st, s\<lparr>committed := table s, autocommit := True\<rparr>)
      else (st, s))"

definition cleanup_rollback :: "ret \<Rightarrow> app \<Rightarrow> ret \<times> app" where
  "cleanup_rollback st s =
     (if \<not> autocommit s then
        let (rc, s) = sql_answer s
        in if rc \<noteq> Sql_Done then (FAILURE, s) else (st, s\<lparr>table := committed s, autocommit := True\<rparr>)
      else (st, s))"

section \<open>The cleanup\<close>

text \<open>
  \<open>root_opened\<close> is the outcome of opening the stored root, \<open>closed\<close> whether its descriptor can be
  closed.  The descriptors are released with \<open>call(m_del(\<dots>))\<close> on both ways out.
\<close>

definition cleanup_release :: "memory \<Rightarrow> memory \<Rightarrow> ret \<Rightarrow> app \<Rightarrow> ret \<times> app" where
  "cleanup_release path root_path st s =
     (let (st, s) = call (\<lambda>s. (fst (mem_delete s path), s)) st s
      in call (\<lambda>s. (fst (mem_delete s root_path), s)) st s)"

definition db_delete_missing_metadata ::
  "Config \<Rightarrow> regex_engine \<Rightarrow> heap \<Rightarrow> bytes option list \<Rightarrow> errno option \<Rightarrow> bool \<Rightarrow> app action" where
  "db_delete_missing_metadata c rx heap prefixes root_opened closed s =
     (if global_interrupt_flag s then provide SUCCESS s
      else if conf_compare c then provide SUCCESS s
      else if \<not> conf_update c then provide SUCCESS s
      else
        let root_path = mem_init 1 True;
            path = mem_init 1 True;
            (returned, s_read, root_read) = db_retrieve_root_path heap prefixes root_path s;
            (st, s) = run (\<lambda>_. (returned, s_read)) SUCCESS s;
            root_path = root_read;
            (root_access_status, s) =
              (if st = SUCCESS then directory_open_root root_opened s else (FILE_ACCESS_ERROR, s))
        in if root_access_status \<noteq> FILE_ACCESS_ALLOWED then
             let (st, s) = cleanup_release path root_path st s in provide st s
           else
             let (st, s) = cleanup_begin c st s;
                 (prepared, s) = (if st = SUCCESS then sql_answer s else (Sql_Done, s));
                 st = (if prepared \<noteq> Sql_Done then FAILURE else st);
                 (st, s, path, detected, step) =
                   cleanup_loop c rx heap (table s) st s path False;
                 st = (if st = SUCCESS \<and> step \<noteq> Step_Done \<and> \<not> global_interrupt_flag s
                           then FAILURE else st);
                 st = (if st = SUCCESS \<and> step = Step_Error then FAILURE else st);
                 st = (if \<not> closed then FAILURE else st);
                 (st, s) =
                   (if \<not> conf_dry_run c then
                      let (st, s) = cleanup_commit st s in cleanup_rollback st s
                    else (st, s));
                 (st, s) = cleanup_release path root_path st s;
                 st = (if detected \<and> st = SUCCESS then WARNING else st)
             in provide st s)"

end
