(* ===== verification/Cleanup_Correct.thy ===== *)
theory Cleanup_Correct
  imports Cleanup Scan_Properties Dry_Run
begin

text \<open>
  What the cleanup guarantees: it removes nothing but rows of paths that no lock pattern protects,
  it removes nothing while every file is accessible, and its deletions are committed together or
  not at all.
\<close>

section \<open>Questions about locks\<close>

text \<open>The state after looking at the file system: the database is as it was.\<close>

definition still_open :: "app \<Rightarrow> app \<Rightarrow> bool" where
  "still_open s s' \<longleftrightarrow> (access_answers s = [] \<longrightarrow> access_answers s' = [])"

definition looked :: "app \<Rightarrow> app \<Rightarrow> bool" where
  "looked s s' \<longleftrightarrow> later s s' \<and> same_db s s' \<and> still_open s s'"

lemma still_open_refl [simp]: "still_open s s"
  by (simp add: still_open_def)

lemma still_open_trans: "still_open s s' \<Longrightarrow> still_open s' s'' \<Longrightarrow> still_open s s''"
  by (simp add: still_open_def)

lemma tick_access [simp]: "access_answers (tick s) = access_answers s"
  by (simp add: tick_def signal_notify_quit_handler_def Let_def split: list.split)

lemma answer_access: "access_answers (snd (sql_answer s)) = access_answers s"
  by (simp add: sql_answer_def split: list.split sql_answer.split)

lemma looked_refl [simp]: "looked s s \<longleftrightarrow> sane s"
  by (simp add: looked_def later_def)

lemma looked_trans: "looked s s' \<Longrightarrow> looked s' s'' \<Longrightarrow> looked s s''"
  using later_trans by (auto simp: looked_def same_db_def still_open_def)

lemma looked_remember [simp]:
  "looked s (s'\<lparr>show_remembered_messages_at_exit := b\<rparr>) = looked s s'"
  by (simp add: looked_def same_db_def later_def still_open_def)

lemma looked_access: "sane s \<Longrightarrow> looked s (snd (check_access m s))"
  using check_access_later
  by (simp add: looked_def still_open_def check_access_def faccessat_def case_prod_beta split: list.split)

lemma access_granted: "access_answers s = [] \<Longrightarrow> fst (check_access m s) = FILE_ACCESS_ALLOWED"
  by (simp add: check_access_def faccessat_def file_check_access_def)

lemma deliver_answer:
  assumes "sane s" "h \<longrightarrow> halted s"
  shows "provide (outcome g h OR (if b then YES else NO)) s
    = (deliver s (outcome g False OR (if b then YES else NO)), s)"
  using assms
  by (auto simp: provide_def deliver_def rational_normalize_return_def Let_def sane_def bit_or_iff
      bit_and_iff intro!: bit_word_eqI)

lemma ask_answer:
  assumes "f s = provide (outcome g h OR (if b then YES else NO)) s'" "sane s'" "h \<longrightarrow> halted s'"
  shows "ask f SUCCESS s = (g \<and> b, outcome g (halted s'), s')"
proof -
  let ?f = "\<lambda>s. (deliver s (outcome g False OR (if b then YES else NO)), s)"
  have "f s = ?f s'" using assms(1) deliver_answer [OF assms(2,3)] by simp
  moreover have "ask f SUCCESS s = (let (returned, s) = f s in rational_ask SUCCESS returned s)"
    "ask ?f SUCCESS s' = (let (returned, s) = ?f s' in rational_ask SUCCESS returned s)"
    by (simp_all add: ask_def)
  ultimately have "ask f SUCCESS s = ask ?f SUCCESS s'" by metis
  then show ?thesis using ask_yes_no [OF assms(2), of g b] by (simp add: outcome_literals)
qed

lemma ask_skipped: "\<not> g \<or> h \<Longrightarrow> ask f (outcome g h) s = (False, outcome g h, s)"
  by (auto simp: ask_def)

lemma lock_question:
  assumes "sane s"
  shows "\<exists>g b. ask (\<lambda>s. (path_check_locked_checksum rx s lck m, s)) SUCCESS s
      = (g \<and> b, outcome g (halted s), s) \<and> (path_ok p m \<longrightarrow> g \<longrightarrow> b = locked_by rx lck p)"
proof -
  let ?r = "match_checksum_lock_pattern rx s lck m"
  define g where "g \<longleftrightarrow> ?r \<noteq> FAIL_REGEXP_LOCK_CHECKSUM"
  define b where "b \<longleftrightarrow> ?r = LOCK_CHECKSUM"
  have e: "path_check_locked_checksum rx s lck m = deliver s (outcome g False OR (if b then YES else NO))"
    by (cases ?r) (simp_all add: path_check_locked_checksum_def g_def b_def outcome_literals)
  have "ask (\<lambda>s. (path_check_locked_checksum rx s lck m, s)) SUCCESS s = (g \<and> b, outcome g (halted s), s)"
    by (rule ask_answer [where h = False]) (use assms in \<open>simp_all add: e deliver_answer\<close>)
  moreover have "b = locked_by rx lck p" if "path_ok p m" "g"
    using pattern_loop_sound [OF that(1) assms, of LOCK_CHECKSUM DO_NOT_LOCK_CHECKSUM FAIL_REGEXP_LOCK_CHECKSUM rx] that(2)
    by (auto simp: g_def b_def match_checksum_lock_pattern_def locked_by_def codes_of_def split: option.splits)
  ultimately show ?thesis by blast
qed

text \<open>The report of an unavailable locked path, and the question for it.\<close>

lemma violation_question:
  assumes "sane s" "a \<noteq> FILE_ACCESS_ALLOWED"
  shows "\<exists>g v s'. ask (db_check_locked_unavailable_violation c rx m a) SUCCESS s
      = (g \<and> v, outcome g (halted s'), s') \<and> looked s s'
    \<and> (path_ok p m \<longrightarrow> g \<longrightarrow> v = locked_by rx (conf_lock_checksum_pcre_compiled c) p)"
proof -
  obtain g b where q: "ask (\<lambda>s. (path_check_locked_checksum rx s (conf_lock_checksum_pcre_compiled c) m, s)) SUCCESS s
      = (g \<and> b, outcome g (halted s), s)" "path_ok p m \<Longrightarrow> g \<Longrightarrow> b = locked_by rx (conf_lock_checksum_pcre_compiled c) p"
    using lock_question [OF assms(1), of rx "conf_lock_checksum_pcre_compiled c" m p] by blast
  let ?s = "if g \<and> b then s\<lparr>show_remembered_messages_at_exit := True\<rparr> else s"
  have "db_check_locked_unavailable_violation c rx m a s
      = provide (outcome g (halted ?s) OR (if g \<and> b then YES else NO)) ?s"
    using unavailable_result [OF assms] by (simp add: db_check_locked_unavailable_violation_def q(1))
  from ask_answer [where f = "db_check_locked_unavailable_violation c rx m a" and s = s and g = g
      and h = "halted ?s" and b = "g \<and> b" and s' = ?s, OF this] have "ask (db_check_locked_unavailable_violation c rx m a) SUCCESS s
      = (g \<and> g \<and> b, outcome g (halted ?s), ?s)" using assms(1) by simp
  moreover have "looked s ?s" using assms(1) by simp
  moreover have "path_ok p m \<longrightarrow> g \<longrightarrow> (g \<and> b) = locked_by rx (conf_lock_checksum_pcre_compiled c) p"
    using q(2) by blast
  ultimately show ?thesis by metis
qed

section \<open>The decision about a row\<close>

text \<open>
  What the three cases share: the row is deleted only when no lock pattern matches its path, and
  only when the file system refuses access or ignored rows are dropped.
\<close>

definition decision_ok ::
  "Config \<Rightarrow> regex_engine \<Rightarrow> bool \<Rightarrow> bytes \<Rightarrow> memory \<Rightarrow> app \<Rightarrow> ret \<times> app \<times> bool \<times> row_decision \<Rightarrow> bool" where
  "decision_ok c rx drops p m s result \<longleftrightarrow> (case result of (st, s', detected, decision) \<Rightarrow>
     looked s s' \<and> (\<exists>g h. st = outcome g h \<and> (h \<longrightarrow> halted s'))
     \<and> (decision = Leave_Loop \<longrightarrow> st \<noteq> SUCCESS)
     \<and> (decision = Delete_Row \<longrightarrow> st = SUCCESS \<and> (drops \<or> access_answers s \<noteq> []) \<and>
          (path_ok p m \<longrightarrow> \<not> locked_by rx (conf_lock_checksum_pcre_compiled c) p)))"

lemma outcome_exists [simp]:
  "(\<exists>g' h'. outcome g h = outcome g' h' \<and> (h' \<longrightarrow> Q)) \<longleftrightarrow> (h \<longrightarrow> Q)"
  by auto

lemma cleanup_visible_ok:
  assumes "sane s"
  shows "decision_ok c rx drops p m s (cleanup_visible c rx m SUCCESS s detected)"
proof -
  obtain a s1 where a: "check_access m s = (a, s1)" by (cases "check_access m s")
  have l1: "looked s s1" "sane s1" using looked_access [OF assms, of m] a by (simp_all add: looked_def later_def)
  show ?thesis
  proof (cases "a = FILE_ACCESS_ALLOWED")
    case True
    then show ?thesis using l1 by (auto simp: decision_ok_def cleanup_visible_def a simp flip: outcome_literals)
  next
    case False
    obtain g v s2 where q: "ask (db_check_locked_unavailable_violation c rx m a) SUCCESS s1
        = (g \<and> v, outcome g (halted s2), s2)" "looked s1 s2"
      "path_ok p m \<Longrightarrow> g \<Longrightarrow> v = locked_by rx (conf_lock_checksum_pcre_compiled c) p"
      using violation_question [OF l1(2) False, of c rx m p] by blast
    then show ?thesis
      using False looked_trans [OF l1(1) q(2)] access_granted [of s m] a
      by (auto simp: decision_ok_def cleanup_visible_def)
  qed
qed

lemma cleanup_ignored_ok:
  assumes "sane s"
  shows "decision_ok c rx drops p m s (cleanup_ignored c rx m SUCCESS s detected)"
proof -
  obtain g b where q: "ask (\<lambda>s. (path_check_locked_checksum rx s (conf_lock_checksum_pcre_compiled c) m, s)) SUCCESS s
      = (g \<and> b, outcome g (halted s), s)"
    using lock_question [OF assms, of rx "conf_lock_checksum_pcre_compiled c" m p] by blast
  obtain a s1 where a: "check_access m s = (a, s1)" by (cases "check_access m s")
  have l1: "looked s s1" "sane s1" using looked_access [OF assms, of m] a by (simp_all add: looked_def later_def)
  have h1: "halted s \<longrightarrow> halted s1" using l1(1) by (simp add: looked_def later_def)
  show ?thesis
  proof (cases "g \<and> b \<and> a \<noteq> FILE_ACCESS_ALLOWED \<and> \<not> halted s")
    case False
    have "ask f (outcome g True) s1 = (False, outcome g True, s1)" for f by (rule ask_skipped) simp
    then show ?thesis using False l1 h1 assms by (auto simp: decision_ok_def cleanup_ignored_def q a ex_bool_eq)
  next
    case True
    obtain g2 v s2 where v: "ask (db_check_locked_unavailable_violation c rx m a) SUCCESS s1
        = (g2 \<and> v, outcome g2 (halted s2), s2)" "looked s1 s2"
      using violation_question [OF l1(2), of a c rx m p] True by blast
    then show ?thesis
      using True looked_trans [OF l1(1) v(2)]
      by (auto simp: decision_ok_def cleanup_ignored_def q a outcome_literals)
  qed
qed

lemma cleanup_dropped_ok:
  assumes "sane s"
  shows "decision_ok c rx True p m s (cleanup_dropped c rx m SUCCESS s detected)"
proof -
  obtain g b where q: "ask (\<lambda>s. (path_check_locked_checksum rx s (conf_lock_checksum_pcre_compiled c) m, s)) SUCCESS s
      = (g \<and> b, outcome g (halted s), s)" "path_ok p m \<Longrightarrow> g \<Longrightarrow> b = locked_by rx (conf_lock_checksum_pcre_compiled c) p"
    using lock_question [OF assms, of rx "conf_lock_checksum_pcre_compiled c" m p] by blast
  obtain a s1 where a: "check_access m s = (a, s1)" by (cases "check_access m s")
  have l1: "looked s s1" "sane s1" using looked_access [OF assms, of m] a by (simp_all add: looked_def later_def)
  have h1: "halted s \<longrightarrow> halted s1" using l1(1) by (simp add: looked_def later_def)
  obtain s2 g2 h2 keep viol where r: "db_preserve_locked_ignored_record c rx m s
      = (fst (provide (outcome g2 h2 OR (if keep then YES else NO)) s2),
         snd (provide (outcome g2 h2 OR (if keep then YES else NO)) s2), viol)"
    "looked s s2" "h2 \<longrightarrow> halted s2" "g2 \<and> \<not> h2 \<and> \<not> keep \<longrightarrow> g \<and> \<not> b"
  proof (cases "g \<and> b")
    case False
    then show ?thesis
      using that [of g "halted s" False s False] assms
      by (auto simp: db_preserve_locked_ignored_record_def q(1) case_prod_beta)
  next
    case lk: True
    show ?thesis
    proof (cases "\<not> halted s \<and> a \<noteq> FILE_ACCESS_ALLOWED")
      case False
      then show ?thesis
        using that [of "g" "halted s" True s1 False] lk l1 h1
        by (auto simp: db_preserve_locked_ignored_record_def q(1) a case_prod_beta)
    next
      case True
      obtain g3 v s3 where v: "ask (db_check_locked_unavailable_violation c rx m a) SUCCESS s1
          = (g3 \<and> v, outcome g3 (halted s3), s3)" "looked s1 s3"
        using violation_question [OF l1(2), of a c rx m p] True by blast
      have "db_preserve_locked_ignored_record c rx m s
          = (fst (provide (outcome g3 (halted s3) OR (if g3 \<or> halted s3 then YES else NO)) s3),
             snd (provide (outcome g3 (halted s3) OR (if g3 \<or> halted s3 then YES else NO)) s3), g3 \<and> v)"
        using lk True v(1) by (simp add: db_preserve_locked_ignored_record_def q(1) a outcome_literals case_prod_beta)
      then show ?thesis
        using that [of g3 "halted s3" "g3 \<or> halted s3" s3 "g3 \<and> v"] looked_trans [OF l1(1) v(2)] by blast
    qed
  qed
  let ?ret = "provide (outcome g2 h2 OR (if keep then YES else NO)) s2"
  have sane2: "sane s2" using r(2) by (simp add: looked_def later_def)
  have "ask (\<lambda>_. ?ret) SUCCESS s = (g2 \<and> keep, outcome g2 (halted s2), s2)"
    by (rule ask_answer [OF _ sane2 r(3)]) simp
  then have "cleanup_dropped c rx m SUCCESS s detected
      = (if g2 \<and> keep then (outcome g2 (halted s2), s2, detected \<or> viol, Keep_Row)
         else (outcome g2 (halted s2), s2, detected, if outcome g2 (halted s2) \<noteq> SUCCESS then Leave_Loop else Delete_Row))"
    by (simp add: cleanup_dropped_def r(1))
  then show ?thesis
    using r(2-4) q(2) by (auto simp: decision_ok_def split: if_splits)
qed

section \<open>One row\<close>

text \<open>What the cleanup keeps of the rows, inside and outside its transaction.\<close>

definition clean_inv :: "(row list \<Rightarrow> bool) \<Rightarrow> app \<Rightarrow> bool" where
  "clean_inv P s \<longleftrightarrow> P (table s) \<and> P (committed s) \<and> (autocommit s \<longrightarrow> committed s = table s)"

lemma clean_inv_looked: "looked s s' \<Longrightarrow> clean_inv P s \<Longrightarrow> clean_inv P s'"
  by (simp add: looked_def clean_inv_def same_db_def)

lemma clean_inv_answer:
  assumes "sane s" "sql_answer s = (rc, s')" "clean_inv P s"
  shows "clean_inv P s' \<and> later s s' \<and> still_open s s' \<and> committed s' = committed s
    \<and> (rc \<noteq> Sql_Auto_Rollback \<longrightarrow> looked s s')"
  using sql_answer_later [OF assms(1,2)] assms(3) answer_access [of s] assms(2)
  by (auto simp: clean_inv_def same_db_def rolled_back_def looked_def still_open_def)

lemma write_table_frame [simp]:
  "sane (write_table f s) = sane s" "halted (write_table f s) = halted s"
  by (simp_all add: write_table_def Let_def)

lemma delete_result:
  assumes "sane s" "clean_inv P s" "\<forall>rows. P rows \<longrightarrow> P (sql_delete i rows)"
    and "conf_dry_run c \<or> \<not> autocommit s"
    and "db_delete_the_record_by_id c i s = (st, s')"
  shows "(\<exists>g. st = outcome g (halted s')) \<and> later s s' \<and> clean_inv P s' \<and> committed s' = committed s \<and> still_open s s'"
proof -
  obtain rc s1 where a: "sql_answer s = (rc, s1)" by (cases "sql_answer s")
  note ans = clean_inv_answer [OF assms(1) a assms(2)]
  have s1: "sane s1" using ans by (simp add: later_def)
  let ?s2 = "write_table (sql_delete i) s1\<lparr>db_primary_file_modified := True\<rparr>"
  have "rc = Sql_Done \<Longrightarrow> \<not> conf_dry_run c \<Longrightarrow> \<not> autocommit s1"
    using ans assms(4) by (simp add: looked_def same_db_def)
  then have s2: "rc = Sql_Done \<Longrightarrow> \<not> conf_dry_run c \<Longrightarrow>
      later s ?s2 \<and> clean_inv P ?s2 \<and> committed ?s2 = committed s \<and> still_open s ?s2"
    using ans assms(3) by (auto simp: clean_inv_def write_table_def Let_def later_def still_open_def)
  have "(st, s') = (if rc = Sql_Done \<and> (conf_dry_run c \<longrightarrow> i \<in> set (map row_ID (table s1)))
      then (outcome True (halted s1), if conf_dry_run c then s1 else ?s2) else (outcome False (halted s1), s1))"
    using assms(5) s1 by (auto simp: db_delete_the_record_by_id_def a Let_def split: if_splits)
  then show ?thesis
    using ans s2 by (auto split: if_splits)
qed

lemma copied_path:
  assumes "sane s" "\<not> halted s" "desc_ok m"
  obtains g m' where "run_out s SUCCESS (mem_copy_fixed_string s heap m (of_nat (length p + 1)) (External (p @ [0]))) m
      = (outcome g False, m')" "desc_ok m'"
    "g \<Longrightarrow> p \<noteq> [] \<Longrightarrow> length p + 1 < 2 ^ 64 \<Longrightarrow> path_ok p m'"
proof -
  have q: "quiet s" using sane_quiet [OF assms(1,2)] .
  have m: "valid m" "is_string m" "single_element_size m = 1" using assms(3) by (simp_all add: desc_ok_def)
  let ?n = "of_nat (length p + 1) :: u64"
  have le: "unat ?n \<le> length p + 1" by (simp only: unat_of_nat mod_less_eq_dividend)
  have n: "unat ?n = length p + 1" if "length p + 1 < 2 ^ 64"
    using that by (intro unat_of_nat_small) simp
  obtain t where t: "source_text m SOURCE_FIXED_STRING ?n (External (p @ [0])) = Some t"
    and tp: "length p + 1 < 2 ^ 64 \<Longrightarrow> t = p"
  proof (cases "?n = 0")
    case True
    then have "\<not> length p + 1 < 2 ^ 64" using n by auto
    then show ?thesis using that [of "[]"] True by (simp add: source_text_def)
  next
    case False
    have "source_text m SOURCE_FIXED_STRING ?n (External (p @ [0])) = Some (take (unat ?n - 1) (p @ [0]))"
      using False le m(3) by (simp add: source_text_def Let_def)
    moreover have "length p + 1 < 2 ^ 64 \<Longrightarrow> take (unat ?n - 1) (p @ [0]) = p"
      using n by simp
    ultimately show ?thesis using that by blast
  qed
  from mem_core_string_ok [OF q m(1,2) t, of heap TRANSFER_REPLACE] m(3)
  obtain st m' where r: "mem_copy_fixed_string s heap m ?n (External (p @ [0])) = (st, m')" "desc_ok m'"
    "st = SUCCESS \<and> visible_text m' = t \<or> st = FAILURE"
    by (auto simp: mem_copy_fixed_string_def desc_ok_def)
  have ok: "path_ok p m'" if "visible_text m' = p" "p \<noteq> []"
    using that r(2) by (auto simp: path_ok_def desc_ok_def valid_def visible_text_def split: option.splits)
  show ?thesis
    using that [of "st = SUCCESS" m'] r q ok tp by (auto simp: outcome_literals)
qed

text \<open>
  The rows a cleanup may remove: rows of paths that are not locked, and only when the file system
  refuses access or ignored rows are dropped.
\<close>

definition erasable :: "Config \<Rightarrow> regex_engine \<Rightarrow> row \<Rightarrow> app \<Rightarrow> bool" where
  "erasable c rx r s \<longleftrightarrow>
     (row_relative_path r \<noteq> [] \<and> length (row_relative_path r) + 1 < 2 ^ 64 \<longrightarrow>
        \<not> locked_by rx (conf_lock_checksum_pcre_compiled c) (row_relative_path r))
     \<and> (conf_ignore c \<and> conf_db_drop_ignored c \<or> access_answers s \<noteq> [])"

lemma erasable_before: "still_open s s' \<Longrightarrow> erasable c rx r s' \<Longrightarrow> erasable c rx r s"
  by (auto simp: erasable_def still_open_def)

lemma cleanup_row_result:
  assumes s: "sane s" "\<not> halted s" "clean_inv P s" "desc_ok m"
    and del: "erasable c rx r s \<longrightarrow> (\<forall>rows. P rows \<longrightarrow> P (sql_delete (row_ID r) rows))"
    and run: "cleanup_row c rx heap r SUCCESS s m detected = (st, s', m', detected', leave)"
  shows "later s s' \<and> clean_inv P s' \<and> desc_ok m' \<and> committed s' = committed s \<and> still_open s s'
    \<and> (\<exists>g h. st = outcome g h \<and> (h \<longrightarrow> halted s')) \<and> (leave \<longrightarrow> st \<noteq> SUCCESS)"
proof -
  let ?p = "row_relative_path r"
  have l0: "later s s" using s(1) by (simp add: later_def)
  obtain g m1 where cp: "run_out s SUCCESS (mem_copy_fixed_string s heap m (of_nat (length ?p + 1)) (External (?p @ [0]))) m
      = (outcome g False, m1)" "desc_ok m1" "g \<Longrightarrow> ?p \<noteq> [] \<Longrightarrow> length ?p + 1 < 2 ^ 64 \<Longrightarrow> path_ok ?p m1"
    by (rule copied_path [OF s(1,2,4), of heap ?p]) blast
  obtain g2 inc ign where fl: "match_include_ignore rx s (conf_include_pcre_compiled c)
      (conf_ignore_pcre_compiled c) m1 = (outcome g2 False, inc, ign)"
    using filters_status [OF s(1), of rx _ _ m1] s(2) by metis
  define ignored where "ignored \<longleftrightarrow> conf_ignore c \<and> ign"
  define d where "d = (if ignored \<and> \<not> conf_db_drop_ignored c then cleanup_ignored c rx m1 SUCCESS s detected
      else if ignored then cleanup_dropped c rx m1 SUCCESS s detected
      else cleanup_visible c rx m1 SUCCESS s detected)"
  obtain st1 s1 det1 dec where d: "d = (st1, s1, det1, dec)" by (cases d) auto
  have dok: "decision_ok c rx (conf_ignore c \<and> conf_db_drop_ignored c) ?p m1 s (st1, s1, det1, dec)"
    unfolding d [symmetric] d_def ignored_def
    using cleanup_ignored_ok [OF s(1)] cleanup_dropped_ok [OF s(1)] cleanup_visible_ok [OF s(1)]
    by (cases "conf_ignore c \<and> ign"; cases "conf_db_drop_ignored c") auto
  then have s1: "looked s s1" "\<exists>g h. st1 = outcome g h \<and> (h \<longrightarrow> halted s1)"
    "dec = Leave_Loop \<Longrightarrow> st1 \<noteq> SUCCESS" "dec = Delete_Row \<Longrightarrow> st1 = SUCCESS"
    by (simp_all add: decision_ok_def)
  have l1: "later s s1" "sane s1" "clean_inv P s1" "committed s1 = committed s" "still_open s s1"
    using s1(1) clean_inv_looked [OF s1(1) s(3)] by (simp_all add: looked_def later_def same_db_def)
  obtain st2 s2 where dl: "db_delete_the_record_by_id c (row_ID r) s1 = (st2, s2)"
    by (cases "db_delete_the_record_by_id c (row_ID r) s1")
  have dl_ok: "(\<exists>g. st2 = outcome g (halted s2)) \<and> later s s2 \<and> clean_inv P s2 \<and> committed s2 = committed s \<and> still_open s s2"
    if "g" "dec = Delete_Row" "conf_dry_run c \<or> \<not> autocommit s1"
  proof -
    have "erasable c rx r s"
      using dok cp(3) that(1,2) by (simp add: decision_ok_def erasable_def)
    then show ?thesis
      using delete_result [OF l1(2,3) _ that(3) dl] del l1(4) later_trans [OF l1(1)] still_open_trans [OF l1(5)]
      by metis
  qed
  consider (copy) "\<not> g" "(st, s', m', leave) = (outcome False False, s, m1, True)"
    | (pattern) "(st, s', m', leave) = (outcome False False, s, m1, True)"
    | (keep) "(st, s', m', leave) = (st1, s1, m1, False)"
    | (out) "(st, s', m', leave) = (st1, s1, m1, True)" "dec = Leave_Loop"
    | (ended) "(st, s', m', leave) = (outcome False False, s1, m1, True)"
    | (deleted) "g" "dec = Delete_Row" "conf_dry_run c \<or> \<not> autocommit s1"
        "(st, s', m', leave) = (st2, s2, m1, st2 \<noteq> SUCCESS)"
  proof -
    have ev: "(if \<not> g then (outcome g False, s, m1, detected, True)
        else if conf_ignore c \<and> \<not> g2 then (outcome g2 False, s, m1, detected, True)
        else if dec = Keep_Row then (st1, s1, m1, det1, False)
        else if dec = Leave_Loop then (st1, s1, m1, det1, True)
        else if \<not> conf_dry_run c \<and> autocommit s1 then (FAILURE, s1, m1, det1, True)
        else (st2, s2, m1, det1, st2 \<noteq> SUCCESS)) = (st, s', m', detected', leave)"
    proof (cases "conf_ignore c")
      case True
      have "(if ign \<and> \<not> conf_db_drop_ignored c then cleanup_ignored c rx m1 SUCCESS s detected
          else if ign then cleanup_dropped c rx m1 SUCCESS s detected
          else cleanup_visible c rx m1 SUCCESS s detected) = (st1, s1, det1, dec)"
        using d unfolding d_def ignored_def using True by (simp cong: if_cong)
      then show ?thesis
        using run dl True unfolding cleanup_row_def Let_def cp(1) fl prod.case
        by (cases g; cases g2) (simp_all add: outcome_literals cong: if_cong)
    next
      case False
      then have "cleanup_visible c rx m1 SUCCESS s detected = (st1, s1, det1, dec)"
        using d by (simp add: d_def ignored_def)
      then show ?thesis
        using run dl False unfolding cleanup_row_def Let_def cp(1) fl prod.case
        by (cases g) (simp_all add: outcome_literals cong: if_cong)
    qed
    show thesis
      using ev that by (cases dec) (auto split: if_splits simp: outcome_literals)
  qed
  then show ?thesis
  proof cases
    case copy
    then show ?thesis using l0 s(3) cp(2) by (auto simp: ex_bool_eq)
  next
    case pattern
    then show ?thesis using l0 s(3) cp(2) by (auto simp: ex_bool_eq)
  next
    case keep
    then show ?thesis using l1 s1(2) cp(2) by (auto simp: ex_bool_eq)
  next
    case out
    then show ?thesis using l1 s1(2,3) cp(2) by (auto simp: ex_bool_eq)
  next
    case ended
    then show ?thesis using l1 cp(2) by (auto simp: ex_bool_eq)
  next
    case deleted
    then show ?thesis using dl_ok cp(2) by auto
  qed
qed

section \<open>The loop\<close>

lemma cleanup_loop_result:
  assumes "sane s" "clean_inv P s" "desc_ok m" "st = outcome g h" "h \<longrightarrow> halted s"
    and "\<forall>r \<in> set rows. erasable c rx r s \<longrightarrow> (\<forall>rows. P rows \<longrightarrow> P (sql_delete (row_ID r) rows))"
    and "cleanup_loop c rx heap rows st s m detected = (st', s', m', detected', step)"
  shows "later s s' \<and> clean_inv P s' \<and> desc_ok m' \<and> committed s' = committed s \<and> still_open s s'
    \<and> (\<exists>g h. st' = outcome g h \<and> (h \<longrightarrow> halted s'))"
  using assms
proof (induction rows arbitrary: st g h s m detected)
  case Nil
  obtain rc s1 where a: "sql_answer s = (rc, s1)" by (cases "sql_answer s")
  have l0: "later s s" using Nil.prems(1) by (simp add: later_def)
  have "(st', s', m') = (st, s, m) \<or> (st', s', m') = (st, s1, m)"
    using Nil.prems(7) by (subst (asm) cleanup_loop.simps) (auto simp: a split: if_splits)
  then show ?case
    using clean_inv_answer [OF Nil.prems(1) a Nil.prems(2)] l0 Nil.prems(2-5)
    by (auto simp: later_def ex_bool_eq)
next
  case (Cons r rows)
  obtain rc s1 where a: "sql_answer s = (rc, s1)" by (cases "sql_answer s")
  note ans = clean_inv_answer [OF Cons.prems(1) a Cons.prems(2)]
  have s1: "sane s1" "clean_inv P s1" "later s s1" "committed s1 = committed s"
    using ans by (simp_all add: later_def)
  have l0: "later s s" using Cons.prems(1) by (simp add: later_def)
  have op1: "still_open s s1" using ans by simp
  have del: "erasable c rx r s1 \<longrightarrow> (\<forall>rows. P rows \<longrightarrow> P (sql_delete (row_ID r) rows))"
    using Cons.prems(6) erasable_before [OF op1, of c rx r] by (meson list.set_intros(1))
  obtain st2 s2 m2 det2 leave where row: "cleanup_row c rx heap r SUCCESS s1 m detected = (st2, s2, m2, det2, leave)"
    by (cases "cleanup_row c rx heap r SUCCESS s1 m detected") auto
  have ev: "(if st \<noteq> SUCCESS then (st, s, m, detected, Step_Row)
      else if rc \<noteq> Sql_Done then (st, s1, m, detected, Step_Error)
      else if halted s1 then (st, s1, m, detected, Step_Row)
      else if leave then (st2, s2, m2, det2, Step_Row)
      else cleanup_loop c rx heap rows st2 s2 m2 det2) = (st', s', m', detected', step)"
    using Cons.prems(7) row
    by (cases "st = SUCCESS"; subst (asm) cleanup_loop.simps) (simp_all add: a cong: if_cong)
  consider (before) "(st', s', m') = (st, s, m)" | (ended) "(st', s', m') = (st, s1, m)"
    | (left) "\<not> halted s1" "(st', s', m') = (st2, s2, m2)"
    | (more) "\<not> halted s1" "cleanup_loop c rx heap rows st2 s2 m2 det2 = (st', s', m', detected', step)"
    using ev by (auto split: if_splits)
  then show ?case
  proof cases
    case before
    then show ?thesis using l0 Cons.prems(2-5) by (auto simp: ex_bool_eq)
  next
    case ended
    then show ?thesis using s1 ans Cons.prems(3-5) by (auto simp: later_def ex_bool_eq)
  next
    case left
    from cleanup_row_result [OF s1(1) left(1) s1(2) Cons.prems(3) del row]
    have "later s1 s2 \<and> clean_inv P s2 \<and> desc_ok m2 \<and> committed s2 = committed s1 \<and> still_open s1 s2
      \<and> (\<exists>g h. st2 = outcome g h \<and> (h \<longrightarrow> halted s2))" by simp
    then show ?thesis
      using left(2) later_trans [OF s1(3)] s1(4) still_open_trans [OF op1] by auto
  next
    case more
    from cleanup_row_result [OF s1(1) more(1) s1(2) Cons.prems(3) del row]
    obtain g2 h2 where r: "later s1 s2" "clean_inv P s2" "desc_ok m2" "committed s2 = committed s1"
      "st2 = outcome g2 h2" "h2 \<longrightarrow> halted s2" "still_open s1 s2" by auto
    have op2: "still_open s s2" using still_open_trans [OF op1 r(7)] .
    have "\<forall>r \<in> set rows. erasable c rx r s2 \<longrightarrow> (\<forall>rows. P rows \<longrightarrow> P (sql_delete (row_ID r) rows))"
      using Cons.prems(6) erasable_before [OF op2] by (meson list.set_intros(2))
    note rest = this
    have "sane s2" using r(1) by (simp add: later_def)
    from Cons.IH [OF this r(2,3,5,6) rest more(2)]
    have "later s2 s' \<and> clean_inv P s' \<and> desc_ok m' \<and> committed s' = committed s2 \<and> still_open s2 s'
      \<and> (\<exists>g h. st' = outcome g h \<and> (h \<longrightarrow> halted s'))" .
    then show ?thesis
      using later_trans [OF s1(3) later_trans [OF r(1)]] s1(4) r(4) still_open_trans [OF op2] by auto
  qed
qed

section \<open>The transaction of the cleanup\<close>

lemma cleanup_begin_result:
  assumes "sane s" "clean_inv P s" "autocommit s" "cleanup_begin c SUCCESS s = (st, s')"
  shows "later s s' \<and> clean_inv P s' \<and> committed s' = committed s \<and> table s' = table s \<and> still_open s s'
    \<and> (st = SUCCESS \<and> (autocommit s' \<longleftrightarrow> conf_dry_run c) \<or> st = FAILURE \<and> autocommit s')"
proof -
  obtain rc s1 where a: "sql_answer s = (rc, s1)" by (cases "sql_answer s")
  have k: "later s s1" "same_db s s1"
    using sql_answer_later [OF assms(1) a] assms(3) by (auto simp: rolled_back_def)
  then have l: "looked s s1"
    using answer_access [of s] a by (simp add: looked_def still_open_def)
  then have s1: "clean_inv P s1" "committed s1 = committed s" "autocommit s1" "sane s1"
    using clean_inv_looked [OF l assms(2)] assms(3) by (simp_all add: looked_def same_db_def later_def)
  then have "clean_inv P (s1\<lparr>autocommit := False\<rparr>)" by (simp add: clean_inv_def)
  moreover have "(st, s') = (if conf_dry_run c then (SUCCESS, s)
      else if rc \<noteq> Sql_Done then (FAILURE, s1) else (SUCCESS, s1\<lparr>autocommit := False\<rparr>))"
    using assms(4) s1(3) by (simp add: cleanup_begin_def a split: if_splits)
  ultimately show ?thesis
    using k s1 l assms by (auto simp: later_def looked_def still_open_def same_db_def split: if_splits)
qed

text \<open>The end of the transaction: all deletions are durable, or none is.\<close>

lemma cleanup_end_result:
  assumes "sane s" "clean_inv P s" "st = outcome g h" "h \<longrightarrow> halted s"
    and "(\<lambda>(st, s). cleanup_rollback st s) (cleanup_commit st s) = (st', s')"
  shows "later s s' \<and> clean_inv P s'
    \<and> (\<exists>g h. st' = outcome g h \<and> (h \<longrightarrow> halted s'))
    \<and> (\<not> has FAILURE st' \<longrightarrow> committed s' = table s' \<and> autocommit s' \<and> \<not> has FAILURE st)
    \<and> (has FAILURE st' \<longrightarrow> committed s' = committed s)"
proof -
  obtain rc s1 where a: "sql_answer s = (rc, s1)" by (cases "sql_answer s")
  note ans = clean_inv_answer [OF assms(1) a assms(2)]
  have l0: "later s s" using assms(1) by (simp add: later_def)
  let ?c = "s1\<lparr>committed := table s1, autocommit := True\<rparr>"
  obtain st1 s2 where k: "cleanup_commit st s = (st1, s2)" by (cases "cleanup_commit st s")
  have fo: "FAILURE = outcome False False" by (simp add: outcome_literals)
  have k': "(st1, s2) = (if g then if rc \<noteq> Sql_Done \<or> autocommit s1 then (FAILURE, s1) else (st, ?c) else (st, s))"
    using k assms(3) by (auto simp: cleanup_commit_def a split: if_splits)
  have cm: "(g \<and> st1 = st \<and> s2 = ?c) \<or> (\<exists>h. st1 = outcome False h \<and> (h \<longrightarrow> halted s2))
      \<and> later s s2 \<and> clean_inv P s2 \<and> committed s2 = committed s"
  proof (cases g)
    case True
    then show ?thesis
      using k' ans unfolding fo by (cases "rc \<noteq> Sql_Done \<or> autocommit s1") (auto simp: ex_bool_eq)
  next
    case False
    then show ?thesis using k' l0 assms(2-4) by (auto simp: ex_bool_eq)
  qed
  have c: "later s ?c" "clean_inv P ?c" using ans by (auto simp: later_def clean_inv_def)
  have r: "cleanup_rollback st1 s2 = (st', s')" using assms(5) k by simp
  from cm show ?thesis
  proof (elim disjE)
    assume good: "g \<and> st1 = st \<and> s2 = ?c"
    then have "st' = st" "s' = ?c" using r by (simp_all add: cleanup_rollback_def)
    then show ?thesis using c good assms(3,4) ans by (auto simp: later_def ex_bool_eq)
  next
    assume bad: "(\<exists>h. st1 = outcome False h \<and> (h \<longrightarrow> halted s2))
      \<and> later s s2 \<and> clean_inv P s2 \<and> committed s2 = committed s"
    then obtain h2 where h2: "st1 = outcome False h2" "h2 \<longrightarrow> halted s2" by blast
    have s2: "sane s2" using bad by (simp add: later_def)
    obtain rc3 s3 where a3: "sql_answer s2 = (rc3, s3)" by (cases "sql_answer s2")
    note ans3 = clean_inv_answer [OF s2 a3 conjunct1 [OF conjunct2 [OF conjunct2 [OF bad]]]]
    let ?r = "s3\<lparr>table := committed s3, autocommit := True\<rparr>"
    have "(st', s') = (if autocommit s2 then (st1, s2) else if rc3 \<noteq> Sql_Done
        then (outcome False False, s3) else (st1, ?r))"
      using r by (simp add: cleanup_rollback_def a3 outcome_literals split: if_splits)
    moreover have "later s s3" "later s ?r" "clean_inv P ?r" "h2 \<longrightarrow> halted s3"
      using ans3 bad h2(2) later_trans [of s s2 s3] by (auto simp: later_def clean_inv_def)
    ultimately show ?thesis
      using bad h2 ans3 by (auto simp: ex_bool_eq split: if_splits)
  qed
qed

section \<open>The cleanup\<close>

lemma provide_same: "sane s \<Longrightarrow> snd (provide w s) = s"
  by (simp add: provide_def rational_normalize_return_def Let_def sane_def case_prod_beta)

lemma call_same: "sane s \<Longrightarrow> snd (call (\<lambda>s. (x s, s)) w s) = s"
  by (simp add: call_def rational_normalize_return_def Let_def sane_def)

lemma run_same: "sane s \<Longrightarrow> sane s' \<Longrightarrow> snd (run (\<lambda>_. (x, s')) SUCCESS s) = s'"
  by (simp add: run_def rational_normalize_return_def Let_def sane_def case_prod_beta)

lemma release_same: "sane s \<Longrightarrow> snd (cleanup_release m1 m2 w s) = s"
  by (simp add: cleanup_release_def case_prod_beta call_same)

lemma delete_answer:
  assumes "sane s" "desc_ok m"
  shows "fst (mem_delete s m) = outcome True (halted s)"
proof -
  have m: "single_element_size m = 1" "\<not> (mlength m > 0 \<and> data m = None)"
    using assms(2) by (auto simp: desc_ok_def valid_def reserved_def split: option.splits)
  have "\<not> mlength m > SIZE_MAX div single_element_size m" using m(1) lt_word_max [of "mlength m"] by (simp add: SIZE_MAX_def not_less word_le_nat_alt)
  then have "mem_guarded_byte_size s m (mlength m) 0 = (outcome True (halted s), mlength m)"
    using m(1) assms(1) by (simp add: mem_guarded_byte_size_def Let_def)
  then show ?thesis
    using m(2) assms(1) run_outcome [of "\<lambda>s'. (outcome True (halted s), s')" s True "halted s" s True False]
    by (auto simp: mem_delete_def run_out_def outcome_literals Let_def split: if_splits)
qed

lemma release_result:
  assumes "sane s" "desc_ok m1" "desc_ok m2" "h \<longrightarrow> halted s"
  shows "cleanup_release m1 m2 (outcome g h) s = (outcome g (halted s), s)"
proof -
  have c: "call (\<lambda>s. (fst (mem_delete s m), s)) (outcome g h) s = (outcome g (halted s), s)"
    if "desc_ok m" "h \<longrightarrow> halted s" for m g h
    using call_outcome [of "\<lambda>s. (fst (mem_delete s m), s)" s True "halted s" s h g]
      delete_answer [OF assms(1) that(1)] that(2) assms(1) by simp
  show ?thesis unfolding cleanup_release_def using c [OF assms(2,4)] c [OF assms(3)] by simp
qed

text \<open>Reading the stored root: without an open transaction the database does not change.\<close>

lemma root_read_result:
  assumes "sane s" "autocommit s"
    and "db_retrieve_root_path heap prefixes (mem_init 1 True) s = (st, s1, m)"
  shows "looked s s1" and "\<not> halted s1 \<Longrightarrow> desc_ok m"
proof -
  obtain rc s0 where a: "sql_answer s = (rc, s0)" by (cases "sql_answer s")
  have l: "looked s s0"
    using sql_answer_later [OF assms(1) a] assms(2) answer_access [of s] a
    by (auto simp: looked_def still_open_def rolled_back_def)
  then have s0: "sane s0" by (simp add: looked_def later_def)
  have s1: "s1 = s0"
    using assms(3) provide_same [OF s0]
    by (auto simp: db_retrieve_root_path_def a case_prod_beta Let_def)
  show "looked s s1" using l s1 by simp
  assume nh: "\<not> halted s1"
  have q: "quiet s0" using sane_quiet s0 nh s1 by blast
  have d0: "desc_ok (mem_init 1 True)" by (simp add: desc_ok_def) (simp add: mem_init_def)
  have cp: "desc_ok (snd (mem_copy_fixed_string s0 heap (mem_init 1 True) (of_nat (length p + 1)) (External (p @ [0]))))" for p
  proof -
    obtain g m' where "run_out s0 SUCCESS (mem_copy_fixed_string s0 heap (mem_init 1 True)
        (of_nat (length p + 1)) (External (p @ [0]))) (mem_init 1 True) = (outcome g False, m')" "desc_ok m'"
      by (rule copied_path [OF s0 _ d0, of heap p]) (use nh s1 in auto)
    then show ?thesis by (auto simp: run_out_def prod_eq_iff)
  qed
  show "desc_ok m"
    using assms(3) cp d0
    by (auto simp: db_retrieve_root_path_def a case_prod_beta Let_def split: list.splits option.splits if_splits)
qed

lemma run_not_clean:
  assumes "sane s1" "halted s1"
  shows "fst (run (\<lambda>_. (ret, s1)) SUCCESS s) \<noteq> SUCCESS"
proof -
  have "has HALTED (fst (rational_normalize_return w s1)) \<or> has FAILURE (fst (rational_normalize_return w s1))" for w
    using assms by (simp add: rational_normalize_return_def Let_def sane_def bit_or_iff bit_and_iff)
  moreover have "\<not> has HALTED SUCCESS" "\<not> has FAILURE SUCCESS" "FAILURE \<noteq> SUCCESS" by simp_all
  ultimately have "fst (rational_normalize_return w s1) \<noteq> SUCCESS" for w by metis
  then show ?thesis by (simp add: run_def Let_def)
qed

text \<open>With \<open>--dry-run\<close> the cleanup leaves the database alone.\<close>

lemma question_view:
  "db_view (snd (snd (ask (\<lambda>s. (path_check_locked_checksum rx s lck m, s)) w s))) = db_view s"
  "db_view (snd (db_check_locked_unavailable_violation c rx m a s)) = db_view s"
proof -
  show q: "db_view (snd (snd (ask (\<lambda>s. (path_check_locked_checksum rx s lck m, s)) w s))) = db_view s" for w s lck
    by (simp add: ask_view)
  have "db_view (snd (show_locked_checksum_unavailable_violation a s)) = db_view s" for s
    by (simp add: show_locked_checksum_unavailable_violation_def)
  then show "db_view (snd (db_check_locked_unavailable_violation c rx m a s)) = db_view s"
    using q by (simp add: db_check_locked_unavailable_violation_def case_prod_beta Let_def)
qed

lemma violation_view:
  "db_view (snd (snd (ask (db_check_locked_unavailable_violation c rx m a) w s))) = db_view s"
  by (rule ask_view) (rule question_view)

lemma preserve_view: "db_view (fst (snd (db_preserve_locked_ignored_record c rx m s))) = db_view s"
  using question_view(1) violation_view
  by (simp add: db_preserve_locked_ignored_record_def case_prod_beta Let_def)

lemma decision_view:
  "db_view (fst (snd (cleanup_visible c rx m w s d))) = db_view s"
  "db_view (fst (snd (cleanup_ignored c rx m w s d))) = db_view s"
  "db_view (fst (snd (cleanup_dropped c rx m w s d))) = db_view s"
proof -
  show "db_view (fst (snd (cleanup_visible c rx m w s d))) = db_view s"
    using violation_view by (simp add: cleanup_visible_def case_prod_beta Let_def)
  show "db_view (fst (snd (cleanup_ignored c rx m w s d))) = db_view s"
    using violation_view question_view(1) by (simp add: cleanup_ignored_def case_prod_beta Let_def)
  have "db_view (snd (snd (ask (\<lambda>_. (r, fst (snd (db_preserve_locked_ignored_record c rx m s)))) w s))) = db_view s" for r
    using preserve_view by (simp add: ask_def rational_ask_def case_prod_beta Let_def)
  then show "db_view (fst (snd (cleanup_dropped c rx m w s d))) = db_view s"
    by (simp add: cleanup_dropped_def case_prod_beta Let_def)
qed

lemma cleanup_row_view:
  assumes "conf_dry_run c" "idle (db_view s)"
  shows "db_view (fst (snd (cleanup_row c rx heap r w s m d))) = db_view s"
proof -
  have del: "db_view (snd (db_delete_the_record_by_id c i s')) = db_view s'" if "idle (db_view s')" for i s'
    using assms(1) that by (simp add: db_delete_the_record_by_id_def case_prod_beta Let_def)
  have "db_view (snd (db_delete_the_record_by_id c i (fst (snd (cleanup_visible c rx m' w' s d'))))) = db_view s"
    "db_view (snd (db_delete_the_record_by_id c i (fst (snd (cleanup_ignored c rx m' w' s d'))))) = db_view s"
    "db_view (snd (db_delete_the_record_by_id c i (fst (snd (cleanup_dropped c rx m' w' s d'))))) = db_view s"
    for i m' w' d'
    using del [of "fst (snd (cleanup_visible c rx m' w' s d'))"] del [of "fst (snd (cleanup_ignored c rx m' w' s d'))"]
      del [of "fst (snd (cleanup_dropped c rx m' w' s d'))"] decision_view assms(2) by simp_all
  then show ?thesis using decision_view by (simp add: cleanup_row_def case_prod_beta Let_def)
qed

lemma cleanup_loop_view:
  assumes "conf_dry_run c"
  shows "idle (db_view s) \<Longrightarrow> db_view (fst (snd (cleanup_loop c rx heap rows w s m d))) = db_view s"
proof (induction rows arbitrary: w s m d)
  case Nil
  then show ?case by (subst cleanup_loop.simps) (simp add: case_prod_beta Let_def)
next
  case (Cons r rows)
  let ?s = "snd (sql_answer s)"
  have v: "db_view ?s = db_view s" "idle (db_view ?s)" using Cons.prems by simp_all
  have row: "db_view (fst (snd (cleanup_row c rx heap r w ?s m d))) = db_view s" for w
    using cleanup_row_view [OF assms v(2)] v(1) by simp
  then have "idle (db_view (fst (snd (cleanup_row c rx heap r w ?s m d))))" for w using Cons.prems by simp
  note ih = Cons.IH [OF this]
  show ?case by (subst cleanup_loop.simps) (use v row ih in \<open>simp add: case_prod_beta Let_def\<close>)
qed

lemma cleanup_dry_view:
  assumes "conf_dry_run c" "idle (db_view s)"
  shows "db_view (snd (db_delete_missing_metadata c rx heap prefixes opened closed s)) = db_view s"
proof -
  let ?rd = "db_retrieve_root_path heap prefixes (mem_init 1 True) s"
  have rd: "db_view (fst (snd ?rd)) = db_view s"
    using assms(2) by (simp add: db_retrieve_root_path_def case_prod_beta Let_def)
  let ?s1 = "snd (run (\<lambda>_. (fst ?rd, fst (snd ?rd))) SUCCESS s)"
  have s1: "db_view ?s1 = db_view s" using rd by (intro run_view) simp
  have op: "db_view (snd (directory_open_root opened s')) = db_view s'" for s'
    by (simp add: directory_open_root_def Let_def split: option.split)
  have rel: "db_view (snd (cleanup_release m1 m2 w s')) = db_view s'" for m1 m2 w s'
  proof -
    have c: "db_view (snd (call (\<lambda>s. (x s, s)) w s')) = db_view s'" for x w s' by (rule call_view) simp
    show ?thesis unfolding cleanup_release_def case_prod_beta Let_def using c by simp
  qed
  have beg: "cleanup_begin c w s' = (w, s')" for w s' using assms(1) by (simp add: cleanup_begin_def)
  have loop: "db_view (fst (snd (cleanup_loop c rx heap rows w s' m d))) = db_view s" if "db_view s' = db_view s"
    for rows w s' m d
    using cleanup_loop_view [OF assms(1), of s'] that assms(2) by simp
  have ans: "db_view (snd (sql_answer s')) = db_view s" if "db_view s' = db_view s" for s'
    using answer_view [of s'] that assms(2) by simp
  show ?thesis
    using assms(1) s1 op rel beg loop ans
    by (simp add: db_delete_missing_metadata_def case_prod_beta Let_def)
qed

lemma cleanup_result:
  assumes s: "sane s" "clean_inv P s" "autocommit s" "\<not> file_transaction_active s"
    and del: "\<forall>r \<in> set (table s). erasable c rx r s \<longrightarrow> (\<forall>rows. P rows \<longrightarrow> P (sql_delete (row_ID r) rows))"
    and run: "db_delete_missing_metadata c rx heap prefixes opened closed s = (st, s')"
  shows "later s s' \<and> clean_inv P s'
    \<and> (\<not> has FAILURE st \<longrightarrow> committed s' = table s') \<and> (has FAILURE st \<longrightarrow> committed s' = committed s)"
proof -
  have c0: "committed s = table s" using s(2,3) by (simp add: clean_inv_def)
  have still: ?thesis if "looked s s'"
    using that clean_inv_looked [OF that s(2)] c0 by (simp add: looked_def same_db_def)
  obtain ret s1 root where rd: "db_retrieve_root_path heap prefixes (mem_init 1 True) s = (ret, s1, root)"
    by (cases "db_retrieve_root_path heap prefixes (mem_init 1 True) s") auto
  note rr = root_read_result [OF s(1,3) rd]
  have sane1: "sane s1" using rr(1) by (simp add: looked_def later_def)
  obtain st1 where r1: "run (\<lambda>_. (ret, s1)) SUCCESS s = (st1, s1)"
    using run_same [OF s(1) sane1, of ret] by (metis prod.collapse)
  obtain a s2 where op: "(if st1 = SUCCESS then directory_open_root opened s1 else (FILE_ACCESS_ERROR, s1)) = (a, s2)"
    by fastforce
  have l2: "looked s s2"
  proof -
    have "looked s1 (tick s1)" using tick_later [OF sane1] by (simp add: looked_def still_open_def)
    then have "looked s1 s2"
      using op sane1 by (auto simp: directory_open_root_def Let_def split: if_splits option.splits)
    then show ?thesis by (rule looked_trans [OF rr(1)])
  qed
  have s2: "sane s2" "clean_inv P s2" "autocommit s2" "table s2 = table s" "committed s2 = committed s" "later s s2"
    using l2 clean_inv_looked [OF l2 s(2)] s(3) by (simp_all add: looked_def later_def same_db_def)
  note body = run [unfolded db_delete_missing_metadata_def Let_def rd prod.case r1 op]
  show ?thesis
  proof (cases "halted s \<or> conf_compare c \<or> \<not> conf_update c")
    case True
    then have "snd (provide SUCCESS s) = s'" using body by (auto split: if_splits)
    then show ?thesis using still s(1) provide_same [OF s(1)] by simp
  next
    case go: False
    show ?thesis
    proof (cases "a = FILE_ACCESS_ALLOWED")
      case False
      then have "s' = snd (provide (fst (cleanup_release (mem_init 1 True) root st1 s2))
          (snd (cleanup_release (mem_init 1 True) root st1 s2)))"
        using body go by (auto simp: case_prod_beta)
      then have "s' = s2" using release_same [OF s2(1)] provide_same [OF s2(1)] by simp
      then show ?thesis using still l2 by simp
    next
      case opened: True
      then have st1: "st1 = SUCCESS" using op by (auto split: if_splits)
      have root: "desc_ok root"
        using rr(2) run_not_clean [OF sane1] r1 st1 by (metis fst_conv)
      obtain st3 s3 where b: "cleanup_begin c SUCCESS s2 = (st3, s3)" by (cases "cleanup_begin c SUCCESS s2")
      note br = cleanup_begin_result [OF s2(1-3) b]
      obtain prep s4 where pr: "(if st3 = SUCCESS then sql_answer s3 else (Sql_Done, s3)) = (prep, s4)" by fastforce
      have s3: "sane s3" "clean_inv P s3" "later s s3" "committed s3 = committed s" "still_open s s3"
        using br s2 later_trans [OF s2(6)] still_open_trans [of s s2 s3] l2
        by (auto simp: later_def looked_def)
      have s4: "sane s4" "clean_inv P s4" "later s s4" "committed s4 = committed s" "still_open s s4"
        "table s4 = table s"
      proof -
        obtain rc s' where a3: "sql_answer s3 = (rc, s')" by (cases "sql_answer s3")
        note ans = clean_inv_answer [OF s3(1) a3 s3(2)]
        have "table s' = table s3 \<or> table s' = committed s3"
          using sql_answer_later [OF s3(1) a3] by (auto simp: same_db_def rolled_back_def)
        moreover have "s4 = s3 \<or> s4 = s'" using pr a3 by (auto split: if_splits)
        ultimately show "sane s4" "clean_inv P s4" "later s s4" "committed s4 = committed s"
          "still_open s s4" "table s4 = table s"
          using ans s3 br s2(4) c0 later_trans [OF s3(3)] still_open_trans [OF s3(5)]
          by (auto simp: later_def)
      qed
      let ?st4 = "if prep \<noteq> Sql_Done then FAILURE else st3"
      have "?st4 = SUCCESS \<or> ?st4 = FAILURE" using br by auto
      then obtain g4 where st4: "?st4 = outcome g4 False" by (metis outcome_literals(1,2))
      obtain st5 s5 m5 det step where lp: "cleanup_loop c rx heap (table s4) ?st4 s4 (mem_init 1 True) False
          = (st5, s5, m5, det, step)"
        by (cases "cleanup_loop c rx heap (table s4) ?st4 s4 (mem_init 1 True) False") auto
      have d0: "desc_ok (mem_init 1 True)" by (simp add: desc_ok_def) (simp add: mem_init_def)
      have del4: "\<forall>r \<in> set (table s4). erasable c rx r s4 \<longrightarrow> (\<forall>rows. P rows \<longrightarrow> P (sql_delete (row_ID r) rows))"
        using del erasable_before [OF s4(5)] s4(6) by metis
      have hf: "False \<longrightarrow> halted s4" by simp
      note lr = cleanup_loop_result [OF s4(1,2) d0 st4 hf del4 lp]
      then have s5: "sane s5" "clean_inv P s5" "later s s5" "committed s5 = committed s" "desc_ok m5"
        using later_trans [OF s4(3)] s4(4) by (auto simp: later_def)
      define st6 where "st6 = (if \<not> closed then FAILURE
        else if (if st5 = SUCCESS \<and> step \<noteq> Step_Done \<and> \<not> halted s5 then FAILURE else st5) = SUCCESS
            \<and> step = Step_Error then FAILURE
        else if st5 = SUCCESS \<and> step \<noteq> Step_Done \<and> \<not> halted s5 then FAILURE else st5)"
      have "st6 = FAILURE \<or> st6 = st5" by (simp add: st6_def)
      then obtain g6 h6 where st6: "st6 = outcome g6 h6" "h6 \<longrightarrow> halted s5"
        using lr by (metis outcome_literals(2))
      obtain st7 s7 where e7: "(if \<not> conf_dry_run c then (\<lambda>(st, s). cleanup_rollback st s) (cleanup_commit st6 s5)
          else (st6, s5)) = (st7, s7)"
        by fastforce
      have conds: "halted s = False" "conf_compare c = False" "conf_update c = True" using go by simp_all
      have tail: "(case cleanup_release m5 root st7 s7 of
          (st, s) \<Rightarrow> provide (if det \<and> st = SUCCESS then WARNING else st) s) = (st, s')"
        using body
        unfolding conds opened st1 b prod.case pr lp e7 [unfolded st6_def] simp_thms if_True if_False .
      show ?thesis
      proof (cases "conf_dry_run c")
        case True
        have "db_view s' = db_view s"
          using cleanup_dry_view [OF True, of s rx heap prefixes opened closed] s(3,4) run by simp
        then have same: "table s' = table s" "committed s' = committed s" "autocommit s'"
          using s(3) by (simp_all add: db_view_def)
        have "s7 = s5" using e7 True by simp
        then have "s' = s5"
          using tail release_same [OF s5(1), of m5 root st7] provide_same [OF s5(1)]
          by (auto simp: case_prod_beta dest: arg_cong [of _ _ snd])
        then show ?thesis using same s(2,3) c0 s5(3) by (simp add: clean_inv_def)
      next
        case False
        have e7': "(\<lambda>(st, s). cleanup_rollback st s) (cleanup_commit st6 s5) = (st7, s7)" using e7 False by simp
        note er = cleanup_end_result [OF s5(1,2) st6 e7']
        then obtain g7 h7 where st7: "st7 = outcome g7 h7" "h7 \<longrightarrow> halted s7" by blast
        have s7: "sane s7" "later s s7" "clean_inv P s7"
          using er later_trans [OF s5(3)] by (auto simp: later_def)
        let ?w = "if det \<and> outcome g7 (halted s7) = SUCCESS then WARNING else outcome g7 (halted s7)"
        have pv: "provide ?w s7 = (st, s')"
          using tail release_result [OF s7(1) s5(5) root st7(2), of g7] st7(1) by simp
        then have "s' = s7" using provide_same [OF s7(1), of ?w] by (metis snd_conv)
        moreover have "has FAILURE st \<longleftrightarrow> has FAILURE st7"
          using pv warning_provided(2) [OF s7(1)] s7(1) st7(1) by (auto split: if_splits)
        ultimately show ?thesis using er s7(2,3) s5(4) by auto
      qed
    qed
  qed
qed

end
