(* ===== verification/Cleanup_Complete.thy ===== *)
theory Cleanup_Complete
  imports Cleanup_Correct
begin

text \<open>
  The cleanup when nothing disturbs it: no signal arrives, SQLite executes every statement and the
  allocator serves every request.  Then the rows that are left are exactly those the options keep.
\<close>

section \<open>Calm states\<close>

definition calm :: "app \<Rightarrow> bool" where
  "calm s \<longleftrightarrow> sane s \<and> \<not> halted s \<and> signals s = [] \<and> sql_answers s = []"

lemma calm_steps [simp]:
  "calm s \<Longrightarrow> tick s = s" "calm s \<Longrightarrow> sql_answer s = (Sql_Done, s)"
  by (simp_all add: calm_def tick_def sql_answer_def)

lemma calm_sane: "calm s \<Longrightarrow> sane s" "calm s \<Longrightarrow> \<not> halted s" "calm s \<Longrightarrow> quiet s"
  using sane_quiet [of s] by (simp_all add: calm_def)

lemma calm_updates [simp]:
  "calm (s\<lparr>access_answers := as\<rparr>) = calm s" "calm (s\<lparr>table := rows\<rparr>) = calm s"
  "calm (s\<lparr>committed := rows\<rparr>) = calm s" "calm (s\<lparr>autocommit := b\<rparr>) = calm s"
  "calm (s\<lparr>show_remembered_messages_at_exit := b\<rparr>) = calm s"
  "calm (s\<lparr>db_primary_file_modified := b\<rparr>) = calm s" "calm (write_table f s) = calm s"
  by (simp_all add: calm_def sane_def write_table_def Let_def)

lemma calm_access:
  "calm s \<Longrightarrow> access_answers s = a # as \<Longrightarrow>
     check_access m s = (file_check_access (Some (mem_string m)) a, s\<lparr>access_answers := as\<rparr>)"
  by (simp add: check_access_def faccessat_def split: list.split)

lemma calm_copy:
  assumes "calm s" "desc_ok m" "\<forall>bytes. heap bytes \<noteq> None" "length p + 4096 < 2 ^ 64"
  obtains m' where "mem_copy_fixed_string s heap m (of_nat (length p + 1)) (External (p @ [0])) = (SUCCESS, m')"
    "desc_ok m'" "visible_text m' = p"
proof -
  have q: "quiet s" using assms(1) by (rule calm_sane)
  have m: "valid m" "is_string m" "single_element_size m = 1" using assms(2) by (simp_all add: desc_ok_def)
  let ?n = "of_nat (length p + 1) :: u64"
  have n: "unat ?n = length p + 1" using assms(4) by (intro unat_of_nat_small) simp
  have "?n \<noteq> 0" using n by (metis Suc_eq_plus1 nat.distinct(1) unat_0)
  then have t: "source_text m SOURCE_FIXED_STRING ?n (External (p @ [0])) = Some p"
    using m(3) n by (simp add: source_text_def Let_def)
  show ?thesis
    using mem_core_string_ok [OF q m(1,2) t, of heap TRANSFER_REPLACE] m(3) assms(3,4) that
    by (auto simp: mem_copy_fixed_string_def desc_ok_def enough_def)
qed

lemma calm_warning:
  assumes "calm s"
  shows "provide WARNING s = (WARNING, s)"
proof -
  have g: "global_return_status s = SUCCESS" using assms by (simp add: calm_def sane_def)
  have "clean_flags WARNING OR (SUCCESS AND GLOBAL) = WARNING"
    by (rule bit_word_eqI) (auto simp: bit_or_iff bit_and_iff)
  moreover have "clean_flags WARNING = WARNING" by (rule bit_word_eqI) auto
  moreover have "s\<lparr>global_return_status := SUCCESS\<rparr> = s" using g by simp
  ultimately show ?thesis
    by (simp add: provide_def rational_normalize_return_def Let_def g)
qed

section \<open>The rows that are left\<close>

text \<open>What the options say about a row whose path gets the answer \<open>a\<close> from the file system.\<close>

definition row_locked :: "Config \<Rightarrow> regex_engine \<Rightarrow> row \<Rightarrow> bool" where
  "row_locked c rx r = locked_by rx (conf_lock_checksum_pcre_compiled c) (row_relative_path r)"

definition violates :: "Config \<Rightarrow> regex_engine \<Rightarrow> row \<times> errno option \<Rightarrow> bool" where
  "violates c rx = (\<lambda>(r, a). row_locked c rx r \<and> a \<noteq> None)"

definition doomed :: "Config \<Rightarrow> regex_engine \<Rightarrow> row \<times> errno option \<Rightarrow> bool" where
  "doomed c rx = (\<lambda>(r, a). \<not> row_locked c rx r \<and>
     (case a of None \<Rightarrow> False
      | Some err \<Rightarrow> file_access_status err = FILE_NOT_FOUND \<or> conf_db_drop_inaccessible c))"

text \<open>A row the cleanup can judge: its path fits a descriptor and the engine decides its patterns.\<close>

definition judged :: "Config \<Rightarrow> regex_engine \<Rightarrow> row \<Rightarrow> bool" where
  "judged c rx r \<longleftrightarrow> row_relative_path r \<noteq> [] \<and> length (row_relative_path r) + 4096 < 2 ^ 64
     \<and> rx_decides rx (row_relative_path r) (codes_of (conf_lock_checksum_pcre_compiled c))"

lemma calm_lock:
  assumes "calm s" "desc_ok m" "visible_text m = p" "p \<noteq> []" "rx_decides rx p (codes_of lck)"
  shows "ask (\<lambda>s. (path_check_locked_checksum rx s lck m, s)) SUCCESS s = (locked_by rx lck p, SUCCESS, s)"
proof -
  have m: "valid m" "is_string m" "single_element_size m = 1" "mlength m \<noteq> 0"
    using assms(2-4) by (auto simp: desc_ok_def valid_def visible_text_def split: option.splits)
  have q: "quiet s" using assms(1) by (rule calm_sane)
  have "match_checksum_lock_pattern rx s lck m = (if locked_by rx lck p then LOCK_CHECKSUM else DO_NOT_LOCK_CHECKSUM)"
    using pattern_loop_decides [OF q m, of rx "codes_of lck" LOCK_CHECKSUM FAIL_REGEXP_LOCK_CHECKSUM
        DO_NOT_LOCK_CHECKSUM] assms(3,5)
    by (cases lck) (auto simp: match_checksum_lock_pattern_def locked_by_def codes_of_def)
  then have e: "path_check_locked_checksum rx s lck m
      = deliver s (outcome True False OR (if locked_by rx lck p then YES else NO))"
    by (simp add: path_check_locked_checksum_def outcome_literals)
  have "ask (\<lambda>s. (path_check_locked_checksum rx s lck m, s)) SUCCESS s
      = (True \<and> locked_by rx lck p, outcome True (halted s), s)"
    by (rule ask_answer [where h = False]) (use calm_sane [OF assms(1)] in \<open>simp_all add: e deliver_answer\<close>)
  then show ?thesis using calm_sane [OF assms(1)] by simp
qed

lemma calm_violation:
  assumes "calm s" "desc_ok m" "visible_text m = p" "p \<noteq> []"
    and "rx_decides rx p (codes_of (conf_lock_checksum_pcre_compiled c))" "a \<noteq> FILE_ACCESS_ALLOWED"
  defines "l \<equiv> locked_by rx (conf_lock_checksum_pcre_compiled c) p"
  shows "ask (db_check_locked_unavailable_violation c rx m a) SUCCESS s
    = (l, SUCCESS, if l then s\<lparr>show_remembered_messages_at_exit := True\<rparr> else s)"
proof -
  let ?s = "if l then s\<lparr>show_remembered_messages_at_exit := True\<rparr> else s"
  have "db_check_locked_unavailable_violation c rx m a s
      = provide (outcome True (halted ?s) OR (if l then YES else NO)) ?s"
    using unavailable_result [of s a] calm_sane [OF assms(1)] assms(6) calm_lock [OF assms(1-5)]
    by (auto simp: db_check_locked_unavailable_violation_def l_def outcome_literals)
  from ask_answer [where f = "db_check_locked_unavailable_violation c rx m a" and s = s and g = True
      and h = "halted ?s" and b = l and s' = ?s, OF this]
  show ?thesis using calm_sane [OF assms(1)] by simp
qed

section \<open>The loop\<close>

definition undisturbed :: "Config \<Rightarrow> heap \<Rightarrow> bool" where
  "undisturbed c heap \<longleftrightarrow> conf_update c \<and> \<not> conf_compare c \<and> \<not> conf_dry_run c \<and> \<not> conf_ignore c
     \<and> (\<forall>bytes. heap bytes \<noteq> None)"

lemma calm_delete:
  "calm s \<Longrightarrow> \<not> conf_dry_run c \<Longrightarrow> db_delete_the_record_by_id c i s
    = (SUCCESS, write_table (sql_delete i) s\<lparr>db_primary_file_modified := True\<rparr>)"
  using calm_sane [of "write_table (sql_delete i) s\<lparr>db_primary_file_modified := True\<rparr>"]
  by (simp add: db_delete_the_record_by_id_def Let_def)

lemma calm_row:
  assumes c: "undisturbed c heap" and s: "calm s" "\<not> autocommit s" "access_answers s = a # as"
    and m: "desc_ok m" and r: "judged c rx r"
  shows "\<exists>s' m'. cleanup_row c rx heap r SUCCESS s m d = (SUCCESS, s', m', d \<or> violates c rx (r, a), False)
    \<and> desc_ok m' \<and> calm s' \<and> \<not> autocommit s' \<and> committed s' = committed s \<and> access_answers s' = as
    \<and> table s' = (if doomed c rx (r, a) then sql_delete (row_ID r) (table s) else table s)"
proof -
  let ?p = "row_relative_path r"
  let ?l = "locked_by rx (conf_lock_checksum_pcre_compiled c) ?p"
  have h: "\<forall>bytes. heap bytes \<noteq> None" and conf: "\<not> conf_dry_run c" "\<not> conf_ignore c"
    using c by (simp_all add: undisturbed_def)
  have p: "?p \<noteq> []" "length ?p + 4096 < 2 ^ 64" "rx_decides rx ?p (codes_of (conf_lock_checksum_pcre_compiled c))"
    using r by (simp_all add: judged_def)
  obtain m' where m': "mem_copy_fixed_string s heap m (of_nat (length ?p + 1)) (External (?p @ [0])) = (SUCCESS, m')"
    "desc_ok m'" "visible_text m' = ?p"
    using calm_copy [OF s(1) m h p(2)] .
  have out: "run_out s SUCCESS (mem_copy_fixed_string s heap m (of_nat (length ?p + 1)) (External (?p @ [0]))) m
      = (SUCCESS, m')"
    using m'(1) calm_sane [OF s(1)] by simp
  let ?s1 = "s\<lparr>access_answers := as\<rparr>"
  have s1: "calm ?s1" using s(1) by simp
  have row: "cleanup_row c rx heap r SUCCESS s m d
      = (let (st, s, detected, decision) = cleanup_visible c rx m' SUCCESS s d
         in if decision = Keep_Row then (st, s, m', detected, False)
            else if decision = Leave_Loop then (st, s, m', detected, True)
            else if autocommit s then (FAILURE, s, m', detected, True)
            else let (st, s) = db_delete_the_record_by_id c (row_ID r) s in (st, s, m', detected, st \<noteq> SUCCESS))"
    using out conf by (simp add: cleanup_row_def case_prod_beta Let_def)
  show ?thesis
  proof (cases a)
    case None
    then have "cleanup_visible c rx m' SUCCESS s d = (SUCCESS, ?s1, d, Keep_Row)"
      using calm_access [OF s(1,3), of m'] by (simp add: cleanup_visible_def)
    then show ?thesis using row s m'(2) None by (simp add: violates_def doomed_def)
  next
    case (Some err)
    then obtain A where deny: "check_access m' s = (A, ?s1)" "A = file_access_status err" "A \<noteq> FILE_ACCESS_ALLOWED"
      using calm_access [OF s(1,3), of m'] by (simp add: file_check_access_def)
    let ?s2 = "if ?l then ?s1\<lparr>show_remembered_messages_at_exit := True\<rparr> else ?s1"
    have vis: "cleanup_visible c rx m' SUCCESS s d
        = (if ?l then (SUCCESS, ?s2, True, Keep_Row)
           else if A = FILE_NOT_FOUND \<or> conf_db_drop_inaccessible c then (SUCCESS, ?s2, d, Delete_Row)
           else (SUCCESS, ?s2, d, Keep_Row))"
      using deny(1,3) calm_violation [OF s1 m'(2,3) p(1,3) deny(3)]
      by (simp add: cleanup_visible_def)
    show ?thesis
      using row vis s m'(2) Some deny(2) calm_delete [OF s1 conf(1)] s1
      by (simp add: violates_def doomed_def row_locked_def write_table_def Let_def)
  qed
qed

lemma calm_loop:
  assumes "undisturbed c heap" "calm s" "\<not> autocommit s" "length (access_answers s) = length rows"
    and "desc_ok m" "\<forall>r \<in> set rows. judged c rx r"
    and "table s = kept @ rows" "distinct (map row_ID (kept @ rows))"
  shows "\<exists>s' m'. cleanup_loop c rx heap rows SUCCESS s m d
      = (SUCCESS, s', m', d \<or> list_ex (violates c rx) (zip rows (access_answers s)), Step_Done)
    \<and> desc_ok m' \<and> calm s' \<and> \<not> autocommit s' \<and> committed s' = committed s
    \<and> table s' = kept @ map fst (filter (\<lambda>ra. \<not> doomed c rx ra) (zip rows (access_answers s)))"
  using assms
proof (induction rows arbitrary: s m d kept)
  case Nil
  then show ?case by (subst cleanup_loop.simps) (simp add: Nil.prems)
next
  case (Cons r rows)
  obtain a as where aa: "access_answers s = a # as" "length as = length rows"
    using Cons.prems(4) by (cases "access_answers s") auto
  have j: "judged c rx r" using Cons.prems(6) by simp
  obtain s' m' where row: "cleanup_row c rx heap r SUCCESS s m d = (SUCCESS, s', m', d \<or> violates c rx (r, a), False)"
    "desc_ok m'" "calm s'" "\<not> autocommit s'" "committed s' = committed s" "access_answers s' = as"
    "table s' = (if doomed c rx (r, a) then sql_delete (row_ID r) (table s) else table s)"
    using calm_row [OF Cons.prems(1-3) aa(1) Cons.prems(5) j, of d] by auto
  let ?kept = "if doomed c rx (r, a) then kept else kept @ [r]"
  have "filter (\<lambda>ra. row_ID ra \<noteq> row_ID r) xs = xs" if "row_ID r \<notin> row_ID ` set xs" for xs :: "row list"
    using that by (auto simp: filter_id_conv image_iff)
  then have "sql_delete (row_ID r) (kept @ r # rows) = kept @ rows"
    using Cons.prems(8) by (simp add: sql_delete_def)
  then have t: "table s' = ?kept @ rows" using row(7) Cons.prems(7) by simp
  have d: "distinct (map row_ID (?kept @ rows))" using Cons.prems(8) by auto
  have js: "\<forall>r \<in> set rows. judged c rx r" and la: "length (access_answers s') = length rows"
    using Cons.prems(6) row(6) aa(2) by simp_all
  note ih = Cons.IH [OF Cons.prems(1) row(3,4) la row(2) js t d, of "d \<or> violates c rx (r, a)"]
  have "cleanup_loop c rx heap (r # rows) SUCCESS s m d
      = cleanup_loop c rx heap rows SUCCESS s' m' (d \<or> violates c rx (r, a))"
    by (subst cleanup_loop.simps) (use Cons.prems(2) row(1) calm_sane in simp)
  then show ?case using ih aa(1) row(5,6) by (auto simp: disj_assoc)
qed

section \<open>The whole cleanup\<close>

lemma calm_root:
  assumes "calm s" "\<forall>bytes. heap bytes \<noteq> None" "prefix \<noteq> []" "length prefix + 4096 < 2 ^ 64"
  shows "\<exists>m. db_retrieve_root_path heap (Some prefix # others) (mem_init 1 True) s = (SUCCESS, s, m) \<and> desc_ok m"
proof -
  have d0: "desc_ok (mem_init 1 True)" by (simp add: desc_ok_def) (simp add: mem_init_def)
  obtain m where "mem_copy_fixed_string s heap (mem_init 1 True) (of_nat (length prefix + 1)) (External (prefix @ [0]))
      = (SUCCESS, m)" "desc_ok m"
    using calm_copy [OF assms(1) d0 assms(2,4)] by blast
  then show ?thesis
    using assms(1,3) calm_sane [OF assms(1)] by (simp add: db_retrieve_root_path_def)
qed

lemma cleanup_calm_result:
  assumes c: "undisturbed c heap" and s: "calm s" "autocommit s" "distinct (map row_ID (table s))"
    and r: "\<forall>r \<in> set (table s). judged c rx r" "length (access_answers s) = length (table s)"
    and p: "prefix \<noteq> []" "length prefix + 4096 < 2 ^ 64"
  shows "\<exists>s'. db_delete_missing_metadata c rx heap (Some prefix # others) None True s
      = (if list_ex (violates c rx) (zip (table s) (access_answers s)) then WARNING else SUCCESS, s')
    \<and> table s' = map fst (filter (\<lambda>ra. \<not> doomed c rx ra) (zip (table s) (access_answers s)))
    \<and> committed s' = table s'"
proof -
  have h: "\<forall>bytes. heap bytes \<noteq> None" and conf: "conf_update c" "\<not> conf_compare c" "\<not> conf_dry_run c"
    using c by (simp_all add: undisturbed_def)
  obtain root where root: "db_retrieve_root_path heap (Some prefix # others) (mem_init 1 True) s = (SUCCESS, s, root)"
    "desc_ok root"
    using calm_root [OF s(1) h p] by blast
  have d0: "desc_ok (mem_init 1 True)" by (simp add: desc_ok_def) (simp add: mem_init_def)
  let ?s1 = "s\<lparr>autocommit := False\<rparr>"
  obtain s2 m2 where loop: "cleanup_loop c rx heap (table ?s1) SUCCESS ?s1 (mem_init 1 True) False
      = (SUCCESS, s2, m2, list_ex (violates c rx) (zip (table s) (access_answers s)), Step_Done)"
    "desc_ok m2" "calm s2" "\<not> autocommit s2"
    "table s2 = map fst (filter (\<lambda>ra. \<not> doomed c rx ra) (zip (table s) (access_answers s)))"
    using calm_loop [OF c, of ?s1 "table s" "mem_init 1 True" rx "[]" False] s r d0 by auto
  let ?s3 = "s2\<lparr>committed := table s2, autocommit := True\<rparr>"
  have s3: "calm ?s3" using loop(3) by simp
  have rel: "cleanup_release m2 root SUCCESS ?s3 = (SUCCESS, ?s3)"
    using release_result [OF calm_sane(1) [OF s3] loop(2) root(2), of False True] calm_sane [OF s3]
    by (simp add: outcome_literals)
  have "db_delete_missing_metadata c rx heap (Some prefix # others) None True s
      = provide (if list_ex (violates c rx) (zip (table s) (access_answers s)) then WARNING else SUCCESS) ?s3"
    using s(1,2) calm_sane [OF s(1)] conf root(1) loop rel run_outcome [of "\<lambda>_. (SUCCESS, s)" s True False s True False]
    by (simp add: db_delete_missing_metadata_def cleanup_begin_def cleanup_commit_def cleanup_rollback_def
        directory_open_root_def outcome_literals)
  moreover have "provide WARNING ?s3 = (WARNING, ?s3)"
    using calm_warning [OF s3] .
  ultimately show ?thesis using calm_sane [OF s3] loop(5) by auto
qed

end
