(* ===== verification/Cleanup_Properties.thy ===== *)
theory Cleanup_Properties
  imports Cleanup_Complete
begin

text \<open>
  The properties of the cleanup after an update, each from the result of the whole cleanup for a
  predicate on the rows that the permitted deletions keep.
\<close>

lemma cleaned:
  assumes "connected s" "\<not> file_transaction_active s" "P (table s)"
    and "\<And>r rows. r \<in> set (table s) \<Longrightarrow> erasable c rx r s \<Longrightarrow> P rows \<Longrightarrow> P (sql_delete (row_ID r) rows)"
    and "db_delete_missing_metadata c rx heap prefixes opened closed s = (st, s')"
  shows "P (table s') \<and> P (committed s') \<and> committed s = table s
    \<and> (\<not> has FAILURE st \<longrightarrow> committed s' = table s') \<and> (has FAILURE st \<longrightarrow> committed s' = committed s)"
proof -
  have s: "sane s" "autocommit s" "committed s = table s"
    using assms(1,2) by (simp_all add: connected_def store_inv_def)
  then have "clean_inv P s" using assms(3) by (simp add: clean_inv_def)
  with cleanup_result [OF s(1) this s(2) assms(2) _ assms(5)] assms(4) s(3)
  show ?thesis by (simp add: clean_inv_def)
qed

section \<open>A small database\<close>

text \<open>One stored file, and what the next questions about access are answered.\<close>

definition denying_state :: "errno option list \<Rightarrow> app" where
  "denying_state asked = (fresh_state [small_row])\<lparr>access_answers := asked\<rparr>"

lemma denying_facts [simp]:
  "connected (denying_state asked)" "\<not> file_transaction_active (denying_state asked)"
  "table (denying_state asked) = [small_row]" "access_answers (denying_state asked) = asked"
  by (simp_all add: denying_state_def fresh_state_def connected_def sane_def store_inv_def keys_ok_def)

lemma small_path [simp]:
  "row_relative_path small_row \<noteq> []" "length (row_relative_path small_row) < 18446744073709551615"
  by (simp_all add: small_row_def sample_entry_def entry_path_def)

section \<open>Properties\<close>

text \<open>
  C4: The cleanup removes no row of a checksum-locked path, whatever the file system and SQLite
  answer, with every combination of the drop options and when a signal arrives.
\<close>

theorem cleanup_keeps_locked_rows:
  assumes "connected s" "\<not> file_transaction_active s" "r \<in> set (table s)"
    and "locked_by rx (conf_lock_checksum_pcre_compiled c) (row_relative_path r)"
    and "row_relative_path r \<noteq> []" "length (row_relative_path r) + 1 < 2 ^ 64"
    and "db_delete_missing_metadata c rx heap prefixes opened closed s = (st, s')"
  shows "r \<in> set (table s') \<and> r \<in> set (committed s')"
proof -
  have ids: "inj_on row_ID (set (table s))"
    using assms(1) by (simp add: connected_def store_inv_def keys_ok_def distinct_map)
  have "\<not> erasable c rx r s" using assms(4-6) by (simp add: erasable_def)
  then have "r \<in> set (sql_delete (row_ID r') rows)"
    if "r' \<in> set (table s)" "erasable c rx r' s" "r \<in> set rows" for r' rows
    using that inj_onD [OF ids, of r r'] assms(3) by (auto simp: sql_delete_def)
  with cleaned [where P = "\<lambda>rows. r \<in> set rows", OF assms(1-3) _ assms(7)] show ?thesis by blast
qed

theorem cleanup_keeps_locked_rows_witness:
  "small_row \<in> set (committed (snd (db_delete_missing_metadata locking_config equal_engine any_memory
     [Some [47, 100]] None True (denying_state [Some ENOENT]))))"
proof -
  obtain st s' where run: "db_delete_missing_metadata locking_config equal_engine any_memory
      [Some [47, 100]] None True (denying_state [Some ENOENT]) = (st, s')" by fastforce
  show ?thesis
    using cleanup_keeps_locked_rows [OF _ _ _ small_row_locked(2) _ _ run] run by simp
qed

text \<open>
  C7: While the file system grants access to every path and ignored rows are not dropped, the
  cleanup removes nothing.
\<close>

theorem cleanup_keeps_accessible_rows:
  assumes "connected s" "\<not> file_transaction_active s" "access_answers s = []"
    and "conf_ignore c \<Longrightarrow> \<not> conf_db_drop_ignored c"
    and "db_delete_missing_metadata c rx heap prefixes opened closed s = (st, s')"
  shows "table s' = table s \<and> committed s' = table s"
proof -
  have "\<not> erasable c rx r s" for r using assms(3,4) by (auto simp: erasable_def)
  then show ?thesis
    using cleaned [where P = "\<lambda>rows. rows = table s", OF assms(1,2) _ _ assms(5)] by simp
qed

theorem cleanup_keeps_accessible_rows_witness:
  "table (snd (db_delete_missing_metadata locking_config equal_engine any_memory
     [Some [47, 100]] None True (denying_state []))) = [small_row]"
proof -
  obtain st s' where run: "db_delete_missing_metadata locking_config equal_engine any_memory
      [Some [47, 100]] None True (denying_state []) = (st, s')" by fastforce
  show ?thesis
    using cleanup_keeps_accessible_rows [OF _ _ _ _ run] run by (simp add: locking_config_def default_config_def)
qed

text \<open>
  C6: The deletions of a cleanup reach the disk together or not at all: unless the status reports a
  failure, what is on disk is what the connection sees, and after a failure the disk is as before.
  The rows that are left are rows that were there, unchanged.
\<close>

theorem cleanup_all_or_nothing:
  assumes "connected s" "\<not> file_transaction_active s"
    and "db_delete_missing_metadata c rx heap prefixes opened closed s = (st, s')"
  shows "committed s' = (if has FAILURE st then table s else table s')
    \<and> set (table s') \<subseteq> set (table s)"
proof -
  have "set (sql_delete i rows) \<subseteq> set (table s)" if "set rows \<subseteq> set (table s)" for i rows
    using that by (auto simp: sql_delete_def)
  then show ?thesis
    using cleaned [where P = "\<lambda>rows. set rows \<subseteq> set (table s)", OF assms(1,2) _ _ assms(3)] by auto
qed

theorem cleanup_all_or_nothing_witness:
  "set (committed (snd (db_delete_missing_metadata (default_config\<lparr>conf_update := True\<rparr>) equal_engine
     any_memory [Some [47, 100]] None True (denying_state [Some ENOENT])))) \<subseteq> {small_row}"
proof -
  obtain st s' where run: "db_delete_missing_metadata (default_config\<lparr>conf_update := True\<rparr>) equal_engine any_memory
      [Some [47, 100]] None True (denying_state [Some ENOENT]) = (st, s')" by fastforce
  show ?thesis
    using cleanup_all_or_nothing [OF _ _ run] run by (simp split: if_splits)
qed



end
