(* ===== verification/Number_Text.thy ===== *)
theory Number_Text
  imports Prelude
begin

text \<open>
  Numbers as text: \<open>itoa\<close> of \<open>rational_itoa.c\<close> for any base, and the comma-grouped decimal
  texts of \<open>rational_form.c\<close>.  Buffers are lists of bytes of the length the caller allocated, and
  every write of the code is an update of one of them.
\<close>

section \<open>Text in buffers\<close>

text \<open>What a reader of a C string sees: the bytes before the first NUL.\<close>

definition c_text :: "bytes \<Rightarrow> bytes" where
  "c_text buf = takeWhile (\<lambda>c. c \<noteq> 0) buf"

text \<open>The buffer after writing \<open>ds\<close> at index \<open>i\<close>.\<close>

definition patch :: "bytes \<Rightarrow> nat \<Rightarrow> bytes \<Rightarrow> bytes" where
  "patch buf i ds = take i buf @ ds @ drop (i + length ds) buf"

lemma length_patch [simp]: "i + length ds \<le> length buf \<Longrightarrow> length (patch buf i ds) = length buf"
  by (simp add: patch_def)

lemma patch_Nil [simp]: "patch buf i [] = buf"
  by (simp add: patch_def)

lemma patch_step:
  assumes "i < length buf"
  shows "patch (buf[i := d]) (Suc i) ds = patch buf i (d # ds)"
  using assms by (simp add: patch_def take_list_update_at drop_update_cancel)

lemma c_text_patch:
  assumes "0 \<notin> set ds" "length ds < length buf"
  shows "c_text (patch buf 0 (ds @ [0])) = ds"
  using assms by (auto simp: c_text_def patch_def takeWhile_append)

section \<open>Digits\<close>

text \<open>The digits of a number, the least significant first.\<close>

fun digits :: "nat \<Rightarrow> nat \<Rightarrow> nat list" where
  "digits b n = (if n = 0 \<or> b < 2 then [] else n mod b # digits b (n div b))"

declare digits.simps [simp del]

lemma digits_0 [simp]: "digits b 0 = []"
  by (simp add: digits.simps)

lemma digits_below: "d \<in> set (digits b n) \<Longrightarrow> d < b"
proof (induction b n rule: digits.induct)
  case (1 b n)
  show ?case using 1(2) by (subst (asm) digits.simps) (use 1(1) in \<open>auto split: if_splits\<close>)
qed

lemma digits_value: "2 \<le> b \<Longrightarrow> foldr (\<lambda>d v. v * b + d) (digits b n) 0 = n"
proof (induction b n rule: digits.induct)
  case (1 b n)
  show ?case by (subst digits.simps) (use 1 in \<open>auto simp: div_mult_mod_eq\<close>)
qed

lemma length_digits: "2 \<le> b \<Longrightarrow> n < 2 ^ k \<Longrightarrow> length (digits b n) \<le> k"
proof (induction b n arbitrary: k rule: digits.induct)
  case (1 b n)
  show ?case
  proof (cases "n = 0")
    case False
    then obtain k' where k: "k = Suc k'" using 1(3) by (cases k) auto
    have "n div b \<le> n div 2" using 1(2) by (simp add: div_le_mono2)
    then have "n div b < 2 ^ k'" using 1(3) k by simp
    with False 1(1,2) have "length (digits b (n div b)) \<le> k'" by simp
    then show ?thesis using k by (subst digits.simps) simp
  qed simp
qed

section \<open>\<open>itoa\<close>\<close>

text \<open>The character of a digit: \<open>(rem > 9) ? rem - 10 + 'A' : rem + '0'\<close>.\<close>

definition digit_char :: "u32 \<Rightarrow> u8" where
  "digit_char rem = (if rem > 9 then ucast (rem - 10) + 65 else ucast rem + 48)"

function reverse_loop :: "bytes \<Rightarrow> nat \<Rightarrow> nat \<Rightarrow> bytes" where
  "reverse_loop str start final =
     (if start < final then
        let temp = str ! start;
            str = str[start := str ! final];
            str = str[final := temp]
        in reverse_loop str (start + 1) (final - 1)
      else str)"
  by pat_completeness auto
termination by (relation "measure (\<lambda>(str, start, final). final - start)") auto

declare reverse_loop.simps [simp del]

definition reverse_string :: "bytes \<Rightarrow> nat \<Rightarrow> bytes" where
  "reverse_string str len = (let final = (if len > 0 then len - 1 else 0) in reverse_loop str 0 final)"

text \<open>The digit loop, which does not end for a base below 2.\<close>

partial_function (option) itoa_digits :: "u32 \<Rightarrow> u32 \<Rightarrow> bytes \<Rightarrow> nat \<Rightarrow> (bytes \<times> nat) option" where
  "itoa_digits base unum str i =
     (if unum \<noteq> 0 then
        let rem = unum mod base;
            str = str[i := digit_char rem]
        in itoa_digits base (unum div base) str (i + 1)
      else Some (str, i))"

text \<open>
  The result is whether \<open>errno\<close> is set to EINVAL, and the returned string, \<open>None\<close> for NULL.  The
  function does not return when the result is \<open>None\<close> as a whole.
\<close>

definition itoa :: "u32 \<Rightarrow> bytes option \<Rightarrow> u32 \<Rightarrow> (bool \<times> bytes option) option" where
  "itoa num str base =
     (case str of
        None \<Rightarrow> Some (True, None)
      | Some str \<Rightarrow>
          if base < 2 \<or> base > 36 then Some (True, Some (str[0 := 0]))
          else if num = 0 then Some (False, Some ((str[0 := 48])[1 := 0]))
          else
            let isNegative = (sint num < 0 \<and> base = 10);
                unum = (if isNegative then - num else num)
            in case itoa_digits base unum str 0 of
                 None \<Rightarrow> None
               | Some (str, i) \<Rightarrow>
                   let (str, i) = (if isNegative then (str[i := 45], i + 1) else (str, i));
                       str = str[i := 0]
                   in Some (False, Some (reverse_string str i)))"

lemma itoa_digits_result:
  assumes "2 \<le> unat base" "i + length (digits (unat base) (unat unum)) \<le> length str"
  shows "itoa_digits base unum str i
    = Some (patch str i (map (\<lambda>d. digit_char (of_nat d)) (digits (unat base) (unat unum))),
            i + length (digits (unat base) (unat unum)))"
  using assms(2)
proof (induction "unat base" "unat unum" arbitrary: unum str i rule: digits.induct)
  case 1
  show ?case
  proof (cases "unum = 0")
    case True
    then show ?thesis by (simp add: itoa_digits.simps)
  next
    case False
    then have n: "unat unum \<noteq> 0" by (simp add: unat_eq_0)
    have d: "digits (unat base) (unat unum) = unat (unum mod base) # digits (unat base) (unat (unum div base))"
      using n assms(1) by (subst digits.simps) (simp add: unat_mod unat_div)
    let ?str = "str[i := digit_char (unum mod base)]"
    have "i < length str" "(i + 1) + length (digits (unat base) (unat (unum div base))) \<le> length ?str"
      using 1(2) d by simp_all
    with 1(1) [where unum = "unum div base" and str = ?str and i = "i + 1"] n assms(1) False show ?thesis
      by (subst itoa_digits.simps) (simp add: d patch_step unat_div)
  qed
qed

lemma reverse_loop_result:
  assumes "start \<le> Suc final" "final < length str"
  shows "reverse_loop str start final = take start str @ rev (drop start (take (Suc final) str)) @ drop (Suc final) str"
  using assms
proof (induction str start final rule: reverse_loop.induct)
  case (1 str start final)
  show ?case
  proof (cases "start < final")
    case False
    then have "final = start \<or> Suc final = start" using 1(2) by auto
    then show ?thesis
      using 1(3) by (subst reverse_loop.simps) (auto simp: take_Suc_conv_app_nth drop_take Cons_nth_drop_Suc id_take_nth_drop [symmetric])
  next
    case True
    let ?s = "(str[start := str ! final])[final := str ! start]"
    define mid where "mid = drop (Suc start) (take final str)"
    have str: "str = take start str @ str ! start # mid @ str ! final # drop (Suc final) str"
    proof -
      have "str = take final str @ str ! final # drop (Suc final) str" using 1(3) by (simp add: id_take_nth_drop)
      moreover have "take final str = take start str @ str ! start # mid"
        using True 1(3) id_take_nth_drop [of start "take final str"] by (simp add: mid_def min_def)
      ultimately show ?thesis by simp
    qed
    have len: "length mid = final - Suc start" using 1(3) by (simp add: mid_def)
    have s: "?s = take start str @ str ! final # mid @ str ! start # drop (Suc final) str"
    proof -
      have "length (take start str) = start" using True 1(3) by simp
      moreover have "final = Suc start + length mid" using len True by simp
      ultimately show ?thesis
        by (subst (1) str) (simp add: list_update_append nth_append)
    qed
    have "reverse_loop str start final = reverse_loop ?s (start + 1) (final - 1)"
      using True by (subst reverse_loop.simps) (simp add: Let_def)
    also have "\<dots> = take (start + 1) ?s @ rev (drop (start + 1) (take (Suc (final - 1)) ?s)) @ drop (Suc (final - 1)) ?s"
      using 1 True by simp
    finally have r: "reverse_loop str start final = \<dots>" .
    have fs: "final - start = Suc (length mid)" "Suc final - start = Suc (Suc (length mid))"
      using len True by simp_all
    have "Suc (final - 1) = final" using True by simp
    moreover have "take final ?s = take start str @ str ! final # mid"
      using s fs(1) True 1(3) by (simp add: min_def)
    moreover have "drop final ?s = str ! start # drop (Suc final) str"
      using s fs(1) True 1(3) by (simp add: min_def)
    moreover have "take (start + 1) ?s = take start str @ [str ! final]"
      using s True 1(3) by (simp add: min_def)
    moreover have "drop start (take (Suc final) str) = str ! start # mid @ [str ! final]"
      using True 1(3) fs(2) by (subst str) (simp add: min_def)
    ultimately show ?thesis using r True 1(3) by (simp add: min_def)
  qed
qed

lemma reverse_string_result:
  assumes "i \<le> length str"
  shows "reverse_string str i = rev (take i str) @ drop i str"
proof (cases i)
  case 0
  then show ?thesis by (simp add: reverse_string_def reverse_loop.simps)
next
  case (Suc n)
  then show ?thesis
    using reverse_loop_result [of 0 n str] assms by (simp add: reverse_string_def)
qed

text \<open>The text \<open>itoa\<close> produces.\<close>

definition itoa_text :: "u32 \<Rightarrow> u32 \<Rightarrow> bytes" where
  "itoa_text num base =
     (if num = 0 then [48]
      else if sint num < 0 \<and> base = 10
      then 45 # rev (map (\<lambda>d. digit_char (of_nat d)) (digits (unat base) (unat (- num))))
      else rev (map (\<lambda>d. digit_char (of_nat d)) (digits (unat base) (unat num))))"

text \<open>Reading a digit back, as \<open>strtol\<close> does.\<close>

definition char_value :: "u8 \<Rightarrow> nat" where
  "char_value c = (if c \<ge> 65 then unat c - 55 else unat c - 48)"

lemma digit_table:
  "\<forall>d \<in> set [0..<36]. digit_char (of_nat d) \<noteq> 0 \<and> digit_char (of_nat d) \<noteq> 45
     \<and> digit_char (of_nat d) \<noteq> 44 \<and> char_value (digit_char (of_nat d)) = d"
  by code_simp

lemma digit_char_facts:
  assumes "d < 36"
  shows "digit_char (of_nat d) \<noteq> 0" "digit_char (of_nat d) \<noteq> 45" "char_value (digit_char (of_nat d)) = d"
  using digit_table assms by simp_all

lemma itoa_digit_chars:
  assumes "2 \<le> unat base" "unat base \<le> 36" "c \<in> set (map (\<lambda>d. digit_char (of_nat d)) (digits (unat base) n))"
  shows "c \<noteq> 0" "c \<noteq> 45"
  using assms digits_below [of _ "unat base" n] digit_char_facts(1,2) by force+

lemma itoa_result:
  assumes b: "2 \<le> unat base" "unat base \<le> 36" and len: "34 \<le> length buf"
  shows "\<exists>str. itoa num (Some buf) base = Some (False, Some str) \<and> length str = length buf
    \<and> c_text str = itoa_text num base"
proof (cases "num = 0")
  case True
  have "\<not> (base < 2 \<or> base > 36)" "buf \<noteq> []" using b len by (auto simp: word_less_nat_alt)
  moreover from this(2) have "c_text ((buf[0 := 48])[1 := 0]) = [48]"
    using c_text_patch [of "[48]" buf] len patch_step [of 0 buf 48 "[0]"] patch_step [of 1 "buf[0 := 48]" 0 "[]"] by simp
  ultimately show ?thesis using True by (simp add: itoa_def itoa_text_def)
next
  case False
  define neg where "neg \<longleftrightarrow> sint num < 0 \<and> base = 10"
  define unum where "unum = (if neg then - num else num)"
  define ds where "ds = map (\<lambda>d. digit_char (of_nat d)) (digits (unat base) (unat unum))"
  define all where "all = (if neg then ds @ [45] else ds)"
  have base: "\<not> (base < 2 \<or> base > 36)" using b by (simp add: word_less_nat_alt)
  have l: "length ds \<le> 32"
    using length_digits [OF b(1), of "unat unum" 32] unsigned_less [of unum, where 'a = nat] by (simp add: ds_def)
  have dig: "itoa_digits base unum buf 0 = Some (patch buf 0 ds, length ds)"
    using itoa_digits_result [OF b(1), of 0 unum buf] l len by (simp add: ds_def)
  have "0 \<notin> set ds" using itoa_digit_chars(1) [OF b, of 0] unfolding ds_def by fast
  then have ne: "0 \<notin> set all" by (simp add: all_def)
  have la: "length all < length buf" using l len by (simp add: all_def)
  have step: "(patch buf 0 xs)[length xs := c] = patch buf 0 (xs @ [c])" if "length xs < length buf" for xs c
    using that by (simp add: patch_def list_update_append drop_update_swap [symmetric] Cons_nth_drop_Suc [symmetric] del: drop_update_cancel)
  have two: "(if neg then ((patch buf 0 ds)[length ds := 45], length ds + 1) else (patch buf 0 ds, length ds))
      = (patch buf 0 all, length all)"
    using step [of ds 45] l len by (simp add: all_def)
  have "itoa num (Some buf) base = Some (False, Some (reverse_string ((patch buf 0 all)[length all := 0]) (length all)))"
    using False base dig two
    by (simp add: itoa_def Let_def unum_def [symmetric] neg_def [symmetric] split del: if_split)
  also have "(patch buf 0 all)[length all := 0] = patch buf 0 (all @ [0])"
    using step [OF la] .
  finally have r: "itoa num (Some buf) base = Some (False, Some (reverse_string (patch buf 0 (all @ [0])) (length all)))" .
  have "reverse_string (patch buf 0 (all @ [0])) (length all) = patch buf 0 (rev all @ [0])"
    using la by (subst reverse_string_result) (simp_all add: patch_def)
  moreover have "c_text (patch buf 0 (rev all @ [0])) = rev all"
    by (rule c_text_patch) (use ne la in simp_all)
  moreover have "rev all = itoa_text num base"
    using False by (simp add: itoa_text_def all_def ds_def unum_def neg_def)
  moreover have "length (patch buf 0 (rev all @ [0])) = length buf" using la by simp
  ultimately show ?thesis using r by auto
qed

text \<open>Reading a whole text back.\<close>

definition read_number :: "nat \<Rightarrow> bytes \<Rightarrow> int" where
  "read_number b s =
     (let value = (\<lambda>cs. int (foldl (\<lambda>v c. v * b + char_value c) 0 cs))
      in case s of c # cs \<Rightarrow> if c = 45 then - value cs else value s | [] \<Rightarrow> 0)"

lemma read_digits:
  assumes "2 \<le> b" "b \<le> 36"
  shows "foldl (\<lambda>v c. v * b + char_value c) 0 (rev (map (\<lambda>d. digit_char (of_nat d)) (digits b n))) = n"
proof -
  have "foldr (\<lambda>c v. v * b + char_value c) (map (\<lambda>d. digit_char (of_nat d)) ds) 0 = foldr (\<lambda>d v. v * b + d) ds 0"
    if "\<forall>d \<in> set ds. d < 36" for ds
    using that by (induction ds) (simp_all add: digit_char_facts(3))
  moreover have "\<forall>d \<in> set (digits b n). d < 36" using digits_below [of _ b n] assms by fastforce
  ultimately show ?thesis using digits_value [OF assms(1)] by (simp add: foldl_conv_foldr)
qed

lemma read_number_text:
  assumes "2 \<le> unat base" "unat base \<le> 36"
  shows "read_number (unat base) (itoa_text num base) = (if base = 10 then sint num else uint num)"
proof -
  have plain: "read_number (unat base) (rev (map (\<lambda>d. digit_char (of_nat d)) (digits (unat base) n))) = int n" for n
  proof -
    let ?t = "rev (map (\<lambda>d. digit_char (of_nat d)) (digits (unat base) n))"
    have "45 \<notin> set ?t" using itoa_digit_chars(2) [OF assms, of 45 n] by auto
    then show ?thesis using read_digits [OF assms, of n]
      by (cases ?t) (auto simp: read_number_def Let_def)
  qed
  have neg: "- int (unat (- num)) = sint num" if "sint num < 0"
  proof -
    have "- num = word_of_int (- sint num)" by simp
    moreover have "- (2 ^ 31) \<le> sint num" using sint_greater_eq [of num] by simp
    ultimately have "uint (- num) = - sint num"
      using that uint_word_of_int [of "- sint num", where 'a = 32] by simp
    then show ?thesis by simp
  qed
  have pos: "int (unat num) = sint num" if "\<not> sint num < 0"
  proof -
    have "sint num < 2 ^ 32" using sint_less [of num] by simp
    then have "take_bit 32 (sint num) = sint num" using that by (simp add: take_bit_int_eq_self)
    then show ?thesis using uint_sint [of num] by simp
  qed
  show ?thesis
  proof (cases "num = 0")
    case True
    then show ?thesis by (simp add: itoa_text_def read_number_def char_value_def)
  next
    case False
    show ?thesis
      using False plain neg pos read_digits [OF assms]
      by (auto simp: itoa_text_def read_number_def Let_def)
  qed
qed

text \<open>
  C25: For every base from 2 to 36 and every buffer of at least 34 bytes \<open>itoa\<close> returns, and the text
  in the buffer reads back as the number: signed in base 10 (INT_MIN included) and as the bit
  pattern in every other base.
\<close>

theorem itoa_roundtrip:
  assumes "2 \<le> unat base" "unat base \<le> 36" "34 \<le> length buf"
  shows "\<exists>str. itoa num (Some buf) base = Some (False, Some str) \<and> length str = length buf
    \<and> read_number (unat base) (c_text str) = (if base = 10 then sint num else uint num)"
  using itoa_result [OF assms, of num] read_number_text [OF assms(1,2), of num] by metis

theorem itoa_roundtrip_witness:
  "\<exists>str. itoa 0x80000000 (Some (replicate 40 7)) 10 = Some (False, Some str)
     \<and> read_number 10 (c_text str) = - 2147483648"
  using itoa_roundtrip [of 10 "replicate 40 7" "0x80000000"] by auto

end
