(* ===== verification/Form_Text.thy ===== *)
theory Form_Text
  imports Number_Text
begin

text \<open>
  Decimal texts with a comma between groups of three digits (\<open>form_uintmax_r\<close>, \<open>form_intmax_r\<close> of
  \<open>rational_form.c\<close>): the digits are written from the end of the buffer towards its start and
  then moved to the front.  \<open>form_real_r\<close> works on \<open>long double\<close> and is not modelled.
\<close>

section \<open>The code\<close>

text \<open>What is returned: the literal \<open>""\<close>, or the caller's buffer.\<close>

datatype form_pointer = Empty_literal | Result_buffer

definition form_write_empty :: "bytes option \<Rightarrow> form_pointer \<times> bytes option" where
  "form_write_empty result =
     (case result of
        None \<Rightarrow> (Empty_literal, None)
      | Some buf \<Rightarrow> if length buf = 0 then (Empty_literal, result) else (Result_buffer, Some (buf[0 := 0])))"

definition form_write_zero :: "bytes option \<Rightarrow> form_pointer \<times> bytes option" where
  "form_write_zero result =
     (case result of
        None \<Rightarrow> form_write_empty result
      | Some buf \<Rightarrow>
          if length buf \<le> 1 then form_write_empty result
          else (Result_buffer, Some ((buf[0 := 48])[1 := 0])))"

text \<open>The digit loop; \<open>pos\<close> is an index into the buffer the first component of the result
  is false when it reaches the start too early.\<close>

function form_loop :: "u64 \<Rightarrow> bytes \<Rightarrow> nat \<Rightarrow> nat \<Rightarrow> bool \<times> bytes \<times> nat" where
  "form_loop val buf pos grp =
     (if pos = 0 then (False, buf, pos)
      else
        let (buf, pos, grp) =
              (if grp = 3 then (buf[pos - 1 := 44], pos - 1, 0) else (buf, pos, grp))
        in if pos = 0 then (False, buf, pos)
           else
             let digit = val mod 10;
                 buf = buf[pos - 1 := 48 + ucast digit];
                 pos = pos - 1;
                 val = val div 10;
                 grp = grp + 1
             in if val > 0 then form_loop val buf pos grp else (True, buf, pos))"
  by pat_completeness auto
termination
proof (relation "measure (\<lambda>(val, buf, pos, grp). unat val)", goal_cases)
  case 2
  then show ?case by (auto simp: unat_div word_gt_0 word_zero_iff_unat)
qed simp

declare form_loop.simps [simp del]

definition form_uintmax_with_sign_r :: "u64 \<Rightarrow> bool \<Rightarrow> bytes option \<Rightarrow> form_pointer \<times> bytes option" where
  "form_uintmax_with_sign_r val negative result =
     (case result of
        None \<Rightarrow> (Empty_literal, None)
      | Some buf \<Rightarrow>
          if length buf = 0 then (Empty_literal, result)
          else
            let pos = length buf - 1;
                buf = buf[pos := 0];
                (fits, buf, pos) = form_loop val buf pos 0
            in if \<not> fits then form_write_empty (Some buf)
               else if negative \<and> pos = 0 then form_write_empty (Some buf)
               else
                     let (buf, pos) = (if negative then (buf[pos - 1 := 45], pos - 1) else (buf, pos));
                         used = length buf - pos;
                         buf = (if pos \<noteq> 0 then patch buf 0 (take used (drop pos buf)) else buf)
                     in (Result_buffer, Some buf))"

definition form_uintmax_r :: "u64 \<Rightarrow> bytes option \<Rightarrow> form_pointer \<times> bytes option" where
  "form_uintmax_r val result = form_uintmax_with_sign_r val False result"

definition form_intmax_r :: "u64 \<Rightarrow> bytes option \<Rightarrow> form_pointer \<times> bytes option" where
  "form_intmax_r val result =
     (let negative = (sint val < 0);
          magnitude = (if negative then - (val + 1) + 1 else val)
      in form_uintmax_with_sign_r magnitude negative result)"

text \<open>The length \<open>form_real_r\<close> reserves for the integer part.\<close>

function count_digits :: "u64 \<Rightarrow> nat \<Rightarrow> nat" where
  "count_digits val n = (if val \<ge> 10 then count_digits (val div 10) (n + 1) else n)"
  by pat_completeness auto
termination
  by (relation "measure (\<lambda>(val, n). unat val)") (auto simp: unat_div word_le_nat_alt)

declare count_digits.simps [simp del]

definition form_grouped_uintmax_len :: "u64 \<Rightarrow> nat" where
  "form_grouped_uintmax_len val =
     (let decimals = count_digits val 1; groups = (decimals - 1) div 3 in decimals + groups)"

section \<open>The text it should be\<close>

text \<open>A number in groups of three digits, the first of one to three.\<close>

definition decimal :: "nat \<Rightarrow> bytes" where
  "decimal n = (if n = 0 then [48] else rev (map (\<lambda>d. digit_char (of_nat d)) (digits 10 n)))"

definition three_digits :: "nat \<Rightarrow> bytes" where
  "three_digits n = [48 + of_nat (n div 100), 48 + of_nat (n div 10 mod 10), 48 + of_nat (n mod 10)]"

fun grouped_text :: "nat \<Rightarrow> bytes" where
  "grouped_text n =
     (if n < 1000 then decimal n else grouped_text (n div 1000) @ 44 # three_digits (n mod 1000))"

declare grouped_text.simps [simp del]

text \<open>The text of the loop, one digit and perhaps one comma per iteration.\<close>

fun loop_text :: "nat \<Rightarrow> nat \<Rightarrow> bytes" where
  "loop_text n g =
     (let rest = (if n div 10 > 0 then loop_text (n div 10) (if g = 3 then 1 else g + 1) else [])
      in rest @ [48 + of_nat (n mod 10)] @ (if g = 3 then [44] else []))"

declare loop_text.simps [simp del]

lemma form_loop_result:
  assumes "pos \<le> length buf" "g \<le> 3"
  shows "if length (loop_text (unat val) g) \<le> pos
    then form_loop val buf pos g
      = (True, take (pos - length (loop_text (unat val) g)) buf @ loop_text (unat val) g @ drop pos buf,
         pos - length (loop_text (unat val) g))
    else fst (form_loop val buf pos g) = False \<and> length (fst (snd (form_loop val buf pos g))) = length buf"
  using assms
proof (induction val buf pos g rule: form_loop.induct)
  case (1 val buf pos g)
  have digit: "(48 :: u8) + ucast (val mod 10) = 48 + of_nat (unat val mod 10)"
  proof -
    have "of_nat (unat (val mod 10)) = (ucast (val mod 10) :: u8)" by simp
    moreover have "unat (val mod 10) = unat val mod 10" by (simp add: unat_mod)
    ultimately show ?thesis by simp
  qed
  have more: "0 < val div 10 \<longleftrightarrow> unat val div 10 > 0"
    by (simp add: word_gt_0 word_zero_iff_unat unat_div)
  have half: "unat (val div 10) = unat val div 10" by (simp add: unat_div)
  define buf1 where "buf1 = (if g = 3 then buf[pos - 1 := 44] else buf)"
  define pos1 where "pos1 = (if g = 3 then pos - 1 else pos)"
  define g1 where "g1 = (if g = 3 then 0 else g)"
  define buf2 where "buf2 = buf1[pos1 - 1 := 48 + ucast (val mod 10)]"
  have ev: "form_loop val buf pos g = (if pos = 0 then (False, buf, pos) else if pos1 = 0 then (False, buf1, pos1)
      else if 0 < val div 10 then form_loop (val div 10) buf2 (pos1 - 1) (g1 + 1) else (True, buf2, pos1 - 1))"
    by (subst form_loop.simps) (simp add: buf1_def pos1_def g1_def buf2_def Let_def)
  let ?rest = "if unat val div 10 > 0 then loop_text (unat val div 10) (g1 + 1) else []"
  let ?tail_text = "(48 + of_nat (unat val mod 10)) # (if g = 3 then [44] else []) :: bytes"
  have t: "loop_text (unat val) g = ?rest @ ?tail_text"
    by (subst loop_text.simps) (simp add: g1_def)
  have len: "length buf1 = length buf" "length buf2 = length buf" by (simp_all add: buf1_def buf2_def)
  show ?case
  proof (cases "pos = 0 \<or> pos1 = 0")
    case True
    then have "\<not> length (loop_text (unat val) g) \<le> pos" using t by (auto simp: pos1_def split: if_splits)
    then show ?thesis using True ev len by auto
  next
    case False
    have w: "pos1 - 1 = pos - length ?tail_text" "length ?tail_text \<le> pos" using False by (auto simp: pos1_def)
    have tail: "drop (pos1 - 1) buf2 = ?tail_text @ drop pos buf" "take (pos1 - 1) buf2 = take (pos1 - 1) buf"
    proof -
      obtain k where k: "pos = Suc k" using False by (cases pos) auto
      show "take (pos1 - 1) buf2 = take (pos1 - 1) buf"
        using 1(2) by (simp add: buf2_def buf1_def pos1_def)
      show "drop (pos1 - 1) buf2 = ?tail_text @ drop pos buf"
      proof (cases "g = 3")
        case True
        then obtain j where j: "k = Suc j" using False k by (cases k) (auto simp: pos1_def)
        have "drop j ((buf[Suc j := 44])[j := 48 + ucast (val mod 10)])
            = (48 + ucast (val mod 10)) # 44 # drop (Suc (Suc j)) buf"
          using 1(2) k j by (simp add: Cons_nth_drop_Suc [symmetric] drop_update_swap)
        then show ?thesis using True k j digit by (simp add: buf2_def buf1_def pos1_def)
      next
        case False
        have "drop k (buf[k := 48 + ucast (val mod 10)]) = (48 + ucast (val mod 10)) # drop (Suc k) buf"
          using 1(2) k by (simp add: Cons_nth_drop_Suc [symmetric])
        then show ?thesis using False k digit by (simp add: buf2_def buf1_def pos1_def)
      qed
    qed
    show ?thesis
    proof (cases "0 < val div 10")
      case False': False
      then have "form_loop val buf pos g = (True, buf2, pos1 - 1)" "loop_text (unat val) g = ?tail_text"
        using ev False more t by simp_all
      moreover have "buf2 = take (pos1 - 1) buf @ ?tail_text @ drop pos buf"
        using tail append_take_drop_id [of "pos1 - 1" buf2] by simp
      ultimately show ?thesis using w by simp
    next
      case True
      have g: "g1 + 1 \<le> 3" using 1(3) by (auto simp: g1_def)
      have "pos1 - 1 \<le> length buf2" using 1(2) len by (auto simp: pos1_def)
      have e: "(buf1, pos1, g1) = (if g = 3 then (buf[pos - 1 := 44], pos - 1, 0) else (buf, pos, g))"
        by (simp add: buf1_def pos1_def g1_def)
      have IH: "if length (loop_text (unat val div 10) (g1 + 1)) \<le> pos1 - 1
        then form_loop (val div 10) buf2 (pos1 - 1) (g1 + 1)
          = (True, take (pos1 - 1 - length (loop_text (unat val div 10) (g1 + 1))) buf2
              @ loop_text (unat val div 10) (g1 + 1) @ drop (pos1 - 1) buf2,
             pos1 - 1 - length (loop_text (unat val div 10) (g1 + 1)))
        else fst (form_loop (val div 10) buf2 (pos1 - 1) (g1 + 1)) = False
          \<and> length (fst (snd (form_loop (val div 10) buf2 (pos1 - 1) (g1 + 1)))) = length buf2"
        using 1(1) [of "(buf1, pos1, g1)" buf1 "(pos1, g1)" pos1 g1 "val mod 10" buf2 "pos1 - 1" "val div 10" "g1 + 1"]
          False True g \<open>pos1 - 1 \<le> length buf2\<close> unfolding half
        by (simp add: e buf2_def)
      let ?r = "loop_text (unat val div 10) (g1 + 1)"
      have tt: "loop_text (unat val) g = ?r @ ?tail_text" using t True more by simp
      have ev': "form_loop val buf pos g = form_loop (val div 10) buf2 (pos1 - 1) (g1 + 1)"
        using ev False True by simp
      show ?thesis
      proof (cases "length ?r \<le> pos1 - 1")
        case True
        have i: "pos1 - 1 - length ?r = pos - length (?r @ ?tail_text)"
          unfolding w(1) by (simp only: length_append diff_diff_left add.commute)
        have "take (pos1 - 1 - length ?r) buf2 = take (pos1 - 1 - length ?r) (take (pos1 - 1) buf2)"
          by (simp only: take_take) simp
        also have "\<dots> = take (pos1 - 1 - length ?r) buf" by (simp only: tail(2) take_take) simp
        finally have "take (pos - length (?r @ ?tail_text)) buf2 = take (pos - length (?r @ ?tail_text)) buf"
          unfolding i .
        then show ?thesis using IH True ev' tt tail(1) w by auto
      next
        case False
        then show ?thesis using IH ev' tt w len by auto
      qed
    qed
  qed
qed

section \<open>The loop writes the grouped text\<close>

lemma digit_char_small: "d < 10 \<Longrightarrow> digit_char (of_nat d) = 48 + of_nat d"
proof -
  assume d: "d < 10"
  then have "unat (of_nat d :: u32) = d" by (simp add: unat_of_nat_small)
  with d have "\<not> (of_nat d :: u32) > 9" by (simp add: word_less_nat_alt)
  moreover have "ucast (of_nat d :: u32) = (of_nat d :: u8)"
    using d by (simp add: unsigned_of_nat take_bit_nat_eq_self)
  ultimately show ?thesis by (simp add: digit_char_def add.commute)
qed

lemma decimal_step: "10 \<le> n \<Longrightarrow> decimal n = decimal (n div 10) @ [48 + of_nat (n mod 10)]"
  using digit_char_small [of "n mod 10"] by (auto simp: decimal_def digits.simps [of 10 n])

lemma decimal_digit: "n < 10 \<Longrightarrow> decimal n = [48 + of_nat n]"
  using digit_char_small [of n] by (simp add: decimal_def digits.simps [of 10 n])

lemma loop_text_0: "g < 3 \<Longrightarrow> n < 10 ^ (3 - g) \<Longrightarrow> loop_text n g = decimal n"
proof (induction n arbitrary: g rule: less_induct)
  case (less n)
  show ?case
  proof (cases "n < 10")
    case True
    then show ?thesis using less.prems(1) by (subst loop_text.simps) (simp add: decimal_digit)
  next
    case False
    then have "g < 2" using less.prems by (cases "g = 2") auto
    then obtain k where k: "3 - g = Suc k" "3 - Suc g = k" by (metis Suc_diff_Suc less_Suc_eq numeral_2_eq_2 numeral_3_eq_3)
    then have "n div 10 < 10 ^ (3 - (g + 1))" using less.prems(2) by (simp add: less_mult_imp_div_less mult.commute)
    moreover have "n div 10 < n" "n div 10 > 0" using False by auto
    ultimately show ?thesis
      using less.IH [of "n div 10" "g + 1"] \<open>g < 2\<close> False
      by (subst loop_text.simps) (simp add: decimal_step)
  qed
qed

lemma loop_text_comma: "loop_text n 3 = loop_text n 0 @ [44]"
  by (subst (1 2) loop_text.simps) simp

lemma loop_text_grouped: "loop_text n 0 = grouped_text n"
proof (induction n rule: grouped_text.induct)
  case (1 n)
  show ?case
  proof (cases "n < 1000")
    case True
    then show ?thesis using loop_text_0 [of 0 n] by (subst grouped_text.simps) simp
  next
    case False
    have d: "n mod 1000 div 100 = n div 100 mod 10" using mod_mult2_eq [of n 100 10] by simp
    have "n mod 1000 div 10 = n div 10 mod 100" using mod_mult2_eq [of n 10 100] by simp
    then have d': "n mod 1000 div 10 mod 10 = n div 10 mod 10" by (simp add: mod_mod_cancel)
    have d'': "n mod 1000 mod 10 = n mod 10" by (simp add: mod_mod_cancel)
    have "loop_text n 0 = loop_text (n div 10 div 10 div 10) 3 @ [48 + of_nat (n div 10 div 10 mod 10)]
        @ [48 + of_nat (n div 10 mod 10)] @ [48 + of_nat (n mod 10)]"
    proof -
      have step: "loop_text m g = loop_text (m div 10) (g + 1) @ [48 + of_nat (m mod 10)]" if "m div 10 > 0" "g < 3" for m g
        using that by (subst loop_text.simps) simp
      have "n div 10 > 0" "n div 10 div 10 > 0" "n div 10 div 10 div 10 > 0" using False by auto
      then show ?thesis
        using step [of n 0] step [of "n div 10" 1] step [of "n div 10 div 10" 2] by (simp add: numeral_2_eq_2 numeral_3_eq_3)
    qed
    then show ?thesis
      using 1 False by (subst grouped_text.simps) (simp add: loop_text_comma three_digits_def d d' d'' div_mult2_eq [symmetric])
  qed
qed

text \<open>The result of the whole function.\<close>

definition signed_text :: "bool \<Rightarrow> nat \<Rightarrow> bytes" where
  "signed_text negative n = (if negative then 45 # grouped_text n else grouped_text n)"

lemma decimal_chars:
  assumes "c \<in> set (decimal n)"
  shows "c \<noteq> 0" "c \<noteq> 44" "c \<noteq> 45"
proof -
  have "c = 48 \<or> (\<exists>d < 10. c = digit_char (of_nat d))"
    using assms digits_below [of _ 10 n] by (auto simp: decimal_def split: if_splits)
  then show "c \<noteq> 0" "c \<noteq> 44" "c \<noteq> 45"
    using digit_table by auto
qed

lemma three_digits_decimal:
  "n < 1000 \<Longrightarrow> set (three_digits n) \<subseteq> set (decimal (n div 100)) \<union> set (decimal (n div 10 mod 10)) \<union> set (decimal (n mod 10))"
  by (auto simp: three_digits_def decimal_digit)

lemma grouped_chars: "0 \<notin> set (grouped_text n)" "45 \<notin> set (grouped_text n)"
proof (induction n rule: grouped_text.induct)
  case (1 n)
  have t: "0 \<notin> set (three_digits (n mod 1000))" "45 \<notin> set (three_digits (n mod 1000))"
    using three_digits_decimal [of "n mod 1000"] decimal_chars(1,3) by (fastforce)+
  { case 1
    show ?case using \<open>\<not> n < 1000 \<Longrightarrow> 0 \<notin> set (grouped_text (n div 1000))\<close> t decimal_chars(1) [of 0 n]
      by (subst grouped_text.simps) auto }
  { case 2
    show ?case using \<open>\<not> n < 1000 \<Longrightarrow> 45 \<notin> set (grouped_text (n div 1000))\<close> t decimal_chars(3) [of 45 n]
      by (subst grouped_text.simps) auto }
qed

lemma form_result:
  assumes "buf \<noteq> []"
  shows "\<exists>str. form_uintmax_with_sign_r val negative (Some buf) = (Result_buffer, Some str) \<and> length str = length buf
    \<and> c_text str = (if length (signed_text negative (unat val)) < length buf then signed_text negative (unat val) else [])"
proof -
  let ?n = "length buf - 1"
  let ?b = "buf[?n := 0]"
  let ?t = "grouped_text (unat val)"
  have n: "?n < length buf" "length ?b = length buf" using assms by simp_all
  have empty: "form_write_empty (Some b) = (Result_buffer, Some (b[0 := 0]))" "c_text (b[0 := 0]) = []"
    if "length b = length buf" for b :: bytes
    using that assms by (cases b; simp add: form_write_empty_def c_text_def)+
  have last: "drop ?n ?b = [0]" using n(1) assms
    by (simp add: Cons_nth_drop_Suc [symmetric])
  note loop = form_loop_result [of ?n ?b 0 val, unfolded loop_text_grouped]
  show ?thesis
  proof (cases "length ?t \<le> ?n")
    case False
    obtain b w where f: "form_loop val ?b ?n 0 = (False, b, w)" "length b = length buf"
      using loop False n by (cases "form_loop val ?b ?n 0") auto
    have "\<not> length (signed_text negative (unat val)) < length buf"
      using False by (auto simp: signed_text_def)
    then show ?thesis
      using f empty [OF f(2)] assms by (simp add: form_uintmax_with_sign_r_def)
  next
    case True
    define w where "w = ?n - length ?t"
    define b where "b = take w ?b @ ?t @ [0]"
    have f: "form_loop val ?b ?n 0 = (True, b, w)"
      using loop True n last by (simp add: w_def b_def)
    have b: "length b = length buf" "drop w b = ?t @ [0]" using True n by (auto simp: b_def w_def)
    show ?thesis
    proof (cases "negative \<and> w = 0")
      case True
      then have "\<not> length (signed_text negative (unat val)) < length buf"
        using \<open>length ?t \<le> ?n\<close> by (auto simp: signed_text_def w_def)
      then show ?thesis using f empty [OF b(1)] b(1) True assms by (simp add: form_uintmax_with_sign_r_def)
    next
      case False
      define w' where "w' = (if negative then w - 1 else w)"
      define c where "c = (if negative then b[w - 1 := 45] else b)"
      define t where "t = signed_text negative (unat val)"
      have fit: "length t < length buf" using False True n by (auto simp: t_def signed_text_def w_def)
      have len: "length c = length buf" using b(1) by (simp add: c_def)
      have "drop (w - 1) (b[w - 1 := 45]) = 45 # drop w b" if negative
        using that False b(1) True n by (cases w) (auto simp: w_def Cons_nth_drop_Suc [symmetric])
      then have c: "drop w' c = t @ [0]" using b(2) by (simp add: w'_def c_def t_def signed_text_def)
      have "0 \<notin> set t" using grouped_chars(1) by (simp add: t_def signed_text_def)
      then have p: "length (patch c 0 (t @ [0])) = length buf" "c_text (patch c 0 (t @ [0])) = t"
        using c_text_patch [of t c] fit len by simp_all
      have z: "c = patch c 0 (t @ [0])" if "w' = 0"
      proof -
        have "c = t @ [0]" using c that by simp
        then show ?thesis by (simp add: patch_def)
      qed
      have "form_uintmax_with_sign_r val negative (Some buf)
          = (Result_buffer, Some (if w' \<noteq> 0 then patch c 0 (take (length c - w') (drop w' c)) else c))"
        using f False assms by (auto simp: form_uintmax_with_sign_r_def Let_def w'_def c_def)
      also have "take (length c - w') (drop w' c) = t @ [0]" by (metis c length_drop order_refl take_all)
      also have "(if w' \<noteq> 0 then patch c 0 (t @ [0]) else c) = patch c 0 (t @ [0])"
        using z by metis
      finally show ?thesis using p fit by (auto simp: t_def)
    qed
  qed
qed

section \<open>Reading it back\<close>

lemma filter_commas: "44 \<notin> set xs \<Longrightarrow> filter (\<lambda>c. c \<noteq> 44) xs = xs"
  by (auto intro: filter_True)

lemma read_decimal: "foldl (\<lambda>v c. v * 10 + char_value c) 0 (decimal n) = n"
  using read_digits [of 10 n] by (simp add: decimal_def char_value_def)

lemma read_append:
  "foldl (\<lambda>v c. v * 10 + char_value c) v (xs @ ys) = foldl (\<lambda>v c. v * 10 + char_value c) (foldl (\<lambda>v c. v * 10 + char_value c) v xs) ys"
  by simp

lemma read_three:
  assumes "n < 1000"
  shows "foldl (\<lambda>v c. v * 10 + char_value c) v (three_digits n) = v * 1000 + n"
proof -
  have cv: "char_value (48 + of_nat d) = d" if "d < 10" for d
    using digit_char_facts(3) [of d] digit_char_small [OF that] that by simp
  have "n div 10 div 10 < 10" using assms by (simp add: div_mult2_eq [symmetric])
  moreover have "n = 100 * (n div 100) + 10 * (n div 10 mod 10) + n mod 10"
  proof -
    have "n div 10 = 10 * (n div 10 div 10) + n div 10 mod 10" by (rule mult_div_mod_eq [symmetric])
    moreover have "n = 10 * (n div 10) + n mod 10" by (rule mult_div_mod_eq [symmetric])
    moreover have "n div 100 = n div 10 div 10" by (simp add: div_mult2_eq [symmetric])
    ultimately show ?thesis by linarith
  qed
  ultimately show ?thesis by (simp add: three_digits_def cv div_mult2_eq)
qed

lemma read_grouped:
  "foldl (\<lambda>v c. v * 10 + char_value c) 0 (filter (\<lambda>c. c \<noteq> 44) (grouped_text n)) = n"
proof (induction n rule: grouped_text.induct)
  case (1 n)
  have nc: "44 \<notin> set (decimal n)" "44 \<notin> set (three_digits (n mod 1000))" for n
    using three_digits_decimal [of "n mod 1000"] decimal_chars(2) by (fastforce)+
  show ?case
    using 1 by (subst grouped_text.simps) (simp add: filter_commas [OF nc(1)] filter_commas [OF nc(2)] read_decimal read_three)
qed

text \<open>Every 64-bit number fits in 28 bytes: 20 digits, 6 commas, a sign and the terminator.\<close>

lemma length_grouped: "n < 10 ^ (3 * k) \<Longrightarrow> 0 < k \<Longrightarrow> length (grouped_text n) + 1 \<le> 4 * k"
proof (induction k arbitrary: n)
  case (Suc k)
  have d: "length (decimal n) \<le> 3" if "n < 1000" for n
  proof -
    have "n div 10 div 10 < 10" using that by (simp add: div_mult2_eq [symmetric])
    then show ?thesis
      by (cases "n < 10"; cases "n div 10 < 10") (simp_all add: decimal_digit decimal_step)
  qed
  show ?case
  proof (cases "n < 1000")
    case True
    then show ?thesis using d [of n] by (subst grouped_text.simps) simp
  next
    case False
    then have "0 < k" using Suc.prems(1) by (cases k) auto
    moreover have "n div 1000 < 10 ^ (3 * k)"
      using Suc.prems(1) by (simp add: less_mult_imp_div_less power_add mult.commute)
    ultimately show ?thesis
      using Suc.IH [of "n div 1000"] False by (subst grouped_text.simps) (simp add: three_digits_def)
  qed
qed simp

lemma intmax_magnitude:
  "unat (if sint val < 0 then - (val + 1) + 1 else val) = nat \<bar>sint (val :: u64)\<bar>"
proof (cases "sint val < 0")
  case True
  have "- val = word_of_int (- sint val)" by simp
  moreover have "- (2 ^ 63) \<le> sint val" using sint_greater_eq [of val] by simp
  ultimately have "uint (- val) = - sint val"
    using True uint_word_of_int [of "- sint val", where 'a = 64] by simp
  then show ?thesis using True by (simp flip: nat_uint_eq)
next
  case False
  have "sint val < 2 ^ 64" using sint_less [of val] by simp
  then have "uint val = sint val" using False uint_sint [of val] by (simp add: take_bit_int_eq_self)
  then show ?thesis using False by (simp flip: nat_uint_eq)
qed

text \<open>
  C26: Every 64-bit integer is formatted, in any buffer of at least 29 bytes, as its sign and its
  decimal digits in groups of three separated by commas, and this text without the commas reads
  back as the integer.
\<close>

theorem form_intmax_correct:
  assumes "29 \<le> length buf"
  shows "\<exists>str. form_intmax_r val (Some buf) = (Result_buffer, Some str) \<and> length str = length buf
    \<and> c_text str = (if sint val < 0 then [45] else []) @ grouped_text (nat \<bar>sint val\<bar>)
    \<and> read_number 10 (filter (\<lambda>c. c \<noteq> 44) (c_text str)) = sint val"
proof -
  let ?neg = "sint val < 0"
  let ?mag = "if ?neg then - (val + 1) + 1 else val"
  let ?t = "signed_text ?neg (nat \<bar>sint val\<bar>)"
  have m: "unat ?mag = nat \<bar>sint val\<bar>" by (rule intmax_magnitude)
  have "unat ?mag < 2 ^ 64" using unsigned_less [of ?mag, where 'a = nat] by simp
  then have "unat ?mag < 10 ^ (3 * 7)" by simp
  then have "length (grouped_text (nat \<bar>sint val\<bar>)) + 1 \<le> 4 * 7"
    unfolding m by (rule length_grouped) simp
  moreover have "length (signed_text b n) \<le> length (grouped_text n) + 1" for b n
    by (simp add: signed_text_def)
  from this [of ?neg "nat \<bar>sint val\<bar>"] calculation have l: "length ?t < length buf"
    using assms by linarith
  have ne: "buf \<noteq> []" using assms by auto
  obtain str where str: "form_intmax_r val (Some buf) = (Result_buffer, Some str)" "length str = length buf" "c_text str = ?t"
    using form_result [OF ne, of ?mag ?neg] l unfolding m form_intmax_r_def Let_def by auto
  let ?d = "filter (\<lambda>c. c \<noteq> 44) (grouped_text (nat \<bar>sint val\<bar>))"
  have "45 \<notin> set ?d" using grouped_chars(2) by simp
  then have "read_number 10 ?d = int (nat \<bar>sint val\<bar>)"
    using read_grouped [of "nat \<bar>sint val\<bar>"] by (cases ?d) (auto simp: read_number_def Let_def)
  moreover have "read_number 10 (45 # ?d) = - int (nat \<bar>sint val\<bar>)"
    using read_grouped by (simp add: read_number_def Let_def)
  ultimately have "read_number 10 (filter (\<lambda>c. c \<noteq> 44) ?t) = sint val"
    by (cases "sint val < 0") (simp_all add: signed_text_def)
  then show ?thesis using str by (auto simp: signed_text_def)
qed

theorem form_intmax_correct_witness:
  "\<exists>str. form_intmax_r (- 1234567) (Some (replicate 32 7)) = (Result_buffer, Some str)
     \<and> read_number 10 (filter (\<lambda>c. c \<noteq> 44) (c_text str)) = - 1234567"
  using form_intmax_correct [of "replicate 32 7" "- 1234567"] by auto

end
