(* ===== verification/Size_Text.thy ===== *)
theory Size_Text
  imports Form_Text "HOL-Library.Signed_Division"
begin

text \<open>
  Sizes and durations as text: \<open>bkbmbgbtbpbeb_r\<close> of \<open>rational_bkbmbgbtbpbeb.c\<close> and \<open>form_date_r\<close> of
  \<open>rational_time.c\<close>.  A number is split into units, and the non-zero units are appended to a
  buffer of limited size with \<open>snprintf\<close>.
\<close>

section \<open>Sizes\<close>

record byte_units =
  exbibytes :: u64
  pebibytes :: u64
  tebibytes :: u64
  gibibytes :: u64
  mebibytes :: u64
  kibibytes :: u64
  bytes_left :: u64

definition tobyte :: "u64 \<Rightarrow> byte_units" where
  "tobyte bytes =
     (let bytes_in_kibibyte = 1024;
          bytes_in_mebibyte = bytes_in_kibibyte * 1024;
          bytes_in_gibibyte = bytes_in_mebibyte * 1024;
          bytes_in_tebibyte = bytes_in_gibibyte * 1024;
          bytes_in_pebibyte = bytes_in_tebibyte * 1024;
          bytes_in_exbibyte = bytes_in_pebibyte * 1024;
          e = bytes div bytes_in_exbibyte;
          exb = e * bytes_in_exbibyte;
          p = (bytes - exb) div bytes_in_pebibyte;
          peb = p * bytes_in_pebibyte;
          t = (bytes - exb - peb) div bytes_in_tebibyte;
          teb = t * bytes_in_tebibyte;
          g = (bytes - exb - peb - teb) div bytes_in_gibibyte;
          gib = g * bytes_in_gibibyte;
          m = (bytes - exb - peb - teb - gib) div bytes_in_mebibyte;
          meb = m * bytes_in_mebibyte;
          k = (bytes - exb - peb - teb - gib - meb) div bytes_in_kibibyte;
          kib = k * bytes_in_kibibyte
      in \<lparr>exbibytes = e, pebibytes = p, tebibytes = t, gibibytes = g, mebibytes = m, kibibytes = k,
          bytes_left = bytes - exb - peb - teb - gib - meb - kib\<rparr>)"

text \<open>
  \<open>snprintf(result + used, size - used, \<dots>)\<close> with at least one byte of room: the text is cut to the
  room, and the value is the length of the whole text.
\<close>

definition snprintf_at :: "bytes \<Rightarrow> nat \<Rightarrow> bytes \<Rightarrow> bytes \<times> nat" where
  "snprintf_at result used s =
     (patch result used (take (length result - used - 1) s @ [0]), length s)"

definition catbyte_r :: "u64 \<Rightarrow> bytes \<Rightarrow> bytes \<times> nat \<Rightarrow> bytes \<times> nat" where
  "catbyte_r bytes suffix = (\<lambda>(result, used_len).
     if bytes = 0 \<or> used_len \<ge> length result then (result, used_len)
     else
       let (result, write_size) = snprintf_at result used_len (decimal (unat bytes) @ suffix @ [32])
       in if write_size \<ge> length result - used_len then
            let used_len = length result;
                result = result[length result - 1 := 0];
                result = (if length result > 1 \<and> result ! (length result - 2) = 32
                          then result[length result - 2 := 0] else result)
            in (result, used_len)
          else (result, used_len + write_size))"

datatype ByteFormat = FULL_VIEW | MAJOR_VIEW

definition trim_space :: "bytes \<times> nat \<Rightarrow> bytes" where
  "trim_space = (\<lambda>(buffer, used_len).
     if used_len > 0 \<and> buffer ! (used_len - 1) = 32 then buffer[used_len - 1 := 0] else buffer)"

text \<open>The suffixes are B, KiB, MiB, GiB, TiB, PiB and EiB.\<close>

definition bkbmbgbtbpbeb_r :: "u64 \<Rightarrow> ByteFormat \<Rightarrow> bytes option \<Rightarrow> bytes option" where
  "bkbmbgbtbpbeb_r bytes format buffer =
     (case buffer of
        None \<Rightarrow> None
      | Some buffer \<Rightarrow>
          if length buffer = 0 then None
          else
            let buffer = buffer[0 := 0]
            in if bytes = 0 then Some (fst (snprintf_at buffer 0 [48, 66]))
               else
                 let byte = tobyte bytes
                 in Some (trim_space
                   (if format = MAJOR_VIEW then
                      if exbibytes byte > 0 then catbyte_r (exbibytes byte) [69, 105, 66] (buffer, 0)
                      else if pebibytes byte > 0 then catbyte_r (pebibytes byte) [80, 105, 66] (buffer, 0)
                      else if tebibytes byte > 0 then catbyte_r (tebibytes byte) [84, 105, 66] (buffer, 0)
                      else if gibibytes byte > 0 then catbyte_r (gibibytes byte) [71, 105, 66] (buffer, 0)
                      else if mebibytes byte > 0 then catbyte_r (mebibytes byte) [77, 105, 66] (buffer, 0)
                      else if kibibytes byte > 0 then catbyte_r (kibibytes byte) [75, 105, 66] (buffer, 0)
                      else catbyte_r (bytes_left byte) [66] (buffer, 0)
                    else
                      (catbyte_r (bytes_left byte) [66] \<circ> catbyte_r (kibibytes byte) [75, 105, 66]
                       \<circ> catbyte_r (mebibytes byte) [77, 105, 66] \<circ> catbyte_r (gibibytes byte) [71, 105, 66]
                       \<circ> catbyte_r (tebibytes byte) [84, 105, 66] \<circ> catbyte_r (pebibytes byte) [80, 105, 66]
                       \<circ> catbyte_r (exbibytes byte) [69, 105, 66]) (buffer, 0))))"

section \<open>Durations\<close>

text \<open>
  The units of a duration.  All products and differences stay between 0 and the duration, so
  \<open>long long\<close> is modelled by the integers; \<open>sdiv\<close> truncates as the division of C does.
\<close>

record date =
  years :: int
  months :: int
  weeks :: int
  days :: int
  hours :: int
  minutes :: int
  seconds :: int
  milliseconds :: int
  microseconds :: int
  nanoseconds :: int

definition asadate :: "int \<Rightarrow> date" where
  "asadate ns =
     (let y = ns sdiv 31536000000000000; years_ns = y * 31536000000000000;
          mon = (ns - years_ns) sdiv 2628000000000000; months_ns = mon * 2628000000000000;
          w = (ns - years_ns - months_ns) sdiv 604800000000000; weeks_ns = w * 604800000000000;
          d = (ns - years_ns - months_ns - weeks_ns) sdiv 86400000000000; days_ns = d * 86400000000000;
          h = (ns - years_ns - months_ns - weeks_ns - days_ns) sdiv 3600000000000;
          hours_ns = h * 3600000000000;
          mi = (ns - years_ns - months_ns - weeks_ns - days_ns - hours_ns) sdiv 60000000000;
          minutes_ns = mi * 60000000000;
          s = (ns - years_ns - months_ns - weeks_ns - days_ns - hours_ns - minutes_ns) sdiv 1000000000;
          seconds_ns = s * 1000000000;
          ms = (ns - years_ns - months_ns - weeks_ns - days_ns - hours_ns - minutes_ns - seconds_ns)
                 sdiv 1000000;
          milliseconds_ns = ms * 1000000;
          us = (ns - years_ns - months_ns - weeks_ns - days_ns - hours_ns - minutes_ns - seconds_ns
                 - milliseconds_ns) sdiv 1000;
          microseconds_ns = us * 1000
      in \<lparr>years = y, months = mon, weeks = w, days = d, hours = h, minutes = mi, seconds = s,
          milliseconds = ms, microseconds = us,
          nanoseconds = ns - years_ns - months_ns - weeks_ns - days_ns - hours_ns - minutes_ns
            - seconds_ns - milliseconds_ns - microseconds_ns\<rparr>)"

definition catdate_r :: "int \<Rightarrow> bytes \<Rightarrow> bytes \<times> nat \<Rightarrow> bytes \<times> nat" where
  "catdate_r number suffix = (\<lambda>(result, used_len).
     if number \<le> 0 \<or> used_len \<ge> length result then (result, used_len)
     else
       let (result, write_size) = snprintf_at result used_len (decimal (nat number) @ suffix @ [32])
       in if write_size \<ge> length result - used_len
          then (result[length result - 1 := 0], length result - 1)
          else (result, used_len + write_size))"

text \<open>The suffixes y, mon, w, d, h, min, s, ms, \<mu>s (two bytes in UTF-8 and an s) and ns.\<close>

definition form_date_r :: "int \<Rightarrow> ByteFormat \<Rightarrow> bytes option \<Rightarrow> bytes option" where
  "form_date_r ns format buffer =
     (case buffer of
        None \<Rightarrow> None
      | Some buffer \<Rightarrow>
          if length buffer = 0 then None
          else
            let buffer = buffer[0 := 0]
            in if ns = 0 then Some (fst (snprintf_at buffer 0 [48, 110, 115]))
               else
                 let date = asadate ns
                 in Some (trim_space
                   (if format = MAJOR_VIEW then
                      if years date > 0 then catdate_r (years date) [121] (buffer, 0)
                      else if months date > 0 then catdate_r (months date) [109, 111, 110] (buffer, 0)
                      else if weeks date > 0 then catdate_r (weeks date) [119] (buffer, 0)
                      else if days date > 0 then catdate_r (days date) [100] (buffer, 0)
                      else if hours date > 0 then catdate_r (hours date) [104] (buffer, 0)
                      else if minutes date > 0 then catdate_r (minutes date) [109, 105, 110] (buffer, 0)
                      else if seconds date > 0 then catdate_r (seconds date) [115] (buffer, 0)
                      else if milliseconds date > 0 then catdate_r (milliseconds date) [109, 115] (buffer, 0)
                      else if microseconds date > 0
                           then catdate_r (microseconds date) [206, 188, 115] (buffer, 0)
                      else catdate_r (nanoseconds date) [110, 115] (buffer, 0)
                    else
                      (catdate_r (nanoseconds date) [110, 115] \<circ> catdate_r (microseconds date) [206, 188, 115]
                       \<circ> catdate_r (milliseconds date) [109, 115] \<circ> catdate_r (seconds date) [115]
                       \<circ> catdate_r (minutes date) [109, 105, 110] \<circ> catdate_r (hours date) [104]
                       \<circ> catdate_r (days date) [100] \<circ> catdate_r (weeks date) [119]
                       \<circ> catdate_r (months date) [109, 111, 110] \<circ> catdate_r (years date) [121])
                      (buffer, 0))))"

section \<open>Appending units\<close>

text \<open>The buffer holds the C string \<open>t\<close>.\<close>

definition holds :: "bytes \<Rightarrow> bytes \<Rightarrow> bool" where
  "holds buf t \<longleftrightarrow> 0 \<notin> set t \<and> length t < length buf \<and> take (length t + 1) buf = t @ [0]"

lemma holds_text: "holds buf t \<Longrightarrow> c_text buf = t"
proof -
  assume h: "holds buf t"
  then have "buf = (t @ [0]) @ drop (length t + 1) buf"
    unfolding holds_def by (metis append_take_drop_id)
  then have "c_text buf = c_text (t @ 0 # drop (length t + 1) buf)" by simp
  also have "\<dots> = t" using h by (auto simp: holds_def c_text_def takeWhile_append)
  finally show ?thesis .
qed

lemma holds_append:
  assumes "holds buf t" "0 \<notin> set s" "length t + length s < length buf"
  shows "snprintf_at buf (length t) s = (patch buf (length t) (s @ [0]), length s)"
    and "holds (patch buf (length t) (s @ [0])) (t @ s)"
proof -
  show "snprintf_at buf (length t) s = (patch buf (length t) (s @ [0]), length s)"
    using assms(3) by (simp add: snprintf_at_def)
  have "take (length t) buf = take (length t) (take (length t + 1) buf)" by simp
  also have "\<dots> = t" using assms(1) by (simp add: holds_def del: take_take)
  finally have "take (length t) buf = t" .
  then show "holds (patch buf (length t) (s @ [0])) (t @ s)"
    using assms by (simp add: holds_def patch_def)
qed

lemma holds_trim: "holds buf (t @ [32]) \<Longrightarrow> holds (trim_space (buf, length (t @ [32]))) t"
proof -
  assume h: "holds buf (t @ [32])"
  then have tk: "take (Suc (Suc (length t))) buf = t @ [32, 0]" "Suc (length t) < length buf"
    by (simp_all add: holds_def)
  have "take (Suc (Suc (length t))) buf ! length t = (t @ [32, 0]) ! length t" by (simp only: tk(1))
  then have "buf ! length t = 32" by (simp add: nth_append)
  moreover have "take (Suc (length t)) (buf[length t := 0]) = t @ [0]"
  proof -
    have "take (length t) buf = take (length t) (take (Suc (Suc (length t))) buf)" by simp
    then have "take (length t) buf = t" unfolding tk(1) by simp
    then show ?thesis using tk(2) by (simp add: take_list_update_at)
  qed
  ultimately show ?thesis using h by (simp add: trim_space_def holds_def)
qed

lemma decimal_length: "n < 10000 \<Longrightarrow> length (decimal n) \<le> 4"
proof -
  assume "n < 10000"
  then have "n div 10 div 10 div 10 < 10" by (simp add: div_mult2_eq [symmetric])
  then show ?thesis
    by (cases "n < 10"; cases "n div 10 < 10"; cases "n div 10 div 10 < 10")
      (simp_all add: decimal_digit decimal_step)
qed

text \<open>One unit with its separator, nothing for a zero unit.\<close>

definition unit_text :: "nat \<times> bytes \<Rightarrow> bytes" where
  "unit_text = (\<lambda>(v, suffix). if v = 0 then [] else decimal v @ suffix @ [32])"

lemma unit_text_facts:
  assumes "v < 10000" "length suffix \<le> 3" "0 \<notin> set suffix"
  shows "length (unit_text (v, suffix)) \<le> 8" "0 \<notin> set (unit_text (v, suffix))"
proof -
  show "length (unit_text (v, suffix)) \<le> 8"
    using decimal_length [OF assms(1)] assms(2) by (simp add: unit_text_def)
  have "0 \<notin> set (decimal v)" using decimal_chars(1) [of 0 v] by blast
  then show "0 \<notin> set (unit_text (v, suffix))"
    using assms(3) by (simp add: unit_text_def)
qed

text \<open>A small unit fits while eight bytes and the terminator are left.\<close>

definition appends :: "(bytes \<times> nat \<Rightarrow> bytes \<times> nat) \<Rightarrow> bytes \<Rightarrow> bool" where
  "appends f s \<longleftrightarrow> (\<forall>buf t. holds buf t \<and> length t + 8 < length buf \<longrightarrow>
     (\<exists>buf'. f (buf, length t) = (buf', length (t @ s)) \<and> holds buf' (t @ s) \<and> length buf' = length buf))"

lemma appends_unit:
  assumes v: "v < 10000" "length suffix \<le> 3" "0 \<notin> set suffix"
    and f: "\<And>buf n. f (buf, n) = (if v = 0 \<or> n \<ge> length buf then (buf, n)
      else let (result, write_size) = snprintf_at buf n (decimal v @ suffix @ [32])
           in if write_size \<ge> length result - n then g result n else (result, n + write_size))"
  shows "appends f (unit_text (v, suffix))"
  unfolding appends_def
proof (intro allI impI, elim conjE)
  fix buf t assume h: "holds buf t" and room: "length t + 8 < length buf"
  note u = unit_text_facts [OF v]
  show "\<exists>buf'. f (buf, length t) = (buf', length (t @ unit_text (v, suffix)))
      \<and> holds buf' (t @ unit_text (v, suffix)) \<and> length buf' = length buf"
  proof (cases "v = 0")
    case True
    then show ?thesis using h by (simp add: f unit_text_def)
  next
    case False
    have s: "length t + length (unit_text (v, suffix)) < length buf" using u(1) room by simp
    note a = holds_append [OF h u(2) s]
    have e: "decimal v @ suffix @ [32] = unit_text (v, suffix)" using False by (simp add: unit_text_def)
    let ?b = "patch buf (length t) (unit_text (v, suffix) @ [0])"
    have "length ?b = length buf" "\<not> length buf - length t \<le> length (unit_text (v, suffix))"
      using s by simp_all
    then have "f (buf, length t) = (?b, length (t @ unit_text (v, suffix)))"
      using False s room unfolding f e a(1) by simp
    then show ?thesis using a(2) s by auto
  qed
qed

lemma appends_size: "unat v < 10000 \<Longrightarrow> length suffix \<le> 3 \<Longrightarrow> 0 \<notin> set suffix \<Longrightarrow>
  appends (catbyte_r v suffix) (unit_text (unat v, suffix))"
  by (rule appends_unit) (auto simp: catbyte_r_def unat_eq_0 [symmetric] simp del: unat_eq_0 unat_0_iff)

lemma appends_date: "nat v < 10000 \<Longrightarrow> length suffix \<le> 3 \<Longrightarrow> 0 \<notin> set suffix \<Longrightarrow>
  appends (catdate_r v suffix) (unit_text (nat v, suffix))"
  by (rule appends_unit) (auto simp: catdate_r_def)

text \<open>Appending one unit after the other.\<close>

fun appends_all :: "((bytes \<times> nat \<Rightarrow> bytes \<times> nat) \<times> bytes) list \<Rightarrow> bool" where
  "appends_all [] \<longleftrightarrow> True"
| "appends_all ((f, s) # fs) \<longleftrightarrow> appends f s \<and> length s \<le> 8 \<and> appends_all fs"

lemma appends_list:
  "appends_all fs \<Longrightarrow> holds buf t \<Longrightarrow> length t + 8 * length fs < length buf \<Longrightarrow>
   \<exists>buf'. foldl (\<lambda>b f. f b) (buf, length t) (map fst fs) = (buf', length (t @ concat (map snd fs)))
     \<and> holds buf' (t @ concat (map snd fs)) \<and> length buf' = length buf"
proof (induction fs arbitrary: buf t)
  case (Cons fs' fs)
  obtain f s where fs: "fs' = (f, s)" by (cases fs')
  have "length t + 8 < length buf" using Cons.prems(3) by simp
  with Cons.prems(1,2) obtain buf' where b: "f (buf, length t) = (buf', length (t @ s))"
    "holds buf' (t @ s)" "length buf' = length buf"
    unfolding fs appends_all.simps appends_def by blast
  have "length (t @ s) + 8 * length fs < length buf'" using Cons.prems(1,3) b(3) fs by simp
  with Cons.IH [of buf' "t @ s"] Cons.prems(1) b show ?case by (simp add: fs)
qed simp

section \<open>Splitting a number into units\<close>

lemma mod_div_digit: "0 < a \<Longrightarrow> n mod (a * k) div a = n div a mod (k :: nat)"
  by (simp add: mod_mult2_eq)

text \<open>The units of a size with their suffixes, and how many bytes each stands for.\<close>

definition size_units :: "nat \<Rightarrow> (nat \<times> bytes) list" where
  "size_units n =
     [(n div 2 ^ 60, [69, 105, 66]), (n div 2 ^ 50 mod 1024, [80, 105, 66]),
      (n div 2 ^ 40 mod 1024, [84, 105, 66]), (n div 2 ^ 30 mod 1024, [71, 105, 66]),
      (n div 2 ^ 20 mod 1024, [77, 105, 66]), (n div 2 ^ 10 mod 1024, [75, 105, 66]),
      (n mod 1024, [66])]"

definition size_weights :: "nat list" where
  "size_weights = [2 ^ 60, 2 ^ 50, 2 ^ 40, 2 ^ 30, 2 ^ 20, 2 ^ 10, 1]"

lemma tobyte_units:
  fixes b :: u64
  defines "n \<equiv> unat b"
  shows "unat (exbibytes (tobyte b)) = n div 2 ^ 60" "unat (pebibytes (tobyte b)) = n div 2 ^ 50 mod 1024"
    "unat (tebibytes (tobyte b)) = n div 2 ^ 40 mod 1024" "unat (gibibytes (tobyte b)) = n div 2 ^ 30 mod 1024"
    "unat (mebibytes (tobyte b)) = n div 2 ^ 20 mod 1024" "unat (kibibytes (tobyte b)) = n div 2 ^ 10 mod 1024"
    "unat (bytes_left (tobyte b)) = n mod 1024"
proof -
  have m: "b - b div k * k = b mod k" for b k :: u64
    by (rule minus_div_mult_eq_mod)
  have dm: "n mod (2 ^ (j + 10)) div 2 ^ j = n div 2 ^ j mod 1024" for j
    using mod_div_digit [of "2 ^ j" n 1024] by (simp add: power_add)
  have mm: "n mod 2 ^ i mod 2 ^ j = n mod 2 ^ j" if "j \<le> i" for i j
    using that by (simp add: mod_mod_cancel le_imp_power_dvd)
  have w: "unat (b mod 2 ^ 60 mod 2 ^ 50) = n mod 2 ^ 50" "unat (b mod 2 ^ 60) = n mod 2 ^ 60"
    "unat (b mod 2 ^ 60 mod 2 ^ 50 mod 2 ^ 40) = n mod 2 ^ 40"
    "unat (b mod 2 ^ 60 mod 2 ^ 50 mod 2 ^ 40 mod 2 ^ 30) = n mod 2 ^ 30"
    "unat (b mod 2 ^ 60 mod 2 ^ 50 mod 2 ^ 40 mod 2 ^ 30 mod 2 ^ 20) = n mod 2 ^ 20"
    "unat (b mod 2 ^ 60 mod 2 ^ 50 mod 2 ^ 40 mod 2 ^ 30 mod 2 ^ 20 mod 2 ^ 10) = n mod 2 ^ 10"
    using mm [of 50 60] mm [of 40 50] mm [of 30 40] mm [of 20 30] mm [of 10 20]
    by (simp_all add: unat_mod n_def)
  note unfolds = tobyte_def Let_def byte_units.select_convs m
  have e: "exbibytes (tobyte b) = b div 2 ^ 60" "pebibytes (tobyte b) = b mod 2 ^ 60 div 2 ^ 50"
    "tebibytes (tobyte b) = b mod 2 ^ 60 mod 2 ^ 50 div 2 ^ 40"
    "gibibytes (tobyte b) = b mod 2 ^ 60 mod 2 ^ 50 mod 2 ^ 40 div 2 ^ 30"
    "mebibytes (tobyte b) = b mod 2 ^ 60 mod 2 ^ 50 mod 2 ^ 40 mod 2 ^ 30 div 2 ^ 20"
    "kibibytes (tobyte b) = b mod 2 ^ 60 mod 2 ^ 50 mod 2 ^ 40 mod 2 ^ 30 mod 2 ^ 20 div 2 ^ 10"
    "bytes_left (tobyte b) = b mod 2 ^ 60 mod 2 ^ 50 mod 2 ^ 40 mod 2 ^ 30 mod 2 ^ 20 mod 2 ^ 10"
    unfolding unfolds by simp_all
  show "unat (exbibytes (tobyte b)) = n div 2 ^ 60" by (simp add: e unat_div n_def)
  show "unat (pebibytes (tobyte b)) = n div 2 ^ 50 mod 1024" using dm [of 50] w(2) by (simp add: e unat_div)
  show "unat (tebibytes (tobyte b)) = n div 2 ^ 40 mod 1024" using dm [of 40] w(1) by (simp add: e unat_div)
  show "unat (gibibytes (tobyte b)) = n div 2 ^ 30 mod 1024" using dm [of 30] w(3) by (simp add: e unat_div)
  show "unat (mebibytes (tobyte b)) = n div 2 ^ 20 mod 1024" using dm [of 20] w(4) by (simp add: e unat_div)
  show "unat (kibibytes (tobyte b)) = n div 2 ^ 10 mod 1024" using dm [of 10] w(5) by (simp add: e unat_div)
  show "unat (bytes_left (tobyte b)) = n mod 1024" using w(6) by (simp add: e)
qed

lemma size_units_sum:
  "sum_list (map2 (\<lambda>(v, s) w. v * w) (size_units n) size_weights) = n"
proof -
  have d: "n div (k * 1024) * (k * 1024) + n div k mod 1024 * k = n div k * k" for k :: nat
    unfolding div_mult2_eq
    by (simp only: mult.commute [of k] mult.assoc [symmetric] distrib_right [symmetric] div_mult_mod_eq)
  show ?thesis
    using d [of "2 ^ 50"] d [of "2 ^ 40"] d [of "2 ^ 30"] d [of "2 ^ 20"] d [of "2 ^ 10"] div_mult_mod_eq [of n 1024]
    by (simp add: size_units_def size_weights_def add.assoc [symmetric])
qed

section \<open>The whole text\<close>

text \<open>Texts separated by single spaces.\<close>

fun spaced :: "bytes list \<Rightarrow> bytes" where
  "spaced [] = []"
| "spaced [x] = x"
| "spaced (x # xs) = x @ 32 # spaced xs"

definition units_text :: "(nat \<times> bytes) list \<Rightarrow> bytes" where
  "units_text units = spaced [decimal v @ suffix. (v, suffix) \<leftarrow> units, v \<noteq> 0]"

lemma spaced_concat: "xs \<noteq> [] \<Longrightarrow> concat (map (\<lambda>x. x @ [32]) xs) = spaced xs @ [32]"
  by (induction xs rule: spaced.induct) simp_all

lemma units_text_concat:
  assumes "\<exists>u \<in> set units. fst u \<noteq> 0"
  shows "concat (map unit_text units) = units_text units @ [32]"
proof -
  let ?xs = "[decimal v @ suffix. (v, suffix) \<leftarrow> units, v \<noteq> 0]"
  have "concat (map unit_text us) = concat (map (\<lambda>x. x @ [32]) [decimal v @ suffix. (v, suffix) \<leftarrow> us, v \<noteq> 0])" for us
    by (induction us) (auto simp: unit_text_def)
  moreover have "?xs \<noteq> []" using assms by force
  ultimately show ?thesis using spaced_concat by (simp add: units_text_def)
qed

lemma appends_units_text:
  assumes fs: "appends_all fs" "map snd fs = map unit_text units" and nz: "\<exists>u \<in> set units. fst u \<noteq> 0"
    and buf: "8 * length fs < length buf" "holds buf []"
  shows "\<exists>str. trim_space (foldl (\<lambda>b f. f b) (buf, 0) (map fst fs)) = str \<and> length str = length buf
    \<and> c_text str = units_text units"
proof -
  obtain b where b: "foldl (\<lambda>b f. f b) (buf, 0) (map fst fs) = (b, length (units_text units @ [32]))"
    "holds b (units_text units @ [32])" "length b = length buf"
    using appends_list [OF fs(1) buf(2)] buf(1) units_text_concat [OF nz] fs(2) by auto
  have "length (trim_space (b, length (units_text units @ [32]))) = length buf"
    using b(3) by (simp add: trim_space_def)
  then show ?thesis using holds_text [OF holds_trim [OF b(2)]] b(1) by simp
qed



end
