(* ===== verification/Date_Text.thy ===== *)
theory Date_Text
  imports Size_Text
begin

text \<open>The text of a duration: its units add up to the duration, and the text shows the non-zero ones.\<close>

lemma sdiv_nonneg: "0 \<le> a \<Longrightarrow> 0 < b \<Longrightarrow> a sdiv b = a div (b :: int)"
  by (cases "a = 0") (simp_all add: signed_divide_int_def)

text \<open>What is left of a duration below each unit.\<close>

definition date_weights :: "int list" where
  "date_weights = [31536000000000000, 2628000000000000, 604800000000000, 86400000000000, 3600000000000,
     60000000000, 1000000000, 1000000, 1000, 1]"

fun split_units :: "int \<Rightarrow> int list \<Rightarrow> int list" where
  "split_units n [] = []"
| "split_units n (w # ws) = n div w # split_units (n mod w) ws"

lemma split_units_sum:
  "sum_list (map2 (*) (split_units n (ws @ [1])) (ws @ [1])) = n"
proof (induction ws arbitrary: n)
  case (Cons w ws)
  then show ?case using div_mult_mod_eq [of n w] by simp
qed simp

lemma length_split_units [simp]: "length (split_units n ws) = length ws"
  by (induction ws arbitrary: n) simp_all

text \<open>Weights that are positive and at most a factor of 10000 apart.\<close>

fun close_weights :: "int \<Rightarrow> int list \<Rightarrow> bool" where
  "close_weights m [] \<longleftrightarrow> True"
| "close_weights m (w # ws) \<longleftrightarrow> 0 < w \<and> m \<le> 10000 * w \<and> close_weights w ws"

lemma split_units_small:
  "close_weights m ws \<Longrightarrow> 0 \<le> n \<Longrightarrow> n < m \<Longrightarrow> \<forall>v \<in> set (split_units n ws). 0 \<le> v \<and> v < 10000"
proof (induction ws arbitrary: n m)
  case (Cons w ws)
  have w: "0 < w" "n < 10000 * w" using Cons.prems by auto
  have "n div w * w \<le> n" using pos_mod_sign [of w n] div_mult_mod_eq [of n w] w(1) by linarith
  then have "n div w * w < 10000 * w" using w(2) by linarith
  then have "0 \<le> n div w \<and> n div w < 10000" using w(1) Cons.prems(2) by (simp add: pos_imp_zdiv_nonneg_iff)
  moreover have "\<forall>v \<in> set (split_units (n mod w) ws). 0 \<le> v \<and> v < 10000"
    using Cons.IH [of w "n mod w"] Cons.prems(1) w(1) by simp
  ultimately show ?case by simp
qed simp

declare split_units.simps [simp del]

definition date_values :: "date \<Rightarrow> int list" where
  "date_values d = [years d, months d, weeks d, days d, hours d, minutes d, seconds d, milliseconds d,
     microseconds d, nanoseconds d]"

lemma asadate_units:
  assumes "0 \<le> n"
  shows "date_values (asadate n) = split_units n date_weights"
proof -
  have m: "a - a div w * w = a mod w" for a w :: int by (rule minus_div_mult_eq_mod)
  have d: "a mod w sdiv v = a mod w div v" if "0 < w" "0 < v" for a w v :: int
    using that by (intro sdiv_nonneg) simp_all
  have n: "n sdiv 31536000000000000 = n div 31536000000000000" using assms by (intro sdiv_nonneg) simp_all
  show ?thesis
    unfolding asadate_def Let_def date_values_def date.select_convs date_weights_def split_units.simps n
    by (simp only: m d zero_less_numeral div_by_1)
qed

definition date_suffixes :: "bytes list" where
  "date_suffixes = [[121], [109, 111, 110], [119], [100], [104], [109, 105, 110], [115], [109, 115],
     [206, 188, 115], [110, 115]]"

text \<open>The units of a duration with their suffixes.\<close>

definition date_units :: "int \<Rightarrow> (nat \<times> bytes) list" where
  "date_units n = zip (map nat (split_units n date_weights)) date_suffixes"

lemma date_values_small:
  assumes "0 \<le> n" "n < 2 ^ 63"
  shows "\<forall>v \<in> set (date_values (asadate n)). 0 \<le> v \<and> v < 10000"
  unfolding asadate_units [OF assms(1)]
  by (rule split_units_small [OF _ assms]) (simp add: date_weights_def)



end
