(* ===== verification/Blobs.thy ===== *)
theory Blobs
  imports Metadata
begin

text \<open>
  The stat column as stored: the memory images of the stat records of each database version on the
  64-bit little-endian ABI, and the conversions between them (\<open>db_upgrade.h\<close>,
  \<open>db_migrate_from_0_to_1.c\<close>, \<open>db_migrate_to_version_4.c\<close>).
\<close>

section \<open>Integers in memory\<close>

fun le_word :: "bytes \<Rightarrow> u64" where
  "le_word [] = 0"
| "le_word (b # bs) = ucast b OR push_bit 8 (le_word bs)"

fun le_bytes :: "nat \<Rightarrow> u64 \<Rightarrow> bytes" where
  "le_bytes 0 w = []"
| "le_bytes (Suc n) w = ucast w # le_bytes n (drop_bit 8 w)"

text \<open>\<open>memcpy(&field, b + offset, 8)\<close>\<close>

definition field_at :: "bytes \<Rightarrow> nat \<Rightarrow> u64" where
  "field_at b offset = le_word (take 8 (drop offset b))"

lemma length_le_bytes [simp]: "length (le_bytes n w) = n"
  by (induction n w rule: le_bytes.induct) simp_all

lemma le_word_bytes: "le_word (le_bytes n w) = take_bit (8 * n) w"
proof (induction n w rule: le_bytes.induct)
  case (2 n w)
  show ?case
  proof (rule bit_word_eqI)
    fix i
    assume "i < LENGTH(64)"
    then show "bit (le_word (le_bytes (Suc n) w)) i = bit (take_bit (8 * Suc n) w) i"
      by (auto simp: 2 bit_simps)
  qed
qed simp

lemma take_bit_whole [simp]: "take_bit 64 (w :: u64) = w"
  by (rule bit_word_eqI) (simp add: bit_simps)

section \<open>The records of the versions\<close>

record CmpctStat_v1 =
  v1_st_size :: u64
  v1_mtim_tv_sec :: u64
  v1_mtim_tv_nsec :: u64
  v1_ctim_tv_sec :: u64
  v1_ctim_tv_nsec :: u64

definition zero_v1 :: CmpctStat_v1 where
  "zero_v1 = \<lparr>v1_st_size = 0, v1_mtim_tv_sec = 0, v1_mtim_tv_nsec = 0, v1_ctim_tv_sec = 0, v1_ctim_tv_nsec = 0\<rparr>"

text \<open>The records as the bytes \<open>sqlite3_bind_blob\<close> is given, and a blob read through a pointer.\<close>

definition sizeof_v1 :: nat where "sizeof_v1 = 40"
definition sizeof_CmpctStat :: nat where "sizeof_CmpctStat = 64"

definition blob_of_v1 :: "CmpctStat_v1 \<Rightarrow> bytes" where
  "blob_of_v1 v = concat (map (le_bytes 8) [v1_st_size v, v1_mtim_tv_sec v, v1_mtim_tv_nsec v,
     v1_ctim_tv_sec v, v1_ctim_tv_nsec v])"

definition v1_of_blob :: "bytes \<Rightarrow> CmpctStat_v1" where
  "v1_of_blob b = \<lparr>v1_st_size = field_at b 0, v1_mtim_tv_sec = field_at b 8, v1_mtim_tv_nsec = field_at b 16,
     v1_ctim_tv_sec = field_at b 24, v1_ctim_tv_nsec = field_at b 32\<rparr>"

definition blob_of_stat :: "CmpctStat \<Rightarrow> bytes" where
  "blob_of_stat t = concat (map (le_bytes 8) [st_size t, st_blocks t, st_dev t, st_ino t,
     mtim_tv_sec t, mtim_tv_nsec t, ctim_tv_sec t, ctim_tv_nsec t])"

definition stat_of_blob :: "bytes \<Rightarrow> CmpctStat" where
  "stat_of_blob b = \<lparr>st_size = field_at b 0, st_blocks = field_at b 8, st_dev = field_at b 16,
     st_ino = field_at b 24, mtim_tv_sec = field_at b 32, mtim_tv_nsec = field_at b 40,
     ctim_tv_sec = field_at b 48, ctim_tv_nsec = field_at b 56\<rparr>"

lemma field_at_block:
  assumes "length xs = offset"
  shows "field_at (xs @ le_bytes 8 w @ ys) offset = w"
  using assms by (simp add: field_at_def le_word_bytes)

lemma v1_blob [simp]: "v1_of_blob (blob_of_v1 v) = v" "length (blob_of_v1 v) = sizeof_v1"
proof -
  have "field_at (le_bytes 8 a @ le_bytes 8 b @ le_bytes 8 c @ le_bytes 8 d @ le_bytes 8 e) 0 = a"
    "field_at (le_bytes 8 a @ le_bytes 8 b @ le_bytes 8 c @ le_bytes 8 d @ le_bytes 8 e) 8 = b"
    "field_at (le_bytes 8 a @ le_bytes 8 b @ le_bytes 8 c @ le_bytes 8 d @ le_bytes 8 e) 16 = c"
    "field_at (le_bytes 8 a @ le_bytes 8 b @ le_bytes 8 c @ le_bytes 8 d @ le_bytes 8 e) 24 = d"
    "field_at (le_bytes 8 a @ le_bytes 8 b @ le_bytes 8 c @ le_bytes 8 d @ le_bytes 8 e) 32 = e"
    for a b c d e
    by (simp_all add: field_at_def le_word_bytes)
  then show "v1_of_blob (blob_of_v1 v) = v"
    by (simp add: v1_of_blob_def blob_of_v1_def)
qed (simp add: blob_of_v1_def sizeof_v1_def)

lemma stat_blob [simp]: "stat_of_blob (blob_of_stat t) = t" "length (blob_of_stat t) = sizeof_CmpctStat"
  by (simp_all add: stat_of_blob_def blob_of_stat_def field_at_def le_word_bytes sizeof_CmpctStat_def)

section \<open>Version 0 to version 1\<close>

definition STAT64_SIZE :: nat where "STAT64_SIZE = 144"
definition STAT64_ST_SIZE_OFF :: nat where "STAT64_ST_SIZE_OFF = 48"
definition STAT64_ST_MTIM_OFF :: nat where "STAT64_ST_MTIM_OFF = 88"
definition STAT64_ST_CTIM_OFF :: nat where "STAT64_ST_CTIM_OFF = 104"

definition cmpct_stat_is_sane :: "CmpctStat_v1 option \<Rightarrow> bool" where
  "cmpct_stat_is_sane stat =
     (case stat of
        None \<Rightarrow> False
      | Some t \<Rightarrow>
          if sint (v1_mtim_tv_nsec t) < 0 \<or> sint (v1_mtim_tv_nsec t) > 999999999 then False
          else if sint (v1_ctim_tv_nsec t) < 0 \<or> sint (v1_ctim_tv_nsec t) > 999999999 then False
          else
            let max_ts = 32503680000
            in if sint (v1_mtim_tv_sec t) < 0 \<or> sint (v1_mtim_tv_sec t) > max_ts then False
               else if sint (v1_ctim_tv_sec t) < 0 \<or> sint (v1_ctim_tv_sec t) > max_ts then False
               else True)"

text \<open>The result says SUCCESS or FAILURE and gives \<open>new_stat\<close>, which is zero before the call.\<close>

definition populate_from_glibc_stat_blob :: "bytes \<Rightarrow> CmpctStat_v1 \<Rightarrow> bool \<times> CmpctStat_v1" where
  "populate_from_glibc_stat_blob b new_stat =
     (if length b < STAT64_SIZE then (False, new_stat)
      else
        let new_stat = \<lparr>v1_st_size = field_at b STAT64_ST_SIZE_OFF,
              v1_mtim_tv_sec = field_at b STAT64_ST_MTIM_OFF,
              v1_mtim_tv_nsec = field_at b (STAT64_ST_MTIM_OFF + 8),
              v1_ctim_tv_sec = field_at b STAT64_ST_CTIM_OFF,
              v1_ctim_tv_nsec = field_at b (STAT64_ST_CTIM_OFF + 8)\<rparr>
        in (cmpct_stat_is_sane (Some new_stat), new_stat))"

text \<open>
  The blob \<open>process_row\<close> of the first migration writes; SQLite gives NULL for the NULL column and
  for the empty blob.
\<close>

definition convert_blob_to_v1 :: "bytes option \<Rightarrow> bytes" where
  "convert_blob_to_v1 blob =
     (let (conversion_status, new_stat) =
            (case blob of
               None \<Rightarrow> (False, zero_v1)
             | Some b \<Rightarrow> if b = [] then (False, zero_v1) else populate_from_glibc_stat_blob b zero_v1)
      in blob_of_v1 (if conversion_status then new_stat else zero_v1))"

section \<open>Version 1 to version 4\<close>

definition convert_blob_to_v4_stat :: "CmpctStat_v1 \<Rightarrow> CmpctStat" where
  "convert_blob_to_v4_stat source =
     \<lparr>st_size = v1_st_size source, st_blocks = BLKCNT_UNKNOWN, st_dev = 0, st_ino = 0,
      mtim_tv_sec = v1_mtim_tv_sec source, mtim_tv_nsec = v1_mtim_tv_nsec source,
      ctim_tv_sec = v1_ctim_tv_sec source, ctim_tv_nsec = v1_ctim_tv_nsec source\<rparr>"

text \<open>The blob \<open>process_row\<close> of the second migration writes.\<close>

definition convert_blob_to_v4 :: "bytes option \<Rightarrow> bytes" where
  "convert_blob_to_v4 blob =
     (let source =
            (case blob of
               None \<Rightarrow> zero_v1
             | Some b \<Rightarrow> if length b = sizeof_v1 then v1_of_blob b else zero_v1)
      in blob_of_stat (convert_blob_to_v4_stat source))"

section \<open>What the conversions keep\<close>

text \<open>What a blob of version 0 says: size, modification and change time in the glibc layout.\<close>

definition v0_stat :: "bytes \<Rightarrow> CmpctStat_v1" where
  "v0_stat b = \<lparr>v1_st_size = field_at b 48, v1_mtim_tv_sec = field_at b 88, v1_mtim_tv_nsec = field_at b 96,
     v1_ctim_tv_sec = field_at b 104, v1_ctim_tv_nsec = field_at b 112\<rparr>"

lemma v0_conversion:
  assumes "STAT64_SIZE \<le> length b" "cmpct_stat_is_sane (Some (v0_stat b))"
  shows "convert_blob_to_v1 (Some b) = blob_of_v1 (v0_stat b)"
proof -
  have "populate_from_glibc_stat_blob b z = (True, v0_stat b)" for z
    using assms by (simp add: populate_from_glibc_stat_blob_def v0_stat_def Let_def
        STAT64_ST_SIZE_OFF_def STAT64_ST_MTIM_OFF_def STAT64_ST_CTIM_OFF_def)
  moreover have "b \<noteq> []" using assms(1) by (auto simp: STAT64_SIZE_def)
  ultimately show ?thesis by (simp add: convert_blob_to_v1_def)
qed

lemma v1_conversion: "convert_blob_to_v4 (Some (blob_of_v1 t)) = blob_of_stat (convert_blob_to_v4_stat t)"
  by (simp add: convert_blob_to_v4_def)

text \<open>Converting what is converted already loses everything.\<close>

lemma converted_twice:
  "convert_blob_to_v1 (Some (blob_of_v1 t)) = blob_of_v1 zero_v1"
  "convert_blob_to_v4 (Some (blob_of_stat t')) = blob_of_stat (convert_blob_to_v4_stat zero_v1)"
proof -
  have "length (blob_of_v1 t) < STAT64_SIZE" by (simp add: STAT64_SIZE_def) (simp add: sizeof_v1_def)
  then show "convert_blob_to_v1 (Some (blob_of_v1 t)) = blob_of_v1 zero_v1"
    by (simp add: convert_blob_to_v1_def populate_from_glibc_stat_blob_def)
  have "length (blob_of_stat t') \<noteq> sizeof_v1" by simp (simp add: sizeof_v1_def sizeof_CmpctStat_def)
  then show "convert_blob_to_v4 (Some (blob_of_stat t')) = blob_of_stat (convert_blob_to_v4_stat zero_v1)"
    by (simp add: convert_blob_to_v4_def)
qed

end
