(* ===== verification/Versions.thy ===== *)
theory Versions
  imports Blobs Cleanup
begin

text \<open>
  Database files and their schema versions: the connections the program opens on a file for one
  purpose, closing one (\<open>db_close.c\<close>), reading and storing the version number
  (\<open>db_retrieve_version.c\<close>, \<open>db_specify_version.c\<close>), the two migrations
  (\<open>db_migrate_from_0_to_1.c\<close>, \<open>db_migrate_to_version_4.c\<close>), \<open>db_vacuum.c\<close>, \<open>db_upgrade.c\<close>,
  \<open>db_check_version.c\<close> and \<open>db_integrity_check.c\<close>.

  As in \<open>Database\<close>, an answer of SQLite stands for a statement that is prepared, bound, stepped and
  finalised, for an \<open>sqlite3_exec\<close>, or for opening or closing a connection.
\<close>

section \<open>Database files and connections\<close>

text \<open>
  The content of a database file: the rows of the table \<open>metadata\<close>, \<open>None\<close> when there is no such
  table, and the rows of the table \<open>files\<close> with the columns that migrations and comparisons read.
\<close>

record file_row =
  fr_ID :: int
  fr_relative_path :: bytes
  fr_sha512 :: "bytes option"
  fr_stat :: "bytes option"

record dbfile =
  metadata_table :: "int list option"
  files_table :: "file_row list"

text \<open>A connection: the file on disk, the file as the connection sees it, an open transaction.\<close>

record connection =
  on_disk :: dbfile
  working :: dbfile
  in_transaction :: bool

definition connect :: "dbfile \<Rightarrow> connection" where
  "connect d = \<lparr>on_disk = d, working = d, in_transaction = False\<rparr>"

text \<open>
  A statement that changes the file by \<open>f\<close>; \<open>None\<close> is a statement SQLite refuses.  The first
  component says whether SQLite answered \<open>SQLITE_OK\<close> or \<open>SQLITE_DONE\<close>.
\<close>

definition sql_exec ::
  "(dbfile \<Rightarrow> dbfile option) \<Rightarrow> app \<Rightarrow> connection \<Rightarrow> bool \<times> app \<times> connection" where
  "sql_exec f s k =
     (let (rc, s) = sql_answer s
      in case rc of
           Sql_Done \<Rightarrow>
             (case f (working k) of
                None \<Rightarrow> (False, s, k)
              | Some d \<Rightarrow> (True, s, k\<lparr>working := d, on_disk := if in_transaction k then on_disk k else d\<rparr>))
         | Sql_Error \<Rightarrow> (False, s, k)
         | Sql_Auto_Rollback \<Rightarrow> (False, s, k\<lparr>working := on_disk k, in_transaction := False\<rparr>))"

definition sql_begin :: "app \<Rightarrow> connection \<Rightarrow> bool \<times> app \<times> connection" where
  "sql_begin s k =
     (let (rc, s) = sql_answer s
      in if rc = Sql_Done \<and> \<not> in_transaction k then (True, s, k\<lparr>in_transaction := True\<rparr>) else (False, s, k))"

definition sql_commit :: "app \<Rightarrow> connection \<Rightarrow> bool \<times> app \<times> connection" where
  "sql_commit s k =
     (let (rc, s) = sql_answer s
      in if rc = Sql_Done \<and> in_transaction k
         then (True, s, k\<lparr>on_disk := working k, in_transaction := False\<rparr>)
         else if rc = Sql_Auto_Rollback then (False, s, k\<lparr>working := on_disk k, in_transaction := False\<rparr>)
         else (False, s, k))"

definition sql_rollback :: "app \<Rightarrow> connection \<Rightarrow> bool \<times> app \<times> connection" where
  "sql_rollback s k =
     (let (rc, s) = sql_answer s
      in if rc = Sql_Done \<and> in_transaction k
         then (True, s, k\<lparr>working := on_disk k, in_transaction := False\<rparr>)
         else (False, s, k))"

text \<open>\<open>if(SUCCESS == status) { rc = \<dots>; if(SQLITE_OK != rc) status = FAILURE; }\<close>\<close>

definition when_success ::
  "(app \<Rightarrow> connection \<Rightarrow> bool \<times> app \<times> connection) \<Rightarrow> ret \<Rightarrow> app \<Rightarrow> connection \<Rightarrow> ret \<times> app \<times> connection" where
  "when_success f st s k =
     (if st = SUCCESS then let (ok, s, k) = f s k in (if ok then st else FAILURE, s, k) else (st, s, k))"

text \<open>A statement that leaves the file as it is, also the pragmas and opening a connection.\<close>

definition sql_other :: "app \<Rightarrow> connection \<Rightarrow> bool \<times> app \<times> connection" where
  "sql_other = sql_exec Some"

text \<open>Closing a connection takes an open transaction back.\<close>

definition disconnect :: "connection \<Rightarrow> connection" where
  "disconnect k = k\<lparr>working := on_disk k, in_transaction := False\<rparr>"

definition sql_ok :: "app \<Rightarrow> bool \<times> app" where
  "sql_ok s = (let (rc, s) = sql_answer s in (rc = Sql_Done, s))"

text \<open>\<open>connected\<close> says that \<open>db\<close> is not NULL.\<close>

definition db_close :: "bool \<Rightarrow> bool \<Rightarrow> app action" where
  "db_close connected db_file_modified s =
     (let (st, s) =
            (if connected then
               let (tuned, s) = (if db_file_modified then sql_ok s else (True, s));
                   st = (if tuned then SUCCESS else FAILURE);
                   (flushed, s) = sql_ok s;
                   st = (if flushed then st else FAILURE);
                   (closed, s) = sql_ok s;
                   st = (if closed then st else FAILURE)
               in (st, s)
             else (SUCCESS, s))
      in provide st s)"

section \<open>The version number\<close>

definition CURRENT_DB_VERSION :: int where "CURRENT_DB_VERSION = 4"

text \<open>\<open>sqlite3_column_int\<close> cuts a number to 32 bits.\<close>

definition sqlite3_column_int :: "int \<Rightarrow> int" where
  "sqlite3_column_int v = signed_take_bit 31 v"

text \<open>
  The result carries the new value behind \<open>db_version\<close>.  A \<open>sqlite3_step\<close> that does not answer with
  a row, for whatever reason, is taken for an absent row.
\<close>

definition db_retrieve_version :: "bool \<Rightarrow> int \<Rightarrow> dbfile \<Rightarrow> app \<Rightarrow> ret \<times> app \<times> int" where
  "db_retrieve_version path_given db_version d s =
     (if \<not> path_given then let (st, s) = provide FAILURE s in (st, s, db_version)
      else
        let k = connect d;
            (st, s, k) = when_success sql_other SUCCESS s k;
            (st, s, k) = when_success sql_other st s k;
            (table_exists, s) =
              (if st = SUCCESS then
                 let (stepped, s) = sql_ok s in (stepped \<and> metadata_table d \<noteq> None, s)
               else (False, s));
            (st, s, db_version) =
              (if st = SUCCESS \<and> table_exists then
                 let (st, s, k) = when_success sql_other st s k
                 in if st = SUCCESS then
                      let (stepped, s) = sql_ok s
                      in (st, s, case metadata_table d of
                                   Some (v # _) \<Rightarrow> if stepped then sqlite3_column_int v else db_version
                                 | _ \<Rightarrow> db_version)
                    else (st, s, db_version)
               else (st, s, db_version));
            (closed, s) = sql_ok s;
            st = (if closed then st else FAILURE);
            (st, s) = provide st s
        in (st, s, db_version))"

definition delete_metadata :: "dbfile \<Rightarrow> dbfile option" where
  "delete_metadata d = (if metadata_table d = None then None else Some (d\<lparr>metadata_table := Some []\<rparr>))"

definition insert_metadata :: "int \<Rightarrow> dbfile \<Rightarrow> dbfile option" where
  "insert_metadata version d =
     (case metadata_table d of
        None \<Rightarrow> None
      | Some rows \<Rightarrow> if version \<in> set rows then None else Some (d\<lparr>metadata_table := Some (rows @ [version])\<rparr>))"

definition db_specify_version ::
  "Config \<Rightarrow> bool \<Rightarrow> bool \<Rightarrow> int \<Rightarrow> dbfile \<Rightarrow> app \<Rightarrow> ret \<times> app \<times> dbfile" where
  "db_specify_version c path_given is_primary version d s =
     (if \<not> path_given then let (st, s) = provide FAILURE s in (st, s, d)
      else if global_interrupt_flag s then let (st, s) = provide SUCCESS s in (st, s, d)
      else if conf_dry_run c then let (st, s) = provide SUCCESS s in (st, s, d)
      else
        let k = connect d;
            (st, s, k) = when_success sql_other SUCCESS s k;
            (st, s, k) = when_success sql_begin st s k;
            (st, s, k) = when_success (sql_exec delete_metadata) st s k;
            (st, s, k) = when_success (sql_exec (insert_metadata version)) st s k;
            (committed, s, k) = (if st = SUCCESS then sql_commit s k else (False, s, k));
            st = (if st = SUCCESS \<and> \<not> committed then FAILURE else st);
            s = (if committed \<and> is_primary then s\<lparr>db_primary_file_modified := True\<rparr> else s);
            (s, k) =
              (if st \<noteq> SUCCESS then let (rolled_back, s, k) = sql_rollback s k in (s, k) else (s, k));
            (st, s) = call (db_close True committed) st s;
            (st, s) = provide st s
        in (st, s, on_disk (disconnect k)))"

section \<open>Migrations\<close>

definition update_stat :: "int \<Rightarrow> bytes \<Rightarrow> dbfile \<Rightarrow> dbfile option" where
  "update_stat i blob d =
     Some (d\<lparr>files_table := map (\<lambda>r. if fr_ID r = i then r\<lparr>fr_stat := Some blob\<rparr> else r) (files_table d)\<rparr>)"

text \<open>
  The two \<open>process_row\<close> functions differ in the conversion of the stat blob.  The last component is
  \<open>db_file_modified\<close>.
\<close>

definition process_row ::
  "(bytes option \<Rightarrow> bytes) \<Rightarrow> file_row \<Rightarrow> app \<Rightarrow> connection \<Rightarrow> bool \<Rightarrow> ret \<times> app \<times> connection \<times> bool" where
  "process_row convert r s k modified =
     (let (updated, s, k) = sql_exec (update_stat (fr_ID r) (convert (fr_stat r))) s k;
          (st, s) = provide (if updated then SUCCESS else FAILURE) s
      in (st, s, k, modified \<or> updated))"

definition process_row_v1 ::
  "file_row \<Rightarrow> app \<Rightarrow> connection \<Rightarrow> bool \<Rightarrow> ret \<times> app \<times> connection \<times> bool" where
  "process_row_v1 = process_row convert_blob_to_v1"

definition process_row_v4 ::
  "file_row \<Rightarrow> app \<Rightarrow> connection \<Rightarrow> bool \<Rightarrow> ret \<times> app \<times> connection \<times> bool" where
  "process_row_v4 = process_row convert_blob_to_v4"

fun migrate_loop ::
  "(file_row \<Rightarrow> app \<Rightarrow> connection \<Rightarrow> bool \<Rightarrow> ret \<times> app \<times> connection \<times> bool) \<Rightarrow> file_row list
     \<Rightarrow> app \<Rightarrow> connection \<Rightarrow> bool \<Rightarrow> ret \<times> app \<times> connection \<times> bool \<times> step_result" where
  "migrate_loop row_step rows s k modified =
     (let (stepped, s, k) = sql_other s k
      in if \<not> stepped then (SUCCESS, s, k, modified, Step_Error)
         else
           case rows of
             [] \<Rightarrow> (SUCCESS, s, k, modified, Step_Done)
           | r # rest \<Rightarrow>
               if global_interrupt_flag s then (SUCCESS, s, k, modified, Step_Row)
               else
                 let (st, s, k, modified) = row_step r s k modified
                 in if st \<noteq> SUCCESS then (st, s, k, modified, Step_Row)
                    else migrate_loop row_step rest s k modified)"

declare migrate_loop.simps [simp del]

text \<open>Both \<open>process_database\<close> functions.\<close>

definition process_database ::
  "(file_row \<Rightarrow> app \<Rightarrow> connection \<Rightarrow> bool \<Rightarrow> ret \<times> app \<times> connection \<times> bool)
     \<Rightarrow> app \<Rightarrow> connection \<Rightarrow> ret \<times> app \<times> connection \<times> bool" where
  "process_database row_step s k =
     (let (st, s, k) = when_success sql_other SUCCESS s k;
          (st, s, k, modified) =
            (if st = SUCCESS then
               let (st, s, k, modified, step) = migrate_loop row_step (files_table (working k)) s k False;
                   st = (if st = SUCCESS \<and> \<not> global_interrupt_flag s \<and> step \<noteq> Step_Done then FAILURE else st)
               in (st, s, k, modified)
             else (st, s, k, False));
          (st, s) = provide st s
      in (st, s, k, modified))"

text \<open>The end of the transaction, alike in both migrations.\<close>

definition migration_end :: "ret \<Rightarrow> app \<Rightarrow> connection \<Rightarrow> ret \<times> app \<times> connection" where
  "migration_end st s k =
     (if global_interrupt_flag s then
        let (rolled_back, s, k) = sql_rollback s k
        in (if rolled_back then if st = SUCCESS then WARNING else st else FAILURE, s, k)
      else if st \<noteq> SUCCESS then
        let (rolled_back, s, k) = sql_rollback s k in (if rolled_back then st else FAILURE, s, k)
      else
        let (committed, s, k) = sql_commit s k
        in if committed then (st, s, k)
           else let (rolled_back, s, k) = sql_rollback s k in (FAILURE, s, k))"

definition create_metadata :: "dbfile \<Rightarrow> dbfile option" where
  "create_metadata d = Some (if metadata_table d = None then d\<lparr>metadata_table := Some []\<rparr> else d)"

definition migration_close ::
  "bool \<Rightarrow> bool \<Rightarrow> ret \<Rightarrow> app \<Rightarrow> connection \<Rightarrow> ret \<times> app \<times> dbfile" where
  "migration_close is_primary modified st s k =
     (let s = (if st = SUCCESS \<and> modified \<and> is_primary then s\<lparr>db_primary_file_modified := True\<rparr> else s);
          (st, s) = call (db_close True (db_primary_file_modified s)) st s;
          (st, s) = provide st s
      in (st, s, on_disk (disconnect k)))"

definition db_migrate_from_0_to_1 ::
  "Config \<Rightarrow> bool \<Rightarrow> dbfile \<Rightarrow> app \<Rightarrow> ret \<times> app \<times> dbfile" where
  "db_migrate_from_0_to_1 c is_primary d s =
     (if conf_dry_run c then let (st, s) = provide SUCCESS s in (st, s, d)
      else
        let k = connect d;
            (st, s, k) = when_success sql_other SUCCESS s k;
            (st, s, k) = when_success sql_other st s k;
            (transaction_started, s, k) = (if st = SUCCESS then sql_begin s k else (False, s, k));
            st = (if st = SUCCESS \<and> \<not> transaction_started then FAILURE else st);
            (st, s, k) = when_success (sql_exec create_metadata) st s k;
            (st, s, k, modified) =
              (if st = SUCCESS then process_database process_row_v1 s k else (st, s, k, False));
            (st, s, k) = (if transaction_started then migration_end st s k else (st, s, k))
        in migration_close is_primary modified st s k)"

text \<open>\<open>mode\<close> is the journal mode the switch reports, \<open>None\<close> for NULL.\<close>

definition normalize_journal_mode ::
  "bytes option \<Rightarrow> app \<Rightarrow> connection \<Rightarrow> ret \<times> app \<times> connection" where
  "normalize_journal_mode mode s k =
     (let (st, s, k) = when_success sql_other SUCCESS s k;
          (st, s, k) = when_success sql_other st s k;
          st = (if st = SUCCESS \<and> mode \<noteq> Some [100, 101, 108, 101, 116, 101] then FAILURE else st);
          (st, s, k) = when_success sql_other st s k;
          (st, s) = provide st s
      in (st, s, k))"

definition db_migrate_to_version_4 ::
  "Config \<Rightarrow> bytes option \<Rightarrow> bool \<Rightarrow> dbfile \<Rightarrow> app \<Rightarrow> ret \<times> app \<times> dbfile" where
  "db_migrate_to_version_4 c mode is_primary d s =
     (if conf_dry_run c then let (st, s) = provide SUCCESS s in (st, s, d)
      else
        let k = connect d;
            (st, s, k) = when_success sql_other SUCCESS s k;
            (st, s, k) = when_success sql_other st s k;
            (st, s, k) = (if st = SUCCESS then normalize_journal_mode mode s k else (st, s, k));
            (transaction_started, s, k) = (if st = SUCCESS then sql_begin s k else (False, s, k));
            st = (if st = SUCCESS \<and> \<not> transaction_started then FAILURE else st);
            (st, s, k, modified) =
              (if st = SUCCESS then process_database process_row_v4 s k else (st, s, k, False));
            (st, s, k) = (if transaction_started then migration_end st s k else (st, s, k))
        in migration_close is_primary modified st s k)"

section \<open>Upgrades\<close>

text \<open>One migration with the version it leads to; the last component is the new \<open>*db_version\<close>.\<close>

definition upgrade_step ::
  "Config \<Rightarrow> bool \<Rightarrow> (dbfile \<Rightarrow> app \<Rightarrow> ret \<times> app \<times> dbfile) \<Rightarrow> int \<Rightarrow> int \<Rightarrow> dbfile \<Rightarrow> app
     \<Rightarrow> ret \<times> app \<times> dbfile \<times> int" where
  "upgrade_step c is_primary migrate version db_version d s =
     (let (st, s, d) = migrate d s
      in if st = SUCCESS then
           let (st, s, d) = db_specify_version c True is_primary version d s
           in (st, s, d, if st = SUCCESS then version else db_version)
         else (st, s, d, db_version))"

definition db_upgrade ::
  "Config \<Rightarrow> bytes option \<Rightarrow> bool \<Rightarrow> int \<Rightarrow> dbfile \<Rightarrow> app \<Rightarrow> ret \<times> app \<times> dbfile \<times> int" where
  "db_upgrade c mode is_primary db_version d s =
     (if \<not> conf_update c then let (st, s) = provide WARNING s in (st, s, d, db_version)
      else
        let (st, s, d, db_version) =
              (if db_version < 1
               then upgrade_step c is_primary (db_migrate_from_0_to_1 c is_primary) 1 db_version d s
               else (SUCCESS, s, d, db_version));
            (st, s, d, db_version) =
              (if st = SUCCESS \<and> db_version < 4
               then upgrade_step c is_primary (db_migrate_to_version_4 c mode is_primary) 4 db_version d s
               else (st, s, d, db_version));
            (st, s) = provide st s
        in (st, s, d, db_version))"

text \<open>\<open>stat_before\<close> and \<open>stat_after\<close> say whether the two \<open>stat\<close> calls succeed.\<close>

definition db_vacuum :: "Config \<Rightarrow> bool \<Rightarrow> bool \<Rightarrow> bool \<Rightarrow> bool \<Rightarrow> app action" where
  "db_vacuum c path_given is_primary stat_before stat_after s =
     (if \<not> path_given then provide FAILURE s
      else if conf_dry_run c then provide SUCCESS s
      else
        let (connected, s) = sql_ok s;
            st = (if connected then SUCCESS else FAILURE);
            st = (if st = SUCCESS \<and> \<not> stat_before then FAILURE else st);
            (vacuumed, s) =
              (if st = SUCCESS then
                 let (started_ns, s) = cur_time_monotonic_ns s;
                     (vacuumed, s) = sql_ok s;
                     (stopped_ns, s) = cur_time_monotonic_ns s
                 in (vacuumed, s)
               else (False, s));
            st = (if st = SUCCESS \<and> (\<not> vacuumed \<or> \<not> stat_after) then FAILURE else st);
            s = (if vacuumed \<and> is_primary then s\<lparr>db_primary_file_modified := True\<rparr> else s);
            (st, s) = call (db_close True vacuumed) st s
        in provide st s)"

definition db_check_version ::
  "Config \<Rightarrow> bytes option \<Rightarrow> bool \<Rightarrow> bool \<times> bool \<Rightarrow> dbfile \<Rightarrow> app \<Rightarrow> ret \<times> app \<times> dbfile" where
  "db_check_version c mode is_primary stats d s =
     (if global_interrupt_flag s then let (st, s) = provide SUCCESS s in (st, s, d)
      else
        let (st, s, db_version) = db_retrieve_version True 0 d s;
            (st, s, d, db_has_been_upgraded) =
              (if st = SUCCESS then
                 if db_version < CURRENT_DB_VERSION then
                   let (st, s, d, db_version) = db_upgrade c mode is_primary db_version d s
                   in (st, s, d, st = SUCCESS)
                 else if db_version > CURRENT_DB_VERSION then (WARNING, s, d, False)
                 else (st, s, d, False)
               else (st, s, d, False));
            (st, s) =
              (if st = SUCCESS \<and> db_has_been_upgraded \<and> \<not> is_primary
               then db_vacuum c True is_primary (fst stats) (snd stats) s else (st, s));
            (st, s) = provide st s
        in (st, s, d))"

section \<open>Integrity\<close>

text \<open>
  \<open>responses\<close> are the rows of \<open>PRAGMA quick_check\<close> or \<open>integrity_check\<close>.  The last component is
  \<open>database_is_ok\<close>.
\<close>

fun response_loop :: "bytes list \<Rightarrow> app \<Rightarrow> bool \<Rightarrow> bool \<times> app \<times> bool" where
  "response_loop responses s database_is_ok =
     (let (stepped, s) = sql_ok s
      in if \<not> stepped then (False, s, database_is_ok)
         else
           case responses of
             [] \<Rightarrow> (True, s, database_is_ok)
           | response # rest \<Rightarrow> response_loop rest s (database_is_ok \<or> response = [111, 107]))"

declare response_loop.simps [simp del]

text \<open>\<open>copied\<close> says whether \<open>strdup\<close> could copy the path.\<close>

definition db_integrity_check ::
  "Config \<Rightarrow> bool \<Rightarrow> bool \<Rightarrow> bytes list \<Rightarrow> bytes option \<Rightarrow> bool \<Rightarrow> bool \<times> bool \<Rightarrow> dbfile \<Rightarrow> app
     \<Rightarrow> ret \<times> app \<times> dbfile" where
  "db_integrity_check c copied db_primary_file_exists responses mode is_primary stats d s =
     (if \<not> copied then let (st, s) = provide FAILURE s in (st, s, d)
      else if conf_dry_run c \<and> \<not> db_primary_file_exists then let (st, s) = provide SUCCESS s in (st, s, d)
      else
        let (connected, s) = sql_ok s;
            st = (if connected then SUCCESS else FAILURE);
            (prepared, s) = (if st = SUCCESS then sql_ok s else (True, s));
            st = (if prepared then st else FAILURE);
            (finished, s, database_is_ok) =
              (if st = SUCCESS then response_loop responses s False else (True, s, False));
            st = (if st = SUCCESS \<and> \<not> finished then FAILURE else st);
            st = (if st = SUCCESS \<and> \<not> database_is_ok then FAILURE else st);
            (closed, s) = sql_ok s;
            st = (if closed then st else FAILURE);
            (st, s, d) = (if st = SUCCESS then db_check_version c mode is_primary stats d s else (st, s, d));
            (st, s) = provide st s
        in (st, s, d))"

end
