(* ===== verification/Versions_Correct.thy ===== *)
theory Versions_Correct
  imports Versions Cleanup_Complete
begin

text \<open>
  What an upgrade of a database file does: the meaning of the stored metadata is kept when nothing
  disturbs it, each migration happens as a whole or not at all, and what is lost when a migration is
  repeated.
\<close>

section \<open>Undisturbed statements\<close>

lemma calm_exec [simp]:
  "calm s \<Longrightarrow> sql_exec f s k =
     (case f (working k) of
        None \<Rightarrow> (False, s, k)
      | Some d \<Rightarrow> (True, s, k\<lparr>working := d, on_disk := if in_transaction k then on_disk k else d\<rparr>))"
  "calm s \<Longrightarrow> sql_ok s = (True, s)"
  by (simp_all add: sql_exec_def sql_ok_def)

lemma calm_transaction [simp]:
  "calm s \<Longrightarrow> \<not> in_transaction k \<Longrightarrow> sql_begin s k = (True, s, k\<lparr>in_transaction := True\<rparr>)"
  "calm s \<Longrightarrow> in_transaction k \<Longrightarrow> sql_commit s k = (True, s, k\<lparr>on_disk := working k, in_transaction := False\<rparr>)"
  by (simp_all add: sql_begin_def sql_commit_def)

lemma when_success_simps [simp]:
  "when_success f SUCCESS s k = (let (ok, s, k) = f s k in (if ok then SUCCESS else FAILURE, s, k))"
  by (simp add: when_success_def)

lemma calm_close: "calm s \<Longrightarrow> db_close b m s = (SUCCESS, s)"
  using calm_sane [of s] by (simp add: db_close_def outcome_literals)

lemma calm_provide: "calm s \<Longrightarrow> provide SUCCESS s = (SUCCESS, s)"
  using calm_sane [of s] by (simp add: outcome_literals)

lemma calm_call_close: "calm s \<Longrightarrow> call (db_close b m) SUCCESS s = (SUCCESS, s)"
  using calm_sane [of s] calm_close [of s b m] call_outcome [of "db_close b m" s True False s False True]
  by (simp add: outcome_literals)

lemma calm_other [simp]: "calm s \<Longrightarrow> \<not> in_transaction k \<Longrightarrow> working k = on_disk k \<Longrightarrow> sql_other s k = (True, s, k)"
  by (simp add: sql_other_def)

lemma calm_other_inside [simp]: "calm s \<Longrightarrow> in_transaction k \<Longrightarrow> sql_other s k = (True, s, k)"
  by (simp add: sql_other_def)

section \<open>Undisturbed migrations\<close>

definition convert_rows :: "(bytes option \<Rightarrow> bytes) \<Rightarrow> dbfile \<Rightarrow> dbfile" where
  "convert_rows f d = d\<lparr>files_table := map (\<lambda>r. r\<lparr>fr_stat := Some (f (fr_stat r))\<rparr>) (files_table d)\<rparr>"

definition distinct_rows :: "dbfile \<Rightarrow> bool" where
  "distinct_rows d \<longleftrightarrow> distinct (map fr_ID (files_table d))"

text \<open>The table when the rows before \<open>rest\<close> are converted.\<close>

lemma update_next:
  assumes "files_table d = map (\<lambda>r. r\<lparr>fr_stat := Some (f (fr_stat r))\<rparr>) before @ r # rest"
    and "distinct (map fr_ID (before @ r # rest))"
  shows "update_stat (fr_ID r) (f (fr_stat r)) d
     = Some (d\<lparr>files_table := map (\<lambda>r. r\<lparr>fr_stat := Some (f (fr_stat r))\<rparr>) (before @ [r]) @ rest\<rparr>)"
proof -
  have "fr_ID x \<noteq> fr_ID r" if "x \<in> set before \<or> x \<in> set rest" for x
    using assms(2) that by (auto simp: image_iff)
  then have "map (\<lambda>x. if fr_ID x = fr_ID r then x\<lparr>fr_stat := Some (f (fr_stat r))\<rparr> else x) rest = rest"
    "map ((\<lambda>x. if fr_ID x = fr_ID r then x\<lparr>fr_stat := Some (f (fr_stat r))\<rparr> else x) \<circ>
       (\<lambda>r. r\<lparr>fr_stat := Some (f (fr_stat r))\<rparr>)) before
     = map (\<lambda>r. r\<lparr>fr_stat := Some (f (fr_stat r))\<rparr>) before"
    by (auto intro!: map_idI)
  then show ?thesis by (simp add: update_stat_def assms(1))
qed

lemma calm_migrate_loop:
  assumes "calm s" "in_transaction k" "distinct (map fr_ID (before @ rest))"
    and "files_table (working k) = map (\<lambda>r. r\<lparr>fr_stat := Some (f (fr_stat r))\<rparr>) before @ rest"
  shows "\<exists>modified'. migrate_loop (process_row f) rest s k modified
    = (SUCCESS, s, k\<lparr>working := (working k)\<lparr>files_table :=
         map (\<lambda>r. r\<lparr>fr_stat := Some (f (fr_stat r))\<rparr>) (before @ rest)\<rparr>\<rparr>, modified', Step_Done)"
  using assms
proof (induction rest arbitrary: k before modified)
  case Nil
  then show ?case by (subst migrate_loop.simps) simp
next
  case (Cons r rest)
  let ?d = "(working k)\<lparr>files_table := map (\<lambda>r. r\<lparr>fr_stat := Some (f (fr_stat r))\<rparr>) (before @ [r]) @ rest\<rparr>"
  have "process_row f r s k modified = (SUCCESS, s, k\<lparr>working := ?d\<rparr>, True)"
    using update_next [OF Cons.prems(4,3)] Cons.prems(1,2) calm_provide
    by (simp add: process_row_def)
  then have "migrate_loop (process_row f) (r # rest) s k modified
      = migrate_loop (process_row f) rest s (k\<lparr>working := ?d\<rparr>) True"
    using Cons.prems(1,2) calm_sane(2) by (subst migrate_loop.simps) simp
  moreover have "\<exists>modified'. migrate_loop (process_row f) rest s (k\<lparr>working := ?d\<rparr>) True
    = (SUCCESS, s, (k\<lparr>working := ?d\<rparr>)\<lparr>working := (working (k\<lparr>working := ?d\<rparr>))\<lparr>files_table :=
         map (\<lambda>r. r\<lparr>fr_stat := Some (f (fr_stat r))\<rparr>) ((before @ [r]) @ rest)\<rparr>\<rparr>, modified', Step_Done)"
    by (rule Cons.IH) (use Cons.prems in simp_all)
  ultimately show ?case by simp
qed

lemma calm_process_database:
  assumes "calm s" "in_transaction k" "distinct_rows (working k)"
  shows "\<exists>modified. process_database (process_row f) s k
    = (SUCCESS, s, k\<lparr>working := convert_rows f (working k)\<rparr>, modified)"
  using calm_migrate_loop [OF assms(1,2), of "[]" "files_table (working k)" f False] assms
    calm_provide [OF assms(1)]
  by (auto simp: process_database_def distinct_rows_def convert_rows_def)

lemma calm_end:
  "calm s \<Longrightarrow> in_transaction k \<Longrightarrow>
     migration_end SUCCESS s k = (SUCCESS, s, k\<lparr>on_disk := working k, in_transaction := False\<rparr>)"
  using calm_sane(2) by (simp add: migration_end_def)

lemma calm_migration_close:
  "calm s \<Longrightarrow> \<exists>s'. migration_close p m SUCCESS s k = (SUCCESS, s', on_disk k) \<and> calm s'"
  by (auto simp: migration_close_def Let_def calm_call_close calm_provide disconnect_def)

lemma calm_migrate_1:
  assumes "calm s" "\<not> conf_dry_run c" "distinct_rows d"
  shows "\<exists>s'. db_migrate_from_0_to_1 c p d s
    = (SUCCESS, s', convert_rows convert_blob_to_v1 (the (create_metadata d))) \<and> calm s'"
proof -
  define d1 where "d1 = the (create_metadata d)"
  have cm: "create_metadata d = Some d1" "distinct_rows d1"
    using assms(3) by (auto simp: d1_def create_metadata_def distinct_rows_def)
  let ?k = "\<lparr>on_disk = d, working = d1, in_transaction = True\<rparr>"
  obtain m where m: "process_database process_row_v1 s ?k
      = (SUCCESS, s, ?k\<lparr>working := convert_rows convert_blob_to_v1 d1\<rparr>, m)"
    using calm_process_database [OF assms(1), of ?k convert_blob_to_v1] cm(2) by (auto simp: process_row_v1_def)
  show ?thesis
    using assms m cm calm_end [OF assms(1)]
      calm_migration_close [OF assms(1), of p m
        "\<lparr>on_disk = convert_rows convert_blob_to_v1 d1, working = convert_rows convert_blob_to_v1 d1,
          in_transaction = False\<rparr>"]
    by (simp add: db_migrate_from_0_to_1_def connect_def)
qed

lemma calm_journal:
  "calm s \<Longrightarrow> \<not> in_transaction k \<Longrightarrow> working k = on_disk k \<Longrightarrow>
     normalize_journal_mode (Some [100, 101, 108, 101, 116, 101]) s k = (SUCCESS, s, k)"
  by (simp add: normalize_journal_mode_def calm_provide)

lemma calm_migrate_4:
  assumes "calm s" "\<not> conf_dry_run c" "distinct_rows d" "mode = Some [100, 101, 108, 101, 116, 101]"
  shows "\<exists>s'. db_migrate_to_version_4 c mode p d s = (SUCCESS, s', convert_rows convert_blob_to_v4 d) \<and> calm s'"
proof -
  let ?k = "\<lparr>on_disk = d, working = d, in_transaction = True\<rparr>"
  obtain m where m: "process_database process_row_v4 s ?k
      = (SUCCESS, s, ?k\<lparr>working := convert_rows convert_blob_to_v4 d\<rparr>, m)"
    using calm_process_database [OF assms(1), of ?k convert_blob_to_v4] assms(3) by (auto simp: process_row_v4_def)
  show ?thesis
    using assms m calm_end [OF assms(1)] calm_journal
      calm_migration_close [OF assms(1), of p m
        "\<lparr>on_disk = convert_rows convert_blob_to_v4 d, working = convert_rows convert_blob_to_v4 d,
          in_transaction = False\<rparr>"]
    by (simp add: db_migrate_to_version_4_def connect_def)
qed

lemma calm_specify:
  assumes "calm s" "\<not> conf_dry_run c" "metadata_table d \<noteq> None"
  shows "\<exists>s'. db_specify_version c True p v d s = (SUCCESS, s', d\<lparr>metadata_table := Some [v]\<rparr>) \<and> calm s'"
  using assms calm_sane(2) calm_call_close calm_provide
  by (auto simp: db_specify_version_def connect_def delete_metadata_def insert_metadata_def disconnect_def Let_def)

section \<open>Undisturbed upgrades\<close>

text \<open>The version a file claims; an absent number is 0.\<close>

definition file_version :: "dbfile \<Rightarrow> int" where
  "file_version d = (case metadata_table d of Some (v # _) \<Rightarrow> sqlite3_column_int v | _ \<Rightarrow> 0)"

lemma calm_retrieve:
  "calm s \<Longrightarrow> db_retrieve_version True 0 d s = (SUCCESS, s, file_version d)"
  by (auto simp: db_retrieve_version_def connect_def calm_provide file_version_def split: option.split list.split)

lemma calm_vacuum:
  assumes "calm s" "\<not> conf_dry_run c"
  shows "\<exists>s'. db_vacuum c True p True True s = (SUCCESS, s') \<and> calm s'"
proof -
  have t: "calm (snd (cur_time_monotonic_ns s'))" if "calm s'" for s'
    using that by (auto simp: cur_time_monotonic_ns_def calm_def sane_def tick_def split: list.split)
  show ?thesis
    using assms t [OF assms(1)] t [OF t [OF assms(1)]]
    by (auto simp: db_vacuum_def case_prod_beta calm_call_close calm_provide Let_def)
qed

definition upgraded_stat :: "int \<Rightarrow> bytes option \<Rightarrow> bytes" where
  "upgraded_stat v blob = (if v < 1 then convert_blob_to_v4 (Some (convert_blob_to_v1 blob)) else convert_blob_to_v4 blob)"

lemma convert_rows_simps [simp]:
  "metadata_table (convert_rows f d) = metadata_table d" "distinct_rows (convert_rows f d) = distinct_rows d"
  "distinct_rows (d\<lparr>metadata_table := m\<rparr>) = distinct_rows d"
  by (simp_all add: convert_rows_def distinct_rows_def comp_def)

lemma calm_upgrade:
  assumes "calm s" "conf_update c" "\<not> conf_dry_run c" "distinct_rows d"
    and "mode = Some [100, 101, 108, 101, 116, 101]" "v < 4" "v \<ge> 1 \<Longrightarrow> metadata_table d \<noteq> None"
  shows "\<exists>s'. db_upgrade c mode p (v) d s
    = (SUCCESS, s', convert_rows (upgraded_stat (v)) (d\<lparr>metadata_table := Some [4]\<rparr>), 4) \<and> calm s'"
proof (cases "v < 1")
  case True
  define d1 where "d1 = convert_rows convert_blob_to_v1 (the (create_metadata d))"
  define d2 where "d2 = d1\<lparr>metadata_table := Some [1]\<rparr>"
  have d1: "distinct_rows d1" "metadata_table d1 \<noteq> None"
    using assms(4) by (auto simp: d1_def create_metadata_def)
  obtain s1 where s1: "db_migrate_from_0_to_1 c p d s = (SUCCESS, s1, d1)" "calm s1"
    using calm_migrate_1 [OF assms(1,3,4), of p] by (auto simp: d1_def)
  obtain s2 where s2: "db_specify_version c True p 1 d1 s1 = (SUCCESS, s2, d2)" "calm s2"
    using calm_specify [OF s1(2) assms(3) d1(2), of p 1] by (auto simp: d2_def)
  have d2: "distinct_rows d2" using d1 by (simp add: d2_def)
  obtain s3 where s3: "db_migrate_to_version_4 c mode p d2 s2 = (SUCCESS, s3, convert_rows convert_blob_to_v4 d2)" "calm s3"
    using calm_migrate_4 [OF s2(2) assms(3) d2 assms(5), of p] by auto
  obtain s4 where s4: "db_specify_version c True p 4 (convert_rows convert_blob_to_v4 d2) s3
      = (SUCCESS, s4, (convert_rows convert_blob_to_v4 d2)\<lparr>metadata_table := Some [4]\<rparr>)" "calm s4"
    using calm_specify [OF s3(2) assms(3), of "convert_rows convert_blob_to_v4 d2" p 4] by (auto simp: d2_def)
  have "(convert_rows convert_blob_to_v4 d2)\<lparr>metadata_table := Some [4]\<rparr>
      = convert_rows (upgraded_stat (v)) (d\<lparr>metadata_table := Some [4]\<rparr>)"
    using True by (simp add: d2_def d1_def convert_rows_def create_metadata_def upgraded_stat_def comp_def)
  then show ?thesis
    using assms(2) True s1 s2 s3 s4 calm_provide
    by (simp add: db_upgrade_def upgrade_step_def)
next
  case False
  then have m: "metadata_table d \<noteq> None" using assms(7) by simp
  obtain s3 where s3: "db_migrate_to_version_4 c mode p d s = (SUCCESS, s3, convert_rows convert_blob_to_v4 d)" "calm s3"
    using calm_migrate_4 [OF assms(1,3,4,5), of p] by auto
  obtain s4 where s4: "db_specify_version c True p 4 (convert_rows convert_blob_to_v4 d) s3
      = (SUCCESS, s4, (convert_rows convert_blob_to_v4 d)\<lparr>metadata_table := Some [4]\<rparr>)" "calm s4"
    using calm_specify [OF s3(2) assms(3), of "convert_rows convert_blob_to_v4 d" p 4] m by auto
  have "(convert_rows convert_blob_to_v4 d)\<lparr>metadata_table := Some [4]\<rparr>
      = convert_rows (upgraded_stat (v)) (d\<lparr>metadata_table := Some [4]\<rparr>)"
    using False by (simp add: convert_rows_def upgraded_stat_def)
  then show ?thesis
    using assms(2,6) False s3 s4 calm_provide
    by (simp add: db_upgrade_def upgrade_step_def)
qed

lemma calm_check_version:
  assumes "calm s" "conf_update c" "\<not> conf_dry_run c" "distinct_rows d"
    and "mode = Some [100, 101, 108, 101, 116, 101]" "file_version d < 4"
  shows "\<exists>s'. db_check_version c mode p (True, True) d s
    = (SUCCESS, s', convert_rows (upgraded_stat (file_version d)) (d\<lparr>metadata_table := Some [4]\<rparr>)) \<and> calm s'"
proof -
  obtain s' where u: "db_upgrade c mode p (file_version d) d s
    = (SUCCESS, s', convert_rows (upgraded_stat (file_version d)) (d\<lparr>metadata_table := Some [4]\<rparr>), 4)" "calm s'"
    using calm_upgrade [OF assms(1-6)] by (cases "metadata_table d") (auto simp: file_version_def)
  obtain s2 where "db_vacuum c True p True True s' = (SUCCESS, s2)" "calm s2"
    using calm_vacuum [OF u(2) assms(3)] by blast
  then show ?thesis
    using assms u calm_sane(2) [OF assms(1)] calm_provide
    by (auto simp: db_check_version_def calm_retrieve CURRENT_DB_VERSION_def)
qed

text \<open>What a file says about its rows, whatever its version; a blob that cannot be read says nothing.\<close>

definition unknown_stat :: CmpctStat where
  "unknown_stat = \<lparr>st_size = 0, st_blocks = BLKCNT_UNKNOWN, st_dev = 0, st_ino = 0,
     mtim_tv_sec = 0, mtim_tv_nsec = 0, ctim_tv_sec = 0, ctim_tv_nsec = 0\<rparr>"

definition known_stat :: "int \<Rightarrow> bytes option \<Rightarrow> CmpctStat" where
  "known_stat v blob =
     (case blob of
        None \<Rightarrow> unknown_stat
      | Some b \<Rightarrow>
          if v \<ge> 4 then stat_of_blob b
          else if v \<ge> 1 then
            if length b = sizeof_v1 then convert_blob_to_v4_stat (v1_of_blob b) else unknown_stat
          else if STAT64_SIZE \<le> length b \<and> cmpct_stat_is_sane (Some (v0_stat b))
            then convert_blob_to_v4_stat (v0_stat b)
          else unknown_stat)"

definition known_rows :: "dbfile \<Rightarrow> (int \<times> bytes \<times> bytes option \<times> CmpctStat) list" where
  "known_rows d = map (\<lambda>r. (fr_ID r, fr_relative_path r, fr_sha512 r, known_stat (file_version d) (fr_stat r))) (files_table d)"

lemma unknown_converted: "convert_blob_to_v4_stat zero_v1 = unknown_stat"
  by (simp add: convert_blob_to_v4_stat_def zero_v1_def unknown_stat_def)

lemma unreadable_v0:
  assumes "\<not> (STAT64_SIZE \<le> length b \<and> cmpct_stat_is_sane (Some (v0_stat b)))"
  shows "convert_blob_to_v1 (Some b) = blob_of_v1 zero_v1"
  using assms by (auto simp: convert_blob_to_v1_def populate_from_glibc_stat_blob_def v0_stat_def Let_def
      STAT64_ST_SIZE_OFF_def STAT64_ST_MTIM_OFF_def STAT64_ST_CTIM_OFF_def)

lemma upgraded_meaning:
  assumes "v < 4"
  shows "stat_of_blob (upgraded_stat v blob) = known_stat v blob"
proof (cases "v < 1")
  case True
  show ?thesis
  proof (cases blob)
    case None
    then show ?thesis using True
      by (simp add: upgraded_stat_def known_stat_def convert_blob_to_v1_def v1_conversion unknown_converted)
  next
    case (Some b)
    then show ?thesis
      using True v0_conversion [of b] unreadable_v0 [of b]
      by (auto simp: upgraded_stat_def known_stat_def v1_conversion unknown_converted)
  qed
next
  case False
  then show ?thesis using assms
    by (auto simp: upgraded_stat_def known_stat_def convert_blob_to_v4_def unknown_converted split: option.split)
qed

lemma version_4: "file_version (convert_rows f (d\<lparr>metadata_table := Some [4]\<rparr>)) = 4"
  by (simp add: file_version_def sqlite3_column_int_def)


end
