(* ===== verification/Versions_Atomic.thy ===== *)
theory Versions_Atomic
  imports Versions_Correct
begin

text \<open>
  Migrations whatever happens: signals at any point, errors and automatic rollbacks of SQLite.  What
  is on disk afterwards is the file as it was or the file converted as a whole.
\<close>

section \<open>A migration under way\<close>

text \<open>The disk is as it was; without a transaction the connection sees the disk.\<close>

definition attempt :: "dbfile \<Rightarrow> connection \<Rightarrow> bool" where
  "attempt d k \<longleftrightarrow> on_disk k = d \<and> (in_transaction k \<or> working k = d)"

lemma exec_attempt:
  assumes "sql_exec f s k = (ok, s', k')" "sane s" "attempt d k" "in_transaction k"
  shows "later s s'" "attempt d k'" "ok \<Longrightarrow> in_transaction k' \<and> f (working k) = Some (working k')"
  using assms sql_answer_later(1) [OF assms(2)]
  by (auto simp: sql_exec_def attempt_def split: prod.splits sql_answer.splits option.splits)

lemma other_attempt:
  assumes "sql_other s k = (ok, s', k')" "sane s" "attempt d k"
  shows "later s s'" "attempt d k'" "ok \<Longrightarrow> in_transaction k' = in_transaction k \<and> working k' = working k"
  using assms sql_answer_later(1) [OF assms(2)]
  by (auto simp: sql_other_def sql_exec_def attempt_def split: prod.splits sql_answer.splits)

lemma later_sane: "later s s' \<Longrightarrow> sane s'"
  by (simp add: later_def)

lemma process_row_attempt:
  assumes "process_row f r s k modified = (st, s', k', m)" "sane s" "attempt d k" "in_transaction k"
  shows "later s s'" "attempt d k'" "\<exists>g. st = outcome g (halted s')"
    "st = SUCCESS \<Longrightarrow> in_transaction k' \<and> update_stat (fr_ID r) (f (fr_stat r)) (working k) = Some (working k')"
proof -
  obtain ok s1 k1 where e: "sql_exec (update_stat (fr_ID r) (f (fr_stat r))) s k = (ok, s1, k1)" by (cases "sql_exec (update_stat (fr_ID r) (f (fr_stat r))) s k")
  note a = exec_attempt [OF e assms(2,3,4)]
  have r: "st = outcome ok (halted s1)" "s' = s1" "k' = k1"
    using assms(1) e later_sane [OF a(1)] by (cases ok; simp add: process_row_def)+
  show "later s s'" "attempt d k'" using a r by simp_all
  show "\<exists>g. st = outcome g (halted s')"
    unfolding r by blast
  show "st = SUCCESS \<Longrightarrow> in_transaction k' \<and> update_stat (fr_ID r) (f (fr_stat r)) (working k) = Some (working k')"
    using a(3) r by simp
qed

lemma migrate_loop_attempt:
  assumes "migrate_loop (process_row f) rest s k modified = (st, s', k', m, step)" "sane s" "attempt d k" "in_transaction k"
    and "distinct (map fr_ID (before @ rest))"
    and "files_table (working k) = map (\<lambda>r. r\<lparr>fr_stat := Some (f (fr_stat r))\<rparr>) before @ rest"
  shows "later s s' \<and> attempt d k' \<and> (\<exists>g. st = outcome g (halted s') \<or> g \<and> st = SUCCESS)
    \<and> (st = SUCCESS \<and> step = Step_Done \<longrightarrow> in_transaction k' \<and> working k' = (working k)\<lparr>files_table :=
         map (\<lambda>r. r\<lparr>fr_stat := Some (f (fr_stat r))\<rparr>) (before @ rest)\<rparr>)"
  using assms
proof (induction rest arbitrary: s k before modified)
  case Nil
  obtain ok s1 k1 where o: "sql_other s k = (ok, s1, k1)" by (cases "sql_other s k")
  note a = other_attempt [OF o Nil.prems(2,3)]
  from Nil.prems(1) have "(if ok then (SUCCESS, s1, k1, modified, Step_Done) else (SUCCESS, s1, k1, modified, Step_Error))
      = (st, s', k', m, step)"
    by (subst (asm) migrate_loop.simps) (cases ok; simp add: o)
  then show ?case using a Nil.prems(4,6) by (auto split: if_splits)
next
  case (Cons r rest)
  obtain ok s1 k1 where o: "sql_other s k = (ok, s1, k1)" by (cases "sql_other s k")
  note a = other_attempt [OF o Cons.prems(2,3)]
  obtain st2 s2 k2 m2 where p: "process_row f r s1 k1 modified = (st2, s2, k2, m2)"
    by (cases "process_row f r s1 k1 modified")
  have ev: "(if \<not> ok then (SUCCESS, s1, k1, modified, Step_Error)
      else if halted s1 then (SUCCESS, s1, k1, modified, Step_Row)
      else if st2 \<noteq> SUCCESS then (st2, s2, k2, m2, Step_Row)
      else migrate_loop (process_row f) rest s2 k2 m2) = (st, s', k', m, step)"
    using Cons.prems(1) by (subst (asm) migrate_loop.simps) (simp add: o p cong: if_cong)
  show ?case
  proof (cases "\<not> ok \<or> halted s1")
    case True
    then show ?thesis using ev a by (auto split: if_splits)
  next
    case False
    then have t: "in_transaction k1" "working k1 = working k" using a(3) Cons.prems(4) by auto
    note b = process_row_attempt [OF p later_sane [OF a(1)] a(2) t(1)]
    have l: "later s s2" using a(1) b(1) by (rule later_trans)
    show ?thesis
    proof (cases "st2 = SUCCESS")
      case False
      then show ?thesis using ev \<open>\<not> (\<not> ok \<or> halted s1)\<close> b l by auto
    next
      case True
      let ?d = "(working k)\<lparr>files_table := map (\<lambda>r. r\<lparr>fr_stat := Some (f (fr_stat r))\<rparr>) (before @ [r]) @ rest\<rparr>"
      have w: "in_transaction k2" "working k2 = ?d"
        using b(4) [OF True] update_next [OF Cons.prems(6,5)] t(2) by simp_all
      have run: "migrate_loop (process_row f) rest s2 k2 m2 = (st, s', k', m, step)"
        using ev True False by simp
      have "later s2 s' \<and> attempt d k' \<and> (\<exists>g. st = outcome g (halted s') \<or> g \<and> st = SUCCESS)
        \<and> (st = SUCCESS \<and> step = Step_Done \<longrightarrow> in_transaction k' \<and> working k' = (working k2)\<lparr>files_table :=
             map (\<lambda>r. r\<lparr>fr_stat := Some (f (fr_stat r))\<rparr>) ((before @ [r]) @ rest)\<rparr>)"
        by (rule Cons.IH [OF run later_sane [OF b(1)] b(2) w(1)]) (use Cons.prems(5) w(2) in simp_all)
      then show ?thesis using l w(2) later_trans by auto
    qed
  qed
qed

lemma process_database_attempt:
  assumes "process_database (process_row f) s k = (st, s', k', m)" "sane s" "attempt d k" "in_transaction k"
    and "distinct_rows (working k)"
  shows "later s s'" "attempt d k'" "\<exists>g. st = outcome g (halted s')"
    "st = SUCCESS \<Longrightarrow> in_transaction k' \<and> working k' = convert_rows f (working k)"
proof -
  obtain ok s1 k1 where o: "sql_other s k = (ok, s1, k1)" by (cases "sql_other s k")
  note a = other_attempt [OF o assms(2,3)]
  have "later s s' \<and> attempt d k' \<and> (\<exists>g. st = outcome g (halted s'))
    \<and> (st = SUCCESS \<longrightarrow> in_transaction k' \<and> working k' = convert_rows f (working k))"
  proof (cases ok)
    case False
    then have "(st, s', k') = (outcome False (halted s1), s1, k1)"
      using assms(1) o later_sane [OF a(1)] by (auto simp: process_database_def)
    then show ?thesis using a by (auto intro: exI [of _ False])
  next
    case True
    then have t: "in_transaction k1" "working k1 = working k" using a(3) assms(4) by auto
    obtain st2 s2 k2 m2 step where l: "migrate_loop (process_row f) (files_table (working k1)) s1 k1 False
        = (st2, s2, k2, m2, step)"
      by (cases "migrate_loop (process_row f) (files_table (working k1)) s1 k1 False")
    have b: "later s1 s2 \<and> attempt d k2 \<and> (\<exists>g. st2 = outcome g (halted s2) \<or> g \<and> st2 = SUCCESS)
      \<and> (st2 = SUCCESS \<and> step = Step_Done \<longrightarrow> in_transaction k2 \<and> working k2 = (working k1)\<lparr>files_table :=
           map (\<lambda>r. r\<lparr>fr_stat := Some (f (fr_stat r))\<rparr>) ([] @ files_table (working k1))\<rparr>)"
      by (rule migrate_loop_attempt [OF l later_sane [OF a(1)] a(2) t(1)])
        (use assms(5) t(2) in \<open>simp_all add: distinct_rows_def\<close>)
    define st3 where "st3 = (if st2 = SUCCESS \<and> \<not> halted s2 \<and> step \<noteq> Step_Done then FAILURE else st2)"
    have ev: "(st, s', k', m) = (let (st, s) = provide st3 s2 in (st, s, k2, m2))"
      using assms(1) o True l by (simp add: process_database_def st3_def)
    obtain g where g: "st2 = outcome g (halted s2) \<or> g \<and> st2 = SUCCESS" using b by blast
    have sn: "sane s2" using b later_sane by blast
    obtain g' where g': "st = outcome g' (halted s2)" "s' = s2" "k' = k2" "g' \<Longrightarrow> st3 = st2"
      using ev g sn by (auto simp: st3_def split: if_splits)
    have done_: "st2 = SUCCESS \<and> step = Step_Done" if "st = SUCCESS"
    proof -
      have "g'" "\<not> halted s2" using that g'(1) by auto
      moreover have "st3 = st2" using g'(4) \<open>g'\<close> .
      moreover have "st3 = SUCCESS"
      proof (rule ccontr)
        assume "st3 \<noteq> SUCCESS"
        then have "st3 = FAILURE" using g \<open>\<not> halted s2\<close> by (auto simp: st3_def outcome_literals split: if_splits)
        then have "st = outcome False (halted s2)" using ev sn by auto
        then show False using that by simp
      qed
      ultimately show ?thesis by (auto simp: st3_def FAILURE_def SUCCESS_def split: if_splits)
    qed
    show ?thesis
      using b g' done_ t(2) later_trans [OF a(1)] by (auto simp: convert_rows_def)
  qed
  then show "later s s'" "attempt d k'" "\<exists>g. st = outcome g (halted s')"
    "st = SUCCESS \<Longrightarrow> in_transaction k' \<and> working k' = convert_rows f (working k)" by blast+
qed

section \<open>The end of a migration\<close>

text \<open>SUCCESS alone is reported only when nothing before went wrong.\<close>

lemma success_clean:
  assumes "fst (call f w s) = SUCCESS \<or> fst (provide w s) = SUCCESS"
  shows "\<not> bit w 0 \<and> \<not> bit w 4 \<and> \<not> bit w 5"
proof -
  have "bit (fst (call f w s)) 0 \<or> bit (fst (call f w s)) 4 \<or> bit (fst (call f w s)) 5"
    "bit (fst (provide w s)) 0 \<or> bit (fst (provide w s)) 4 \<or> bit (fst (provide w s)) 5"
    if "bit w 0 \<or> bit w 4 \<or> bit w 5"
    using that by (auto simp: call_def case_prod_beta Let_def bit_or_iff bit_provide)
  moreover have "\<not> bit SUCCESS 0" "\<not> bit SUCCESS 4" "\<not> bit SUCCESS 5" by simp_all
  ultimately show ?thesis using assms by metis
qed

lemma end_attempt:
  assumes "migration_end st s k = (st', s', k')" "sane s" "attempt d k" "st = outcome g h"
    and "st = SUCCESS \<Longrightarrow> in_transaction k \<and> working k = e"
  shows "on_disk k' = d \<or> on_disk k' = e"
    "\<not> bit st' 0 \<and> \<not> bit st' 4 \<and> \<not> bit st' 5 \<Longrightarrow> on_disk k' = e"
proof -
  have "(on_disk k' = d \<or> on_disk k' = e) \<and> (on_disk k' = e \<or> bit st' 0 \<or> bit st' 4 \<or> bit st' 5)"
    using assms
    by (auto simp: migration_end_def sql_rollback_def sql_commit_def attempt_def Let_def
        split: prod.splits if_splits sql_answer.splits)
  then show "on_disk k' = d \<or> on_disk k' = e"
    "\<not> bit st' 0 \<and> \<not> bit st' 4 \<and> \<not> bit st' 5 \<Longrightarrow> on_disk k' = e" by blast+
qed

lemma close_disk:
  assumes "migration_close p m st s k = (st', s', d')"
  shows "d' = on_disk k" "st' = SUCCESS \<Longrightarrow> \<not> bit st 0 \<and> \<not> bit st 4 \<and> \<not> bit st 5"
proof -
  show "d' = on_disk k"
    using assms by (auto simp: migration_close_def disconnect_def Let_def split: prod.splits)
  define s1 where "s1 = (if st = SUCCESS \<and> m \<and> p then s\<lparr>db_primary_file_modified := True\<rparr> else s)"
  define f where "f = db_close True (db_primary_file_modified s1)"
  have "st' = fst (provide (fst (call f st s1)) (snd (call f st s1)))"
    using assms by (auto simp: migration_close_def Let_def s1_def f_def split: prod.splits)
  moreover assume "st' = SUCCESS"
  ultimately have c: "\<not> bit (fst (call f st s1)) 0 \<and> \<not> bit (fst (call f st s1)) 4 \<and> \<not> bit (fst (call f st s1)) 5"
    using success_clean by metis
  show "\<not> bit st 0 \<and> \<not> bit st 4 \<and> \<not> bit st 5"
    using c by (auto simp: call_def case_prod_beta Let_def bit_or_iff split: if_splits)
qed

lemma when_other_attempt:
  assumes "when_success sql_other st s k = (st', s', k')" "sane s" "attempt d k" "st = SUCCESS \<or> st = FAILURE"
  shows "sane s' \<and> attempt d k' \<and> (st' = SUCCESS \<or> st' = FAILURE)
    \<and> (st' = SUCCESS \<longrightarrow> st = SUCCESS \<and> in_transaction k' = in_transaction k)"
  using assms other_attempt [of s k _ _ _ d] later_sane [of s]
  by (auto simp: when_success_def split: prod.splits if_splits)

lemma begin_attempt:
  assumes "(if st = SUCCESS then sql_begin s k else (False, s, k)) = (ok, s', k')" "sane s" "attempt d k"
    "\<not> in_transaction k"
  shows "sane s' \<and> attempt d k' \<and> (ok \<longrightarrow> st = SUCCESS \<and> in_transaction k' \<and> working k' = d) \<and> (\<not> ok \<longrightarrow> on_disk k' = d)"
  using assms sql_answer_later(1) [OF assms(2)] later_sane [of s]
  by (auto simp: sql_begin_def attempt_def split: prod.splits if_splits)

section \<open>All or nothing\<close>

lemma finish_attempt:
  assumes "process_database (process_row f) s k = (st, s1, k1, m)" "sane s" "attempt d k" "in_transaction k"
    and "distinct_rows (working k)" "migration_end st s1 k1 = (st2, s2, k2)"
    and "migration_close p m st2 s2 k2 = (st3, s3, d')"
  shows "d' = d \<or> d' = convert_rows f (working k)" "st3 = SUCCESS \<Longrightarrow> d' = convert_rows f (working k)"
proof -
  note a = process_database_attempt [OF assms(1-5)]
  obtain g where g: "st = outcome g (halted s1)" using a(3) by blast
  note e = end_attempt [OF assms(6) later_sane [OF a(1)] a(2) g, of "convert_rows f (working k)"]
  note c = close_disk [OF assms(7)]
  show "d' = d \<or> d' = convert_rows f (working k)" using e(1) a(4) c(1) by blast
  show "st3 = SUCCESS \<Longrightarrow> d' = convert_rows f (working k)" using e(2) a(4) c by blast
qed

lemma failed_attempt:
  assumes "migration_close p m st s k = (st', s', d')" "on_disk k = d" "bit st 0 \<or> bit st 4 \<or> bit st 5"
  shows "d' = d" "st' \<noteq> SUCCESS"
  using close_disk [OF assms(1)] assms(2,3) by auto

lemma migrate_1_attempt:
  assumes "sane s" "distinct_rows d" "\<not> conf_dry_run c" "db_migrate_from_0_to_1 c p d s = (st, s', d')"
  shows "(d' = d \<or> d' = convert_rows convert_blob_to_v1 (the (create_metadata d)))
    \<and> (st = SUCCESS \<longrightarrow> d' = convert_rows convert_blob_to_v1 (the (create_metadata d)))"
proof -
  obtain st1 s1 k1 where r1: "when_success sql_other SUCCESS s (connect d) = (st1, s1, k1)"
    by (cases "when_success sql_other SUCCESS s (connect d)")
  have a1: "sane s1 \<and> attempt d k1 \<and> (st1 = SUCCESS \<or> st1 = FAILURE) \<and> (st1 = SUCCESS \<longrightarrow> \<not> in_transaction k1)"
    using when_other_attempt [OF r1 assms(1), of d] by (simp add: connect_def attempt_def)
  obtain st2 s2 k2 where r2: "when_success sql_other st1 s1 k1 = (st2, s2, k2)"
    by (cases "when_success sql_other st1 s1 k1")
  have a2: "sane s2 \<and> attempt d k2 \<and> (st2 = SUCCESS \<or> st2 = FAILURE) \<and> (st2 = SUCCESS \<longrightarrow> \<not> in_transaction k2)"
    using when_other_attempt [OF r2, of d] a1 by auto
  obtain ok s3 k3 where r3: "(if st2 = SUCCESS then sql_begin s2 k2 else (False, s2, k2)) = (ok, s3, k3)"
    by (cases "if st2 = SUCCESS then sql_begin s2 k2 else (False, s2, k2)")
  show ?thesis
  proof (cases ok)
    case False
    have "on_disk k3 = d"
      using r3 False a2 by (auto simp: sql_begin_def attempt_def split: prod.splits if_splits)
    moreover have "migration_close p False FAILURE s3 k3 = (st, s', d')"
      using assms(3,4) r1 r2 r3 False a2
      by (auto simp: db_migrate_from_0_to_1_def when_success_def split: if_splits)
    ultimately show ?thesis using failed_attempt [of p False FAILURE s3 k3 st s' d' d] by simp
  next
    case True
    have a3: "st2 = SUCCESS" "sane s3" "attempt d k3" "in_transaction k3" "working k3 = d"
      using begin_attempt [OF r3, of d] a2 True r3 by (auto split: if_splits)
    obtain ok4 s4 k4 where r4: "sql_exec create_metadata s3 k3 = (ok4, s4, k4)"
      by (cases "sql_exec create_metadata s3 k3")
    note a4 = exec_attempt [OF r4 a3(2,3,4)]
    show ?thesis
    proof (cases ok4)
      case False
      obtain st5 s5 k5 where r5: "migration_end FAILURE s4 k4 = (st5, s5, k5)" by (cases "migration_end FAILURE s4 k4")
      note e = end_attempt [OF r5 later_sane [OF a4(1)] a4(2), of False False d]
      have b: "bit st5 0"
        using r5 by (auto simp: migration_end_def split: prod.splits if_splits)
      have "migration_close p False st5 s5 k5 = (st, s', d')"
        using assms(3,4) r1 r2 r3 r4 r5 False \<open>ok\<close> a3(1)
        by (auto simp: db_migrate_from_0_to_1_def when_success_def split: if_splits)
      then show ?thesis using failed_attempt [of p False st5 s5 k5 st s' d' d] e(1) b by (auto simp: outcome_literals)
    next
      case True
      then have a5: "in_transaction k4" "working k4 = the (create_metadata d)"
        using a4(3) a3(5) by auto
      obtain st5 s5 k5 m where r5: "process_database (process_row convert_blob_to_v1) s4 k4 = (st5, s5, k5, m)"
        by (cases "process_database (process_row convert_blob_to_v1) s4 k4")
      obtain st6 s6 k6 where r6: "migration_end st5 s5 k5 = (st6, s6, k6)" by (cases "migration_end st5 s5 k5")
      have r7: "migration_close p m st6 s6 k6 = (st, s', d')"
        using assms(3,4) r1 r2 r3 r4 r5 r6 True \<open>ok\<close> a3(1)
        by (auto simp: db_migrate_from_0_to_1_def when_success_def process_row_v1_def split: if_splits)
      have dist: "distinct_rows (working k4)" using a5(2) assms(2) by (simp add: create_metadata_def)
      show ?thesis
        using finish_attempt [OF r5 later_sane [OF a4(1)] a4(2) a5(1) dist r6 r7] a5(2) by auto
    qed
  qed
qed

lemma journal_attempt:
  assumes "normalize_journal_mode mode s k = (st, s', k')" "sane s" "attempt d k" "\<not> in_transaction k"
  shows "sane s' \<and> attempt d k' \<and> (st = SUCCESS \<longrightarrow> \<not> in_transaction k') \<and> (\<exists>g h. st = outcome g h)"
proof -
  obtain st1 s1 k1 where r1: "when_success sql_other SUCCESS s k = (st1, s1, k1)"
    by (cases "when_success sql_other SUCCESS s k")
  note a1 = when_other_attempt [OF r1 assms(2,3)]
  obtain st2 s2 k2 where r2: "when_success sql_other st1 s1 k1 = (st2, s2, k2)"
    by (cases "when_success sql_other st1 s1 k1")
  have a2: "sane s2 \<and> attempt d k2 \<and> (st2 = SUCCESS \<or> st2 = FAILURE) \<and> (st2 = SUCCESS \<longrightarrow> \<not> in_transaction k2)"
    using when_other_attempt [OF r2, of d] a1 assms(4) by auto
  define st3 where "st3 = (if st2 = SUCCESS \<and> mode \<noteq> Some [100, 101, 108, 101, 116, 101] then FAILURE else st2)"
  obtain st4 s4 k4 where r4: "when_success sql_other st3 s2 k2 = (st4, s4, k4)"
    by (cases "when_success sql_other st3 s2 k2")
  have a4: "sane s4 \<and> attempt d k4 \<and> (st4 = SUCCESS \<or> st4 = FAILURE) \<and> (st4 = SUCCESS \<longrightarrow> \<not> in_transaction k4)"
    using when_other_attempt [OF r4, of d] a2 by (auto simp: st3_def split: if_splits)
  have "(st, s', k') = (let (st, s) = provide st4 s4 in (st, s, k4))"
    using assms(1) r1 r2 r4 by (simp add: normalize_journal_mode_def st3_def)
  then show ?thesis using a4 by auto
qed

lemma migrate_4_attempt:
  assumes "sane s" "distinct_rows d" "\<not> conf_dry_run c" "db_migrate_to_version_4 c mode p d s = (st, s', d')"
  shows "(d' = d \<or> d' = convert_rows convert_blob_to_v4 d) \<and> (st = SUCCESS \<longrightarrow> d' = convert_rows convert_blob_to_v4 d)"
proof -
  obtain st1 s1 k1 where r1: "when_success sql_other SUCCESS s (connect d) = (st1, s1, k1)"
    by (cases "when_success sql_other SUCCESS s (connect d)")
  have a1: "sane s1 \<and> attempt d k1 \<and> (st1 = SUCCESS \<or> st1 = FAILURE) \<and> (st1 = SUCCESS \<longrightarrow> \<not> in_transaction k1)"
    using when_other_attempt [OF r1 assms(1), of d] by (simp add: connect_def attempt_def)
  obtain st2 s2 k2 where r2: "when_success sql_other st1 s1 k1 = (st2, s2, k2)"
    by (cases "when_success sql_other st1 s1 k1")
  have a2: "sane s2 \<and> attempt d k2 \<and> (st2 = SUCCESS \<or> st2 = FAILURE) \<and> (st2 = SUCCESS \<longrightarrow> \<not> in_transaction k2)"
    using when_other_attempt [OF r2, of d] a1 by auto
  obtain st3 s3 k3 where r3: "(if st2 = SUCCESS then normalize_journal_mode mode s2 k2 else (st2, s2, k2)) = (st3, s3, k3)"
    by (cases "if st2 = SUCCESS then normalize_journal_mode mode s2 k2 else (st2, s2, k2)")
  have a3: "sane s3 \<and> attempt d k3 \<and> (st3 = SUCCESS \<longrightarrow> \<not> in_transaction k3) \<and> (\<exists>g h. st3 = outcome g h)"
  proof (cases "st2 = SUCCESS")
    case True
    then show ?thesis using journal_attempt [of mode s2 k2 st3 s3 k3 d] r3 a2 by simp
  next
    case False
    then have "st3 = outcome False False" using r3 a2 by (simp add: outcome_literals)
    then show ?thesis using r3 a2 False by auto
  qed
  obtain ok s4 k4 where r4: "(if st3 = SUCCESS then sql_begin s3 k3 else (False, s3, k3)) = (ok, s4, k4)"
    by (cases "if st3 = SUCCESS then sql_begin s3 k3 else (False, s3, k3)")
  show ?thesis
  proof (cases ok)
    case False
    define st4 where "st4 = (if st3 = SUCCESS then FAILURE else st3)"
    have "on_disk k4 = d"
      using r4 False a3 by (auto simp: sql_begin_def attempt_def split: prod.splits if_splits)
    moreover have "migration_close p False st4 s4 k4 = (st, s', d')"
      using assms(3,4) r1 r2 r3 r4 False
      by (auto simp: db_migrate_to_version_4_def st4_def split: if_splits)
    moreover have "bit st4 0 \<or> bit st4 4 \<or> bit st4 5"
      using a3 by (auto simp: st4_def)
    ultimately show ?thesis using failed_attempt [of p False st4 s4 k4 st s' d' d] by simp
  next
    case True
    then have st3: "st3 = SUCCESS" using r4 by (auto split: if_splits)
    have a4: "sane s4" "attempt d k4" "in_transaction k4" "working k4 = d"
      using begin_attempt [OF r4, of d] a3 True st3 by auto
    obtain st5 s5 k5 m where r5: "process_database (process_row convert_blob_to_v4) s4 k4 = (st5, s5, k5, m)"
      by (cases "process_database (process_row convert_blob_to_v4) s4 k4")
    obtain st6 s6 k6 where r6: "migration_end st5 s5 k5 = (st6, s6, k6)" by (cases "migration_end st5 s5 k5")
    have r7: "migration_close p m st6 s6 k6 = (st, s', d')"
      using assms(3,4) r1 r2 r3 r4 r5 r6 True st3
      by (auto simp: db_migrate_to_version_4_def process_row_v4_def split: if_splits)
    have dist: "distinct_rows (working k4)" using a4(4) assms(2) by simp
    show ?thesis using finish_attempt [OF r5 a4(1,2,3) dist r6 r7] a4(4) by auto
  qed
qed

text \<open>
  C31: Each migration happens as a whole or not at all: whatever signals arrive and however SQLite
  answers, the file on disk afterwards is the file as it was or the file with every row converted, and
  a migration that reports SUCCESS has converted every row.
\<close>

theorem migrations_all_or_nothing:
  assumes "sane s" "distinct_rows d" "\<not> conf_dry_run c"
    and "db_migrate_from_0_to_1 c p d s = (st1, s1, d1)"
    and "db_migrate_to_version_4 c mode p d s = (st4, s4, d4)"
  shows "(d1 = d \<or> d1 = convert_rows convert_blob_to_v1 (the (create_metadata d)))
    \<and> (st1 = SUCCESS \<longrightarrow> d1 = convert_rows convert_blob_to_v1 (the (create_metadata d)))
    \<and> (d4 = d \<or> d4 = convert_rows convert_blob_to_v4 d)
    \<and> (st4 = SUCCESS \<longrightarrow> d4 = convert_rows convert_blob_to_v4 d)"
  using migrate_1_attempt [OF assms(1-4)] migrate_4_attempt [OF assms(1-3,5)] by blast

end
