(* ===== verification/Versions_Properties.thy ===== *)
theory Versions_Properties
  imports Versions_Atomic
begin

text \<open>
  Upgrades of concrete files, and the ways in which an upgrade loses or misreads the stored metadata:
  a migration that is repeated, a version that could not be read, a dry run.
\<close>

section \<open>A file of version 1\<close>

definition old_stat :: CmpctStat_v1 where
  "old_stat = \<lparr>v1_st_size = 5, v1_mtim_tv_sec = 10, v1_mtim_tv_nsec = 20, v1_ctim_tv_sec = 30, v1_ctim_tv_nsec = 40\<rparr>"

definition old_file :: dbfile where
  "old_file = \<lparr>metadata_table = Some [1], files_table =
     [\<lparr>fr_ID = 1, fr_relative_path = [97], fr_sha512 = None, fr_stat = Some (blob_of_v1 old_stat)\<rparr>]\<rparr>"

definition updating :: Config where
  "updating = default_config\<lparr>conf_update := True\<rparr>"

lemma old_file_facts [simp]:
  "distinct_rows old_file" "file_version old_file = 1" "conf_update updating" "\<not> conf_dry_run updating"
  by (simp_all add: distinct_rows_def old_file_def file_version_def sqlite3_column_int_def updating_def default_config_def)

lemma calm_fresh [simp]: "calm (fresh_state rows)"
  by (simp add: calm_def fresh_state_def sane_def)

abbreviation delete_mode :: "bytes option" where "delete_mode \<equiv> Some [100, 101, 108, 101, 116, 101]"


theorem migrations_all_or_nothing_witness:
  "\<exists>s' d'. db_migrate_to_version_4 updating delete_mode False old_file (fresh_state []) = (SUCCESS, s', d')
     \<and> d' = convert_rows convert_blob_to_v4 old_file"
proof -
  obtain st1 s1 d1 where r1: "db_migrate_from_0_to_1 updating False old_file (fresh_state []) = (st1, s1, d1)"
    by (cases "db_migrate_from_0_to_1 updating False old_file (fresh_state [])")
  obtain s4 d4 where r4: "db_migrate_to_version_4 updating delete_mode False old_file (fresh_state []) = (SUCCESS, s4, d4)"
    using calm_migrate_4 [OF calm_fresh [of "[]"], of updating old_file delete_mode False] by auto
  have "sane (fresh_state [])" using calm_sane(1) [OF calm_fresh] .
  from migrations_all_or_nothing [OF this _ _ r1 r4] r4 show ?thesis by simp
qed

section \<open>Repeated migrations\<close>

text \<open>
  C32: An upgrade that is cut off after a migration has committed and before the version number is
  stored destroys the metadata: the next run takes the converted file for an old one, converts it a
  second time, reports SUCCESS, and every row then says that nothing is known about its file.
\<close>

theorem cut_off_upgrade_loses_metadata:
  assumes "calm s" "calm s'" "conf_update c" "\<not> conf_dry_run c" "distinct_rows d"
    and "1 \<le> file_version d" "file_version d < 4" "mode = Some [100, 101, 108, 101, 116, 101]"
    and "db_migrate_to_version_4 c mode p d s = (st1, s1, d1)"
    and "db_check_version c mode p (True, True) d1 s' = (st2, s2, d2)"
  shows "st1 = SUCCESS \<and> st2 = SUCCESS \<and> map fr_ID (files_table d2) = map fr_ID (files_table d)
    \<and> (\<forall>r \<in> set (files_table d2). map_option stat_of_blob (fr_stat r) = Some unknown_stat)"
proof -
  have d1: "st1 = SUCCESS" "d1 = convert_rows convert_blob_to_v4 d"
    using calm_migrate_4 [OF assms(1,4,5,8), of p] assms(9) by auto
  have v: "file_version d1 = file_version d" by (simp add: d1 file_version_def)
  have "distinct_rows d1" using assms(5) d1(2) by simp
  from calm_check_version [OF assms(2-4) this assms(8), of p] assms(7,10)
  have d2: "st2 = SUCCESS" "d2 = convert_rows (upgraded_stat (file_version d)) (d1\<lparr>metadata_table := Some [4]\<rparr>)"
    by (auto simp: v)
  have "upgraded_stat (file_version d) (Some (convert_blob_to_v4 b)) = blob_of_stat unknown_stat" for b
    using assms(6) converted_twice(2) unknown_converted by (auto simp: upgraded_stat_def convert_blob_to_v4_def)
  then show ?thesis
    using d1 d2 by (auto simp: convert_rows_def)
qed

theorem cut_off_upgrade_loses_metadata_witness:
  "\<exists>s1 d1 s2 d2. db_migrate_to_version_4 updating delete_mode False old_file (fresh_state []) = (SUCCESS, s1, d1)
     \<and> db_check_version updating delete_mode False (True, True) d1 (fresh_state []) = (SUCCESS, s2, d2)
     \<and> map_option stat_of_blob (fr_stat (hd (files_table d2))) = Some unknown_stat"
proof -
  obtain st1 s1 d1 where r1: "db_migrate_to_version_4 updating delete_mode False old_file (fresh_state []) = (st1, s1, d1)"
    by (cases "db_migrate_to_version_4 updating delete_mode False old_file (fresh_state [])")
  obtain st2 s2 d2 where r2: "db_check_version updating delete_mode False (True, True) d1 (fresh_state []) = (st2, s2, d2)"
    by (cases "db_check_version updating delete_mode False (True, True) d1 (fresh_state [])")
  have "st1 = SUCCESS \<and> st2 = SUCCESS \<and> map fr_ID (files_table d2) = map fr_ID (files_table old_file)
    \<and> (\<forall>r \<in> set (files_table d2). map_option stat_of_blob (fr_stat r) = Some unknown_stat)"
    by (rule cut_off_upgrade_loses_metadata [OF calm_fresh calm_fresh _ _ _ _ _ refl r1 r2]) simp_all
  then show ?thesis
    using r1 r2 by (cases "files_table d2") (auto simp: old_file_def)
qed

text \<open>A signal while the conversion commits is enough: the version number is not stored.\<close>

definition signal_after :: "nat \<Rightarrow> app" where
  "signal_after n = (fresh_state [])\<lparr>signals := replicate n False @ [True]\<rparr>"

definition signalled :: app where
  "signalled = signal_notify_quit_handler (fresh_state [])"

lemma signal_steps [simp]:
  "0 < n \<Longrightarrow> sql_answer (signal_after n) = (Sql_Done, signal_after (n - 1))"
  "sql_answer (signal_after 0) = (Sql_Done, signalled)" "sql_answer signalled = (Sql_Done, signalled)"
  "sane (signal_after n)" "\<not> halted (signal_after n)" "sane signalled" "halted signalled"
  by (auto simp: signal_after_def signalled_def sql_answer_def tick_def fresh_state_def sane_def
      signal_notify_quit_handler_def gr0_conv_Suc)

lemma signal_exec [simp]:
  "0 < n \<Longrightarrow> sql_ok (signal_after n) = (True, signal_after (n - 1))"
  "sql_ok signalled = (True, signalled)"
  "0 < n \<Longrightarrow> sql_other (signal_after n) k =
     (True, signal_after (n - 1), if in_transaction k then k else k\<lparr>on_disk := working k\<rparr>)"
  by (simp_all add: sql_ok_def sql_other_def sql_exec_def)

lemma signal_provide [simp]:
  "provide SUCCESS (signal_after n) = (SUCCESS, signal_after n)" "provide SUCCESS signalled = (SUCCESS OR HALTED, signalled)"
  "provide (SUCCESS OR HALTED) signalled = (SUCCESS OR HALTED, signalled)"
  using provide_outcome(1) [of signalled True True] by (simp_all add: outcome_literals)

lemma signal_cuts_migration:
  "db_migrate_to_version_4 updating delete_mode False old_file (signal_after 10)
     = (SUCCESS OR HALTED, signalled, convert_rows convert_blob_to_v4 old_file)"
proof -
  have loop: "migrate_loop process_row_v4 (files_table old_file) (signal_after 3)
      \<lparr>on_disk = old_file, working = old_file, in_transaction = True\<rparr> False
    = (SUCCESS, signal_after 0, \<lparr>on_disk = old_file, working = convert_rows convert_blob_to_v4 old_file,
        in_transaction = True\<rparr>, True, Step_Done)"
    by (simp add: migrate_loop.simps process_row_v4_def process_row_def sql_exec_def update_stat_def old_file_def
        convert_rows_def)
  have close: "db_close True m signalled = (SUCCESS OR HALTED, signalled)" for m
    by (simp add: db_close_def)
  then have "call (db_close True m) SUCCESS signalled = (SUCCESS OR HALTED, signalled)" for m
    using call_outcome [of "db_close True m" signalled True True signalled False True] by (simp add: outcome_literals)
  then show ?thesis
    using loop
    by (simp add: db_migrate_to_version_4_def connect_def normalize_journal_mode_def sql_begin_def process_database_def
        migration_end_def sql_commit_def migration_close_def disconnect_def Let_def)
qed

lemma signal_cuts_upgrade_off:
  "db_check_version updating delete_mode False (True, True) old_file (signal_after 16)
     = (SUCCESS OR HALTED, signalled, convert_rows convert_blob_to_v4 old_file)"
proof -
  have "db_retrieve_version True 0 old_file (signal_after 16) = (SUCCESS, signal_after 10, 1)"
    by (simp add: db_retrieve_version_def connect_def old_file_def sqlite3_column_int_def)
  moreover have "SUCCESS OR HALTED \<noteq> SUCCESS" by (simp add: SUCCESS_def HALTED_def)
  ultimately show ?thesis
    using signal_cuts_migration
    by (simp add: db_check_version_def db_upgrade_def upgrade_step_def CURRENT_DB_VERSION_def)
qed

section \<open>Versions that are not read\<close>

text \<open>
  An error while the version is read is taken for an absent version: a current database is then
  upgraded from version 0 with --update, which reports SUCCESS and loses the metadata of every row.
\<close>

theorem unread_version_loses_metadata:
  assumes "calm s" "conf_update c" "\<not> conf_dry_run c" "distinct_rows d" "metadata_table d = Some [4]"
    and "\<forall>r \<in> set (files_table d). \<exists>t. fr_stat r = Some (blob_of_stat t)"
    and "mode = Some [100, 101, 108, 101, 116, 101]"
    and "db_check_version c mode p (True, True) d (s\<lparr>sql_answers := [Sql_Done, Sql_Done, Sql_Error]\<rparr>) = (st, s', d')"
  shows "st = SUCCESS \<and> map fr_ID (files_table d') = map fr_ID (files_table d)
    \<and> (\<forall>r \<in> set (files_table d'). map_option stat_of_blob (fr_stat r) = Some unknown_stat)"
proof -
  let ?s = "s\<lparr>sql_answers := [Sql_Done, Sql_Done, Sql_Error]\<rparr>"
  have t: "tick (s\<lparr>sql_answers := as\<rparr>) = s\<lparr>sql_answers := as\<rparr>" for as
    using assms(1) by (simp add: calm_def tick_def)
  have s0: "s\<lparr>sql_answers := []\<rparr> = s" using assms(1) by (simp add: calm_def)
  have r: "db_retrieve_version True 0 d ?s = (SUCCESS, s, 0)"
    using calm_provide [OF assms(1)] assms(1)
    by (simp add: db_retrieve_version_def connect_def when_success_def sql_other_def sql_exec_def
        sql_ok_def sql_answer_def [of "s\<lparr>sql_answers := x # xs\<rparr>" for x xs] t s0)
  obtain s1 where u: "db_upgrade c mode p 0 d s
      = (SUCCESS, s1, convert_rows (upgraded_stat 0) (d\<lparr>metadata_table := Some [4]\<rparr>), 4)" "calm s1"
    using calm_upgrade [OF assms(1-4,7), of 0] by auto
  obtain s2 where "db_vacuum c True p True True s1 = (SUCCESS, s2)" "calm s2"
    using calm_vacuum [OF u(2) assms(3)] by blast
  then have d': "st = SUCCESS" "d' = convert_rows (upgraded_stat 0) (d\<lparr>metadata_table := Some [4]\<rparr>)"
    using assms(3,8) r u calm_sane(2) [OF assms(1)] calm_provide
    by (auto simp: db_check_version_def CURRENT_DB_VERSION_def split: if_splits)
  have "upgraded_stat 0 (Some (blob_of_stat t)) = blob_of_stat unknown_stat" for t
  proof -
    have "length (blob_of_stat t) < STAT64_SIZE" by simp (simp add: sizeof_CmpctStat_def STAT64_SIZE_def)
    then have "convert_blob_to_v1 (Some (blob_of_stat t)) = blob_of_v1 zero_v1" by (intro unreadable_v0) simp
    then show ?thesis by (simp add: upgraded_stat_def v1_conversion unknown_converted)
  qed
  then show ?thesis
    using d' assms(6) by (auto simp: convert_rows_def)
qed

theorem unread_version_loses_metadata_witness:
  "\<exists>s' d'. db_check_version updating delete_mode False (True, True)
       (convert_rows convert_blob_to_v4 (old_file\<lparr>metadata_table := Some [4]\<rparr>))
       ((fresh_state [])\<lparr>sql_answers := [Sql_Done, Sql_Done, Sql_Error]\<rparr>) = (SUCCESS, s', d')
     \<and> map_option stat_of_blob (fr_stat (hd (files_table d'))) = Some unknown_stat"
proof -
  let ?d = "convert_rows convert_blob_to_v4 (old_file\<lparr>metadata_table := Some [4]\<rparr>)"
  let ?s = "(fresh_state [])\<lparr>sql_answers := [Sql_Done, Sql_Done, Sql_Error]\<rparr>"
  obtain st s' d' where r: "db_check_version updating delete_mode False (True, True) ?d ?s = (st, s', d')"
    by (cases "db_check_version updating delete_mode False (True, True) ?d ?s")
  have "st = SUCCESS \<and> map fr_ID (files_table d') = map fr_ID (files_table ?d)
    \<and> (\<forall>r \<in> set (files_table d'). map_option stat_of_blob (fr_stat r) = Some unknown_stat)"
    by (rule unread_version_loses_metadata [OF calm_fresh _ _ _ _ _ refl r])
      (auto simp: convert_rows_def old_file_def v1_conversion distinct_rows_def)
  then show ?thesis
    using r by (cases "files_table d'") (auto simp: convert_rows_def old_file_def)
qed

section \<open>Dry runs\<close>

text \<open>
  C33: With --dry-run and --update the upgrade of an old database reports SUCCESS without converting
  anything, so the run goes on with rows in the old layout: a stat column of 40 bytes stays one of 40
  bytes, although the program reads 64 bytes from it.
\<close>

theorem dry_run_upgrade_reports_success:
  assumes "calm s" "conf_update c" "conf_dry_run c" "file_version d < 4"
    and "db_check_version c mode p stats d s = (st, s', d')"
  shows "st = SUCCESS \<and> d' = d \<and> length (blob_of_v1 t) = 40 \<and> sizeof_CmpctStat = 64"
proof -
  note q = calm_sane(2) [OF assms(1)] calm_provide [OF assms(1)]
  have "db_upgrade c mode p v d s = (SUCCESS, s, d, if v < 4 then 4 else v)" if "v < 4" for v
    using assms(2,3) q that
    by (auto simp: db_upgrade_def upgrade_step_def db_migrate_from_0_to_1_def db_migrate_to_version_4_def db_specify_version_def)
  moreover have "db_vacuum c True p a b s = (SUCCESS, s)" for a b
    using assms(3) q by (simp add: db_vacuum_def)
  ultimately show ?thesis
    using assms q calm_retrieve [OF assms(1), of d]
    by (auto simp: db_check_version_def CURRENT_DB_VERSION_def sizeof_v1_def sizeof_CmpctStat_def split: if_splits)
qed

theorem dry_run_upgrade_reports_success_witness:
  "\<exists>s'. db_check_version (updating\<lparr>conf_dry_run := True\<rparr>) delete_mode True (True, True) old_file (fresh_state [])
     = (SUCCESS, s', old_file)"
proof -
  let ?c = "updating\<lparr>conf_dry_run := True\<rparr>"
  obtain st s' d' where r: "db_check_version ?c delete_mode True (True, True) old_file (fresh_state []) = (st, s', d')"
    by (cases "db_check_version ?c delete_mode True (True, True) old_file (fresh_state [])")
  have "st = SUCCESS \<and> d' = old_file \<and> length (blob_of_v1 old_stat) = 40 \<and> sizeof_CmpctStat = 64"
    by (rule dry_run_upgrade_reports_success [OF calm_fresh _ _ _ r]) (simp_all add: updating_def)
  then show ?thesis using r by simp
qed

end
