(* ===== verification/Prefixes.thy ===== *)
theory Prefixes
  imports Cleanup
begin

text \<open>
  The traversal roots recorded in the table \<open>paths\<close>: the check of the stored prefixes against the
  roots of the command line (\<open>db_validate_paths.c\<close>) and the transaction that stores the roots
  (\<open>db_save_prefixes.c\<close>).
\<close>

section \<open>The tables\<close>

text \<open>
  The rows of \<open>paths\<close> as the connection sees them and as they are on disk, the identifiers in the
  temporary table \<open>the_path_id_does_not_exists\<close>, and the number of rows the connection has changed.
\<close>

record path_tables =
  paths :: "(int \<times> bytes) list"
  committed_paths :: "(int \<times> bytes) list"
  the_path_id_does_not_exists :: "int list"
  total_changes :: nat

text \<open>
  A statement on the connection of the primary database; the transaction is the one of the process
  state.
\<close>

definition paths_exec :: "(path_tables \<Rightarrow> path_tables) \<Rightarrow> app \<Rightarrow> path_tables \<Rightarrow> bool \<times> app \<times> path_tables" where
  "paths_exec f s t =
     (let in_transaction = (\<not> autocommit s);
          (rc, s) = sql_answer s
      in case rc of
           Sql_Done \<Rightarrow>
             let t = f t in (True, s, if in_transaction then t else t\<lparr>committed_paths := paths t\<rparr>)
         | Sql_Error \<Rightarrow> (False, s, t)
         | Sql_Auto_Rollback \<Rightarrow> (False, s, if in_transaction then t\<lparr>paths := committed_paths t\<rparr> else t))"

section \<open>Checking the stored prefixes\<close>

text \<open>The literals of the SELECT, one placeholder for each root.\<close>

fun placeholders :: "bytes list \<Rightarrow> bytes list" where
  "placeholders [] = []"
| "placeholders [r] = [[63]]"
| "placeholders (r # rs) = [63] # [44] # placeholders rs"

definition select_prefixes :: bytes where
  "select_prefixes = [83,69,76,69,67,84,32,73,68,32,70,82,79,77,32,112,97,116,104,115,32,87,72,69,82,69,32,
     112,114,101,102,105,120,32,78,79,84,32,73,78,32,40]"

definition query_literals :: "bytes list \<Rightarrow> bytes list" where
  "query_literals roots =
     (if roots = [] then [] else select_prefixes # placeholders roots @ [[41, 59]])"

fun append_literals :: "app \<Rightarrow> heap \<Rightarrow> memory \<Rightarrow> bytes list \<Rightarrow> ret" where
  "append_literals s heap select_sql [] = SUCCESS"
| "append_literals s heap select_sql (literal # rest) =
     (let (st, select_sql) =
            mem_concat_fixed_string s heap select_sql (of_nat (length literal + 1)) (External (literal @ [0]))
      in if st \<noteq> SUCCESS then st else append_literals s heap select_sql rest)"

text \<open>\<open>SELECT ID FROM paths WHERE prefix NOT IN (\<dots>)\<close> and \<open>INSERT INTO the_path_id_does_not_exists\<close>.\<close>

definition foreign_ids :: "bytes list \<Rightarrow> (int \<times> bytes) list \<Rightarrow> int list" where
  "foreign_ids roots rows = map fst (filter (\<lambda>r. snd r \<notin> set roots) rows)"

definition remember_id :: "int \<Rightarrow> path_tables \<Rightarrow> path_tables" where
  "remember_id i t =
     t\<lparr>the_path_id_does_not_exists := the_path_id_does_not_exists t @ [i], total_changes := total_changes t + 1\<rparr>"

text \<open>
  The loop over the stored prefixes that are no roots.  It goes on after a failed insertion; the
  last component is \<open>paths_are_equal\<close>.
\<close>

fun mismatch_loop ::
  "int list \<Rightarrow> ret \<Rightarrow> app \<Rightarrow> path_tables \<Rightarrow> bool \<Rightarrow> ret \<times> app \<times> path_tables \<times> bool" where
  "mismatch_loop ids st s t paths_are_equal =
     (let (stepped, s, t) = paths_exec id s t
      in if \<not> stepped then (FAILURE, s, t, paths_are_equal)
         else
           case ids of
             [] \<Rightarrow> (st, s, t, paths_are_equal)
           | path_ID # rest \<Rightarrow>
               if path_ID \<noteq> - 1 then
                 let (prepared, s, t) = paths_exec id s t;
                     st = (if prepared then st else FAILURE);
                     (stored, s, t) =
                       (if st = SUCCESS then paths_exec (remember_id path_ID) s t else (True, s, t));
                     st = (if stored then st else FAILURE)
                 in mismatch_loop rest st s t False
               else mismatch_loop rest st s t paths_are_equal)"

declare mismatch_loop.simps [simp del]

text \<open>The query that shows the stored prefixes; its rows are only printed.\<close>

fun display_loop :: "(int \<times> bytes) list \<Rightarrow> app \<Rightarrow> path_tables \<Rightarrow> bool \<times> app \<times> path_tables" where
  "display_loop rows s t =
     (let (stepped, s, t) = paths_exec id s t
      in if \<not> stepped then (False, s, t)
         else case rows of [] \<Rightarrow> (True, s, t) | r # rest \<Rightarrow> display_loop rest s t)"

declare display_loop.simps [simp del]

definition show_prefixes :: "ret \<Rightarrow> app \<Rightarrow> path_tables \<Rightarrow> ret \<times> app \<times> path_tables" where
  "show_prefixes st s t =
     (let (prepared, s, t) = paths_exec id s t;
          st = (if prepared then st else FAILURE)
      in if st = SUCCESS then
           let (shown, s, t) = display_loop (paths t) s t in (if shown then st else FAILURE, s, t)
         else (st, s, t))"

text \<open>
  \<open>silent\<close> says that the logger mode is SILENT, \<open>exists\<close> is \<open>db_primary_file_exists\<close>.
\<close>

definition db_validate_paths ::
  "Config \<Rightarrow> bool \<Rightarrow> bool \<Rightarrow> bool \<Rightarrow> heap \<Rightarrow> bytes list \<Rightarrow> app \<Rightarrow> path_tables \<Rightarrow> ret \<times> app \<times> path_tables" where
  "db_validate_paths c force silent exists heap roots s t =
     (if conf_compare c then let (st, s) = provide SUCCESS s in (st, s, t)
      else if global_interrupt_flag s then let (st, s) = provide SUCCESS s in (st, s, t)
      else
        let built = append_literals s heap (mem_init 1 True) (query_literals roots)
        in if built \<noteq> SUCCESS then let (st, s) = provide built s in (st, s, t)
           else
             let (prepared, s, t) = paths_exec id s t;
                 st = (if prepared then SUCCESS else FAILURE);
                 (st, s, t, paths_are_equal) =
                   (if st = SUCCESS then
                      if roots = [] then (FAILURE, s, t, True)
                      else mismatch_loop (foreign_ids roots (paths t)) st s t True
                    else (st, s, t, True));
                 (st, s, t) =
                   (if st = SUCCESS \<and> exists \<and> \<not> paths_are_equal then
                      let (st, s, t) = (if silent then (st, s, t) else show_prefixes st s t)
                      in (if force then st else WARNING, s, t)
                    else (st, s, t));
                 (st, s) = provide st s
             in (st, s, t))"

section \<open>Storing the roots\<close>

text \<open>\<open>DELETE FROM paths WHERE ID IN (SELECT path_id FROM the_path_id_does_not_exists)\<close>\<close>

definition delete_obsolete :: "path_tables \<Rightarrow> path_tables" where
  "delete_obsolete t =
     (let kept = filter (\<lambda>r. fst r \<notin> set (the_path_id_does_not_exists t)) (paths t)
      in t\<lparr>paths := kept, total_changes := total_changes t + (length (paths t) - length kept)\<rparr>)"

text \<open>\<open>INSERT OR IGNORE INTO paths(prefix) VALUES(?1)\<close>\<close>

definition insert_prefix :: "bytes \<Rightarrow> path_tables \<Rightarrow> path_tables" where
  "insert_prefix root t =
     (if root \<in> snd ` set (paths t) then t
      else t\<lparr>paths := paths t @ [(foldr (\<lambda>r m. max (fst r) m) (paths t) 0 + 1, root)],
             total_changes := total_changes t + 1\<rparr>)"

fun insert_loop :: "bytes list \<Rightarrow> ret \<Rightarrow> app \<Rightarrow> path_tables \<Rightarrow> ret \<times> app \<times> path_tables" where
  "insert_loop [] st s t = (st, s, t)"
| "insert_loop (root # rest) st s t =
     (let (stored, s, t) =
            (if st = SUCCESS then paths_exec (insert_prefix root) s t else (True, s, t));
          st = (if stored then st else FAILURE)
      in if st \<noteq> SUCCESS then (st, s, t) else insert_loop rest st s t)"

definition prefixes_commit :: "ret \<Rightarrow> app \<Rightarrow> path_tables \<Rightarrow> ret \<times> app \<times> path_tables" where
  "prefixes_commit st s t =
     (if st = SUCCESS then
        let open = (\<not> autocommit s); (rc, s) = sql_answer s
        in if rc = Sql_Done \<and> open
           then (st, s\<lparr>autocommit := True, committed := table s\<rparr>, t\<lparr>committed_paths := paths t\<rparr>)
           else (FAILURE, s, if rc = Sql_Auto_Rollback \<and> open then t\<lparr>paths := committed_paths t\<rparr> else t)
      else (st, s, t))"

definition prefixes_rollback :: "ret \<Rightarrow> app \<Rightarrow> path_tables \<Rightarrow> ret \<times> app \<times> path_tables" where
  "prefixes_rollback st s t =
     (if st \<noteq> SUCCESS \<and> \<not> autocommit s then
        let (rc, s) = sql_answer s
        in if rc = Sql_Done
           then (st, s\<lparr>autocommit := True, table := committed s\<rparr>, t\<lparr>paths := committed_paths t\<rparr>)
           else (FAILURE, s, if rc = Sql_Auto_Rollback then t\<lparr>paths := committed_paths t\<rparr> else t)
      else (st, s, t))"

definition db_save_prefixes ::
  "Config \<Rightarrow> bool \<Rightarrow> bool \<Rightarrow> bytes list \<Rightarrow> app \<Rightarrow> path_tables \<Rightarrow> ret \<times> app \<times> path_tables" where
  "db_save_prefixes c force exists roots s t =
     (if global_interrupt_flag s then let (st, s) = provide SUCCESS s in (st, s, t)
      else if conf_compare c then let (st, s) = provide SUCCESS s in (st, s, t)
      else if conf_dry_run c \<and> exists then let (st, s) = provide SUCCESS s in (st, s, t)
      else
        let total_changes_before = total_changes t;
            (rc, s) = sql_answer s
        in if rc \<noteq> Sql_Done \<or> \<not> autocommit s then let (st, s) = provide FAILURE s in (st, s, t)
           else
             let s = s\<lparr>autocommit := False\<rparr>;
                 (deleted, s, t) =
                   (if force \<and> \<not> conf_dry_run c then paths_exec delete_obsolete s t else (True, s, t));
                 st = (if deleted then SUCCESS else FAILURE);
                 (st, s, t) = insert_loop roots st s t;
                 (st, s, t) = prefixes_commit st s t;
                 (st, s, t) = prefixes_rollback st s t;
                 s = (if st = SUCCESS \<and> \<not> conf_dry_run c \<and> total_changes_before < total_changes t
                      then s\<lparr>db_primary_file_modified := True\<rparr> else s);
                 (st, s) = provide st s
             in (st, s, t))"

end
