(* ===== verification/Prefixes_Correct.thy ===== *)
theory Prefixes_Correct
  imports Prefixes Versions_Atomic
begin

text \<open>
  The roots of a database are guarded: without --force a run whose roots leave out a stored prefix
  stops with a warning, and the roots are stored as a whole or not at all.
\<close>

section \<open>Statements on the table\<close>

lemma paths_exec_later:
  assumes "paths_exec f s t = (ok, s', t')" "sane s"
  shows "later s s'"
  using assms sql_answer_later(1) [OF assms(2)]
  by (auto simp: paths_exec_def Let_def split: prod.splits sql_answer.splits)

lemma paths_exec_id:
  assumes "paths_exec id s t = (True, s', t')"
  shows "paths t' = paths t"
  using assms by (auto simp: paths_exec_def Let_def split: prod.splits sql_answer.splits if_splits)

lemma calm_paths_exec [simp]:
  "calm s \<Longrightarrow> autocommit s \<Longrightarrow> paths_exec f s t = (True, s, (f t)\<lparr>committed_paths := paths (f t)\<rparr>)"
  "calm s \<Longrightarrow> \<not> autocommit s \<Longrightarrow> paths_exec f s t = (True, s, f t)"
  by (simp_all add: paths_exec_def Let_def)

section \<open>Building the query\<close>

lemma append_literals_status: "quiet s \<Longrightarrow> valid m \<Longrightarrow> is_string m \<Longrightarrow> single_element_size m = 1 \<Longrightarrow>
   append_literals s heap m ls = SUCCESS \<or> append_literals s heap m ls = FAILURE"
proof (induction ls arbitrary: m)
  case (Cons l ls)
  define n :: u64 where "n = of_nat (length l + 1)"
  have le: "unat n \<le> length l + 1" unfolding n_def by (simp only: unat_of_nat mod_less_eq_dividend)
  have "source_text m SOURCE_FIXED_STRING n (External (l @ [0])) \<noteq> None"
    using le Cons.prems(4) by (auto simp: source_text_def Let_def)
  then obtain t where t: "source_text m SOURCE_FIXED_STRING n (External (l @ [0])) = Some t" by blast
  from mem_core_string_ok [OF Cons.prems(1-3) t, of heap TRANSFER_APPEND]
  obtain st m' where r: "mem_concat_fixed_string s heap m n (External (l @ [0])) = (st, m')"
    "valid m'" "is_string m'" "single_element_size m' = 1" "st = SUCCESS \<or> st = FAILURE"
    using Cons.prems(4) by (auto simp: mem_concat_fixed_string_def)
  then show ?case using Cons.IH [of m'] Cons.prems(1) by (auto simp: n_def)
qed simp

lemma append_literals_calm:
  assumes "quiet s" "valid m" "is_string m" "single_element_size m = 1" "\<forall>bytes. heap bytes \<noteq> None"
    and "length (visible_text m) + length (concat ls) + length ls + 4096 < 2 ^ 64"
  shows "append_literals s heap m ls = SUCCESS"
  using assms
proof (induction ls arbitrary: m)
  case (Cons l ls)
  let ?n = "of_nat (length l + 1) :: u64"
  have n: "unat ?n = length l + 1" using Cons.prems(6) by (intro unat_of_nat_small) simp
  then have "?n \<noteq> 0" by (metis Suc_eq_plus1 nat.distinct(1) unat_0)
  then have t: "source_text m SOURCE_FIXED_STRING ?n (External (l @ [0])) = Some l"
    using n Cons.prems(4) by (simp add: source_text_def Let_def)
  have "enough heap m (length (visible_text m @ l))"
    using Cons.prems(4-6) by (simp add: enough_def)
  with mem_core_string_ok [OF Cons.prems(1-3) t, of heap TRANSFER_APPEND]
  obtain m' where r: "mem_concat_fixed_string s heap m ?n (External (l @ [0])) = (SUCCESS, m')"
    "valid m'" "is_string m'" "single_element_size m' = 1" "visible_text m' = visible_text m @ l"
    using Cons.prems(4) by (auto simp: mem_concat_fixed_string_def)
  then show ?case using Cons.IH [of m'] Cons.prems(1,5,6) by simp
qed simp

section \<open>The check\<close>

lemma mismatch_loop_found:
  assumes "mismatch_loop ids st s t eq = (st', s', t', eq')" "sane s" "st = SUCCESS \<or> st = FAILURE"
  shows "sane s' \<and> (st' = SUCCESS \<or> st' = FAILURE) \<and> (st' = SUCCESS \<longrightarrow> st = SUCCESS)
    \<and> (st' = SUCCESS \<and> (\<exists>i \<in> set ids. i \<noteq> - 1) \<longrightarrow> \<not> eq') \<and> (st' = SUCCESS \<and> \<not> eq \<longrightarrow> \<not> eq')"
  using assms
proof (induction ids arbitrary: st s t eq)
  case Nil
  obtain ok s1 t1 where e: "paths_exec id s t = (ok, s1, t1)" by (cases "paths_exec id s t")
  from Nil.prems(1) show ?case
    using Nil.prems(2,3) later_sane [OF paths_exec_later [OF e Nil.prems(2)]]
    by (subst (asm) mismatch_loop.simps) (cases ok; simp add: e)
next
  case (Cons i ids)
  obtain ok s1 t1 where e: "paths_exec id s t = (ok, s1, t1)" by (cases "paths_exec id s t")
  note s1 = later_sane [OF paths_exec_later [OF e Cons.prems(2)]]
  obtain ok2 s2 t2 where e2: "paths_exec id s1 t1 = (ok2, s2, t2)" by (cases "paths_exec id s1 t1")
  note s2 = later_sane [OF paths_exec_later [OF e2 s1]]
  define st2 where "st2 = (if ok2 then st else FAILURE)"
  obtain ok3 s3 t3 where e3: "(if st2 = SUCCESS then paths_exec (remember_id i) s2 t2 else (True, s2, t2)) = (ok3, s3, t3)"
    by (cases "if st2 = SUCCESS then paths_exec (remember_id i) s2 t2 else (True, s2, t2)")
  have s3: "sane s3"
    using e3 s2 later_sane [OF paths_exec_later [OF _ s2]] by (auto split: if_splits)
  define st3 where "st3 = (if ok3 then st2 else FAILURE)"
  have ev: "(if \<not> ok then (FAILURE, s1, t1, eq)
     else if i \<noteq> - 1 then mismatch_loop ids st3 s3 t3 False else mismatch_loop ids st s1 t1 eq) = (st', s', t', eq')"
    using Cons.prems(1) e3
    by (subst (asm) mismatch_loop.simps) (simp add: e e2 st2_def st3_def Let_def cong: if_cong split: prod.splits)
  show ?case
  proof (cases "ok \<and> i \<noteq> - 1")
    case True
    then have "mismatch_loop ids st3 s3 t3 False = (st', s', t', eq')" using ev by simp
    moreover have "st3 = SUCCESS \<or> st3 = FAILURE" "st3 = SUCCESS \<Longrightarrow> st = SUCCESS"
      using Cons.prems(3) by (auto simp: st3_def st2_def split: if_splits)
    ultimately show ?thesis using Cons.IH [of st3 s3 t3 False] s3 by auto
  next
    case False
    then show ?thesis
    proof (cases ok)
      case True
      with False have "i = - 1" "mismatch_loop ids st s1 t1 eq = (st', s', t', eq')" using ev by simp_all
      with Cons.IH [OF this(2) s1 Cons.prems(3)] show ?thesis by simp
    qed (use ev s1 in auto)
  qed
qed

lemma show_prefixes_sane:
  assumes "show_prefixes st s t = (st', s', t')" "sane s" "st = SUCCESS \<or> st = FAILURE"
  shows "sane s'"
proof -
  have d: "display_loop rows s t = (ok, s', t') \<Longrightarrow> sane s \<Longrightarrow> sane s'" for rows s t ok s' t'
  proof (induction rows arbitrary: s t)
    case Nil
    obtain ok1 s1 t1 where e: "paths_exec id s t = (ok1, s1, t1)" by (cases "paths_exec id s t")
    from Nil(1) show ?case using later_sane [OF paths_exec_later [OF e Nil(2)]]
      by (subst (asm) display_loop.simps) (cases ok1; simp add: e)
  next
    case (Cons r rows)
    obtain ok1 s1 t1 where e: "paths_exec id s t = (ok1, s1, t1)" by (cases "paths_exec id s t")
    from Cons.prems(1) show ?case
      using later_sane [OF paths_exec_later [OF e Cons.prems(2)]] Cons.IH [of s1 t1]
      by (subst (asm) display_loop.simps) (cases ok1; simp add: e)
  qed
  obtain ok1 s1 t1 where e: "paths_exec id s t = (ok1, s1, t1)" by (cases "paths_exec id s t")
  note s1 = later_sane [OF paths_exec_later [OF e assms(2)]]
  show ?thesis
    using assms(1) e s1 d [of "paths t1" s1 t1] by (auto simp: show_prefixes_def split: prod.splits if_splits)
qed

lemma foreign_roots_stop:
  assumes "sane s" "\<not> halted s" "\<not> conf_compare c" "\<exists>r \<in> set (paths t). snd r \<notin> set roots \<and> fst r \<noteq> - 1"
    and "db_validate_paths c False silent True heap roots s t = (st, s', t')"
  shows "bit st 0 \<or> bit st 4 \<or> bit st 5"
proof -
  have q: "quiet s" using sane_quiet [OF assms(1,2)] .
  have v: "valid (mem_init 1 True)" "is_string (mem_init 1 True)" "single_element_size (mem_init 1 True) = 1"
    by simp_all (simp_all add: mem_init_def)
  define built where "built = append_literals s heap (mem_init 1 True) (query_literals roots)"
  have b: "built = SUCCESS \<or> built = FAILURE"
    unfolding built_def by (rule append_literals_status [OF q v])
  have skip: "bit (fst (provide w s1)) n \<or> bit (fst (provide w s1)) 0" if "bit w n" "n = 0 \<or> n = 4 \<or> n = 5" for w s1 n
    using that by (auto simp: bit_provide Let_def)
  show ?thesis
  proof (cases "built = SUCCESS")
    case False
    then have "st = fst (provide FAILURE s)"
      using assms(2,3,5) b by (auto simp: db_validate_paths_def built_def [symmetric] split: prod.splits)
    then show ?thesis using skip [of FAILURE 0 s] by auto
  next
    case built: True
    obtain ok s1 t1 where e: "paths_exec id s t = (ok, s1, t1)" by (cases "paths_exec id s t")
    note s1 = later_sane [OF paths_exec_later [OF e assms(1)]]
    show ?thesis
    proof (cases "ok \<and> roots \<noteq> []")
      case False
      then have "st = fst (provide FAILURE s1)"
        using assms(2,3,5) built e
        by (auto simp: db_validate_paths_def built_def [symmetric] split: prod.splits if_splits)
      then show ?thesis using skip [of FAILURE 0 s1] by auto
    next
      case True
      obtain st2 s2 t2 eq where l: "mismatch_loop (foreign_ids roots (paths t1)) SUCCESS s1 t1 True = (st2, s2, t2, eq)"
        by (cases "mismatch_loop (foreign_ids roots (paths t1)) SUCCESS s1 t1 True")
      have "\<exists>i \<in> set (foreign_ids roots (paths t1)). i \<noteq> - 1"
        using assms(4) paths_exec_id [of s t s1 t1] e True by (fastforce simp: foreign_ids_def)
      with mismatch_loop_found [OF l s1] have m: "sane s2" "st2 = SUCCESS \<or> st2 = FAILURE" "st2 = SUCCESS \<longrightarrow> \<not> eq"
        by auto
      show ?thesis
      proof (cases "st2 = SUCCESS")
        case False
        then have "st = fst (provide FAILURE s2)"
          using assms(2,3,5) built e l True m
          by (auto simp: db_validate_paths_def built_def [symmetric] split: prod.splits if_splits)
        then show ?thesis using skip [of FAILURE 0 s2] by auto
      next
        case ok: True
        obtain st3 s3 t3 where w: "(if silent then (st2, s2, t2) else show_prefixes st2 s2 t2) = (st3, s3, t3)"
          by (cases "if silent then (st2, s2, t2) else show_prefixes st2 s2 t2")
        then have "st = fst (provide WARNING s3)"
          using assms(2,3,5) built e l True m ok
          by (auto simp: db_validate_paths_def built_def [symmetric] split: prod.splits if_splits)
        then show ?thesis using skip [of WARNING 5 s3] by auto
      qed
    qed
  qed
qed

text \<open>
  C34: The stored roots are guarded: when a run on an existing database, not interrupted before the
  check, leaves out a stored prefix and --force is not given, the check never lets the run go on: its
  status makes every following \<open>run()\<close> skip its function, whatever signals arrive and however SQLite
  and the allocator answer.
\<close>

theorem foreign_roots_stop_the_run:
  assumes "sane s" "\<not> halted s" "\<not> conf_compare c" "\<exists>r \<in> set (paths t). snd r \<notin> set roots \<and> fst r \<noteq> - 1"
    and "db_validate_paths c False silent True heap roots s t = (st, s', t')"
  shows "has SKIP st \<and> (has AWAITING st \<or> run f st s'' = (st, s''))"
  using foreign_roots_stop [OF assms] by (auto simp: run_def Let_def)

section \<open>Storing the roots\<close>

lemma answer_autocommit:
  "sql_answer s = (rc, s') \<Longrightarrow> autocommit s' = (autocommit s \<or> rc = Sql_Auto_Rollback)"
proof -
  have t: "autocommit (tick x) = autocommit x" for x
    by (auto simp: tick_def signal_notify_quit_handler_def Let_def split: list.split)
  show "sql_answer s = (rc, s') \<Longrightarrow> autocommit s' = (autocommit s \<or> rc = Sql_Auto_Rollback)"
    by (auto simp: sql_answer_def t split: list.splits sql_answer.splits if_splits)
qed

text \<open>The disk is as it was; without a transaction the connection sees the disk.\<close>

definition saving :: "(int \<times> bytes) list \<Rightarrow> app \<Rightarrow> path_tables \<Rightarrow> bool" where
  "saving old s t \<longleftrightarrow> sane s \<and> committed_paths t = old \<and> (autocommit s \<longrightarrow> paths t = old)"

lemma exec_saving:
  assumes "paths_exec f s t = (ok, s', t')" "saving old s t" "\<not> autocommit s" "committed_paths (f t) = committed_paths t"
  shows "saving old s' t'" "ok \<Longrightarrow> t' = f t \<and> \<not> autocommit s'"
proof -
  obtain rc where a: "sql_answer s = (rc, s')"
    using assms(1) by (auto simp: paths_exec_def Let_def split: prod.splits sql_answer.splits)
  have "sane s'" using later_sane [OF paths_exec_later [OF assms(1)]] assms(2) by (simp add: saving_def)
  then show "saving old s' t'" "ok \<Longrightarrow> t' = f t \<and> \<not> autocommit s'"
    using assms a answer_autocommit [OF a]
    by (auto simp: paths_exec_def saving_def Let_def split: sql_answer.splits)
qed

lemma insert_prefix_committed [simp]: "committed_paths (insert_prefix r t) = committed_paths t"
  by (simp add: insert_prefix_def)

lemma insert_loop_saving:
  assumes "insert_loop roots st s t = (st', s', t')" "saving old s t" "st = SUCCESS \<or> st = FAILURE"
    and "st = SUCCESS \<Longrightarrow> \<not> autocommit s"
  shows "saving old s' t' \<and> (st' = SUCCESS \<or> st' = FAILURE)
    \<and> (st' = SUCCESS \<longrightarrow> st = SUCCESS \<and> \<not> autocommit s' \<and> t' = fold insert_prefix roots t)"
  using assms
proof (induction roots arbitrary: st s t)
  case (Cons r roots)
  obtain ok s1 t1 where e: "(if st = SUCCESS then paths_exec (insert_prefix r) s t else (True, s, t)) = (ok, s1, t1)"
    by (cases "if st = SUCCESS then paths_exec (insert_prefix r) s t else (True, s, t)")
  define st1 where "st1 = (if ok then st else FAILURE)"
  have s1: "saving old s1 t1" "st1 = SUCCESS \<Longrightarrow> st = SUCCESS \<and> t1 = insert_prefix r t \<and> \<not> autocommit s1"
    "st1 = SUCCESS \<or> st1 = FAILURE"
  proof (atomize (full), cases "st = SUCCESS")
    case True
    then have p: "paths_exec (insert_prefix r) s t = (ok, s1, t1)" using e by simp
    from exec_saving [OF p Cons.prems(2) Cons.prems(4) [OF True]] True
    show "saving old s1 t1 \<and> (st1 = SUCCESS \<longrightarrow> st = SUCCESS \<and> t1 = insert_prefix r t \<and> \<not> autocommit s1)
      \<and> (st1 = SUCCESS \<or> st1 = FAILURE)"
      by (cases ok) (simp_all add: st1_def)
  next
    case False
    then show "saving old s1 t1 \<and> (st1 = SUCCESS \<longrightarrow> st = SUCCESS \<and> t1 = insert_prefix r t \<and> \<not> autocommit s1)
      \<and> (st1 = SUCCESS \<or> st1 = FAILURE)"
      using e Cons.prems(2,3) by (auto simp: st1_def)
  qed
  have ev: "(if st1 \<noteq> SUCCESS then (st1, s1, t1) else insert_loop roots st1 s1 t1) = (st', s', t')"
    using Cons.prems(1) e unfolding st1_def by (simp only: insert_loop.simps Let_def prod.case)
  show ?case
  proof (cases "st1 = SUCCESS")
    case True
    then have "insert_loop roots st1 s1 t1 = (st', s', t')" using ev by simp
    from Cons.IH [OF this s1(1,3)] s1(2) [OF True] show ?thesis by auto
  qed (use ev s1 in auto)
qed auto

lemma commit_saving:
  assumes "prefixes_commit st s t = (st', s', t')" "saving old s t" "st = SUCCESS \<or> st = FAILURE"
    and "st = SUCCESS \<Longrightarrow> \<not> autocommit s"
  shows "(st' = SUCCESS \<longrightarrow> st = SUCCESS \<and> committed_paths t' = paths t) \<and> (st' = FAILURE \<longrightarrow> saving old s' t')
    \<and> sane s' \<and> (st' = SUCCESS \<or> st' = FAILURE)"
proof (cases "st = SUCCESS")
  case True
  obtain rc s1 where a: "sql_answer s = (rc, s1)" by (cases "sql_answer s")
  have "sane s1" using sql_answer_later(1) [OF _ a] assms(2) later_sane by (auto simp: saving_def)
  moreover have "sane (s1\<lparr>autocommit := True, committed := table s1\<rparr>)" using \<open>sane s1\<close> by (simp add: sane_def)
  moreover have o: "\<not> autocommit s" "committed_paths t = old" using assms(2,4) True by (auto simp: saving_def)
  moreover have "(st', s', t') = (if rc = Sql_Done
      then (SUCCESS, s1\<lparr>autocommit := True, committed := table s1\<rparr>, t\<lparr>committed_paths := paths t\<rparr>)
      else (FAILURE, s1, if rc = Sql_Auto_Rollback then t\<lparr>paths := committed_paths t\<rparr> else t))"
    using assms(1) True a o by (cases rc) (simp_all add: prefixes_commit_def Let_def)
  moreover have "autocommit s1 = (rc = Sql_Auto_Rollback)" using answer_autocommit [OF a] o by simp
  ultimately show ?thesis
    using True by (cases rc) (simp_all add: saving_def)
qed (use assms in \<open>auto simp: prefixes_commit_def saving_def\<close>)

lemma rollback_saving:
  assumes "prefixes_rollback st s t = (st', s', t')" "sane s" "st = SUCCESS \<or> st = FAILURE"
  shows "(st = SUCCESS \<longrightarrow> st' = SUCCESS \<and> s' = s \<and> t' = t) \<and> committed_paths t' = committed_paths t \<and> sane s'
    \<and> (st' = SUCCESS \<longrightarrow> st = SUCCESS)"
proof (cases "st \<noteq> SUCCESS \<and> \<not> autocommit s")
  case True
  obtain rc s1 where a: "sql_answer s = (rc, s1)" by (cases "sql_answer s")
  have "sane s1" using sql_answer_later(1) [OF assms(2) a] later_sane by blast
  moreover have "sane (s1\<lparr>autocommit := True, table := committed s1\<rparr>)" using \<open>sane s1\<close> by (simp add: sane_def)
  ultimately show ?thesis
    using assms True a by (auto simp: prefixes_rollback_def Let_def split: if_splits)
qed (use assms in \<open>auto simp: prefixes_rollback_def\<close>)

lemma inserted_prefixes: "snd ` set (paths (fold insert_prefix roots t)) = snd ` set (paths t) \<union> set roots"
  by (induction roots arbitrary: t) (auto simp: insert_prefix_def image_Un)

text \<open>The prefixes that are left when the run is forced, and those that are stored.\<close>

definition kept_prefixes :: "bool \<Rightarrow> path_tables \<Rightarrow> bytes set" where
  "kept_prefixes forced t =
     (if forced then {p. \<exists>i. (i, p) \<in> set (paths t) \<and> i \<notin> set (the_path_id_does_not_exists t)}
      else snd ` set (paths t))"

lemma deleted_prefixes: "snd ` set (paths (delete_obsolete t)) = kept_prefixes True t"
  by (force simp: delete_obsolete_def kept_prefixes_def Let_def)

text \<open>
  C37: The roots are stored together or not at all: whatever signals arrive and however SQLite answers,
  the prefixes on disk afterwards are the ones before, or exactly those that are kept (with --force
  without the obsolete ones) together with all roots of the command line; the latter whenever the
  function reports SUCCESS and the mode lets it write.
\<close>

theorem prefixes_saved_together:
  assumes "sane s" "autocommit s" "paths t = committed_paths t"
    and "db_save_prefixes c force exists roots s t = (st, s', t')"
  defines "new \<equiv> kept_prefixes (force \<and> \<not> conf_dry_run c) t \<union> set roots"
  shows "(committed_paths t' = committed_paths t \<or> snd ` set (committed_paths t') = new)
    \<and> (st = SUCCESS \<and> \<not> conf_compare c \<and> \<not> (conf_dry_run c \<and> exists) \<longrightarrow> snd ` set (committed_paths t') = new)"
proof (cases "halted s \<or> conf_compare c \<or> conf_dry_run c \<and> exists")
  case True
  then show ?thesis using assms(1,4) by (auto simp: db_save_prefixes_def split: if_splits)
next
  case False
  obtain rc s1 where a: "sql_answer s = (rc, s1)" by (cases "sql_answer s")
  have s1: "sane s1" using sql_answer_later(1) [OF assms(1) a] later_sane by blast
  show ?thesis
  proof (cases "rc \<noteq> Sql_Done \<or> \<not> autocommit s1")
    case True
    then have "st = outcome False (halted s1)" "t' = t"
      using assms(4) False a s1 by (auto simp: db_save_prefixes_def)
    then show ?thesis by simp
  next
    case begun: False
    define s2 where "s2 = s1\<lparr>autocommit := False\<rparr>"
    have s2: "saving (committed_paths t) s2 t" "\<not> autocommit s2"
      using s1 by (simp_all add: saving_def s2_def sane_def)
    define forced where "forced = (force \<and> \<not> conf_dry_run c)"
    define t2 where "t2 = (if forced then delete_obsolete t else t)"
    obtain ok s3 t3 where e: "(if forced then paths_exec delete_obsolete s2 t else (True, s2, t)) = (ok, s3, t3)"
      by (cases "if forced then paths_exec delete_obsolete s2 t else (True, s2, t)")
    have "committed_paths (delete_obsolete t) = committed_paths t" by (simp add: delete_obsolete_def Let_def)
    then have s3: "saving (committed_paths t) s3 t3" "ok \<Longrightarrow> t3 = t2 \<and> \<not> autocommit s3"
      using e s2 exec_saving [of delete_obsolete s2 t ok s3 t3] by (auto simp: t2_def split: if_splits)
    define st3 where "st3 = (if ok then SUCCESS else FAILURE)"
    obtain st4 s4 t4 where l: "insert_loop roots st3 s3 t3 = (st4, s4, t4)" by (cases "insert_loop roots st3 s3 t3")
    have s4: "saving (committed_paths t) s4 t4 \<and> (st4 = SUCCESS \<or> st4 = FAILURE)
      \<and> (st4 = SUCCESS \<longrightarrow> st3 = SUCCESS \<and> \<not> autocommit s4 \<and> t4 = fold insert_prefix roots t3)"
      by (rule insert_loop_saving [OF l s3(1)]) (use s3(2) in \<open>auto simp: st3_def split: if_splits\<close>)
    obtain st5 s5 t5 where cm: "prefixes_commit st4 s4 t4 = (st5, s5, t5)" by (cases "prefixes_commit st4 s4 t4")
    have s5: "(st5 = SUCCESS \<longrightarrow> st4 = SUCCESS \<and> committed_paths t5 = paths t4)
      \<and> (st5 = FAILURE \<longrightarrow> saving (committed_paths t) s5 t5) \<and> sane s5 \<and> (st5 = SUCCESS \<or> st5 = FAILURE)"
      by (rule commit_saving [OF cm]) (use s4 in auto)
    obtain st6 s6 t6 where rb: "prefixes_rollback st5 s5 t5 = (st6, s6, t6)" by (cases "prefixes_rollback st5 s5 t5")
    have s6: "(st5 = SUCCESS \<longrightarrow> st6 = SUCCESS \<and> s6 = s5 \<and> t6 = t5) \<and> committed_paths t6 = committed_paths t5
      \<and> sane s6 \<and> (st6 = SUCCESS \<longrightarrow> st5 = SUCCESS)"
      by (rule rollback_saving [OF rb]) (use s5 in auto)
    define s7 where "s7 = (if st6 = SUCCESS \<and> \<not> conf_dry_run c \<and> total_changes t < total_changes t6
        then s6\<lparr>db_primary_file_modified := True\<rparr> else s6)"
    have r: "st = fst (provide st6 s7)" "t' = t6"
      using assms(4) False a begun e l cm rb
      unfolding db_save_prefixes_def Let_def s2_def [symmetric] forced_def [symmetric]
      by (auto simp: s2_def [symmetric] st3_def s7_def Let_def split: prod.splits if_splits)
    have new: "snd ` set (committed_paths t5) = new" if "st5 = SUCCESS"
    proof -
      have "committed_paths t5 = paths (fold insert_prefix roots t2)"
        using that s5 s4 s3(2) by (auto simp: st3_def split: if_splits)
      then show ?thesis
        by (simp add: inserted_prefixes new_def deleted_prefixes t2_def) (auto simp: forced_def kept_prefixes_def)
    qed
    have "st6 = SUCCESS" if "st = SUCCESS"
    proof (rule ccontr)
      assume n: "st6 \<noteq> SUCCESS"
      then have "st5 = FAILURE" using s6 s5 by blast
      then have "st6 = FAILURE"
        using rb by (auto simp: prefixes_rollback_def Let_def split: prod.splits if_splits)
      moreover have "sane s6" using s6 by blast
      then have "sane s7" by (simp add: s7_def sane_def)
      ultimately show False using r(1) that by simp
    qed
    moreover have "committed_paths t6 = committed_paths t" if "st5 \<noteq> SUCCESS"
      using that s5 s6 by (auto simp: saving_def)
    ultimately show ?thesis using new s6 r(2) by metis
  qed
qed

section \<open>Concrete tables\<close>

definition one_prefix :: path_tables where
  "one_prefix = \<lparr>paths = [(1, [97])], committed_paths = [(1, [97])], the_path_id_does_not_exists = [], total_changes = 0\<rparr>"

lemma calm_fresh_state: "calm (fresh_state rows)"
  by (simp add: calm_def fresh_state_def sane_def)

theorem foreign_roots_stop_the_run_witness:
  "has SKIP (fst (db_validate_paths default_config False True True any_memory [[98]] (fresh_state []) one_prefix))"
proof -
  obtain st s' t' where r: "db_validate_paths default_config False True True any_memory [[98]] (fresh_state []) one_prefix
      = (st, s', t')"
    by (cases "db_validate_paths default_config False True True any_memory [[98]] (fresh_state []) one_prefix")
  have "has SKIP st \<and> (has AWAITING st \<or> run (\<lambda>s. (SUCCESS, s)) st s' = (st, s'))"
    by (rule foreign_roots_stop_the_run [OF _ _ _ _ r])
      (simp_all add: calm_sane [OF calm_fresh_state] default_config_def one_prefix_def)
  then show ?thesis by (simp add: r)
qed

theorem prefixes_saved_together_witness:
  "\<exists>s' t'. db_save_prefixes default_config True True [[98]] (fresh_state [])
       (one_prefix\<lparr>the_path_id_does_not_exists := [1]\<rparr>) = (SUCCESS, s', t')
     \<and> snd ` set (committed_paths t') = {[98]}"
proof -
  let ?t = "one_prefix\<lparr>the_path_id_does_not_exists := [1]\<rparr>"
  obtain st s' t' where r: "db_save_prefixes default_config True True [[98]] (fresh_state []) ?t = (st, s', t')"
    by (cases "db_save_prefixes default_config True True [[98]] (fresh_state []) ?t")
  have c: "calm (fresh_state [])" "autocommit (fresh_state [])" "table (fresh_state []) = committed (fresh_state [])"
    using calm_fresh_state by (simp_all add: fresh_state_def)
  have "(committed_paths t' = committed_paths ?t
      \<or> snd ` set (committed_paths t') = kept_prefixes (True \<and> \<not> conf_dry_run default_config) ?t \<union> set [[98]])
    \<and> (st = SUCCESS \<and> \<not> conf_compare default_config \<and> \<not> (conf_dry_run default_config \<and> True) \<longrightarrow>
       snd ` set (committed_paths t') = kept_prefixes (True \<and> \<not> conf_dry_run default_config) ?t \<union> set [[98]])"
    by (rule prefixes_saved_together [OF _ _ _ r]) (simp_all add: c calm_sane [OF c(1)] one_prefix_def)
  moreover have "st = SUCCESS"
    using r c calm_sane(2) [OF c(1)] calm_provide
    by (auto simp: db_save_prefixes_def default_config_def prefixes_commit_def prefixes_rollback_def Let_def split: prod.splits)
  ultimately show ?thesis
    using r by (auto simp: kept_prefixes_def one_prefix_def default_config_def)
qed

end
