(* ===== verification/Upgrade_Rows.thy ===== *)
theory Upgrade_Rows
  imports Versions_Atomic
begin

text \<open>
  The checks of a database file never change which paths it holds and with which digests, whatever
  happens while it is upgraded, and their status tells whether a signal has arrived.
\<close>

section \<open>What the rows say of the files\<close>

definition row_digests :: "dbfile \<Rightarrow> (bytes \<times> bytes option) list" where
  "row_digests d = map (\<lambda>r. (fr_relative_path r, fr_sha512 r)) (files_table d)"

lemma row_digests_simps [simp]:
  "row_digests (d\<lparr>metadata_table := m\<rparr>) = row_digests d"
  "row_digests (convert_rows f d) = row_digests d"
  "row_digests (the (create_metadata d)) = row_digests d"
  by (simp_all add: row_digests_def convert_rows_def create_metadata_def comp_def)

section \<open>The statuses of the steps\<close>

text \<open>
  A status is settled when it says SUCCESS and nothing else, and no signal has arrived, or when it
  makes every following \<open>run()\<close> skip its function.
\<close>

definition stopping :: "ret \<Rightarrow> bool" where
  "stopping st \<longleftrightarrow> bit st 0 \<or> bit st 4 \<or> bit st 5"

definition settled :: "ret \<Rightarrow> app \<Rightarrow> bool" where
  "settled st s \<longleftrightarrow> st = SUCCESS \<and> \<not> halted s \<or> stopping st"

lemma stopping_simps [simp]:
  "stopping (outcome g h) \<longleftrightarrow> \<not> g \<or> h" "\<not> stopping SUCCESS" "stopping FAILURE" "stopping WARNING"
  by (auto simp: stopping_def)

lemma settled_outcome: "settled (outcome g (halted s)) s"
  by (auto simp: settled_def)

lemma stopping_provide: "stopping w \<Longrightarrow> stopping (fst (provide w s))"
  by (auto simp: stopping_def bit_provide)

lemma settled_provide:
  assumes "st = SUCCESS \<or> stopping st" "sane s"
  shows "settled (fst (provide st s)) (snd (provide st s))" "sane (snd (provide st s))"
    "halted (snd (provide st s)) = halted s"
proof -
  show "sane (snd (provide st s))" "halted (snd (provide st s)) = halted s"
    using assms(2) by (auto simp: provide_def rational_normalize_return_def Let_def sane_def)
  show "settled (fst (provide st s)) (snd (provide st s))"
    using assms stopping_provide [of st s] by (auto simp: settled_def)
qed

lemma stopping_call: "stopping st \<Longrightarrow> stopping (fst (call f st s))"
  by (auto simp: stopping_def call_def case_prod_beta Let_def bit_or_iff)

lemma settled_call:
  assumes "answers s g (f s)" "st = SUCCESS \<or> stopping st" "sane s"
  shows "settled (fst (call f st s)) (snd (call f st s))" "later s (snd (call f st s))"
proof -
  have c: "later s (snd (call f w s))" for w
    using assms(1,3) by (auto simp: call_def case_prod_beta Let_def answers_def later_def rational_normalize_return_def sane_def)
  show "later s (snd (call f st s))" by (rule c)
  show "settled (fst (call f st s)) (snd (call f st s))"
    using assms stopping_call [of st f s] call_answers [where f = f and s = s and g' = g and h = False and g = True, OF assms(1)]
    by (auto simp: settled_def outcome_literals(1) [symmetric])
qed

text \<open>A step of a check: the state stays sane and the file keeps its digests.\<close>

definition checked :: "dbfile \<Rightarrow> ret \<times> app \<times> dbfile \<Rightarrow> bool" where
  "checked d result =
     (case result of (st, s', d') \<Rightarrow> sane s' \<and> settled st s' \<and> row_digests d' = row_digests d)"

lemma provide_checked:
  assumes "sane s'" "st = SUCCESS \<or> stopping st" "row_digests d' = row_digests d"
  shows "checked d (let (st, s) = provide st s' in (st, s, d'))"
  using assms settled_provide [OF assms(2,1)] by (auto simp: checked_def split: prod.splits)

section \<open>Storing the version\<close>

text \<open>The file and the connection hold the digests \<open>ds\<close>.\<close>

definition holds_digests :: "(bytes \<times> bytes option) list \<Rightarrow> connection \<Rightarrow> bool" where
  "holds_digests ds k \<longleftrightarrow> row_digests (on_disk k) = ds \<and> row_digests (working k) = ds"

definition keeps_digests :: "(app \<Rightarrow> connection \<Rightarrow> bool \<times> app \<times> connection) \<Rightarrow> bool" where
  "keeps_digests f \<longleftrightarrow> (\<forall>s k ds ok s' k'. f s k = (ok, s', k') \<longrightarrow> sane s \<longrightarrow> holds_digests ds k \<longrightarrow>
     later s s' \<and> holds_digests ds k')"

lemma exec_keeps_digests:
  assumes "\<And>d e. f d = Some e \<Longrightarrow> row_digests e = row_digests d"
  shows "keeps_digests (sql_exec f)"
  using assms sql_answer_later(1)
  by (auto simp: keeps_digests_def sql_exec_def holds_digests_def split: prod.splits sql_answer.splits option.splits)

lemma transactions_keep_digests:
  "keeps_digests sql_begin" "keeps_digests sql_commit" "keeps_digests sql_rollback"
  using sql_answer_later(1)
  by (auto simp: keeps_digests_def sql_begin_def sql_commit_def sql_rollback_def holds_digests_def
      split: prod.splits if_splits)

lemma statements_keep_digests:
  "keeps_digests sql_other" "keeps_digests (sql_exec delete_metadata)" "keeps_digests (sql_exec (insert_metadata v))"
  "keeps_digests (sql_exec create_metadata)" "keeps_digests (sql_exec (update_stat i b))"
  unfolding sql_other_def
  by (rule exec_keeps_digests;
      auto simp: delete_metadata_def insert_metadata_def create_metadata_def update_stat_def row_digests_def comp_def split: if_splits option.splits)+

lemma keeps_digestsD:
  assumes "keeps_digests f" "f s k = (ok, s', k')" "later s0 s" "holds_digests ds k"
  shows "later s0 s' \<and> holds_digests ds k'"
  using assms later_trans later_sane unfolding keeps_digests_def by blast

lemma when_keeps_digests:
  assumes "keeps_digests f" "when_success f st s k = (st', s', k')" "later s0 s" "holds_digests ds k"
    "st = SUCCESS \<or> stopping st"
  shows "later s0 s' \<and> holds_digests ds k' \<and> (st' = SUCCESS \<or> stopping st')"
  using assms keeps_digestsD [OF assms(1)] by (auto simp: when_success_def split: prod.splits if_splits)

lemma close_answers:
  assumes "sane s"
  shows "\<exists>g. answers s g (db_close linked modified s)"
proof -
  have k: "sane s' \<and> (halted s \<longrightarrow> halted s')" if "sql_ok s0 = (b, s')" "later s s0" for s0 b s'
    using that sql_answer_later(1) [of s0] later_sane later_trans
    by (auto simp: sql_ok_def later_def split: prod.splits)
  have s: "later s s" using assms by (simp add: later_def)
  show ?thesis
  proof (cases linked)
    case True
    obtain b1 s1 where e1: "(if modified then sql_ok s else (True, s)) = (b1, s1)"
      by (cases "if modified then sql_ok s else (True, s)")
    have l1: "later s s1" using e1 k [OF _ s] s by (auto simp: later_def split: if_splits)
    obtain b2 s2 where e2: "sql_ok s1 = (b2, s2)" by (cases "sql_ok s1")
    have l2: "later s s2" using k [OF e2 l1] by (simp add: later_def)
    obtain b3 s3 where e3: "sql_ok s2 = (b3, s3)" by (cases "sql_ok s2")
    have l3: "later s s3" using k [OF e3 l2] by (simp add: later_def)
    have "db_close linked modified s = provide (outcome (b1 \<and> b2 \<and> b3) False) s3"
      using True e1 e2 e3 by (auto simp: db_close_def outcome_literals)
    then show ?thesis using l3 by (auto simp: later_def answers_def)
  qed (use assms in \<open>auto simp: db_close_def answers_def\<close>)
qed


lemma close_called:
  assumes "sane s" "st = SUCCESS \<or> stopping st"
  shows "sane (snd (call (db_close linked modified) st s))"
    "fst (call (db_close linked modified) st s) = SUCCESS \<or> stopping (fst (call (db_close linked modified) st s))"
proof -
  obtain g where g: "answers s g (db_close linked modified s)" using close_answers [OF assms(1)] by blast
  show "sane (snd (call (db_close linked modified) st s))"
    "fst (call (db_close linked modified) st s) = SUCCESS \<or> stopping (fst (call (db_close linked modified) st s))"
    using settled_call [where f = "db_close linked modified", OF g assms(2,1)] by (auto simp: settled_def later_def)
qed

lemma specify_checked:
  assumes "sane s"
  shows "checked d (db_specify_version c given p v d s)"
proof -
  let ?ds = "row_digests d"
  have l0: "later s s" using assms by (simp add: later_def)
  have c0: "holds_digests ?ds (connect d)" by (simp add: holds_digests_def connect_def)
  obtain st1 s1 k1 where e1: "when_success sql_other SUCCESS s (connect d) = (st1, s1, k1)"
    by (cases "when_success sql_other SUCCESS s (connect d)")
  note r1 = when_keeps_digests [OF statements_keep_digests(1) e1 l0 c0]
  obtain st2 s2 k2 where e2: "when_success sql_begin st1 s1 k1 = (st2, s2, k2)"
    by (cases "when_success sql_begin st1 s1 k1")
  have r2: "later s s2 \<and> holds_digests ?ds k2 \<and> (st2 = SUCCESS \<or> stopping st2)"
    using when_keeps_digests [OF transactions_keep_digests(1) e2] r1 by blast
  obtain st3 s3 k3 where e3: "when_success (sql_exec delete_metadata) st2 s2 k2 = (st3, s3, k3)"
    by (cases "when_success (sql_exec delete_metadata) st2 s2 k2")
  have r3: "later s s3 \<and> holds_digests ?ds k3 \<and> (st3 = SUCCESS \<or> stopping st3)"
    using when_keeps_digests [OF statements_keep_digests(2) e3] r2 by blast
  obtain st4 s4 k4 where e4: "when_success (sql_exec (insert_metadata v)) st3 s3 k3 = (st4, s4, k4)"
    by (cases "when_success (sql_exec (insert_metadata v)) st3 s3 k3")
  have r4: "later s s4 \<and> holds_digests ?ds k4 \<and> (st4 = SUCCESS \<or> stopping st4)"
    using when_keeps_digests [OF statements_keep_digests(3) e4] r3 by blast
  obtain ok s5 k5 where e5: "(if st4 = SUCCESS then sql_commit s4 k4 else (False, s4, k4)) = (ok, s5, k5)"
    by (cases "if st4 = SUCCESS then sql_commit s4 k4 else (False, s4, k4)")
  have r5: "later s s5 \<and> holds_digests ?ds k5"
    using e5 r4 keeps_digestsD [OF transactions_keep_digests(2)] by (auto split: if_splits)
  define st5 where "st5 = (if st4 = SUCCESS \<and> \<not> ok then FAILURE else st4)"
  define s6 where "s6 = (if ok \<and> p then s5\<lparr>db_primary_file_modified := True\<rparr> else s5)"
  have r6: "later s s6" using r5 by (auto simp: s6_def later_def sane_def)
  have st5: "st5 = SUCCESS \<or> stopping st5" using r4 by (simp add: st5_def)
  obtain s7 k7 where e7: "(if st5 \<noteq> SUCCESS then let (rolled_back, s, k) = sql_rollback s6 k5 in (s, k) else (s6, k5)) = (s7, k7)"
    by (cases "if st5 \<noteq> SUCCESS then let (rolled_back, s, k) = sql_rollback s6 k5 in (s, k) else (s6, k5)")
  have r7: "later s s7 \<and> holds_digests ?ds k7"
    using e7 r5 r6 keeps_digestsD [OF transactions_keep_digests(3), of s6 k5]
    by (auto split: if_splits prod.splits)
  obtain st8 s8 where e8: "call (db_close True ok) st5 s7 = (st8, s8)" by (cases "call (db_close True ok) st5 s7")
  have r8: "sane s8" "st8 = SUCCESS \<or> stopping st8"
    using close_called [OF _ st5, of s7 True ok] r7 e8 by (auto simp: later_def)
  have "checked d (let (st, s) = provide st8 s8 in (st, s, on_disk (disconnect k7)))"
    using r7 by (intro provide_checked r8) (simp add: disconnect_def holds_digests_def)
  moreover have "db_specify_version c given p v d s = (let (st, s) = provide st8 s8 in (st, s, on_disk (disconnect k7)))"
    if "given" "\<not> halted s" "\<not> conf_dry_run c"
    using that by (simp only: db_specify_version_def Let_def e1 e2 e3 e4 e5 prod.case st5_def [symmetric]
        s6_def [symmetric] e7 [unfolded Let_def] e8 simp_thms if_False)
  moreover have "checked d (let (st, s) = provide st0 s in (st, s, d))" if "st0 = SUCCESS \<or> st0 = FAILURE" for st0
    using that assms by (intro provide_checked) auto
  ultimately show ?thesis
    by (cases "given \<and> \<not> halted s \<and> \<not> conf_dry_run c") (auto simp: db_specify_version_def)
qed

lemma provided_later:
  assumes "provide w s = (st, s')" "w = SUCCESS \<or> stopping w" "later s0 s"
  shows "st = SUCCESS \<or> stopping st" "later s0 s'"
  using settled_provide [OF assms(2) later_sane [OF assms(3)]] assms(1,3) by (auto simp: settled_def later_def)

section \<open>Migrations\<close>

lemma migrate_loop_keeps:
  assumes "migrate_loop (process_row f) rows s k m = (st, s', k', m', step)" "later s0 s" "holds_digests ds k"
  shows "later s0 s' \<and> holds_digests ds k' \<and> (st = SUCCESS \<or> stopping st)"
  using assms
proof (induction rows arbitrary: s k m)
  case Nil
  then show ?case
    using keeps_digestsD [OF statements_keep_digests(1) _ Nil.prems(2,3)]
    by (subst (asm) migrate_loop.simps) (auto split: prod.splits if_splits)
next
  case (Cons r rows)
  obtain ok s1 k1 where e1: "sql_other s k = (ok, s1, k1)" by (cases "sql_other s k")
  note r1 = keeps_digestsD [OF statements_keep_digests(1) e1 Cons.prems(2,3)]
  obtain ok2 s2 k2 where e2: "sql_exec (update_stat (fr_ID r) (f (fr_stat r))) s1 k1 = (ok2, s2, k2)"
    by (cases "sql_exec (update_stat (fr_ID r) (f (fr_stat r))) s1 k1")
  have r2: "later s0 s2" "holds_digests ds k2" using keeps_digestsD [OF statements_keep_digests(5) e2] r1 by blast+
  obtain st3 s3 where e3: "provide (if ok2 then SUCCESS else FAILURE) s2 = (st3, s3)"
    by (cases "provide (if ok2 then SUCCESS else FAILURE) s2")
  have r3: "st3 = SUCCESS \<or> stopping st3" "later s0 s3"
    using provided_later [OF e3 _ r2(1)] by (cases ok2; simp)+
  show ?case
  proof (cases "ok \<and> \<not> halted s1 \<and> st3 = SUCCESS")
    case True
    then have "migrate_loop (process_row f) rows s3 k2 (m \<or> ok2) = (st, s', k', m', step)"
      using Cons.prems(1) e1 e2 e3 by (subst (asm) migrate_loop.simps) (simp add: process_row_def)
    then show ?thesis using Cons.IH r2(2) r3(2) by blast
  next
    case False
    then show ?thesis
      using Cons.prems(1) e1 e2 e3 r1 r2 r3
      by (subst (asm) migrate_loop.simps) (cases ok; cases "halted s1"; simp add: process_row_def; blast)
  qed
qed

lemma process_database_keeps:
  assumes "process_database (process_row f) s k = (st, s', k', m)" "later s0 s" "holds_digests ds k"
  shows "later s0 s' \<and> holds_digests ds k' \<and> (st = SUCCESS \<or> stopping st)"
proof -
  obtain st1 s1 k1 where e1: "when_success sql_other SUCCESS s k = (st1, s1, k1)"
    by (cases "when_success sql_other SUCCESS s k")
  note r1 = when_keeps_digests [OF statements_keep_digests(1) e1 assms(2,3)]
  define w where "w = (if st1 = SUCCESS then
      let (st, s, k, m, step) = migrate_loop (process_row f) (files_table (working k1)) s1 k1 False
      in (if st = SUCCESS \<and> \<not> halted s \<and> step \<noteq> Step_Done then FAILURE else st, s, k, m)
    else (st1, s1, k1, False))"
  obtain st2 s2 k2 m2 where e2: "w = (st2, s2, k2, m2)" by (cases w)
  have r2: "later s0 s2 \<and> holds_digests ds k2 \<and> (st2 = SUCCESS \<or> stopping st2)"
    using e2 r1 migrate_loop_keeps [where f = f and rows = "files_table (working k1)" and m = False, of s1 k1]
    by (auto simp: w_def split: if_splits prod.splits)
  have "(st, s', k', m) = (let (st, s) = provide st2 s2 in (st, s, k2, m2))"
    using assms(1) e1 e2 by (simp add: process_database_def w_def Let_def split: prod.splits if_splits)
  then show ?thesis
    using r2 provided_later [of st2 s2 "fst (provide st2 s2)" "snd (provide st2 s2)" s0] by (auto split: prod.splits)
qed

lemma migration_end_keeps:
  assumes "migration_end st s k = (st', s', k')" "later s0 s" "holds_digests ds k" "st = SUCCESS \<or> stopping st"
  shows "later s0 s' \<and> holds_digests ds k' \<and> (st' = SUCCESS \<or> stopping st')"
proof -
  have rb: "later s0 s2 \<and> holds_digests ds k2" if "sql_rollback s1 k1 = (ok, s2, k2)" "later s0 s1" "holds_digests ds k1"
    for ok s1 k1 s2 k2 using keeps_digestsD [OF transactions_keep_digests(3) that] .
  have cm: "later s0 s2 \<and> holds_digests ds k2" if "sql_commit s k = (ok, s2, k2)" for ok s2 k2
    using keeps_digestsD [OF transactions_keep_digests(2) that assms(2,3)] .
  show ?thesis
    using assms rb [OF _ assms(2,3)] rb cm
    by (auto simp: migration_end_def split: prod.splits if_splits)
qed

lemma migration_close_checked:
  assumes "sane s" "holds_digests (row_digests d) k" "st = SUCCESS \<or> stopping st"
  shows "checked d (migration_close p m st s k)"
proof -
  define s1 where "s1 = (if st = SUCCESS \<and> m \<and> p then s\<lparr>db_primary_file_modified := True\<rparr> else s)"
  have s1: "sane s1" using assms(1) by (simp add: s1_def sane_def)
  let ?f = "db_close True (db_primary_file_modified s1)"
  have "migration_close p m st s k = (let (st, s) = provide (fst (call ?f st s1)) (snd (call ?f st s1))
      in (st, s, on_disk (disconnect k)))"
    by (simp add: migration_close_def s1_def [symmetric] Let_def case_prod_beta)
  moreover have "checked d \<dots>"
    using close_called [OF s1 assms(3)] assms(2)
    by (intro provide_checked) (auto simp: disconnect_def holds_digests_def)
  ultimately show ?thesis by simp
qed

text \<open>The common shape of both migrations, from the first statement in the transaction on.\<close>

lemma transaction_checked:
  assumes "later s0 s" "holds_digests (row_digests d) k" "st = SUCCESS \<or> stopping st"
    and "(if st = SUCCESS then process_database (process_row f) s k else (st, s, k, False)) = (st1, s1, k1, m)"
    and "(if started then migration_end st1 s1 k1 else (st1, s1, k1)) = (st2, s2, k2)"
  shows "checked d (migration_close p m st2 s2 k2)"
proof -
  have r1: "later s0 s1 \<and> holds_digests (row_digests d) k1 \<and> (st1 = SUCCESS \<or> stopping st1)"
    using assms(1-4) process_database_keeps [of f s k] by (auto split: if_splits)
  have "later s0 s2 \<and> holds_digests (row_digests d) k2 \<and> (st2 = SUCCESS \<or> stopping st2)"
    using assms(5) r1 migration_end_keeps [of st1 s1 k1] by (auto split: if_splits)
  then show ?thesis using migration_close_checked later_sane by blast
qed

lemma begin_keeps_digests:
  assumes "(if st = SUCCESS then sql_begin s k else (False, s, k)) = (ok, s', k')" "later s0 s" "holds_digests ds k"
  shows "later s0 s' \<and> holds_digests ds k'"
  using assms keeps_digestsD [OF transactions_keep_digests(1)] by (auto split: if_splits)

lemma dry_checked: "sane s \<Longrightarrow> checked d (let (st, s) = provide SUCCESS s in (st, s, d))"
  by (intro provide_checked) auto

lemma migrate_1_checked:
  assumes "sane s"
  shows "checked d (db_migrate_from_0_to_1 c p d s)"
proof -
  let ?ds = "row_digests d"
  have l0: "later s s" using assms by (simp add: later_def)
  have c0: "holds_digests ?ds (connect d)" by (simp add: holds_digests_def connect_def)
  obtain st1 s1 k1 where e1: "when_success sql_other SUCCESS s (connect d) = (st1, s1, k1)"
    by (cases "when_success sql_other SUCCESS s (connect d)")
  note r1 = when_keeps_digests [OF statements_keep_digests(1) e1 l0 c0]
  obtain st2 s2 k2 where e2: "when_success sql_other st1 s1 k1 = (st2, s2, k2)"
    by (cases "when_success sql_other st1 s1 k1")
  have r2: "later s s2 \<and> holds_digests ?ds k2 \<and> (st2 = SUCCESS \<or> stopping st2)"
    using when_keeps_digests [OF statements_keep_digests(1) e2] r1 by blast
  obtain ok s3 k3 where e3: "(if st2 = SUCCESS then sql_begin s2 k2 else (False, s2, k2)) = (ok, s3, k3)"
    by (cases "if st2 = SUCCESS then sql_begin s2 k2 else (False, s2, k2)")
  define st3 where "st3 = (if st2 = SUCCESS \<and> \<not> ok then FAILURE else st2)"
  have r3: "later s s3 \<and> holds_digests ?ds k3" "st3 = SUCCESS \<or> stopping st3"
    using begin_keeps_digests [OF e3] r2 by (auto simp: st3_def)
  obtain st4 s4 k4 where e4: "when_success (sql_exec create_metadata) st3 s3 k3 = (st4, s4, k4)"
    by (cases "when_success (sql_exec create_metadata) st3 s3 k3")
  have r4: "later s s4" "holds_digests ?ds k4" "st4 = SUCCESS \<or> stopping st4"
    using when_keeps_digests [OF statements_keep_digests(4) e4] r3 by blast+
  obtain st5 s5 k5 m where e5: "(if st4 = SUCCESS then process_database process_row_v1 s4 k4 else (st4, s4, k4, False)) = (st5, s5, k5, m)"
    by (cases "if st4 = SUCCESS then process_database process_row_v1 s4 k4 else (st4, s4, k4, False)")
  obtain st6 s6 k6 where e6: "(if ok then migration_end st5 s5 k5 else (st5, s5, k5)) = (st6, s6, k6)"
    by (cases "if ok then migration_end st5 s5 k5 else (st5, s5, k5)")
  note t = transaction_checked [OF r4 e5 [unfolded process_row_v1_def] e6, of p]
  have "db_migrate_from_0_to_1 c p d s = migration_close p m st6 s6 k6" if "\<not> conf_dry_run c"
    using that by (simp only: db_migrate_from_0_to_1_def Let_def e1 e2 e3 e4 e5 e6 prod.case st3_def [symmetric] if_False)
  then show ?thesis using t dry_checked [OF assms, of d] by (cases "conf_dry_run c") (auto simp: db_migrate_from_0_to_1_def)
qed

lemma journal_keeps:
  assumes "normalize_journal_mode mode s k = (st, s', k')" "later s0 s" "holds_digests ds k"
  shows "later s0 s' \<and> holds_digests ds k' \<and> (st = SUCCESS \<or> stopping st)"
proof -
  note w = when_keeps_digests [OF statements_keep_digests(1)]
  obtain st1 s1 k1 where e1: "when_success sql_other SUCCESS s k = (st1, s1, k1)"
    by (cases "when_success sql_other SUCCESS s k")
  note r1 = w [OF e1 assms(2,3)]
  obtain st2 s2 k2 where e2: "when_success sql_other st1 s1 k1 = (st2, s2, k2)"
    by (cases "when_success sql_other st1 s1 k1")
  have r2: "later s0 s2 \<and> holds_digests ds k2 \<and> (st2 = SUCCESS \<or> stopping st2)"
    using w [OF e2] r1 by blast
  define st3 where "st3 = (if st2 = SUCCESS \<and> mode \<noteq> Some [100, 101, 108, 101, 116, 101] then FAILURE else st2)"
  have st3: "st3 = SUCCESS \<or> stopping st3" using r2 by (simp add: st3_def)
  obtain st4 s4 k4 where e4: "when_success sql_other st3 s2 k2 = (st4, s4, k4)"
    by (cases "when_success sql_other st3 s2 k2")
  have r4: "later s0 s4 \<and> holds_digests ds k4 \<and> (st4 = SUCCESS \<or> stopping st4)"
    using w [OF e4 _ _ st3] r2 by blast
  have "(st, s', k') = (let (st, s) = provide st4 s4 in (st, s, k4))"
    using assms(1) e1 e2 e4 by (simp add: normalize_journal_mode_def st3_def)
  then show ?thesis
    using r4 provided_later [of st4 s4 "fst (provide st4 s4)" "snd (provide st4 s4)" s0] by (auto split: prod.splits)
qed

lemma migrate_4_checked:
  assumes "sane s"
  shows "checked d (db_migrate_to_version_4 c mode p d s)"
proof -
  let ?ds = "row_digests d"
  have l0: "later s s" using assms by (simp add: later_def)
  have c0: "holds_digests ?ds (connect d)" by (simp add: holds_digests_def connect_def)
  obtain st1 s1 k1 where e1: "when_success sql_other SUCCESS s (connect d) = (st1, s1, k1)"
    by (cases "when_success sql_other SUCCESS s (connect d)")
  note r1 = when_keeps_digests [OF statements_keep_digests(1) e1 l0 c0]
  obtain st2 s2 k2 where e2: "when_success sql_other st1 s1 k1 = (st2, s2, k2)"
    by (cases "when_success sql_other st1 s1 k1")
  have r2: "later s s2 \<and> holds_digests ?ds k2 \<and> (st2 = SUCCESS \<or> stopping st2)"
    using when_keeps_digests [OF statements_keep_digests(1) e2] r1 by blast
  obtain st3 s3 k3 where e3: "(if st2 = SUCCESS then normalize_journal_mode mode s2 k2 else (st2, s2, k2)) = (st3, s3, k3)"
    by (cases "if st2 = SUCCESS then normalize_journal_mode mode s2 k2 else (st2, s2, k2)")
  have r3: "later s s3 \<and> holds_digests ?ds k3 \<and> (st3 = SUCCESS \<or> stopping st3)"
    using e3 r2 journal_keeps [of mode s2 k2] by (auto split: if_splits)
  obtain ok s4 k4 where e4: "(if st3 = SUCCESS then sql_begin s3 k3 else (False, s3, k3)) = (ok, s4, k4)"
    by (cases "if st3 = SUCCESS then sql_begin s3 k3 else (False, s3, k3)")
  define st4 where "st4 = (if st3 = SUCCESS \<and> \<not> ok then FAILURE else st3)"
  have r4: "later s s4" "holds_digests ?ds k4" "st4 = SUCCESS \<or> stopping st4"
    using begin_keeps_digests [OF e4] r3 by (auto simp: st4_def)
  obtain st5 s5 k5 m where e5: "(if st4 = SUCCESS then process_database process_row_v4 s4 k4 else (st4, s4, k4, False)) = (st5, s5, k5, m)"
    by (cases "if st4 = SUCCESS then process_database process_row_v4 s4 k4 else (st4, s4, k4, False)")
  obtain st6 s6 k6 where e6: "(if ok then migration_end st5 s5 k5 else (st5, s5, k5)) = (st6, s6, k6)"
    by (cases "if ok then migration_end st5 s5 k5 else (st5, s5, k5)")
  note t = transaction_checked [OF r4 e5 [unfolded process_row_v4_def] e6, of p]
  have "db_migrate_to_version_4 c mode p d s = migration_close p m st6 s6 k6" if "\<not> conf_dry_run c"
    using that by (simp only: db_migrate_to_version_4_def Let_def e1 e2 e3 e4 e5 e6 prod.case st4_def [symmetric] if_False)
  then show ?thesis using t dry_checked [OF assms, of d] by (cases "conf_dry_run c") (auto simp: db_migrate_to_version_4_def)
qed

section \<open>Upgrades and checks\<close>

lemma checked_cases:
  assumes "checked d result"
  obtains st s' d' where "result = (st, s', d')" "sane s'" "st = SUCCESS \<or> stopping st" "row_digests d' = row_digests d"
  using assms by (cases result) (auto simp: checked_def settled_def)

lemma checked_trans: "row_digests d' = row_digests d \<Longrightarrow> checked d' r \<Longrightarrow> checked d r"
  by (auto simp: checked_def)

lemma upgrade_step_checked:
  assumes "checked d (migrate d s)" "upgrade_step c p migrate v0 v d s = (st, s', d', v')"
  shows "sane s'" "st = SUCCESS \<or> stopping st" "row_digests d' = row_digests d"
proof -
  obtain st1 s1 d1 where e1: "migrate d s = (st1, s1, d1)" "sane s1" "st1 = SUCCESS \<or> stopping st1"
    "row_digests d1 = row_digests d" using checked_cases [OF assms(1)] .
  obtain st2 s2 d2 where e2: "db_specify_version c True p v0 d1 s1 = (st2, s2, d2)" "sane s2"
    "st2 = SUCCESS \<or> stopping st2" "row_digests d2 = row_digests d1"
    using checked_cases [OF specify_checked [OF e1(2), of d1 c True p v0]] .
  have "sane s' \<and> (st = SUCCESS \<or> stopping st) \<and> row_digests d' = row_digests d"
    using assms(2) e1 e2 by (cases "st1 = SUCCESS"; simp add: upgrade_step_def; auto)
  then show "sane s'" "st = SUCCESS \<or> stopping st" "row_digests d' = row_digests d" by blast+
qed

lemma upgrade_checked:
  assumes "sane s" "db_upgrade c mode p v d s = (st, s', d', v')"
  shows "sane s'" "st = SUCCESS \<or> stopping st" "row_digests d' = row_digests d"
proof -
  obtain st1 s1 d1 v1 where e1: "(if v < 1 then upgrade_step c p (db_migrate_from_0_to_1 c p) 1 v d s
      else (SUCCESS, s, d, v)) = (st1, s1, d1, v1)"
    by (cases "if v < 1 then upgrade_step c p (db_migrate_from_0_to_1 c p) 1 v d s else (SUCCESS, s, d, v)")
  have r1: "sane s1" "st1 = SUCCESS \<or> stopping st1" "row_digests d1 = row_digests d"
    using e1 assms(1) upgrade_step_checked [where migrate = "db_migrate_from_0_to_1 c p", OF migrate_1_checked [OF assms(1)]]
    by (auto split: if_splits)
  obtain st2 s2 d2 v2 where e2: "(if st1 = SUCCESS \<and> v1 < 4
      then upgrade_step c p (db_migrate_to_version_4 c mode p) 4 v1 d1 s1 else (st1, s1, d1, v1)) = (st2, s2, d2, v2)"
    by (cases "if st1 = SUCCESS \<and> v1 < 4 then upgrade_step c p (db_migrate_to_version_4 c mode p) 4 v1 d1 s1 else (st1, s1, d1, v1)")
  have r2: "sane s2" "st2 = SUCCESS \<or> stopping st2" "row_digests d2 = row_digests d"
    using e2 r1 upgrade_step_checked [where migrate = "db_migrate_to_version_4 c mode p", OF migrate_4_checked [OF r1(1)]]
    by (auto split: if_splits)
  have eq: "db_upgrade c mode p v d s = (let (st, s) = provide st2 s2 in (st, s, d2, v2))" if "conf_update c"
    using that by (simp only: db_upgrade_def Let_def e1 e2 prod.case simp_thms if_False)
  have w: "db_upgrade c mode p v d s = (let (st, s) = provide WARNING s in (st, s, d, v))" if "\<not> conf_update c"
    using that by (simp add: db_upgrade_def)
  have "sane s' \<and> (st = SUCCESS \<or> stopping st) \<and> row_digests d' = row_digests d"
  proof (cases "conf_update c")
    case True
    then show ?thesis using assms(2) eq settled_provide [OF r2(2,1)] r2(3)
      by (auto simp: settled_def split: prod.splits)
  next
    case False
    then show ?thesis using assms w settled_provide [of WARNING s]
      by (auto simp: settled_def split: prod.splits)
  qed
  then show "sane s'" "st = SUCCESS \<or> stopping st" "row_digests d' = row_digests d" by blast+
qed

lemma ok_sane: "sql_ok s = (b, s') \<Longrightarrow> sane s \<Longrightarrow> sane s'"
  using sql_answer_later(1) [of s] later_sane by (auto simp: sql_ok_def split: prod.splits)

lemma vacuum_settled:
  assumes "sane s"
  shows "sane (snd (db_vacuum c given p b a s))"
    "fst (db_vacuum c given p b a s) = SUCCESS \<or> stopping (fst (db_vacuum c given p b a s))"
proof -
  have early: "sane (snd (provide w s)) \<and> (fst (provide w s) = SUCCESS \<or> stopping (fst (provide w s)))"
    if "w = SUCCESS \<or> w = FAILURE" for w
    using settled_provide [of w s] that assms by (auto simp: settled_def)
  have tm: "sane s2" if "cur_time_monotonic_ns s1 = (t, s2)" "sane s1" for s1 s2 t
    using that tick_later [of s1] tick_later [of "s1\<lparr>clock := tl (clock s1)\<rparr>"]
    by (auto simp: cur_time_monotonic_ns_def later_def sane_def split: list.splits)
  obtain b1 s1 where e1: "sql_ok s = (b1, s1)" by (cases "sql_ok s")
  note s1 = ok_sane [OF e1 assms]
  define st1 where "st1 = (if (if b1 then SUCCESS else FAILURE) = SUCCESS \<and> \<not> b then FAILURE else (if b1 then SUCCESS else FAILURE))"
  obtain vac s2 where e2: "(if st1 = SUCCESS then
      let (started_ns, s) = cur_time_monotonic_ns s1; (vacuumed, s) = sql_ok s;
          (stopped_ns, s) = cur_time_monotonic_ns s in (vacuumed, s) else (False, s1)) = (vac, s2)"
    by (cases "if st1 = SUCCESS then let (started_ns, s) = cur_time_monotonic_ns s1; (vacuumed, s) = sql_ok s;
          (stopped_ns, s) = cur_time_monotonic_ns s in (vacuumed, s) else (False, s1)")
  have s2: "sane s2" using e2 s1 by (auto split: if_splits prod.splits dest!: tm ok_sane)
  define st2 where "st2 = (if st1 = SUCCESS \<and> (\<not> vac \<or> \<not> a) then FAILURE else st1)"
  have st2: "st2 = SUCCESS \<or> stopping st2" by (simp add: st2_def st1_def)
  define s3 where "s3 = (if vac \<and> p then s2\<lparr>db_primary_file_modified := True\<rparr> else s2)"
  have s3: "sane s3" using s2 by (auto simp: s3_def sane_def)
  obtain st4 s4 where e4: "call (db_close True vac) st2 s3 = (st4, s4)" by (cases "call (db_close True vac) st2 s3")
  have r4: "sane s4" "st4 = SUCCESS \<or> stopping st4" using close_called [OF s3 st2, of True vac] e4 by simp_all
  have "db_vacuum c given p b a s = provide st4 s4" if "given" "\<not> conf_dry_run c"
    using that by (simp only: db_vacuum_def Let_def e1 prod.case st1_def [symmetric] e2 [unfolded Let_def] st2_def [symmetric]
        s3_def [symmetric] e4 simp_thms if_False)
  then have "sane (snd (db_vacuum c given p b a s))
    \<and> (fst (db_vacuum c given p b a s) = SUCCESS \<or> stopping (fst (db_vacuum c given p b a s)))"
    using settled_provide [OF r4(2,1)] early
    by (cases "given \<and> \<not> conf_dry_run c") (auto simp: settled_def db_vacuum_def)
  then show "sane (snd (db_vacuum c given p b a s))"
    "fst (db_vacuum c given p b a s) = SUCCESS \<or> stopping (fst (db_vacuum c given p b a s))" by blast+
qed

lemma response_loop_sane: "response_loop rs s ok = (fin, s', ok') \<Longrightarrow> sane s \<Longrightarrow> sane s'"
proof (induction rs arbitrary: s ok)
  case Nil
  then show ?case using ok_sane by (subst (asm) response_loop.simps) (auto split: prod.splits if_splits)
next
  case (Cons r rs)
  obtain b s1 where e: "sql_ok s = (b, s1)" by (cases "sql_ok s")
  have "response_loop rs s1 (ok \<or> r = [111, 107]) = (fin, s', ok') \<or> s' = s1"
    using Cons.prems(1) e by (subst (asm) response_loop.simps) (cases b; simp)
  then show ?case using Cons.IH ok_sane [OF e Cons.prems(2)] by blast
qed

lemma retrieve_settled:
  assumes "sane s" "db_retrieve_version True v0 d s = (st, s', v')"
  shows "sane s' \<and> (st = SUCCESS \<or> stopping st)"
proof -
  let ?ds = "row_digests d"
  note w = when_keeps_digests [OF statements_keep_digests(1)]
  have l0: "later s s" using assms by (simp add: later_def)
  have c0: "holds_digests ?ds (connect d)" by (simp add: holds_digests_def connect_def)
  have lo: "later s s2" if "sql_ok s1 = (b, s2)" "later s s1" for s1 b s2
    using that sql_answer_later(1) [of s1] later_sane later_trans by (auto simp: sql_ok_def split: prod.splits)
  obtain st1 s1 k1 where e1: "when_success sql_other SUCCESS s (connect d) = (st1, s1, k1)"
    by (cases "when_success sql_other SUCCESS s (connect d)")
  note r1 = w [OF e1 l0 c0]
  obtain st2 s2 k2 where e2: "when_success sql_other st1 s1 k1 = (st2, s2, k2)"
    by (cases "when_success sql_other st1 s1 k1")
  have r2: "later s s2" "holds_digests ?ds k2" "st2 = SUCCESS \<or> stopping st2" using w [OF e2] r1 by blast+
  obtain ex s3 where e3: "(if st2 = SUCCESS then let (stepped, s) = sql_ok s2 in (stepped \<and> metadata_table d \<noteq> None, s)
      else (False, s2)) = (ex, s3)"
    by (cases "if st2 = SUCCESS then let (stepped, s) = sql_ok s2 in (stepped \<and> metadata_table d \<noteq> None, s) else (False, s2)")
  have r3: "later s s3" using e3 r2 lo by (auto split: if_splits prod.splits)
  define w4 where "w4 = (if st2 = SUCCESS \<and> ex then
      let (st, s, k) = when_success sql_other st2 s3 k2
      in if st = SUCCESS then
           let (stepped, s) = sql_ok s
           in (st, s, case metadata_table d of
                        Some (v # _) \<Rightarrow> if stepped then sqlite3_column_int v else v0
                      | _ \<Rightarrow> v0)
         else (st, s, v0)
      else (st2, s3, v0))"
  obtain st4 s4 v4 where e4: "w4 = (st4, s4, v4)" by (cases w4)
  have r4: "later s s4" "st4 = SUCCESS \<or> stopping st4"
    using e4 r2 r3 w [OF _ r3 r2(2,3)] lo by (auto simp: w4_def split: if_splits prod.splits)
  obtain b5 s5 where e5: "sql_ok s4 = (b5, s5)" by (cases "sql_ok s4")
  have "db_retrieve_version True v0 d s = (let (st, s) = provide (if b5 then st4 else FAILURE) s5 in (st, s, v4))"
    by (simp only: db_retrieve_version_def Let_def e1 e2 e3 [unfolded Let_def] w4_def [unfolded Let_def, symmetric] e4 e5
        prod.case simp_thms if_False)
  moreover have "sane s5" using lo [OF e5 r4(1)] later_sane by blast
  moreover have "(if b5 then st4 else FAILURE) = SUCCESS \<or> stopping (if b5 then st4 else FAILURE)"
    using r4(2) by simp
  ultimately show ?thesis
    using assms(2) settled_provide [of "if b5 then st4 else FAILURE" s5] unfolding settled_def
    by (cases "provide (if b5 then st4 else FAILURE) s5") auto
qed

lemma check_version_checked:
  assumes "sane s"
  shows "checked d (db_check_version c mode p stats d s)"
proof -
  obtain st1 s1 v1 where e1: "db_retrieve_version True 0 d s = (st1, s1, v1)" by (cases "db_retrieve_version True 0 d s")
  have r1: "sane s1" "st1 = SUCCESS \<or> stopping st1" using retrieve_settled [OF assms e1] by blast+
  obtain st2 s2 d2 up where e2: "(if st1 = SUCCESS then
        if v1 < CURRENT_DB_VERSION then
          let (st, s, d, v) = db_upgrade c mode p v1 d s1 in (st, s, d, st = SUCCESS)
        else if v1 > CURRENT_DB_VERSION then (WARNING, s1, d, False)
        else (st1, s1, d, False)
      else (st1, s1, d, False)) = (st2, s2, d2, up)"
    by (cases "if st1 = SUCCESS then
        if v1 < CURRENT_DB_VERSION then
          let (st, s, d, v) = db_upgrade c mode p v1 d s1 in (st, s, d, st = SUCCESS)
        else if v1 > CURRENT_DB_VERSION then (WARNING, s1, d, False)
        else (st1, s1, d, False)
      else (st1, s1, d, False)")
  have r2: "sane s2 \<and> (st2 = SUCCESS \<or> stopping st2) \<and> row_digests d2 = row_digests d"
    using e2 r1 upgrade_checked [OF r1(1), of c mode p v1 d] by (auto split: if_splits prod.splits)
  obtain st3 s3 where e3: "(if st2 = SUCCESS \<and> up \<and> \<not> p then db_vacuum c True p (fst stats) (snd stats) s2 else (st2, s2)) = (st3, s3)"
    by (cases "if st2 = SUCCESS \<and> up \<and> \<not> p then db_vacuum c True p (fst stats) (snd stats) s2 else (st2, s2)")
  have r3: "sane s3" "st3 = SUCCESS \<or> stopping st3"
    using e3 r2 vacuum_settled [of s2 c True p "fst stats" "snd stats"] by (auto split: if_splits)
  have "db_check_version c mode p stats d s = (let (st, s) = provide st3 s3 in (st, s, d2))" if "\<not> halted s"
    using that by (simp only: db_check_version_def Let_def e1 e2 [unfolded Let_def] e3 prod.case if_False)
  then show ?thesis
    using provide_checked [OF r3, of d2 d] r2 dry_checked [OF assms, of d]
    by (cases "halted s") (auto simp: db_check_version_def)
qed

lemma integrity_checked:
  assumes "sane s"
  shows "checked d (db_integrity_check c copied exists responses mode p stats d s)"
proof -
  have early: "checked d (let (st, s) = provide w s in (st, s, d))" if "w = SUCCESS \<or> w = FAILURE" for w
    using that assms by (intro provide_checked) auto
  obtain b1 s1 where e1: "sql_ok s = (b1, s1)" by (cases "sql_ok s")
  note s1 = ok_sane [OF e1 assms]
  define st1 where "st1 = (if b1 then SUCCESS else FAILURE)"
  obtain b2 s2 where e2: "(if st1 = SUCCESS then sql_ok s1 else (True, s1)) = (b2, s2)"
    by (cases "if st1 = SUCCESS then sql_ok s1 else (True, s1)")
  have s2: "sane s2" using e2 s1 ok_sane by (auto split: if_splits)
  define st2 where "st2 = (if b2 then st1 else FAILURE)"
  obtain fin s3 ok where e3: "(if st2 = SUCCESS then response_loop responses s2 False else (True, s2, False)) = (fin, s3, ok)"
    by (cases "if st2 = SUCCESS then response_loop responses s2 False else (True, s2, False)")
  have s3: "sane s3" using e3 s2 response_loop_sane by (auto split: if_splits)
  define st3 where "st3 = (if st2 = SUCCESS \<and> \<not> fin then FAILURE else st2)"
  define st4 where "st4 = (if st3 = SUCCESS \<and> \<not> ok then FAILURE else st3)"
  obtain b4 s4 where e4: "sql_ok s3 = (b4, s4)" by (cases "sql_ok s3")
  note s4 = ok_sane [OF e4 s3]
  define st5 where "st5 = (if b4 then st4 else FAILURE)"
  have st5: "st5 = SUCCESS \<or> stopping st5" by (simp add: st5_def st4_def st3_def st2_def st1_def)
  obtain st6 s6 d6 where e6: "(if st5 = SUCCESS then db_check_version c mode p stats d s4 else (st5, s4, d)) = (st6, s6, d6)"
    by (cases "if st5 = SUCCESS then db_check_version c mode p stats d s4 else (st5, s4, d)")
  have r6: "sane s6" "st6 = SUCCESS \<or> stopping st6" "row_digests d6 = row_digests d"
    using e6 s4 st5 check_version_checked [OF s4, of d c mode p stats]
    by (auto simp: checked_def settled_def split: if_splits)
  have "db_integrity_check c copied exists responses mode p stats d s = (let (st, s) = provide st6 s6 in (st, s, d6))"
    if "copied" "\<not> (conf_dry_run c \<and> \<not> exists)"
    using that by (simp only: db_integrity_check_def Let_def e1 e2 e3 e4 e6 prod.case st1_def [symmetric] st2_def [symmetric]
        st3_def [symmetric] st4_def [symmetric] st5_def [symmetric] simp_thms if_False)
  then show ?thesis
    using provide_checked [OF r6] early
    by (cases "copied \<and> \<not> (conf_dry_run c \<and> \<not> exists)") (auto simp: db_integrity_check_def)
qed

end
