(* ===== verification/Compare.thy ===== *)
theory Compare
  imports Versions Mem_Array "HOL-Library.List_Lexorder"
begin

text \<open>
  The comparison of two databases (\<open>db_compare.c\<close>, with \<open>file_availability.c\<close>): both files are
  checked, attached to the connection of the run, compared by up to three queries whose visible rows
  are reported, and detached.  Everything that is handed to the logger is kept as a list of messages,
  in the order in which it is printed.
\<close>

section \<open>Files and attached databases\<close>

text \<open>What \<open>stat\<close> finds at a path, \<open>None\<close> when it fails.\<close>

datatype file_kind = Regular_file | Directory | Other_kind

datatype FileAvailability = EXISTS | NOT_FOUND

definition file_availability :: "bytes \<Rightarrow> file_kind option \<Rightarrow> bool \<Rightarrow> FileAvailability" where
  "file_availability path found should_be_a_file =
     (if path = [58, 109, 101, 109, 111, 114, 121, 58] then NOT_FOUND
      else
        case found of
          None \<Rightarrow> NOT_FOUND
        | Some kind \<Rightarrow>
            if should_be_a_file then if kind = Regular_file then EXISTS else NOT_FOUND
            else if kind = Directory then EXISTS else NOT_FOUND)"

text \<open>The schemas attached to the connection, by their number: \<open>db1\<close> and \<open>db2\<close>.\<close>

type_synonym schemas = "nat \<Rightarrow> dbfile option"

text \<open>
  A database selected by --compare: its path, what \<open>stat\<close> finds there, its content, and what the
  integrity check of its own connection sees (see \<open>db_integrity_check\<close>).
\<close>

record compared =
  cmp_path :: bytes
  cmp_found :: "file_kind option"
  cmp_file :: dbfile
  cmp_copied :: bool
  cmp_responses :: "bytes list"
  cmp_mode :: "bytes option"
  cmp_stats :: "bool \<times> bool"

section \<open>Messages\<close>

datatype category = First_source | Second_source | Checksum_mismatch

datatype message =
    Comparison_starts
  | Not_a_database bytes
  | Heading category
  | Difference category bytes
  | All_files_identical
  | No_first_source
  | No_second_source
  | All_checksums_identical
  | Absolutely_equal
  | Comparison_complete

text \<open>What \<open>%s\<close> prints of the bytes at a pointer.\<close>

definition printed :: "bytes \<Rightarrow> bytes" where
  "printed xs = takeWhile (\<lambda>b. b \<noteq> 0) xs"

section \<open>Attaching\<close>

text \<open>
  \<open>item\<close> is the path of \<open>conf(db_file_paths)\<close> at the index with the content of the file, \<open>None\<close> when
  there is no such item; \<open>db_B\<close> is the number of the schema.
\<close>

definition attach_sql :: "nat \<Rightarrow> bytes" where
  "attach_sql db_B = [65,84,84,65,67,72,32,68,65,84,65,66,65,83,69,32,63,49,32,65,83,32,100,98,
     48 + of_nat db_B, 59]"

definition db_attach ::
  "heap \<Rightarrow> compared option \<Rightarrow> nat \<Rightarrow> app \<Rightarrow> schemas \<Rightarrow> ret \<times> app \<times> schemas" where
  "db_attach heap item db_B s attached =
     (let st = (if item = None then FAILURE else SUCCESS);
          sql = mem_init 1 True;
          (st, sql) =
            (if st = SUCCESS
             then run_out s st (mem_formatted_string_char s heap sql (Renders (attach_sql db_B))) sql
             else (st, sql));
          (finished, s) = (if st = SUCCESS then sql_ok s else (True, s));
          attached = (if st = SUCCESS \<and> finished then attached(db_B := map_option cmp_file item) else attached);
          st = (if finished then st else FAILURE);
          (st, s) = call (\<lambda>s. (fst (mem_delete s sql), s)) st s;
          (st, s) = provide st s
      in (st, s, attached))"

definition db_detach :: "nat \<Rightarrow> app \<Rightarrow> schemas \<Rightarrow> ret \<times> app \<times> schemas" where
  "db_detach db_alias s attached =
     (let (finished, s) = sql_ok s;
          attached = (if finished \<and> attached db_alias \<noteq> None then attached(db_alias := None) else attached);
          (st, s) = provide (if finished then SUCCESS else FAILURE) s
      in (st, s, attached))"

section \<open>The queries\<close>

text \<open>
  The relative paths of \<open>as\<close> without a partner in \<open>bs\<close> (LEFT JOIN \<dots> WHERE b.relative_path IS NULL),
  and those of both tables whose digests differ (INNER JOIN \<dots> WHERE b.sha512 IS NOT a.sha512), ORDER
  BY relative_path, which compares bytes.
\<close>

definition left_join_missing :: "file_row list \<Rightarrow> file_row list \<Rightarrow> bytes list" where
  "left_join_missing as bs =
     sort [fr_relative_path a. a \<leftarrow> as, \<not> (\<exists>b \<in> set bs. fr_relative_path b = fr_relative_path a)]"

definition inner_join_mismatch :: "file_row list \<Rightarrow> file_row list \<Rightarrow> bytes list" where
  "inner_join_mismatch as bs =
     sort [fr_relative_path a. a \<leftarrow> as, b \<leftarrow> bs, fr_relative_path b = fr_relative_path a \<and> fr_sha512 b \<noteq> fr_sha512 a]"

text \<open>A query on the attached schemas; \<open>None\<close> when one of them is not attached.\<close>

definition compare_sql :: "category \<Rightarrow> schemas \<Rightarrow> bytes list option" where
  "compare_sql cat attached =
     (case (attached 1, attached 2) of
        (Some db1, Some db2) \<Rightarrow>
          Some (case cat of
                  First_source \<Rightarrow> left_join_missing (files_table db1) (files_table db2)
                | Second_source \<Rightarrow> left_join_missing (files_table db2) (files_table db1)
                | Checksum_mismatch \<Rightarrow> inner_join_mismatch (files_table db2) (files_table db1))
      | _ \<Rightarrow> None)"

section \<open>Reporting one category\<close>

text \<open>
  The loop over the rows.  The components after the state are the descriptor (\<open>relative_path\<close>),
  \<open>first_visible_path\<close>, \<open>*differences_found\<close> and the messages, newest first; the last one says how the
  last \<open>sqlite3_step\<close> ended.
\<close>

definition category_row ::
  "Config \<Rightarrow> regex_engine \<Rightarrow> heap \<Rightarrow> category \<Rightarrow> bytes \<Rightarrow> app \<Rightarrow> memory \<Rightarrow> bool \<Rightarrow> bool \<Rightarrow> message list
     \<Rightarrow> ret \<times> memory \<times> bool \<times> bool \<times> message list" where
  "category_row c rx heap cat db_relative_path s path first_visible_path differences_found out =
     (let (st, path) =
            run_out s SUCCESS
              (mem_copy_fixed_string s heap path (of_nat (length db_relative_path + 1))
                 (External (db_relative_path @ [0]))) path
      in if st \<noteq> SUCCESS then (st, path, first_visible_path, differences_found, out)
         else
           let (st, included, ignore) =
                 match_include_ignore rx s (conf_include_pcre_compiled c) (conf_ignore_pcre_compiled c) path
           in if st \<noteq> SUCCESS \<or> ignore then (st, path, first_visible_path, differences_found, out)
              else
                let out = (if first_visible_path then Heading cat # out else out)
                in (st, path, False, True,
                    Difference cat (printed (mem_string path)) # out))"

fun category_loop ::
  "Config \<Rightarrow> regex_engine \<Rightarrow> heap \<Rightarrow> category \<Rightarrow> bytes list \<Rightarrow> app \<Rightarrow> memory \<Rightarrow> bool \<Rightarrow> bool \<Rightarrow> message list
     \<Rightarrow> ret \<times> app \<times> bool \<times> message list \<times> step_result" where
  "category_loop c rx heap cat rows s path first_visible_path differences_found out =
     (let (stepped, s) = sql_ok s
      in if \<not> stepped then (SUCCESS, s, differences_found, out, Step_Error)
         else
           case rows of
             [] \<Rightarrow> (SUCCESS, s, differences_found, out, Step_Done)
           | db_relative_path # rest \<Rightarrow>
               if global_interrupt_flag s then (SUCCESS, s, differences_found, out, Step_Row)
               else
                 let (st, path, first_visible_path, differences_found, out) =
                       category_row c rx heap cat db_relative_path s path first_visible_path
                         differences_found out
                 in if st \<noteq> SUCCESS then (st, s, differences_found, out, Step_Row)
                    else category_loop c rx heap cat rest s path first_visible_path
                           differences_found out)"

declare category_loop.simps [simp del]

definition db_report_category ::
  "Config \<Rightarrow> regex_engine \<Rightarrow> heap \<Rightarrow> category \<Rightarrow> schemas \<Rightarrow> app \<Rightarrow> bool \<Rightarrow> message list
     \<Rightarrow> ret \<times> app \<times> bool \<times> message list" where
  "db_report_category c rx heap cat attached s differences_found out =
     (let (prepared, s) = sql_ok s;
          (st, s, differences_found, out) =
            (case (if prepared then compare_sql cat attached else None) of
               None \<Rightarrow> (FAILURE, s, differences_found, out)
             | Some rows \<Rightarrow>
                 let (st, s, differences_found, out, step) =
                       category_loop c rx heap cat rows s (mem_init 1 True) True differences_found out;
                     st = (if st = SUCCESS \<and> \<not> global_interrupt_flag s \<and> step \<noteq> Step_Done then FAILURE else st);
                     st = (if step = Step_Error then FAILURE else st)
                 in (st, s, differences_found, out));
          (st, s) = provide st s
      in (st, s, differences_found, out))"

section \<open>The comparison\<close>

definition CF_NONE_SPECIFIED :: u32 where "CF_NONE_SPECIFIED = 0x00"
definition CF_CHECKSUM_MISMATCH :: u32 where "CF_CHECKSUM_MISMATCH = 0x01"
definition CF_FIRST_SOURCE :: u32 where "CF_FIRST_SOURCE = 0x02"
definition CF_SECOND_SOURCE :: u32 where "CF_SECOND_SOURCE = 0x04"

text \<open>The checks of the selected files, in order; the files may be upgraded by them.\<close>

fun validate_loop ::
  "Config \<Rightarrow> bool \<Rightarrow> compared list \<Rightarrow> app \<Rightarrow> message list \<Rightarrow> ret \<times> app \<times> compared list \<times> message list" where
  "validate_loop c db_primary_file_exists [] s out = (SUCCESS, s, [], out)"
| "validate_loop c db_primary_file_exists (db # rest) s out =
     (if file_availability (cmp_path db) (cmp_found db) True = NOT_FOUND
      then (FAILURE, s, db # rest, Not_a_database (cmp_path db) # out)
      else
        let (st, s, d) = db_integrity_check c (cmp_copied db) db_primary_file_exists (cmp_responses db)
                           (cmp_mode db) False (cmp_stats db) (cmp_file db) s;
            db = db\<lparr>cmp_file := d\<rparr>
        in if st \<noteq> SUCCESS then (st, s, db # rest, out)
           else
             let (st, s, rest, out) = validate_loop c db_primary_file_exists rest s out
             in (st, s, db # rest, out))"

definition item_of :: "'a list \<Rightarrow> nat \<Rightarrow> 'a option" where
  "item_of xs i = (if i < length xs then Some (xs ! i) else None)"

text \<open>\<open>if(wanted == true) { run(db_report_category(\<dots>)); }\<close>\<close>

definition run_category ::
  "Config \<Rightarrow> regex_engine \<Rightarrow> heap \<Rightarrow> category \<Rightarrow> schemas \<Rightarrow> bool \<Rightarrow> ret \<Rightarrow> app \<Rightarrow> message list
     \<Rightarrow> ret \<times> app \<times> bool \<times> message list" where
  "run_category c rx heap cat attached wanted st s out =
     (if \<not> wanted then (st, s, False, out)
      else if has SKIP st \<or> has AWAITING st then
        let (st, s) = run (\<lambda>s. (SUCCESS, s)) st s in (st, s, False, out)
      else
        let (returned, s_reported, differences_found, out) = db_report_category c rx heap cat attached s False out;
            (st, s) = run (\<lambda>_. (returned, s_reported)) st s
        in (st, s, differences_found, out))"

text \<open>The closing messages, newest first.\<close>

definition compare_summary ::
  "bool \<Rightarrow> bool \<Rightarrow> bool \<Rightarrow> bool \<Rightarrow> bool \<Rightarrow> bool \<Rightarrow> message list \<Rightarrow> message list" where
  "compare_summary check_first check_second verify first_found second_found mismatches_found out =
     (let full_compare_scope = check_first \<and> check_second \<and> verify;
          identical = full_compare_scope \<and> \<not> first_found \<and> \<not> second_found \<and> \<not> mismatches_found;
          out = (if identical then All_files_identical # out
                 else if \<not> full_compare_scope then
                   let out = (if check_first \<and> \<not> first_found then No_first_source # out else out)
                   in if check_second \<and> \<not> second_found then No_second_source # out else out
                 else out);
          out = (if verify \<and> \<not> mismatches_found then All_checksums_identical # out else out)
      in if identical then Absolutely_equal # out else out)"

text \<open>The result carries the compared files and the messages in the order of their output.\<close>

definition db_compare ::
  "Config \<Rightarrow> u32 \<Rightarrow> bool \<Rightarrow> regex_engine \<Rightarrow> heap \<Rightarrow> compared list \<Rightarrow> app
     \<Rightarrow> ret \<times> app \<times> compared list \<times> message list" where
  "db_compare c compare_filter db_primary_file_exists rx heap dbs s =
     (if global_interrupt_flag s then let (st, s) = provide SUCCESS s in (st, s, dbs, [])
      else if \<not> conf_compare c then let (st, s) = provide SUCCESS s in (st, s, dbs, [])
      else
        let (st, s, dbs, out) = validate_loop c db_primary_file_exists dbs s [Comparison_starts];
            (st, s, attached) =
              (if st = SUCCESS then db_attach heap (item_of dbs 0) 1 s (\<lambda>_. None) else (st, s, \<lambda>_. None));
            attached_db1 = (st = SUCCESS);
            (st, s, attached) =
              (if st = SUCCESS then db_attach heap (item_of dbs 1) 2 s attached else (st, s, attached));
            attached_db2 = (st = SUCCESS);
            filter_specified = (compare_filter \<noteq> CF_NONE_SPECIFIED);
            check_first_source = (compare_filter AND CF_FIRST_SOURCE \<noteq> 0 \<or> \<not> filter_specified);
            check_second_source = (compare_filter AND CF_SECOND_SOURCE \<noteq> 0 \<or> \<not> filter_specified);
            verify_checksum_consistency = (compare_filter AND CF_CHECKSUM_MISMATCH \<noteq> 0 \<or> \<not> filter_specified);
            (st, s, first_found, out) = run_category c rx heap First_source attached check_first_source st s out;
            (st, s, second_found, out) = run_category c rx heap Second_source attached check_second_source st s out;
            (st, s, mismatches_found, out) =
              run_category c rx heap Checksum_mismatch attached verify_checksum_consistency st s out;
            (st, s, attached) =
              (if attached_db1 then
                 let (returned, s_detached, attached) = db_detach 1 s attached;
                     (st, s) = call (\<lambda>_. (returned, s_detached)) st s
                 in (st, s, attached)
               else (st, s, attached));
            (st, s, attached) =
              (if attached_db2 then
                 let (returned, s_detached, attached) = db_detach 2 s attached;
                     (st, s) = call (\<lambda>_. (returned, s_detached)) st s
                 in (st, s, attached)
               else (st, s, attached));
            out = (if st = SUCCESS
                   then compare_summary check_first_source check_second_source verify_checksum_consistency
                          first_found second_found mismatches_found out
                   else out);
            out = Comparison_complete # out;
            (st, s) = provide st s
        in (st, s, dbs, rev out))"

end
