(* ===== verification/Compare_Correct.thy ===== *)
theory Compare_Correct
  imports Compare Upgrade_Rows
begin

text \<open>
  What a comparison says: whatever happens during a run, two databases are only called absolutely
  equal when their visible contents agree; and an undisturbed run lists exactly the visible
  differences.
\<close>

section \<open>Visible rows\<close>

text \<open>A path the filters hide: an ignore expression matches and no include expression does.\<close>

definition hidden :: "Config \<Rightarrow> regex_engine \<Rightarrow> bytes \<Rightarrow> bool" where
  "hidden c rx p \<longleftrightarrow> \<not> locked_by rx (conf_include_pcre_compiled c) p \<and> locked_by rx (conf_ignore_pcre_compiled c) p"

definition visible_content :: "Config \<Rightarrow> regex_engine \<Rightarrow> dbfile \<Rightarrow> (bytes \<times> bytes option) set" where
  "visible_content c rx d = {(p, digest) \<in> set (row_digests d). \<not> hidden c rx p}"

text \<open>A path a row can hold: it is not empty and its length fits the machine.\<close>

definition path_fits :: "bytes \<Rightarrow> bool" where
  "path_fits p \<longleftrightarrow> p \<noteq> [] \<and> length p + 4096 < 2 ^ 64"

lemma filters_sound:
  assumes "path_ok p m" "sane s"
    and "match_include_ignore rx s (conf_include_pcre_compiled c) (conf_ignore_pcre_compiled c) m = (SUCCESS, inc, ign)"
  shows "ign = hidden c rx p"
proof -
  let ?i = "match_include_pattern rx s (conf_include_pcre_compiled c) m"
  let ?g = "match_ignore_pattern rx s (conf_ignore_pcre_compiled c) m"
  have i: "?i \<noteq> FAIL_REGEXP_INCLUDE \<Longrightarrow> (?i = INCLUDE \<longleftrightarrow> locked_by rx (conf_include_pcre_compiled c) p)"
    using pattern_loop_sound [OF assms(1,2), of INCLUDE DO_NOT_INCLUDE FAIL_REGEXP_INCLUDE rx]
    by (auto simp: match_include_pattern_def locked_by_def codes_of_def split: option.splits)
  have g: "?g \<noteq> FAIL_REGEXP_IGNORE \<Longrightarrow> (?g = IGNORE \<longleftrightarrow> locked_by rx (conf_ignore_pcre_compiled c) p)"
    using pattern_loop_sound [OF assms(1,2), of IGNORE DO_NOT_IGNORE FAIL_REGEXP_IGNORE rx]
    by (auto simp: match_ignore_pattern_def locked_by_def codes_of_def split: option.splits)
  show ?thesis
    using assms(2,3) i g
    by (cases ?i; cases ?g) (auto simp: match_include_ignore_def hidden_def)
qed

section \<open>One category, whatever happens\<close>

lemma category_row_sound:
  assumes "category_row c rx heap cat p s m first seen out = (st, m', first', seen', out')"
    and "sane s" "\<not> halted s" "desc_ok m"
  shows "desc_ok m'" "st = SUCCESS \<or> stopping st" "seen \<longrightarrow> seen'"
    "st = SUCCESS \<Longrightarrow> path_fits p \<Longrightarrow> \<not> seen' \<Longrightarrow> hidden c rx p"
    "Absolutely_equal \<in> set out' \<Longrightarrow> Absolutely_equal \<in> set out"
proof -
  obtain g m1 where cp: "run_out s SUCCESS (mem_copy_fixed_string s heap m (of_nat (length p + 1)) (External (p @ [0]))) m
      = (outcome g False, m1)" "desc_ok m1" "g \<Longrightarrow> p \<noteq> [] \<Longrightarrow> length p + 1 < 2 ^ 64 \<Longrightarrow> path_ok p m1"
    using copied_path [OF assms(2-4)] by metis
  obtain g2 inc ign where f: "match_include_ignore rx s (conf_include_pcre_compiled c) (conf_ignore_pcre_compiled c) m1
      = (outcome g2 (halted s), inc, ign)"
    using filters_status [OF assms(2)] by blast
  have "desc_ok m' \<and> (st = SUCCESS \<or> stopping st) \<and> (seen \<longrightarrow> seen')
    \<and> (st = SUCCESS \<and> path_fits p \<and> \<not> seen' \<longrightarrow> hidden c rx p)
    \<and> (Absolutely_equal \<in> set out' \<longrightarrow> Absolutely_equal \<in> set out)"
  proof (cases "g \<and> g2 \<and> ign")
    case True
    then have "st = SUCCESS" "m' = m1" "seen' = seen" "out' = out"
      using assms(1) cp(1) f assms(3) by (auto simp: category_row_def)
    moreover have "path_fits p \<Longrightarrow> hidden c rx p"
      using filters_sound [of p m1 s rx c inc ign] True cp(3) f assms(2,3)
      by (auto simp: path_fits_def outcome_literals)
    ultimately show ?thesis using cp(2) by simp
  next
    case False
    then show ?thesis
      using assms(1,3) cp(1,2) f by (auto simp: category_row_def Let_def split: if_splits)
  qed
  then show "desc_ok m'" "st = SUCCESS \<or> stopping st" "seen \<longrightarrow> seen'"
    "st = SUCCESS \<Longrightarrow> path_fits p \<Longrightarrow> \<not> seen' \<Longrightarrow> hidden c rx p"
    "Absolutely_equal \<in> set out' \<Longrightarrow> Absolutely_equal \<in> set out" by blast+
qed

lemma ok_later: "sql_ok s = (b, s') \<Longrightarrow> later s0 s \<Longrightarrow> later s0 s'"
  using sql_answer_later(1) [of s] later_sane later_trans by (auto simp: sql_ok_def split: prod.splits)

lemma category_loop_sound:
  assumes "category_loop c rx heap cat rows s m first seen out = (st, s', seen', out', step)"
    and "later s0 s" "desc_ok m"
  shows "later s0 s' \<and> (st = SUCCESS \<or> stopping st) \<and> (seen \<longrightarrow> seen')
    \<and> (st = SUCCESS \<and> step = Step_Done \<and> \<not> seen' \<longrightarrow> (\<forall>p \<in> set rows. path_fits p \<longrightarrow> hidden c rx p))
    \<and> (Absolutely_equal \<in> set out' \<longrightarrow> Absolutely_equal \<in> set out)"
  using assms
proof (induction rows arbitrary: s m first seen out)
  case Nil
  obtain b s1 where e: "sql_ok s = (b, s1)" by (cases "sql_ok s")
  show ?case using Nil(1) e ok_later [OF e Nil(2)]
    by (subst (asm) category_loop.simps) (cases b; simp)
next
  case (Cons p rows)
  obtain b s1 where e: "sql_ok s = (b, s1)" by (cases "sql_ok s")
  note l1 = ok_later [OF e Cons.prems(2)]
  show ?case
  proof (cases "b \<and> \<not> halted s1")
    case False
    then show ?thesis using Cons.prems(1) e l1
      by (subst (asm) category_loop.simps) (cases b; simp)
  next
    case True
    obtain st2 m2 first2 seen2 out2 where r: "category_row c rx heap cat p s1 m first seen out = (st2, m2, first2, seen2, out2)"
      by (cases "category_row c rx heap cat p s1 m first seen out")
    note r' = category_row_sound [OF r later_sane [OF l1] _ Cons.prems(3)]
    show ?thesis
    proof (cases "st2 = SUCCESS")
      case False
      then have "st = st2" "s' = s1" "seen' = seen2" "out' = out2" "step = Step_Row"
        using Cons.prems(1) e True r by (subst (asm) category_loop.simps; simp)+
      then show ?thesis using r' l1 True False by blast
    next
      case ok: True
      then have run: "category_loop c rx heap cat rows s1 m2 first2 seen2 out2 = (st, s', seen', out', step)"
        using Cons.prems(1) e True r by (subst (asm) category_loop.simps) simp
      have h: "\<not> halted s1" using True by simp
      note IH = Cons.IH [OF run l1 r'(1) [OF h]]
      have "hidden c rx p" if "path_fits p" "\<not> seen'"
        using r'(4) [OF h ok that(1)] IH that(2) by blast
      then show ?thesis using IH r'(3,5) [OF h] by auto
    qed
  qed
qed

lemma report_sound:
  assumes "db_report_category c rx heap cat attached s seen out = (st, s', seen', out')" "later s0 s"
  shows "later s0 s'" "settled st s'" "seen \<longrightarrow> seen'"
    "st = SUCCESS \<Longrightarrow> \<not> seen' \<Longrightarrow> \<exists>rows. compare_sql cat attached = Some rows \<and> (\<forall>p \<in> set rows. path_fits p \<longrightarrow> hidden c rx p)"
    "Absolutely_equal \<in> set out' \<Longrightarrow> Absolutely_equal \<in> set out"
proof -
  obtain b s1 where e: "sql_ok s = (b, s1)" by (cases "sql_ok s")
  note l1 = ok_later [OF e assms(2)]
  have d0: "desc_ok (mem_init 1 True)" by (simp add: desc_ok_def) (simp add: mem_init_def)
  have "later s0 s' \<and> settled st s' \<and> (seen \<longrightarrow> seen')
    \<and> (st = SUCCESS \<and> \<not> seen' \<longrightarrow> (\<exists>rows. compare_sql cat attached = Some rows \<and> (\<forall>p \<in> set rows. path_fits p \<longrightarrow> hidden c rx p)))
    \<and> (Absolutely_equal \<in> set out' \<longrightarrow> Absolutely_equal \<in> set out)"
  proof (cases "if b then compare_sql cat attached else None")
    case None
    then have "(st, s') = provide FAILURE s1" "seen' = seen" "out' = out"
      using assms(1) e by (auto simp: db_report_category_def split: prod.splits if_splits)
    then show ?thesis
      using settled_provide [of FAILURE s1] provided_later [of FAILURE s1 st s' s0] l1 later_sane [OF l1]
      by (auto simp: settled_def prod_eq_iff)
  next
    case (Some rows)
    obtain st2 s2 seen2 out2 step where l: "category_loop c rx heap cat rows s1 (mem_init 1 True) True seen out
        = (st2, s2, seen2, out2, step)" by (cases "category_loop c rx heap cat rows s1 (mem_init 1 True) True seen out")
    note r = category_loop_sound [OF l l1 d0]
    define st3 where "st3 = (if st2 = SUCCESS \<and> \<not> halted s2 \<and> step \<noteq> Step_Done then FAILURE else st2)"
    define st4 where "st4 = (if step = Step_Error then FAILURE else st3)"
    have st4: "st4 = SUCCESS \<or> stopping st4" "st4 = SUCCESS \<Longrightarrow> st2 = SUCCESS \<and> (halted s2 \<or> step = Step_Done)"
      using r by (auto simp: st4_def st3_def split: if_splits)
    have ev: "(st, s') = provide st4 s2" "seen' = seen2" "out' = out2"
      using assms(1) e Some l by (auto simp: db_report_category_def st4_def st3_def split: prod.splits if_splits)
    have p: "settled st s'" "halted s' = halted s2" "st = SUCCESS \<Longrightarrow> st4 = SUCCESS"
      using settled_provide [OF st4(1), of s2] stopping_provide [of st4 s2] st4(1) r ev(1) later_sane
      by (auto simp: prod_eq_iff)
    have "st = SUCCESS \<Longrightarrow> step = Step_Done \<and> st2 = SUCCESS"
      using p st4(2) by (auto simp: settled_def)
    then show ?thesis
      using r ev p(1) provided_later [OF ev(1) [symmetric] st4(1)] Some by (auto split: if_splits)
  qed
  then show "later s0 s'" "settled st s'" "seen \<longrightarrow> seen'"
    "st = SUCCESS \<Longrightarrow> \<not> seen' \<Longrightarrow> \<exists>rows. compare_sql cat attached = Some rows \<and> (\<forall>p \<in> set rows. path_fits p \<longrightarrow> hidden c rx p)"
    "Absolutely_equal \<in> set out' \<Longrightarrow> Absolutely_equal \<in> set out" by blast+
qed

section \<open>The macros on settled statuses\<close>

lemma stopping_skip: "stopping w \<longleftrightarrow> has SKIP w"
  by (simp add: stopping_def)

lemma stopped_run: "stopping st \<Longrightarrow> stopping (fst (run f st s)) \<and> snd (run f st s) = s"
  by (auto simp: stopping_skip run_def Let_def)

lemma normalized_settled:
  assumes "settled w s" "sane s"
  shows "settled (fst (rational_normalize_return (SUCCESS OR w) s)) s"
    "snd (rational_normalize_return (SUCCESS OR w) s) = s"
proof -
  show "snd (rational_normalize_return (SUCCESS OR w) s) = s"
    using assms(2) by (simp add: rational_normalize_return_def sane_def Let_def)
  show "settled (fst (rational_normalize_return (SUCCESS OR w) s)) s"
  proof (cases "stopping w")
    case True
    then have "stopping (fst (rational_normalize_return (SUCCESS OR w) s))"
      using assms(2) by (auto simp: stopping_def rational_normalize_return_def sane_def Let_def bit_or_iff)
    then show ?thesis by (simp add: settled_def)
  next
    case False
    then have w: "w = SUCCESS" "\<not> halted s" using assms(1) by (auto simp: settled_def)
    show ?thesis
      using normalize_outcome [OF assms(2), of "SUCCESS OR SUCCESS" True False] w
      by (simp add: settled_def outcome_literals)
  qed
qed

lemma run_settled:
  assumes "f s = (w, s')" "settled w s'" "sane s'" "st = SUCCESS"
  shows "snd (run f st s) = s'" "settled (fst (run f st s)) s'"
    "fst (run f st s) = SUCCESS \<Longrightarrow> w = SUCCESS"
proof -
  have a: "\<not> has AWAITING w" if "w = SUCCESS" using that by simp
  note n = normalized_settled [OF assms(2,3)]
  have e: "run f st s = (if has AWAITING w then (FAILURE, s') else rational_normalize_return (SUCCESS OR w) s')"
    using assms(1,4) by (simp add: run_def)
  show "snd (run f st s) = s'" using e n(2) by simp
  show "settled (fst (run f st s)) s'" using e n(1) by (simp add: settled_def)
  assume "fst (run f st s) = SUCCESS"
  then have "\<not> has AWAITING w" "fst (rational_normalize_return (SUCCESS OR w) s') = SUCCESS"
    using e by (auto split: if_splits)
  then have "\<not> stopping w"
    using assms(3) by (auto simp: stopping_def rational_normalize_return_def sane_def Let_def bit_or_iff
        dest: arg_cong [where f = "\<lambda>w. bit w 0"] arg_cong [where f = "\<lambda>w. bit w 4"] arg_cong [where f = "\<lambda>w. bit w 5"])
  then show "w = SUCCESS" using assms(2) by (simp add: settled_def)
qed

section \<open>The parts of the comparison\<close>

text \<open>A step after which the run goes on only when nothing has gone wrong so far.\<close>

definition goes_on :: "ret \<Rightarrow> app \<Rightarrow> ret \<Rightarrow> app \<Rightarrow> bool" where
  "goes_on st s st' s' \<longleftrightarrow> later s s' \<and> settled st' s' \<and> (st' = SUCCESS \<longrightarrow> st = SUCCESS)"

lemma goes_on_trans: "goes_on st s st1 s1 \<Longrightarrow> goes_on st1 s1 st2 s2 \<Longrightarrow> goes_on st s st2 s2"
  by (auto simp: goes_on_def later_def)

text \<open>What a category without differences has found out.\<close>

definition cleared :: "Config \<Rightarrow> regex_engine \<Rightarrow> category \<Rightarrow> schemas \<Rightarrow> bool" where
  "cleared c rx cat attached \<longleftrightarrow>
     (\<exists>rows. compare_sql cat attached = Some rows \<and> (\<forall>p \<in> set rows. path_fits p \<longrightarrow> hidden c rx p))"

lemma run_category_sound:
  assumes "run_category c rx heap cat attached wanted st s out = (st', s', seen, out')" "sane s" "settled st s"
  shows "goes_on st s st' s'" "st' = SUCCESS \<Longrightarrow> wanted \<Longrightarrow> \<not> seen \<Longrightarrow> cleared c rx cat attached"
    "Absolutely_equal \<in> set out' \<Longrightarrow> Absolutely_equal \<in> set out"
proof -
  have l0: "later s s" using assms(2) by (simp add: later_def)
  have "goes_on st s st' s' \<and> (st' = SUCCESS \<and> wanted \<and> \<not> seen \<longrightarrow> cleared c rx cat attached)
    \<and> (Absolutely_equal \<in> set out' \<longrightarrow> Absolutely_equal \<in> set out)"
  proof (cases "wanted \<and> \<not> stopping st")
    case False
    then have "st' = st \<and> s' = s \<or> stopping st \<and> stopping st' \<and> s' = s" "out' = out" "\<not> wanted \<or> stopping st"
      using assms(1) stopped_run [of st "\<lambda>s. (SUCCESS, s)" s]
      by (auto simp: run_category_def stopping_skip split: prod.splits if_splits)
    then show ?thesis using l0 assms(3) by (auto simp: goes_on_def settled_def)
  next
    case True
    then have st: "st = SUCCESS" using assms(3) by (simp add: settled_def)
    obtain w s1 seen1 out1 where r: "db_report_category c rx heap cat attached s False out = (w, s1, seen1, out1)"
      by (cases "db_report_category c rx heap cat attached s False out")
    note sound = report_sound [OF r l0]
    have ev: "st' = fst (run (\<lambda>_. (w, s1)) st s)" "s' = snd (run (\<lambda>_. (w, s1)) st s)" "seen = seen1" "out' = out1"
      using assms(1) True st r by (auto simp: run_category_def split: prod.splits)
    note rs = run_settled [of "\<lambda>_. (w, s1)", OF refl sound(2) later_sane [OF sound(1)] st, of s]
    show ?thesis
      using sound rs ev st by (auto simp: goes_on_def cleared_def)
  qed
  then show "goes_on st s st' s'" "st' = SUCCESS \<Longrightarrow> wanted \<Longrightarrow> \<not> seen \<Longrightarrow> cleared c rx cat attached"
    "Absolutely_equal \<in> set out' \<Longrightarrow> Absolutely_equal \<in> set out" by blast+
qed

lemma attach_sound:
  assumes "db_attach heap item b s attached = (st, s', attached')" "sane s" "\<not> halted s"
  shows "later s s'" "settled st s'"
    "st = SUCCESS \<Longrightarrow> item \<noteq> None \<and> attached' = attached(b := map_option cmp_file item)"
proof -
  have q: "quiet s" using sane_quiet [OF assms(2,3)] .
  have m0: "string_ok (mem_init 1 True)" "single_element_size (mem_init 1 True) = 1"
    by (simp_all add: string_ok_def) (simp_all add: mem_init_def)
  obtain st1 sql1 where f: "mem_formatted_string_char s heap (mem_init 1 True) (Renders (attach_sql b)) = (st1, sql1)"
    "string_ok sql1" "single_element_size sql1 = 1" "st1 = SUCCESS \<or> st1 = FAILURE"
    using formatted_ok [OF q m0, of "attach_sql b" heap] by (auto simp: attach_sql_def)
  define built where "built = (if item = None then (FAILURE, mem_init 1 True) else (st1, sql1))"
  have b: "(if (if item = None then FAILURE else SUCCESS) = SUCCESS
      then run_out s (if item = None then FAILURE else SUCCESS)
        (mem_formatted_string_char s heap (mem_init 1 True) (Renders (attach_sql b))) (mem_init 1 True)
      else (if item = None then FAILURE else SUCCESS, mem_init 1 True)) = built"
    using f q by (auto simp: built_def)
  obtain st2 sql where built: "built = (st2, sql)" "desc_ok sql" "st2 = SUCCESS \<or> st2 = FAILURE" "st2 = SUCCESS \<Longrightarrow> item \<noteq> None"
    using that [of "fst built" "snd built"] f m0
    by (cases "item = None") (auto simp: built_def desc_ok_def string_ok_def)
  obtain ok s1 where e: "(if st2 = SUCCESS then sql_ok s else (True, s)) = (ok, s1)"
    by (cases "if st2 = SUCCESS then sql_ok s else (True, s)")
  have l1: "later s s1" using e ok_later [of s ok s1 s] assms(2) by (auto simp: later_def split: if_splits)
  define st3 where "st3 = (if ok then st2 else FAILURE)"
  define g where "g \<longleftrightarrow> ok \<and> st2 = SUCCESS"
  have g: "st3 = outcome g False" "g \<Longrightarrow> ok \<and> item \<noteq> None"
    using built(3,4) by (cases ok; auto simp: st3_def g_def outcome_literals)+
  define d :: "app action" where "d = (\<lambda>s. (fst (mem_delete s sql), s))"
  have ds: "d s1 = (outcome True (halted s1), s1)" using delete_answer [OF later_sane [OF l1] built(2)] by (simp add: d_def)
  have c: "call d st3 s1 = (outcome g (halted s1), s1)"
    using call_outcome [where f = d and s = s1 and g = g and h = False, OF ds later_sane [OF l1]] g(1) by simp
  have "db_attach heap item b s attached = (let (st, s) = provide (outcome g (halted s1)) s1
      in (st, s, if st2 = SUCCESS \<and> ok then attached(b := map_option cmp_file item) else attached))"
    by (simp only: db_attach_def Let_def b built(1) prod.case e st3_def [symmetric] d_def [symmetric] c)
  then have "st = outcome g (halted s1)" "s' = s1" "g \<Longrightarrow> attached' = attached(b := map_option cmp_file item)"
    using assms(1) later_sane [OF l1] g built(3) by (auto simp: st3_def split: if_splits)
  then show "later s s'" "settled st s'" "st = SUCCESS \<Longrightarrow> item \<noteq> None \<and> attached' = attached(b := map_option cmp_file item)"
    using l1 g(2) by (auto simp: settled_def)
qed

lemma detach_sound:
  assumes "db_detach b s attached = (w, s', attached')" "sane s"
  shows "\<exists>g. answers s g (w, s')"
proof -
  obtain ok s1 where e: "sql_ok s = (ok, s1)" by (cases "sql_ok s")
  have l1: "later s s1" using ok_later [OF e, of s] assms(2) by (simp add: later_def)
  show ?thesis using assms(1) e l1 by (cases ok) (auto simp: db_detach_def later_def answers_def)
qed

lemma validate_sound:
  assumes "validate_loop c exists dbs s out = (st, s', dbs', out')" "sane s" "\<not> halted s"
  shows "sane s' \<and> settled st s' \<and> map (row_digests \<circ> cmp_file) dbs' = map (row_digests \<circ> cmp_file) dbs
    \<and> (Absolutely_equal \<in> set out' \<longrightarrow> Absolutely_equal \<in> set out)"
  using assms
proof (induction dbs arbitrary: s out st s' dbs' out')
  case Nil
  then show ?case by (auto simp: settled_def)
next
  case (Cons db dbs)
  show ?case
  proof (cases "file_availability (cmp_path db) (cmp_found db) True = NOT_FOUND")
    case True
    then show ?thesis using Cons.prems by (auto simp: settled_def)
  next
    case False
    define check where "check = db_integrity_check c (cmp_copied db) exists (cmp_responses db) (cmp_mode db) False
        (cmp_stats db) (cmp_file db) s"
    obtain w s1 d where i: "check = (w, s1, d)" by (cases check)
    have ck: "sane s1" "settled w s1" "row_digests d = row_digests (cmp_file db)"
      using integrity_checked [OF Cons.prems(2), of "cmp_file db" c "cmp_copied db" exists
          "cmp_responses db" "cmp_mode db" False "cmp_stats db"] i by (auto simp: checked_def check_def)
    show ?thesis
    proof (cases "w = SUCCESS")
      case False
      then show ?thesis
        using Cons.prems(1) \<open>file_availability _ _ _ \<noteq> _\<close> i ck by (auto simp: check_def [symmetric])
    next
      case True
      then have h: "\<not> halted s1" using ck(2) by (simp add: settled_def)
      obtain st2 s2 dbs2 out2 where l: "validate_loop c exists dbs s1 out = (st2, s2, dbs2, out2)"
        by (cases "validate_loop c exists dbs s1 out")
      have "st = st2" "s' = s2" "dbs' = db\<lparr>cmp_file := d\<rparr> # dbs2" "out' = out2"
        using Cons.prems(1) \<open>file_availability _ _ _ \<noteq> _\<close> i True l by (auto simp: check_def [symmetric])
      then show ?thesis using Cons.IH [OF l ck(1) h] ck(3) by simp
    qed
  qed
qed

section \<open>Nothing visible differs\<close>

text \<open>The rows of both files have paths a row can hold.\<close>

definition fitting :: "dbfile \<Rightarrow> bool" where
  "fitting d \<longleftrightarrow> (\<forall>(p, digest) \<in> set (row_digests d). path_fits p)"

lemma digest_rows: "(p, h) \<in> set (row_digests d) \<longleftrightarrow> (\<exists>r \<in> set (files_table d). fr_relative_path r = p \<and> fr_sha512 r = h)"
  by (auto simp: row_digests_def)

lemma mismatch_rows:
  "p \<in> set (inner_join_mismatch as bs) \<longleftrightarrow>
     (\<exists>a \<in> set as. \<exists>b \<in> set bs. p = fr_relative_path a \<and> fr_relative_path b = fr_relative_path a
        \<and> fr_sha512 b \<noteq> fr_sha512 a)"
proof -
  have "set (inner_join_mismatch as bs) = (\<Union>a \<in> set as. \<Union>b \<in> set bs.
      if fr_relative_path b = fr_relative_path a \<and> fr_sha512 b \<noteq> fr_sha512 a then {fr_relative_path a} else {})"
    by (auto simp: inner_join_mismatch_def split: if_splits)
  then show ?thesis by (auto split: if_splits)
qed

lemma all_cleared:
  assumes "attached 1 = Some d1" "attached 2 = Some d2" "fitting d1" "fitting d2"
    and "cleared c rx First_source attached" "cleared c rx Second_source attached" "cleared c rx Checksum_mismatch attached"
  shows "visible_content c rx d1 = visible_content c rx d2"
proof -
  have fit: "path_fits (fr_relative_path r)" if "r \<in> set (files_table d1) \<union> set (files_table d2)" for r
    using that assms(3,4) digest_rows by (force simp: fitting_def)
  have first: "\<exists>q \<in> set (files_table d2). fr_relative_path q = fr_relative_path r"
    if "r \<in> set (files_table d1)" "\<not> hidden c rx (fr_relative_path r)" for r
    using that assms(1,2,5) fit [of r] by (auto simp: cleared_def compare_sql_def left_join_missing_def)
  have second: "\<exists>q \<in> set (files_table d1). fr_relative_path q = fr_relative_path r"
    if "r \<in> set (files_table d2)" "\<not> hidden c rx (fr_relative_path r)" for r
    using that assms(1,2,6) fit [of r] by (auto simp: cleared_def compare_sql_def left_join_missing_def)
  have same: "fr_sha512 r = fr_sha512 q"
    if "r \<in> set (files_table d1)" "q \<in> set (files_table d2)" "fr_relative_path q = fr_relative_path r"
      "\<not> hidden c rx (fr_relative_path r)" for r q
  proof (rule ccontr)
    assume "fr_sha512 r \<noteq> fr_sha512 q"
    then have "fr_relative_path q \<in> set (inner_join_mismatch (files_table d2) (files_table d1))"
      using that(1-3) by (subst mismatch_rows) metis
    then show False
      using that fit [of r] assms(1,2,7) by (auto simp: cleared_def compare_sql_def)
  qed
  show ?thesis
    unfolding visible_content_def using digest_rows first second same by (auto; metis)
qed

section \<open>The verdict\<close>

lemma attach_step:
  assumes "(if st = SUCCESS then db_attach heap item b s attached else (st, s, attached)) = (st', s', attached')"
    and "sane s" "settled st s"
  shows "goes_on st s st' s'" "st' = SUCCESS \<Longrightarrow> item \<noteq> None \<and> attached' = attached(b := map_option cmp_file item)"
proof -
  have l0: "later s s" using assms(2) by (simp add: later_def)
  have "goes_on st s st' s' \<and> (st' = SUCCESS \<longrightarrow> item \<noteq> None \<and> attached' = attached(b := map_option cmp_file item))"
  proof (cases "st = SUCCESS")
    case True
    then have "\<not> halted s" "db_attach heap item b s attached = (st', s', attached')"
      using assms(1,3) by (auto simp: settled_def)
    from attach_sound [OF this(2) assms(2) this(1)] True show ?thesis by (auto simp: goes_on_def)
  qed (use assms l0 in \<open>auto simp: goes_on_def\<close>)
  then show "goes_on st s st' s'" "st' = SUCCESS \<Longrightarrow> item \<noteq> None \<and> attached' = attached(b := map_option cmp_file item)"
    by blast+
qed

lemma detach_step:
  assumes "(if b then
       let (returned, s_detached, attached) = db_detach n s attached;
           (st, s) = call (\<lambda>_. (returned, s_detached)) st s
       in (st, s, attached)
     else (st, s, attached)) = (st', s', attached')" "sane s" "settled st s"
  shows "goes_on st s st' s'"
proof (cases b)
  case True
  obtain w s1 att1 where d: "db_detach n s attached = (w, s1, att1)" by (cases "db_detach n s attached")
  obtain g where g: "answers s g (w, s1)" using detach_sound [OF d assms(2)] by blast
  have st: "st = SUCCESS \<or> stopping st" using assms(3) by (auto simp: settled_def)
  note c = settled_call [where f = "\<lambda>_. (w, s1)" and s = s and g = g, OF g st assms(2)]
  have "st' = fst (call (\<lambda>_. (w, s1)) st s)" "s' = snd (call (\<lambda>_. (w, s1)) st s)"
    using assms(1) True d by (auto split: prod.splits)
  then show ?thesis
    using c st stopping_call [of st "\<lambda>_. (w, s1)" s] by (auto simp: goes_on_def)
qed (use assms in \<open>auto simp: goes_on_def later_def\<close>)

lemma goes_on_facts: "goes_on st s st' s' \<Longrightarrow> sane s'" "goes_on st s st' s' \<Longrightarrow> settled st' s'"
  "goes_on st s st' s' \<Longrightarrow> st' = SUCCESS \<Longrightarrow> st = SUCCESS"
  by (simp_all add: goes_on_def later_def)

lemma summary_equal:
  "Absolutely_equal \<in> set (compare_summary a b v f1 f2 m out) \<Longrightarrow> Absolutely_equal \<notin> set out \<Longrightarrow>
     a \<and> b \<and> v \<and> \<not> f1 \<and> \<not> f2 \<and> \<not> m"
  by (auto simp: compare_summary_def Let_def split: if_splits)

text \<open>What a run that prints the verdict has gone through.\<close>

lemma verdict_run:
  assumes "sane s" "db_compare c compare_filter exists rx heap dbs s = (st, s', dbs', out)" "Absolutely_equal \<in> set out"
  obtains attached and dbs1 :: "compared list" where "st = SUCCESS" "1 < length dbs1"
    "map (row_digests \<circ> cmp_file) dbs1 = map (row_digests \<circ> cmp_file) dbs"
    "attached 1 = Some (cmp_file (dbs1 ! 0))" "attached 2 = Some (cmp_file (dbs1 ! 1))"
    "cleared c rx First_source attached" "cleared c rx Second_source attached" "cleared c rx Checksum_mismatch attached"
    "compare_filter = CF_NONE_SPECIFIED
      \<or> (\<forall>f \<in> {CF_FIRST_SOURCE, CF_SECOND_SOURCE, CF_CHECKSUM_MISMATCH}. compare_filter AND f \<noteq> 0)"
proof -
  have on: "\<not> halted s" "conf_compare c"
    using assms(2,3) by (auto simp: db_compare_def split: prod.splits if_splits)
  obtain st1 s1 dbs1 out1 where e1: "validate_loop c exists dbs s [Comparison_starts] = (st1, s1, dbs1, out1)"
    by (cases "validate_loop c exists dbs s [Comparison_starts]")
  have r1: "sane s1" "settled st1 s1" "map (row_digests \<circ> cmp_file) dbs1 = map (row_digests \<circ> cmp_file) dbs"
    "Absolutely_equal \<notin> set out1"
    using validate_sound [OF e1 assms(1) on(1)] by auto
  obtain st2 s2 at2 where e2: "(if st1 = SUCCESS then db_attach heap (item_of dbs1 0) 1 s1 (\<lambda>_. None) else (st1, s1, \<lambda>_. None)) = (st2, s2, at2)"
    by (cases "if st1 = SUCCESS then db_attach heap (item_of dbs1 0) 1 s1 (\<lambda>_. None) else (st1, s1, \<lambda>_. None)")
  note r2 = attach_step [OF e2 r1(1,2)]
  obtain st3 s3 at3 where e3: "(if st2 = SUCCESS then db_attach heap (item_of dbs1 1) 2 s2 at2 else (st2, s2, at2)) = (st3, s3, at3)"
    by (cases "if st2 = SUCCESS then db_attach heap (item_of dbs1 1) 2 s2 at2 else (st2, s2, at2)")
  note r3 = attach_step [OF e3 goes_on_facts(1,2) [OF r2(1)]]
  define fs where "fs \<longleftrightarrow> compare_filter \<noteq> CF_NONE_SPECIFIED"
  define w1 where "w1 \<longleftrightarrow> compare_filter AND CF_FIRST_SOURCE \<noteq> 0 \<or> \<not> fs"
  define w2 where "w2 \<longleftrightarrow> compare_filter AND CF_SECOND_SOURCE \<noteq> 0 \<or> \<not> fs"
  define w3 where "w3 \<longleftrightarrow> compare_filter AND CF_CHECKSUM_MISMATCH \<noteq> 0 \<or> \<not> fs"
  obtain st4 s4 f1 out4 where e4: "run_category c rx heap First_source at3 w1 st3 s3 out1 = (st4, s4, f1, out4)"
    by (cases "run_category c rx heap First_source at3 w1 st3 s3 out1")
  note r4 = run_category_sound [OF e4 goes_on_facts(1,2) [OF r3(1)]]
  obtain st5 s5 f2 out5 where e5: "run_category c rx heap Second_source at3 w2 st4 s4 out4 = (st5, s5, f2, out5)"
    by (cases "run_category c rx heap Second_source at3 w2 st4 s4 out4")
  note r5 = run_category_sound [OF e5 goes_on_facts(1,2) [OF r4(1)]]
  obtain st6 s6 f3 out6 where e6: "run_category c rx heap Checksum_mismatch at3 w3 st5 s5 out5 = (st6, s6, f3, out6)"
    by (cases "run_category c rx heap Checksum_mismatch at3 w3 st5 s5 out5")
  note r6 = run_category_sound [OF e6 goes_on_facts(1,2) [OF r5(1)]]
  obtain st7 s7 at7 where e7: "(if st2 = SUCCESS then
       let (returned, s_detached, attached) = db_detach 1 s6 at3; (st, s) = call (\<lambda>_. (returned, s_detached)) st6 s6
       in (st, s, attached) else (st6, s6, at3)) = (st7, s7, at7)"
    by (cases "if st2 = SUCCESS then
       let (returned, s_detached, attached) = db_detach 1 s6 at3; (st, s) = call (\<lambda>_. (returned, s_detached)) st6 s6
       in (st, s, attached) else (st6, s6, at3)")
  note r7 = detach_step [OF e7 goes_on_facts(1,2) [OF r6(1)]]
  obtain st8 s8 at8 where e8: "(if st3 = SUCCESS then
       let (returned, s_detached, attached) = db_detach 2 s7 at7; (st, s) = call (\<lambda>_. (returned, s_detached)) st7 s7
       in (st, s, attached) else (st7, s7, at7)) = (st8, s8, at8)"
    by (cases "if st3 = SUCCESS then
       let (returned, s_detached, attached) = db_detach 2 s7 at7; (st, s) = call (\<lambda>_. (returned, s_detached)) st7 s7
       in (st, s, attached) else (st7, s7, at7)")
  note r8 = detach_step [OF e8 goes_on_facts(1,2) [OF r7]]
  define out8 where "out8 = (if st8 = SUCCESS then compare_summary w1 w2 w3 f1 f2 f3 out6 else out6)"
  have "db_compare c compare_filter exists rx heap dbs s
      = (let (st, s) = provide st8 s8 in (st, s, dbs1, rev (Comparison_complete # out8)))"
    using on by (simp only: db_compare_def Let_def e1 e2 e3 fs_def [symmetric] w1_def [symmetric] w2_def [symmetric]
        w3_def [symmetric] e4 e5 e6 e7 [unfolded Let_def] e8 [unfolded Let_def] out8_def [symmetric] prod.case simp_thms if_False)
  then have res: "st = fst (provide st8 s8)" "Absolutely_equal \<in> set out8"
    using assms(2,3) by (auto split: prod.splits)
  have quiet: "Absolutely_equal \<notin> set out6" using r1(4) r4(3) r5(3) r6(3) by blast
  have ok8: "st8 = SUCCESS" using res(2) quiet by (auto simp: out8_def split: if_splits)
  have ok: "st7 = SUCCESS" "st6 = SUCCESS" "st5 = SUCCESS" "st4 = SUCCESS" "st3 = SUCCESS" "st2 = SUCCESS"
    using ok8 goes_on_facts(3) [OF r8] goes_on_facts(3) [OF r7] goes_on_facts(3) [OF r6(1)]
      goes_on_facts(3) [OF r5(1)] goes_on_facts(3) [OF r4(1)] goes_on_facts(3) [OF r3(1)] by simp_all
  have sum: "w1" "w2" "w3" "\<not> f1" "\<not> f2" "\<not> f3"
    using summary_equal [of w1 w2 w3 f1 f2 f3 out6] res(2) quiet ok8 by (auto simp: out8_def)
  have n: "1 < length dbs1" using r3(2) [OF ok(5)] by (auto simp: item_of_def split: if_splits)
  have "at3 1 = Some (cmp_file (dbs1 ! 0))" "at3 2 = Some (cmp_file (dbs1 ! 1))"
    using r3(2) [OF ok(5)] r2(2) [OF ok(6)] n by (auto simp: item_of_def)
  moreover have "st = SUCCESS"
    using res(1) ok8 goes_on_facts(1,2) [OF r8] by (auto simp: settled_def)
  moreover have "cleared c rx First_source at3" "cleared c rx Second_source at3" "cleared c rx Checksum_mismatch at3"
    using r4(2) [OF ok(4)] r5(2) [OF ok(3)] r6(2) [OF ok(2)] sum by blast+
  moreover have "compare_filter = CF_NONE_SPECIFIED
      \<or> (\<forall>f \<in> {CF_FIRST_SOURCE, CF_SECOND_SOURCE, CF_CHECKSUM_MISMATCH}. compare_filter AND f \<noteq> 0)"
    using sum(1-3) by (cases fs) (simp_all add: w1_def w2_def w3_def fs_def)
  ultimately show thesis using n r1(3) that [of dbs1 at3] by argo
qed

text \<open>
  C8: Two databases are called absolutely equal only when they are: whatever signals arrive, however
  SQLite, the allocator and the expressions answer and whatever upgrades the checks carry out, the
  message is printed only by a run that compares all three categories and ends with SUCCESS, and then
  the visible paths of both files, with their digests, are the same.
\<close>

theorem equal_databases_agree:
  assumes "sane s" "\<forall>db \<in> set dbs. fitting (cmp_file db)"
    and "db_compare c compare_filter exists rx heap dbs s = (st, s', dbs', out)" "Absolutely_equal \<in> set out"
  shows "st = SUCCESS \<and> 2 \<le> length dbs
    \<and> (compare_filter = CF_NONE_SPECIFIED \<or> (\<forall>f \<in> {CF_FIRST_SOURCE, CF_SECOND_SOURCE, CF_CHECKSUM_MISMATCH}. compare_filter AND f \<noteq> 0))
    \<and> visible_content c rx (cmp_file (dbs ! 0)) = visible_content c rx (cmp_file (dbs ! 1))"
proof -
  obtain attached and dbs1 :: "compared list" where v: "st = SUCCESS" "1 < length dbs1"
    "map (row_digests \<circ> cmp_file) dbs1 = map (row_digests \<circ> cmp_file) dbs"
    "attached 1 = Some (cmp_file (dbs1 ! 0))" "attached 2 = Some (cmp_file (dbs1 ! 1))"
    "cleared c rx First_source attached" "cleared c rx Second_source attached" "cleared c rx Checksum_mismatch attached"
    "compare_filter = CF_NONE_SPECIFIED
      \<or> (\<forall>f \<in> {CF_FIRST_SOURCE, CF_SECOND_SOURCE, CF_CHECKSUM_MISMATCH}. compare_filter AND f \<noteq> 0)"
    using verdict_run [OF assms(1,3,4)] .
  have len: "length dbs1 = length dbs" using v(3) by (metis length_map)
  have dig: "row_digests (cmp_file (dbs1 ! i)) = row_digests (cmp_file (dbs ! i))" if "i < 2" for i
    using v(2,3) that len nth_map [of i dbs1 "row_digests \<circ> cmp_file"] nth_map [of i dbs "row_digests \<circ> cmp_file"] by simp
  have "dbs ! 0 \<in> set dbs" "dbs ! 1 \<in> set dbs" using v(2) len nth_mem [of 0 dbs] nth_mem [of 1 dbs] by linarith+
  then have fit: "fitting (cmp_file (dbs1 ! 0))" "fitting (cmp_file (dbs1 ! 1))"
    using assms(2) dig [of 0] dig [of 1] by (simp_all add: fitting_def)
  have "visible_content c rx (cmp_file (dbs1 ! 0)) = visible_content c rx (cmp_file (dbs1 ! 1))"
    by (rule all_cleared [OF v(4,5) fit v(6-8)])
  moreover have "visible_content c rx (cmp_file (dbs ! i)) = visible_content c rx (cmp_file (dbs1 ! i))" if "i < 2" for i
    using dig [OF that] by (simp add: visible_content_def)
  ultimately show ?thesis using v(1,2,9) len by simp
qed

end
