(* ===== verification/Compare_Exact.thy ===== *)
theory Compare_Exact
  imports Compare_Correct Prefixes_Correct
begin

text \<open>
  An undisturbed comparison: it succeeds, and its messages are exactly the visible differences of the
  categories asked for, each category under its heading, with the closing verdict.
\<close>

section \<open>What is to be reported\<close>

definition reported_rows :: "Config \<Rightarrow> regex_engine \<Rightarrow> category \<Rightarrow> dbfile \<Rightarrow> dbfile \<Rightarrow> bytes list" where
  "reported_rows c rx cat d1 d2 =
     filter (\<lambda>p. \<not> hidden c rx p)
       (case cat of
          First_source \<Rightarrow> left_join_missing (files_table d1) (files_table d2)
        | Second_source \<Rightarrow> left_join_missing (files_table d2) (files_table d1)
        | Checksum_mismatch \<Rightarrow> inner_join_mismatch (files_table d2) (files_table d1))"

definition category_report :: "category \<Rightarrow> bytes list \<Rightarrow> message list" where
  "category_report cat rows = (if rows = [] then [] else Heading cat # map (Difference cat) rows)"

definition scope :: "u32 \<Rightarrow> u32 \<Rightarrow> bool" where
  "scope compare_filter f \<longleftrightarrow> compare_filter = CF_NONE_SPECIFIED \<or> compare_filter AND f \<noteq> 0"

definition comparison_report :: "Config \<Rightarrow> u32 \<Rightarrow> regex_engine \<Rightarrow> dbfile \<Rightarrow> dbfile \<Rightarrow> message list" where
  "comparison_report c compare_filter rx d1 d2 =
     (let first_rows = (if scope compare_filter CF_FIRST_SOURCE then reported_rows c rx First_source d1 d2 else []);
          second_rows = (if scope compare_filter CF_SECOND_SOURCE then reported_rows c rx Second_source d1 d2 else []);
          mismatches = (if scope compare_filter CF_CHECKSUM_MISMATCH then reported_rows c rx Checksum_mismatch d1 d2 else [])
      in Comparison_starts # category_report First_source first_rows @ category_report Second_source second_rows
         @ category_report Checksum_mismatch mismatches
         @ rev (compare_summary (scope compare_filter CF_FIRST_SOURCE) (scope compare_filter CF_SECOND_SOURCE)
             (scope compare_filter CF_CHECKSUM_MISMATCH) (first_rows \<noteq> []) (second_rows \<noteq> []) (mismatches \<noteq> []) [])
         @ [Comparison_complete])"

section \<open>One row\<close>

text \<open>A path whose visibility the expressions decide.\<close>

definition decided_path :: "Config \<Rightarrow> regex_engine \<Rightarrow> bytes \<Rightarrow> bool" where
  "decided_path c rx p \<longleftrightarrow> path_fits p \<and> 0 \<notin> set p
     \<and> rx_decides rx p (codes_of (conf_include_pcre_compiled c)) \<and> rx_decides rx p (codes_of (conf_ignore_pcre_compiled c))"

lemma printed_text:
  assumes "path_ok p m" "0 \<notin> set p"
  shows "printed (mem_string m) = p"
proof -
  have m: "valid m" "is_string m" "single_element_size m = 1" "mlength m \<noteq> 0" "visible_text m = p"
    using assms(1) by (simp_all add: path_ok_def)
  let ?n = "unat (string_length m)"
  have t: "string_length m < mlength m" "terminated_at m (string_length m)"
    using m by (auto simp: valid_def)
  then obtain buf where buf: "data m = Some buf" by (auto simp: terminated_at_def split: option.splits)
  have s: "mem_string m = buf" using m t(1) buf by (auto simp: mem_string_def)
  have p: "p = take ?n buf" using m(3,5) buf by (simp add: visible_text_def)
  have "take 1 (drop ?n buf) = [0]" using t(2) buf m(3) by (simp add: terminated_at_def)
  then obtain rest where "drop ?n buf = 0 # rest" by (cases "drop ?n buf") auto
  then have "buf = p @ 0 # rest" using p by (metis append_take_drop_id)
  moreover have "takeWhile (\<lambda>b. b \<noteq> 0) (p @ 0 # rest) = p"
    using assms(2) by (induction p) auto
  ultimately show ?thesis using s by (simp add: printed_def)
qed

lemma calm_filters:
  assumes "calm s" "path_ok p m" "decided_path c rx p"
  shows "\<exists>inc. match_include_ignore rx s (conf_include_pcre_compiled c) (conf_ignore_pcre_compiled c) m
    = (SUCCESS, inc, hidden c rx p)"
proof -
  have q: "quiet s" using assms(1) by (rule calm_sane)
  have m: "valid m" "is_string m" "single_element_size m = 1" "mlength m \<noteq> 0" "visible_text m = p"
    using assms(2) by (simp_all add: path_ok_def)
  have d: "rx_decides rx (visible_text m) (codes_of (conf_include_pcre_compiled c))"
    "rx_decides rx (visible_text m) (codes_of (conf_ignore_pcre_compiled c))"
    using assms(3) m(5) by (simp_all add: decided_path_def)
  have i: "match_include_pattern rx s (conf_include_pcre_compiled c) m
      = (if locked_by rx (conf_include_pcre_compiled c) p then INCLUDE else DO_NOT_INCLUDE)"
    using pattern_loop_decides [OF q m(1-4) d(1), of INCLUDE FAIL_REGEXP_INCLUDE DO_NOT_INCLUDE] m(5)
    by (cases "conf_include_pcre_compiled c") (auto simp: match_include_pattern_def locked_by_def codes_of_def)
  have g: "match_ignore_pattern rx s (conf_ignore_pcre_compiled c) m
      = (if locked_by rx (conf_ignore_pcre_compiled c) p then IGNORE else DO_NOT_IGNORE)"
    using pattern_loop_decides [OF q m(1-4) d(2), of IGNORE FAIL_REGEXP_IGNORE DO_NOT_IGNORE] m(5)
    by (cases "conf_ignore_pcre_compiled c") (auto simp: match_ignore_pattern_def locked_by_def codes_of_def)
  show ?thesis
    using q by (auto simp: match_include_ignore_def i g hidden_def)
qed

lemma calm_category_row:
  assumes "calm s" "desc_ok m" "\<forall>bytes. heap bytes \<noteq> None" "decided_path c rx p"
  shows "\<exists>m'. category_row c rx heap cat p s m first seen out
    = (if hidden c rx p then (SUCCESS, m', first, seen, out)
       else (SUCCESS, m', False, True, Difference cat p # (if first then Heading cat # out else out))) \<and> desc_ok m'"
proof -
  have p: "p \<noteq> []" "length p + 4096 < 2 ^ 64" "0 \<notin> set p"
    using assms(4) by (simp_all add: decided_path_def path_fits_def)
  obtain m' where m': "mem_copy_fixed_string s heap m (of_nat (length p + 1)) (External (p @ [0])) = (SUCCESS, m')"
    "desc_ok m'" "visible_text m' = p"
    using calm_copy [OF assms(1,2,3) p(2)] .
  have ok: "path_ok p m'"
    using m'(2,3) p(1) by (auto simp: path_ok_def desc_ok_def valid_def visible_text_def split: option.splits)
  have out: "run_out s SUCCESS (mem_copy_fixed_string s heap m (of_nat (length p + 1)) (External (p @ [0]))) m
      = (SUCCESS, m')"
    using m'(1) calm_sane [OF assms(1)] by simp
  obtain inc where f: "match_include_ignore rx s (conf_include_pcre_compiled c) (conf_ignore_pcre_compiled c) m'
    = (SUCCESS, inc, hidden c rx p)"
    using calm_filters [OF assms(1) ok assms(4)] by blast
  show ?thesis
    using out f m'(2) printed_text [OF ok p(3)] by (simp add: category_row_def)
qed

lemma calm_category_loop:
  assumes "calm s" "desc_ok m" "\<forall>bytes. heap bytes \<noteq> None" "\<forall>p \<in> set rows. decided_path c rx p"
  shows "category_loop c rx heap cat rows s m first seen out
    = (SUCCESS, s, seen \<or> filter (\<lambda>p. \<not> hidden c rx p) rows \<noteq> [],
       (let visible = filter (\<lambda>p. \<not> hidden c rx p) rows
        in rev (if first then category_report cat visible else map (Difference cat) visible) @ out), Step_Done)"
  using assms(2,4)
proof (induction rows arbitrary: m first seen out)
  case Nil
  then show ?case
    using assms(1) by (subst category_loop.simps) (simp add: category_report_def)
next
  case (Cons p rows)
  obtain m' where m': "category_row c rx heap cat p s m first seen out
    = (if hidden c rx p then (SUCCESS, m', first, seen, out)
       else (SUCCESS, m', False, True, Difference cat p # (if first then Heading cat # out else out)))" "desc_ok m'"
    using calm_category_row [OF assms(1) Cons.prems(1) assms(3), of c rx p cat first seen out] Cons.prems(2) by auto
  note IH = Cons.IH [OF m'(2)]
  show ?case
    using assms(1) calm_sane(2) [OF assms(1)] m'(1) IH Cons.prems(2)
    by (subst category_loop.simps) (auto simp: category_report_def Let_def)
qed

section \<open>The whole comparison\<close>

text \<open>A database the checks accept as it is.\<close>

definition acceptable :: "compared \<Rightarrow> bool" where
  "acceptable db \<longleftrightarrow> cmp_path db \<noteq> [58, 109, 101, 109, 111, 114, 121, 58] \<and> cmp_found db = Some Regular_file
     \<and> cmp_copied db \<and> cmp_responses db = [[111, 107]] \<and> file_version (cmp_file db) = 4"

lemma calm_check:
  assumes "calm s" "acceptable db"
  shows "db_integrity_check c (cmp_copied db) exists (cmp_responses db) mode p stats (cmp_file db) s = (SUCCESS, s, cmp_file db)"
proof -
  have v: "db_check_version c mode p stats (cmp_file db) s = (SUCCESS, s, cmp_file db)"
    using assms calm_sane(2) [OF assms(1)] calm_provide [OF assms(1)]
    by (simp add: db_check_version_def calm_retrieve acceptable_def CURRENT_DB_VERSION_def)
  have r: "response_loop [[111, 107]] s False = (True, s, True)"
    using assms(1) by (simp add: response_loop.simps)
  show ?thesis
    using assms v r calm_provide [OF assms(1)] by (simp add: db_integrity_check_def acceptable_def)
qed

lemma calm_validate:
  assumes "calm s" "\<forall>db \<in> set dbs. acceptable db"
  shows "validate_loop c exists dbs s out = (SUCCESS, s, dbs, out)"
  using assms(2)
proof (induction dbs)
  case (Cons db dbs)
  then have "file_availability (cmp_path db) (cmp_found db) True = EXISTS"
    by (simp add: file_availability_def acceptable_def)
  then show ?case using Cons calm_check [OF assms(1), of db c exists] by simp
qed simp

lemma calm_attach:
  assumes "calm s" "\<forall>bytes. heap bytes \<noteq> None"
  shows "db_attach heap (Some db) b s attached = (SUCCESS, s, attached(b := Some (cmp_file db)))"
proof -
  have q: "quiet s" using assms(1) by (rule calm_sane)
  have m0: "string_ok (mem_init 1 True)" "single_element_size (mem_init 1 True) = 1"
    by (simp_all add: string_ok_def) (simp_all add: mem_init_def)
  have "can_allocate heap (mem_init 1 True) (of_nat (length (attach_sql b)) + 1)"
    using assms(2) by (auto simp: can_allocate_def attach_sql_def mem_init_def)
  then obtain sql where f: "mem_formatted_string_char s heap (mem_init 1 True) (Renders (attach_sql b)) = (SUCCESS, sql)"
    "string_ok sql" "single_element_size sql = 1"
    using formatted_ok [OF q m0, of "attach_sql b" heap] by (auto simp: attach_sql_def)
  have "desc_ok sql" using f by (simp add: desc_ok_def string_ok_def)
  then have d: "(fst (mem_delete s sql), s) = (outcome True False, s)"
    using delete_answer [of s sql] calm_sane [OF assms(1)] by simp
  have "call (\<lambda>s. (fst (mem_delete s sql), s)) SUCCESS s = (SUCCESS, s)"
    using call_outcome [where f = "\<lambda>s. (fst (mem_delete s sql), s)" and s = s and g = True and h = False, OF d]
      calm_sane [OF assms(1)] by (simp add: outcome_literals)
  then show ?thesis
    using assms(1) q f(1) calm_provide [OF assms(1)] by (simp add: db_attach_def)
qed

lemma calm_detach:
  assumes "calm s"
  shows "call (\<lambda>_. (SUCCESS, s)) SUCCESS s = (SUCCESS, s)"
    "db_detach b s attached = (SUCCESS, s, snd (snd (db_detach b s attached)))"
proof -
  show d: "db_detach b s attached = (SUCCESS, s, snd (snd (db_detach b s attached)))"
    using assms calm_provide [OF assms] by (simp add: db_detach_def)
  show "call (\<lambda>_. (SUCCESS, s)) SUCCESS s = (SUCCESS, s)"
    using call_outcome [where f = "\<lambda>_. (SUCCESS, s)" and s = s and s' = s and g = True and h = False and g' = True and h' = False]
      calm_sane [OF assms] by (simp add: outcome_literals)
qed

lemma calm_run_category:
  assumes "calm s" "\<forall>bytes. heap bytes \<noteq> None"
    and "attached 1 = Some d1" "attached 2 = Some d2" "\<forall>(p, h) \<in> set (row_digests d1 @ row_digests d2). decided_path c rx p"
  shows "run_category c rx heap cat attached wanted SUCCESS s out
    = (SUCCESS, s, wanted \<and> reported_rows c rx cat d1 d2 \<noteq> [],
       rev (category_report cat (if wanted then reported_rows c rx cat d1 d2 else [])) @ out)"
proof (cases wanted)
  case True
  obtain rows where rows: "compare_sql cat attached = Some rows" "reported_rows c rx cat d1 d2 = filter (\<lambda>p. \<not> hidden c rx p) rows"
    "\<forall>p \<in> set rows. decided_path c rx p"
  proof -
    have "\<forall>p \<in> set (the (compare_sql cat attached)). \<exists>h. (p, h) \<in> set (row_digests d1 @ row_digests d2)"
      using assms(3,4) digest_rows by (cases cat) (force simp: compare_sql_def left_join_missing_def mismatch_rows)+
    then have "\<forall>p \<in> set (the (compare_sql cat attached)). decided_path c rx p" using assms(5) by blast
    then show ?thesis using that assms(3,4) by (auto simp: compare_sql_def reported_rows_def split: category.splits)
  qed
  have d0: "desc_ok (mem_init 1 True)" by (simp add: desc_ok_def) (simp add: mem_init_def)
  have r: "db_report_category c rx heap cat attached s False out
    = (SUCCESS, s, reported_rows c rx cat d1 d2 \<noteq> [], rev (category_report cat (reported_rows c rx cat d1 d2)) @ out)"
    using assms(1) rows(1,2) calm_provide [OF assms(1)]
      calm_category_loop [OF assms(1) d0 assms(2) rows(3), of cat True False out]
    by (simp add: db_report_category_def Let_def)
  have "run (\<lambda>_. (SUCCESS, s)) SUCCESS s = (SUCCESS, s)"
    using run_outcome [where f = "\<lambda>_. (SUCCESS, s)" and s = s and g = True and h = False and g' = True and h' = False]
      calm_sane [OF assms(1)] by (simp add: outcome_literals)
  then show ?thesis using True r by (simp add: run_category_def)
qed (simp add: run_category_def category_report_def)

lemma summary_append:
  "compare_summary a b v f1 f2 m out = compare_summary a b v f1 f2 m [] @ out"
  by (simp add: compare_summary_def Let_def)

lemma calm_compare:
  assumes "calm s" "conf_compare c" "\<forall>bytes. heap bytes \<noteq> None" "\<forall>db \<in> set (db1 # db2 # rest). acceptable db"
    and "\<forall>(p, h) \<in> set (row_digests (cmp_file db1) @ row_digests (cmp_file db2)). decided_path c rx p"
  shows "db_compare c compare_filter exists rx heap (db1 # db2 # rest) s
    = (SUCCESS, s, db1 # db2 # rest, comparison_report c compare_filter rx (cmp_file db1) (cmp_file db2))"
proof -
  let ?dbs = "db1 # db2 # rest" and ?d1 = "cmp_file db1" and ?d2 = "cmp_file db2"
  define at where "at = ((\<lambda>_. None)(1 := Some ?d1, 2 := Some ?d2) :: schemas)"
  have attached: "at 1 = Some ?d1" "at 2 = Some ?d2" by (simp_all add: at_def)
  note cats = calm_run_category [OF assms(1,3) attached assms(5)]
  define w1 where "w1 \<longleftrightarrow> compare_filter AND CF_FIRST_SOURCE \<noteq> 0 \<or> \<not> compare_filter \<noteq> CF_NONE_SPECIFIED"
  define w2 where "w2 \<longleftrightarrow> compare_filter AND CF_SECOND_SOURCE \<noteq> 0 \<or> \<not> compare_filter \<noteq> CF_NONE_SPECIFIED"
  define w3 where "w3 \<longleftrightarrow> compare_filter AND CF_CHECKSUM_MISMATCH \<noteq> 0 \<or> \<not> compare_filter \<noteq> CF_NONE_SPECIFIED"
  have w: "scope compare_filter CF_FIRST_SOURCE = w1" "scope compare_filter CF_SECOND_SOURCE = w2"
    "scope compare_filter CF_CHECKSUM_MISMATCH = w3"
    by (auto simp: scope_def w1_def w2_def w3_def)
  have items: "item_of ?dbs 0 = Some db1" "item_of ?dbs 1 = Some db2" by (simp_all add: item_of_def)
  have at2: "((\<lambda>_. None)(1 := Some ?d1))(2 := Some ?d2) = at" by (simp add: at_def)
  have h: "\<not> halted s" using calm_sane [OF assms(1)] by simp
  obtain at7 where d1: "db_detach 1 s at = (SUCCESS, s, at7)" using calm_detach(2) [OF assms(1)] by blast
  obtain at8 where d2: "db_detach 2 s at7 = (SUCCESS, s, at8)" using calm_detach(2) [OF assms(1)] by blast
  show ?thesis
    unfolding db_compare_def
    by (simp only: h assms(2) if_False not_True_eq_False Let_def calm_validate [OF assms(1,4)] prod.case items
        calm_attach [OF assms(1,3)] at2 w1_def [symmetric] w2_def [symmetric] w3_def [symmetric] cats d1 d2
        calm_detach(1) [OF assms(1)] if_True refl calm_provide [OF assms(1)])
      (auto simp: comparison_report_def Let_def w category_report_def
        summary_append [of _ _ _ _ _ _ "_ # _"] summary_append [of _ _ _ _ _ _ "_ @ _"])
qed


section \<open>Two small databases\<close>

definition comparing :: Config where "comparing = default_config\<lparr>conf_compare := True\<rparr>"

definition file_of :: "(bytes \<times> bytes) list \<Rightarrow> dbfile" where
  "file_of content = \<lparr>metadata_table = Some [4],
     files_table = map (\<lambda>(p, h). \<lparr>fr_ID = 1, fr_relative_path = p, fr_sha512 = Some h, fr_stat = None\<rparr>) content\<rparr>"

definition database_of :: "(bytes \<times> bytes) list \<Rightarrow> compared" where
  "database_of content = \<lparr>cmp_path = [47], cmp_found = Some Regular_file, cmp_file = file_of content,
     cmp_copied = True, cmp_responses = [[111, 107]], cmp_mode = None, cmp_stats = (True, True)\<rparr>"

lemma database_acceptable [simp]: "acceptable (database_of content)"
  by (simp add: acceptable_def database_of_def file_of_def file_version_def sqlite3_column_int_def)

lemma database_digests [simp]: "row_digests (cmp_file (database_of content)) = map (\<lambda>(p, h). (p, Some h)) content"
  by (simp add: row_digests_def database_of_def file_of_def comp_def case_prod_beta)

lemma comparing_simps [simp]:
  "conf_compare comparing" "hidden comparing rx p = False" "decided_path comparing rx p \<longleftrightarrow> path_fits p \<and> 0 \<notin> set p"
  by (simp_all add: comparing_def default_config_def hidden_def locked_by_def decided_path_def codes_of_def rx_decides_def)


theorem equal_databases_agree_witness:
  "Absolutely_equal \<in> set (snd (snd (snd (db_compare comparing CF_NONE_SPECIFIED True prefix_engine any_memory
       [database_of [([97], [1]), ([98], [2])], database_of [([98], [2]), ([97], [1])]] (fresh_state [])))))
     \<and> visible_content comparing prefix_engine (cmp_file (database_of [([97], [1]), ([98], [2])]))
         = visible_content comparing prefix_engine (cmp_file (database_of [([98], [2]), ([97], [1])]))"
proof -
  let ?db1 = "database_of [([97], [1]), ([98], [2])]" and ?db2 = "database_of [([98], [2]), ([97], [1])]"
  let ?out = "comparison_report comparing CF_NONE_SPECIFIED prefix_engine (cmp_file ?db1) (cmp_file ?db2)"
  have e: "db_compare comparing CF_NONE_SPECIFIED True prefix_engine any_memory [?db1, ?db2] (fresh_state [])
    = (SUCCESS, fresh_state [], [?db1, ?db2], ?out)"
    by (rule calm_compare [OF calm_fresh_state]) (simp_all add: path_fits_def)
  have out: "Absolutely_equal \<in> set ?out"
    by (simp add: comparison_report_def scope_def reported_rows_def category_report_def compare_summary_def
        left_join_missing_def inner_join_mismatch_def database_of_def file_of_def)
  have "visible_content comparing prefix_engine (cmp_file ?db1) = visible_content comparing prefix_engine (cmp_file ?db2)"
    using equal_databases_agree [OF calm_sane(1) [OF calm_fresh_state] _ e out] by (simp add: fitting_def path_fits_def)
  then show ?thesis using e out by simp
qed

end
