(* ===== verification/Startup.thy ===== *)
theory Startup
  imports Compare Prefixes
begin

text \<open>
  The steps of a run before and after its work on the rows: the checks of the roots
  (\<open>paths_detect.c\<close>), the signal handlers (\<open>init_signals.c\<close>), the name of the primary database
  (\<open>db_determine_name.c\<close>), whether its file exists (\<open>db_primary_file_validate_existence.c\<close>), how it is
  opened (\<open>db_determine_mode.c\<close>), its integrity (\<open>db_primary_file_test.c\<close>), opening it (\<open>db_init.c\<close>),
  whether it holds data (\<open>db_contains_data.c\<close>), and at the end the remembered messages
  (\<open>show_remembered_messages.c\<close>), the vacuum (\<open>db_primary_consider_vacuum.c\<close>) and the check that the
  file changed only when expected (\<open>db_check_changes.c\<close>, \<open>status_of_changes.c\<close>).
\<close>

section \<open>What the startup finds out\<close>

text \<open>
  The members of \<open>Config\<close> that are filled by these steps; \<open>db_connected\<close> says that \<open>config->db\<close> is not
  NULL, \<open>holds_data\<close> stands for the member \<open>db_contains_data\<close>.
\<close>

record launch =
  db_primary_file_path :: memory
  db_file_name :: memory
  db_primary_path_is_memory :: bool
  db_primary_file_exists :: bool
  db_file_stat :: stat
  db_initialize_tables :: bool
  sqlite_open_flag :: int
  db_connected :: bool
  holds_data :: bool

definition SQLITE_OPEN_READONLY :: int where "SQLITE_OPEN_READONLY = 1"
definition SQLITE_OPEN_READWRITE :: int where "SQLITE_OPEN_READWRITE = 2"
definition SQLITE_OPEN_CREATE :: int where "SQLITE_OPEN_CREATE = 4"
definition SQL_DRY_RUN_MODE :: int where "SQL_DRY_RUN_MODE = - 1"

text \<open>What \<open>stat\<close> finds at every path.\<close>

type_synonym file_system = "bytes \<Rightarrow> (file_kind \<times> stat) option"

definition kind_at :: "file_system \<Rightarrow> bytes \<Rightarrow> file_kind option" where
  "kind_at fs path = map_option fst (fs path)"

section \<open>Roots and signals\<close>

definition paths_detect :: "Config \<Rightarrow> file_system \<Rightarrow> bytes list \<Rightarrow> app action" where
  "paths_detect c fs roots s =
     (if conf_compare c then provide SUCCESS s
      else
        let st = (if roots = [] then FAILURE else SUCCESS);
            st = (if st = SUCCESS \<and> list_ex (\<lambda>root. file_availability root (kind_at fs root) False = NOT_FOUND) roots
                  then FAILURE else st)
        in provide st s)"

text \<open>The three answers of \<open>signal()\<close> for SIGUSR2, SIGINT and SIGTERM: whether it could be set.\<close>

definition init_signals :: "bool \<times> bool \<times> bool \<Rightarrow> app action" where
  "init_signals handlers s =
     (case handlers of (usr2_set, int_set, term_set) \<Rightarrow>
        let st = (if \<not> usr2_set then FAILURE else SUCCESS);
            st = (if \<not> int_set then FAILURE else st);
            st = (if \<not> term_set then FAILURE else st)
        in provide st s)"

section \<open>The name of the database\<close>

text \<open>\<open>:memory:\<close>, \<open>DisposableDB\<close> and \<open>.db\<close>.\<close>

definition memory_marker :: bytes where "memory_marker = [58, 109, 101, 109, 111, 114, 121, 58]"
definition disposable_name :: bytes where
  "disposable_name = [68, 105, 115, 112, 111, 115, 97, 98, 108, 101, 68, 66]"
definition db_suffix :: bytes where "db_suffix = [46, 100, 98]"

definition copy_literal :: "app \<Rightarrow> heap \<Rightarrow> memory \<Rightarrow> bytes \<Rightarrow> ret \<times> memory" where
  "copy_literal s heap m literal = mem_copy_fixed_string s heap m (of_nat (length literal + 1)) (External (literal @ [0]))"

text \<open>\<open>nodename\<close> is what \<open>uname\<close> reports, \<open>None\<close> when it fails.\<close>

definition db_determine_name :: "Config \<Rightarrow> heap \<Rightarrow> bytes option \<Rightarrow> launch \<Rightarrow> app \<Rightarrow> ret \<times> app \<times> launch" where
  "db_determine_name c heap nodename l s =
     (if global_interrupt_flag s then let (st, s) = provide SUCCESS s in (st, s, l)
      else
        let file_path = db_primary_file_path l;
            name = db_file_name l;
            (st, l) =
              (if conf_compare c then
                 if string_length file_path = 0 then
                   let (st, file_path) = run_out s SUCCESS (copy_literal s heap file_path memory_marker) file_path;
                       (st, name) = run_out s st (copy_literal s heap name disposable_name) name;
                       (st, file_path) = (if has CRITICAL st then call_out s st (mem_delete s file_path) file_path
                                          else (st, file_path))
                   in (st, l\<lparr>db_primary_path_is_memory := True, db_primary_file_path := file_path, db_file_name := name\<rparr>)
                 else (FAILURE, l)
               else if string_length file_path = 0 then
                 let (st, name) = call_out s SUCCESS (mem_delete s name) name;
                     l = l\<lparr>db_primary_path_is_memory := False\<rparr>
                 in case nodename of
                      None \<Rightarrow> (FAILURE, l\<lparr>db_file_name := name\<rparr>)
                    | Some host \<Rightarrow>
                        let (st, file_path) = run_out s st (mem_copy_unbounded_string s heap file_path (External (host @ [0]))) file_path;
                            (st, file_path) =
                              run_out s st (mem_concat_fixed_string s heap file_path (of_nat (length db_suffix + 1))
                                (External (db_suffix @ [0]))) file_path;
                            (st, name) = run_out s st (mem_copy s heap name (Some file_path)) name;
                            (st, file_path) = (if has CRITICAL st then call_out s st (mem_delete s file_path) file_path
                                               else (st, file_path))
                        in (st, l\<lparr>db_primary_file_path := file_path, db_file_name := name\<rparr>)
               else (SUCCESS, l));
            (st, s) = provide st s
        in (st, s, l))"

section \<open>The file and how it is opened\<close>

text \<open>\<open>dirname\<close> of POSIX.\<close>

definition c_dirname :: "bytes \<Rightarrow> bytes" where
  "c_dirname path =
     (if path = [] then [46]
      else
        case dropWhile (\<lambda>b. b = 47) (rev path) of
          [] \<Rightarrow> [47]
        | component \<Rightarrow>
            (case dropWhile (\<lambda>b. b \<noteq> 47) component of
               [] \<Rightarrow> [46]
             | parent \<Rightarrow> (case dropWhile (\<lambda>b. b = 47) parent of [] \<Rightarrow> [47] | directory \<Rightarrow> rev directory)))"

text \<open>\<open>copied\<close> says whether \<open>strdup\<close> could copy the path.\<close>

definition db_primary_file_validate_existence ::
  "file_system \<Rightarrow> bool \<Rightarrow> launch \<Rightarrow> app \<Rightarrow> ret \<times> app \<times> launch" where
  "db_primary_file_validate_existence fs copied l s =
     (if global_interrupt_flag s then let (st, s) = provide SUCCESS s in (st, s, l)
      else
        let l = l\<lparr>db_primary_file_exists := False\<rparr>;
            file_path = printed (mem_string (db_primary_file_path l));
            (st, path_length) = mem_string_length s (db_primary_file_path l) 0;
            st = (if has SUCCESS st \<and> path_length = 0 then FAILURE else st)
        in if st = SUCCESS \<and> \<not> copied then let (st, s) = provide FAILURE s in (st, s, l)
           else
             let directory = c_dirname file_path;
                 st = (if st = SUCCESS \<and> file_availability directory (kind_at fs directory) False = NOT_FOUND
                       then FAILURE else st);
                 l = (if st = SUCCESS then
                        case fs file_path of
                          Some (kind, found) \<Rightarrow>
                            if file_availability file_path (Some kind) True = EXISTS
                            then l\<lparr>db_primary_file_exists := True, db_file_stat := found\<rparr> else l
                        | None \<Rightarrow> l
                      else l);
                 (st, s) = provide st s
             in (st, s, l))"

definition db_determine_mode :: "Config \<Rightarrow> launch \<Rightarrow> app \<Rightarrow> ret \<times> app \<times> launch" where
  "db_determine_mode c l s =
     (if global_interrupt_flag s then let (st, s) = provide SUCCESS s in (st, s, l)
      else
        let l = l\<lparr>db_initialize_tables := False, sqlite_open_flag := SQLITE_OPEN_READONLY\<rparr>;
            (st, l) =
              (if conf_compare c then (SUCCESS, l\<lparr>sqlite_open_flag := SQLITE_OPEN_READONLY\<rparr>)
               else if conf_update c then
                 if \<not> db_primary_file_exists l then (FAILURE, l)
                 else (SUCCESS, l\<lparr>sqlite_open_flag := SQLITE_OPEN_READWRITE\<rparr>)
               else if db_primary_file_exists l then (SUCCESS, l\<lparr>sqlite_open_flag := SQLITE_OPEN_READWRITE\<rparr>)
               else (SUCCESS, l\<lparr>db_initialize_tables := True,
                                sqlite_open_flag := SQLITE_OPEN_READWRITE OR SQLITE_OPEN_CREATE\<rparr>));
            l = (if st = SUCCESS \<and> conf_dry_run c then
                   if \<not> db_primary_file_exists l then l\<lparr>sqlite_open_flag := SQL_DRY_RUN_MODE\<rparr>
                   else l\<lparr>sqlite_open_flag := SQLITE_OPEN_READONLY\<rparr>
                 else l);
            (st, s) = provide st s
        in (st, s, l))"

text \<open>The arguments in the middle are those of \<open>db_integrity_check\<close>.\<close>

definition db_primary_file_test ::
  "Config \<Rightarrow> bool \<Rightarrow> bytes list \<Rightarrow> bytes option \<Rightarrow> bool \<times> bool \<Rightarrow> launch \<Rightarrow> dbfile \<Rightarrow> app \<Rightarrow> ret \<times> app \<times> dbfile" where
  "db_primary_file_test c copied responses mode stats l d s =
     (if global_interrupt_flag s then let (st, s) = provide SUCCESS s in (st, s, d)
      else
        let (st, s, d) =
              (if db_primary_file_exists l then
                 let (returned, s, d) = db_integrity_check c copied True responses mode True stats d s;
                     (st, s) = run (\<lambda>_. (returned, s)) SUCCESS s
                 in (st, s, d)
               else (SUCCESS, s, d));
            (st, s) = provide st s
        in (st, s, d))"

section \<open>Opening the database\<close>

text \<open>
  What the statements on the tables \<open>files\<close> and \<open>paths\<close> read from a file.  The record \<open>dbfile\<close> holds
  the columns the migrations work on, \<open>row\<close> those of the traversal.
\<close>

type_synonym file_reader = "dbfile \<Rightarrow> row list \<times> (int \<times> bytes) list"

text \<open>A connection sees the tables of the file; a database in memory or a new one has none.\<close>

definition open_tables :: "(row list \<times> (int \<times> bytes) list) \<Rightarrow> app \<Rightarrow> path_tables \<Rightarrow> app \<times> path_tables" where
  "open_tables content s t =
     (s\<lparr>table := fst content, committed := fst content, autocommit := True\<rparr>,
      t\<lparr>paths := snd content, committed_paths := snd content, the_path_id_does_not_exists := [], total_changes := 0\<rparr>)"

definition new_file :: dbfile where
  "new_file = \<lparr>metadata_table = Some [CURRENT_DB_VERSION], files_table = []\<rparr>"

definition db_init ::
  "Config \<Rightarrow> file_reader \<Rightarrow> launch \<Rightarrow> dbfile \<Rightarrow> path_tables \<Rightarrow> app \<Rightarrow> ret \<times> app \<times> launch \<times> dbfile \<times> path_tables" where
  "db_init c reads l d t s =
     (if global_interrupt_flag s then let (st, s) = provide SUCCESS s in (st, s, l, d, t)
      else
        let l = (if sqlite_open_flag l = SQL_DRY_RUN_MODE
                 then l\<lparr>db_primary_path_is_memory := True, sqlite_open_flag := SQLITE_OPEN_READWRITE\<rparr> else l);
            (opened, s) = sql_ok s;
            l = l\<lparr>db_connected := opened \<or> conf_compare c\<rparr>;
            st = (if opened \<or> conf_compare c then SUCCESS else FAILURE);
            (s, t) = (if \<not> opened then (s, t)
                      else open_tables (if db_primary_path_is_memory l \<or> \<not> db_primary_file_exists l then ([], [])
                                        else reads d) s t);
            (initialized, s) = (if db_initialize_tables l \<and> st = SUCCESS then sql_ok s else (True, s));
            d = (if db_initialize_tables l \<and> st = SUCCESS \<and> initialized \<and> \<not> db_primary_path_is_memory l
                 then new_file else d);
            st = (if initialized then st else FAILURE);
            (tuned, s) = (if st = SUCCESS then sql_ok s else (True, s));
            st = (if tuned then st else FAILURE);
            (remembering, s) = (if st = SUCCESS then sql_ok s else (True, s));
            (checking, s) = (if st = SUCCESS \<and> \<not> conf_compare c then sql_ok s else (True, s));
            st = (if checking then st else FAILURE);
            (st, s) = provide st s
        in (st, s, l, d, t))"

text \<open>\<open>SELECT COUNT(*) FROM paths\<close> delivers one row.\<close>

definition db_contains_data :: "Config \<Rightarrow> path_tables \<Rightarrow> launch \<Rightarrow> app \<Rightarrow> ret \<times> app \<times> launch" where
  "db_contains_data c t l s =
     (if global_interrupt_flag s then let (st, s) = provide SUCCESS s in (st, s, l)
      else if conf_compare c then let (st, s) = provide SUCCESS s in (st, s, l)
      else
        let l = l\<lparr>holds_data := False\<rparr>;
            (prepared, s) = sql_ok s;
            (st, s, l) =
              (if prepared then
                 let (stepped, s) = sql_ok s
                 in if \<not> stepped then (FAILURE, s, l)
                    else
                      let l = (if 0 < length (paths t) then l\<lparr>holds_data := True\<rparr> else l);
                          (finished, s) = sql_ok s
                      in (if finished then SUCCESS else FAILURE, s, l)
               else (FAILURE, s, l));
            st = (if st = SUCCESS \<and> holds_data l \<and> \<not> conf_update c then WARNING else st);
            (st, s) = provide st s
        in (st, s, l))"

section \<open>The end of a run\<close>

text \<open>The remembered messages are the rows of a temporary table.\<close>

fun remembered_loop :: "bytes list \<Rightarrow> app \<Rightarrow> bool \<times> app" where
  "remembered_loop messages s =
     (let (stepped, s) = sql_ok s
      in if \<not> stepped then (False, s)
         else case messages of [] \<Rightarrow> (True, s) | text # rest \<Rightarrow> remembered_loop rest s)"

declare remembered_loop.simps [simp del]

definition show_remembered_messages :: "Config \<Rightarrow> bytes list \<Rightarrow> launch \<Rightarrow> app action" where
  "show_remembered_messages c messages l s =
     (if conf_output c \<noteq> OUTPUT_FULL \<or> \<not> show_remembered_messages_at_exit s then provide SUCCESS s
      else if \<not> db_connected l then provide SUCCESS s
      else
        let (prepared, s) = sql_ok s
        in if \<not> prepared then provide FAILURE s
           else
             let (finished, s) = remembered_loop messages s
             in if \<not> finished then provide FAILURE s else provide SUCCESS s)"

definition db_primary_consider_vacuum :: "Config \<Rightarrow> bool \<Rightarrow> bool \<Rightarrow> app action" where
  "db_primary_consider_vacuum c stat_before stat_after s =
     (if global_interrupt_flag s then provide SUCCESS s
      else if conf_compare c then provide SUCCESS s
      else if conf_dry_run c then provide SUCCESS s
      else if \<not> db_primary_file_modified s then provide SUCCESS s
      else let (st, s) = db_vacuum c True True stat_before stat_after s in provide st s)"

text \<open>\<open>found\<close> is what \<open>stat\<close> finds at the path of the database, \<open>None\<close> when it fails.\<close>

definition db_check_changes :: "stat option \<Rightarrow> launch \<Rightarrow> app action" where
  "db_check_changes found l s =
     (let st = (if found = None then FAILURE else SUCCESS);
          copy = (\<lambda>source s. provide (if stat_copy (Some source) (Some zero_stat) = None then FAILURE else SUCCESS) s);
          skipped = has SKIP st;
          before = (if skipped then zero_stat else the (stat_copy (Some (db_file_stat l)) (Some zero_stat)));
          (st, s) = run (copy (db_file_stat l)) st s;
          skipped = has SKIP st;
          after = (case found of
                     None \<Rightarrow> zero_stat
                   | Some current \<Rightarrow> if skipped then zero_stat else the (stat_copy (Some current) (Some zero_stat)));
          (st, s) = run (copy (the found)) st s;
          changes = file_compare_metadata_equivalence (Some before) (Some after);
          st = (if changes \<noteq> IDENTICAL then if db_primary_file_modified s then st else WARNING
                else if db_primary_file_modified s then WARNING else st)
      in provide st s)"

definition status_of_changes :: "Config \<Rightarrow> stat option \<Rightarrow> launch \<Rightarrow> app action" where
  "status_of_changes c found l s =
     (let (st, s) =
            (if \<not> conf_compare c \<and> \<not> global_interrupt_flag s then
               if db_primary_file_exists l then db_check_changes found l s else (SUCCESS, s)
             else (SUCCESS, s))
      in provide st s)"

end
