(* ===== verification/Program.thy ===== *)
theory Program
  imports Startup
begin

text \<open>
  The sequence of a run (\<open>precizer.c\<close>), from the end of the option parsing on: every step is guarded by
  \<open>run()\<close>, so a failure, a warning or a signal skips all that follows; the messages and the closing of
  the database happen in any case.
\<close>

section \<open>What the run works on\<close>

text \<open>The state beside the process state: the findings of the startup, the primary file, its prefixes.\<close>

record session =
  found_out :: launch
  primary_file :: dbfile
  prefix_tables :: path_tables
  printed_messages :: "message list"

text \<open>
  What the options and the system give to a run: the options outside \<open>Config\<close>, the roots as text and as
  the library delivers them, the file system at the start, the answers to the calls that are made once.
\<close>

record surroundings =
  opt_force :: bool
  opt_silent :: bool
  opt_compare_filter :: u32
  given_roots :: "bytes list"
  root_entries :: "root list"
  files_found :: file_system
  handlers_set :: "bool \<times> bool \<times> bool"
  host_name :: "bytes option"
  path_copied :: bool
  check_copied :: bool
  check_responses :: "bytes list"
  journal_mode :: "bytes option"
  check_stats :: "bool \<times> bool"
  compared_files :: "compared list"
  root_directory :: "errno option"
  root_closed :: bool
  remembered :: "bytes list"
  vacuum_stats :: "bool \<times> bool"
  stat_at_exit :: "stat option"

section \<open>The sequence\<close>

text \<open>\<open>run(step())\<close> and \<open>call(step())\<close> for a step that also works on the session.\<close>

definition run_on ::
  "('x \<Rightarrow> app \<Rightarrow> ret \<times> app \<times> 'x) \<Rightarrow> ret \<times> app \<times> 'x \<Rightarrow> ret \<times> app \<times> 'x" where
  "run_on step state =
     (case state of (st, s, x) \<Rightarrow>
        if has AWAITING st \<or> has SKIP st then
          let (st, s) = run (\<lambda>s. (SUCCESS, s)) st s in (st, s, x)
        else
          let (returned, s, x) = step x s;
              (st, s) = run (\<lambda>_. (returned, s)) st s
          in (st, s, x))"

definition call_on :: "app action \<Rightarrow> ret \<times> app \<times> 'x \<Rightarrow> ret \<times> app \<times> 'x" where
  "call_on step state = (case state of (st, s, x) \<Rightarrow> let (st, s) = call step st s in (st, s, x))"

definition on_process :: "app action \<Rightarrow> 'x \<Rightarrow> app \<Rightarrow> ret \<times> app \<times> 'x" where
  "on_process step x s = (let (st, s) = step s in (st, s, x))"

text \<open>The steps up to the opened database.\<close>

definition determine_name_step :: "Config \<Rightarrow> surroundings \<Rightarrow> heap \<Rightarrow> session \<Rightarrow> app \<Rightarrow> ret \<times> app \<times> session" where
  "determine_name_step c w heap x s =
     (let (st, s, l) = db_determine_name c heap (host_name w) (found_out x) s in (st, s, x\<lparr>found_out := l\<rparr>))"

definition existence_step :: "surroundings \<Rightarrow> session \<Rightarrow> app \<Rightarrow> ret \<times> app \<times> session" where
  "existence_step w x s =
     (let (st, s, l) = db_primary_file_validate_existence (files_found w) (path_copied w) (found_out x) s
      in (st, s, x\<lparr>found_out := l\<rparr>))"

definition mode_step :: "Config \<Rightarrow> session \<Rightarrow> app \<Rightarrow> ret \<times> app \<times> session" where
  "mode_step c x s = (let (st, s, l) = db_determine_mode c (found_out x) s in (st, s, x\<lparr>found_out := l\<rparr>))"

definition file_test_step :: "Config \<Rightarrow> surroundings \<Rightarrow> session \<Rightarrow> app \<Rightarrow> ret \<times> app \<times> session" where
  "file_test_step c w x s =
     (let (st, s, d) = db_primary_file_test c (check_copied w) (check_responses w) (journal_mode w) (check_stats w)
                         (found_out x) (primary_file x) s
      in (st, s, x\<lparr>primary_file := d\<rparr>))"

definition init_step :: "Config \<Rightarrow> file_reader \<Rightarrow> session \<Rightarrow> app \<Rightarrow> ret \<times> app \<times> session" where
  "init_step c reads x s =
     (let (st, s, l, d, t) = db_init c reads (found_out x) (primary_file x) (prefix_tables x) s
      in (st, s, x\<lparr>found_out := l, primary_file := d, prefix_tables := t\<rparr>))"

text \<open>The steps on the opened database.\<close>

definition compare_step ::
  "Config \<Rightarrow> surroundings \<Rightarrow> regex_engine \<Rightarrow> heap \<Rightarrow> session \<Rightarrow> app \<Rightarrow> ret \<times> app \<times> session" where
  "compare_step c w rx heap x s =
     (let (st, s, dbs, out) = db_compare c (opt_compare_filter w) (db_primary_file_exists (found_out x)) rx heap
                                (compared_files w) s
      in (st, s, x\<lparr>printed_messages := out\<rparr>))"

definition contains_data_step :: "Config \<Rightarrow> session \<Rightarrow> app \<Rightarrow> ret \<times> app \<times> session" where
  "contains_data_step c x s =
     (let (st, s, l) = db_contains_data c (prefix_tables x) (found_out x) s in (st, s, x\<lparr>found_out := l\<rparr>))"

definition validate_paths_step :: "Config \<Rightarrow> surroundings \<Rightarrow> heap \<Rightarrow> session \<Rightarrow> app \<Rightarrow> ret \<times> app \<times> session" where
  "validate_paths_step c w heap x s =
     (let (st, s, t) = db_validate_paths c (opt_force w) (opt_silent w) (db_primary_file_exists (found_out x)) heap
                         (given_roots w) s (prefix_tables x)
      in (st, s, x\<lparr>prefix_tables := t\<rparr>))"

definition save_prefixes_step :: "Config \<Rightarrow> surroundings \<Rightarrow> session \<Rightarrow> app \<Rightarrow> ret \<times> app \<times> session" where
  "save_prefixes_step c w x s =
     (let (st, s, t) = db_save_prefixes c (opt_force w) (db_primary_file_exists (found_out x)) (given_roots w) s
                         (prefix_tables x)
      in (st, s, x\<lparr>prefix_tables := t\<rparr>))"

definition cleanup_step ::
  "Config \<Rightarrow> surroundings \<Rightarrow> regex_engine \<Rightarrow> heap \<Rightarrow> session \<Rightarrow> app \<Rightarrow> ret \<times> app \<times> session" where
  "cleanup_step c w rx heap x s =
     on_process (db_delete_missing_metadata c rx heap (map (\<lambda>r. Some (snd r)) (paths (prefix_tables x)))
       (root_directory w) (root_closed w)) x s"

text \<open>The three parts of \<open>main\<close> after \<open>compile_patterns\<close>.\<close>

definition open_database ::
  "Config \<Rightarrow> surroundings \<Rightarrow> heap \<Rightarrow> file_reader \<Rightarrow> ret \<times> app \<times> session \<Rightarrow> ret \<times> app \<times> session" where
  "open_database c w heap reads state =
     (let state = run_on (on_process (paths_detect c (files_found w) (given_roots w))) state;
          state = run_on (on_process (init_signals (handlers_set w))) state;
          state = run_on (determine_name_step c w heap) state;
          state = run_on (existence_step w) state;
          state = run_on (mode_step c) state;
          state = run_on (file_test_step c w) state
      in run_on (init_step c reads) state)"

definition check_database ::
  "Config \<Rightarrow> surroundings \<Rightarrow> regex_engine \<Rightarrow> heap \<Rightarrow> ret \<times> app \<times> session \<Rightarrow> ret \<times> app \<times> session" where
  "check_database c w rx heap state =
     (let state = run_on (compare_step c w rx heap) state;
          state = run_on (contains_data_step c) state
      in run_on (validate_paths_step c w heap) state)"

definition scan_and_clean ::
  "Config \<Rightarrow> surroundings \<Rightarrow> regex_engine \<Rightarrow> heap \<Rightarrow> ret \<times> app \<times> session \<Rightarrow> ret \<times> app \<times> session" where
  "scan_and_clean c w rx heap state =
     (let state = run_on (save_prefixes_step c w) state;
          state = run_on (on_process (file_list c rx heap True (root_entries w))) state;
          state = run_on (on_process (file_list c rx heap False (root_entries w))) state
      in run_on (cleanup_step c w rx heap) state)"

definition finish_run ::
  "Config \<Rightarrow> surroundings \<Rightarrow> ret \<times> app \<times> session \<Rightarrow> ret \<times> app \<times> session" where
  "finish_run c w state =
     (let state = (case state of (st, s, x) \<Rightarrow>
            call_on (show_remembered_messages c (remembered w) (found_out x)) state);
          state = (case state of (st, s, x) \<Rightarrow>
            call_on (db_close (db_connected (found_out x)) (db_primary_file_modified s)) state);
          state = run_on (on_process (db_primary_consider_vacuum c (fst (vacuum_stats w)) (snd (vacuum_stats w)))) state
      in run_on (\<lambda>x. on_process (status_of_changes c (stat_at_exit w) (found_out x)) x) state)"

text \<open>
  \<open>parsed\<close> is what \<open>parse_arguments\<close> and \<open>compile_patterns\<close> have left; the result is the exit code with
  the final states.
\<close>

definition main ::
  "Config \<Rightarrow> surroundings \<Rightarrow> regex_engine \<Rightarrow> heap \<Rightarrow> file_reader \<Rightarrow> ret \<Rightarrow> app \<Rightarrow> session
     \<Rightarrow> ret \<times> app \<times> session" where
  "main c w rx heap reads parsed s x =
     (let state = open_database c w heap reads (parsed, s, x);
          state = check_database c w rx heap state;
          state = scan_and_clean c w rx heap state;
          (st, s, x) = finish_run c w state
      in (exit_status st s, s, x))"

end
