(* ===== verification/Program_Correct.thy ===== *)
theory Program_Correct
  imports Program Compare_Correct Prefixes_Correct Scan_Properties
begin

text \<open>
  What a whole run does to the primary database up to its traversal, and that a run which is refused for
  its roots changes nothing.
\<close>

section \<open>Running a step\<close>

lemma run_on_skipped:
  assumes "stopping st \<or> has AWAITING st"
  shows "\<exists>st'. run_on step (st, s, x) = (st', s, x) \<and> stopping st'"
  using assms by (auto simp: run_on_def run_def stopping_skip Let_def)

lemma skipped_step:
  assumes "stopping st"
  obtains st' where "run_on step (st, s, x) = (st', s, x)" "stopping st'"
  using run_on_skipped [OF disjI1 [OF assms], of step s x] by (elim exE conjE)

lemma sane_cleaned [simp]: "sane s \<Longrightarrow> s\<lparr>global_return_status := clean_flags (global_return_status s)\<rparr> = s"
  by (simp add: sane_def)

lemma normalize_sane: "sane s \<Longrightarrow> rational_normalize_return w s = (fst (rational_normalize_return w s), s)"
  by (simp add: rational_normalize_return_def sane_def Let_def)

lemma run_on_performed:
  assumes "\<not> stopping st" "\<not> has AWAITING st" "step x s = (w, s1, x1)" "sane s1"
  shows "\<exists>st'. run_on step (st, s, x) = (st', s1, x1) \<and> (stopping w \<longrightarrow> stopping st')"
proof -
  let ?n = "rational_normalize_return (st OR w) s1"
  have e: "run_on step (st, s, x) = (if has AWAITING w then (FAILURE, s1, x1) else (fst ?n, s1, x1))"
    using assms normalize_sane [OF assms(4), of "st OR w"]
    by (auto simp: run_on_def run_def stopping_skip split: prod.splits)
  have "stopping w \<Longrightarrow> stopping (fst ?n)"
    using assms(4) by (auto simp: stopping_def sane_def Let_def bit_or_iff)
  then show ?thesis using e by (auto simp: stopping_def split: if_splits)
qed

text \<open>A fact about the states that a step passes on, and what a step that lets the run go on tells.\<close>

lemma run_on_fact:
  assumes "run_on step (st, s, x) = (st', s', x')" "J s x"
    and "\<And>w s1 x1. step x s = (w, s1, x1) \<Longrightarrow> J s1 x1 \<and> sane s1"
  shows "J s' x'" "\<not> stopping st' \<Longrightarrow> \<not> stopping st \<and> (\<exists>w. step x s = (w, s', x') \<and> \<not> stopping w)"
proof -
  obtain w s1 x1 where e: "step x s = (w, s1, x1)" by (cases "step x s")
  have "J s' x' \<and> (\<not> stopping st' \<longrightarrow> \<not> stopping st \<and> (\<exists>w. step x s = (w, s', x') \<and> \<not> stopping w))"
  proof (cases "stopping st \<or> has AWAITING st")
    case True
    then show ?thesis using run_on_skipped [OF True, of step s x] assms(1,2) by auto
  next
    case False
    then show ?thesis
      using run_on_performed [of st step x s w s1 x1] e assms(1) assms(3) [OF e] by auto
  qed
  then show "J s' x'" "\<not> stopping st' \<Longrightarrow> \<not> stopping st \<and> (\<exists>w. step x s = (w, s', x') \<and> \<not> stopping w)"
    by blast+
qed

lemma on_process_state: "on_process f x s = (fst (f s), snd (f s), x)"
  by (simp add: on_process_def case_prod_beta)

section \<open>The steps before the database is opened\<close>

lemma provide_sane: "sane s \<Longrightarrow> provide w s = (fst (provide w s), s)"
  using settled_provide(2) by (simp add: provide_def sane_def rational_normalize_return_def Let_def case_prod_beta)

lemma provide_keeps [simp]: "sane s \<Longrightarrow> snd (provide w s) = s"
  using provide_sane by (metis snd_conv)

lemma startup_states:
  assumes "sane s"
  shows "snd (paths_detect c fs roots s) = s" "snd (init_signals hs s) = s"
    "fst (snd (db_determine_name c heap nodename l s)) = s"
    "fst (snd (db_primary_file_validate_existence fs copied l s)) = s"
    "fst (snd (db_determine_mode c l s)) = s"
proof -
  have p: "snd (provide w s) = s" for w using provide_sane [OF assms] by (metis snd_conv)
  show "snd (paths_detect c fs roots s) = s" "snd (init_signals hs s) = s"
    using p by (simp_all add: paths_detect_def init_signals_def Let_def split: prod.splits)
  show "fst (snd (db_determine_name c heap nodename l s)) = s"
    using p by (simp add: db_determine_name_def case_prod_beta Let_def)
  show "fst (snd (db_primary_file_validate_existence fs copied l s)) = s"
    using p by (simp add: db_primary_file_validate_existence_def case_prod_beta Let_def)
  show "fst (snd (db_determine_mode c l s)) = s"
    using p by (simp add: db_determine_mode_def case_prod_beta Let_def)
qed

section \<open>Statements that change nothing\<close>

text \<open>Outside a transaction, with the rows and the prefixes on disk and in sight as they were.\<close>

definition still :: "app \<Rightarrow> app \<Rightarrow> bool" where
  "still s s' \<longleftrightarrow> sane s' \<and> (autocommit s \<longrightarrow> autocommit s' \<and> table s' = table s \<and> committed s' = committed s
     \<and> file_transaction_active s' = file_transaction_active s)"

lemma still_refl: "sane s \<Longrightarrow> still s s"
  by (simp add: still_def)

lemma still_trans: "still s s1 \<Longrightarrow> still s1 s2 \<Longrightarrow> still s s2"
  by (auto simp: still_def)

lemma still_answer:
  assumes "sql_answer s = (rc, s')" "sane s"
  shows "still s s'"
proof -
  have t: "autocommit (tick x) = autocommit x" "table (tick x) = table x" "committed (tick x) = committed x"
    "file_transaction_active (tick x) = file_transaction_active x" for x
    by (auto simp: tick_def signal_notify_quit_handler_def Let_def split: list.split)
  have "sane s'" using sql_answer_later(1) [OF assms(2,1)] by (rule later_sane)
  moreover have "autocommit s \<Longrightarrow> autocommit (snd (sql_answer s)) \<and> table (snd (sql_answer s)) = table s
      \<and> committed (snd (sql_answer s)) = committed s
      \<and> file_transaction_active (snd (sql_answer s)) = file_transaction_active s"
    by (simp add: sql_answer_def t split: list.split sql_answer.split)
  ultimately show ?thesis using assms(1) by (simp add: still_def)
qed

lemma still_ok: "sql_ok s = (b, s') \<Longrightarrow> still s0 s \<Longrightarrow> still s0 s'"
  using still_answer [of s] still_trans by (auto simp: sql_ok_def still_def split: prod.splits)

lemma still_provide: "still s0 s \<Longrightarrow> still s0 (snd (provide w s))"
  using provide_sane [of s w] by (metis still_def snd_conv)

lemma still_paths_exec:
  assumes "paths_exec f s t = (ok, s', t')" "still s0 s" "autocommit s0" "paths t = committed_paths t"
    and "paths (f t) = paths t" "committed_paths (f t) = committed_paths t"
  shows "still s0 s' \<and> paths t' = paths t \<and> committed_paths t' = committed_paths t"
proof -
  obtain rc s1 where a: "sql_answer s = (rc, s1)" by (cases "sql_answer s")
  have "autocommit s" "sane s" using assms(2,3) by (simp_all add: still_def)
  then show ?thesis
    using assms a still_trans [OF assms(2) still_answer [OF a]]
    by (auto simp: paths_exec_def Let_def split: sql_answer.splits)
qed

lemma mismatch_loop_still:
  assumes "mismatch_loop ids st s t eq = (st', s', t', eq')" "still s0 s" "autocommit s0" "paths t = committed_paths t"
  shows "still s0 s' \<and> paths t' = paths t \<and> committed_paths t' = committed_paths t"
  using assms
proof (induction ids arbitrary: st s t eq)
  case Nil
  obtain ok s1 t1 where e: "paths_exec id s t = (ok, s1, t1)" by (cases "paths_exec id s t")
  show ?case using Nil.prems(1) still_paths_exec [OF e Nil.prems(2-4)] e
    by (subst (asm) mismatch_loop.simps) (cases ok; simp)
next
  case (Cons i ids)
  obtain ok s1 t1 where e: "paths_exec id s t = (ok, s1, t1)" by (cases "paths_exec id s t")
  have r1: "still s0 s1" "paths t1 = committed_paths t1" "paths t1 = paths t" "committed_paths t1 = committed_paths t"
    using still_paths_exec [OF e Cons.prems(2-4)] Cons.prems(4) by auto
  obtain ok2 s2 t2 where e2: "paths_exec id s1 t1 = (ok2, s2, t2)" by (cases "paths_exec id s1 t1")
  have r2: "still s0 s2" "paths t2 = committed_paths t2" "paths t2 = paths t" "committed_paths t2 = committed_paths t"
    using still_paths_exec [OF e2 r1(1) Cons.prems(3) r1(2)] r1 by auto
  define st2 where "st2 = (if ok2 then st else FAILURE)"
  obtain ok3 s3 t3 where e3: "(if st2 = SUCCESS then paths_exec (remember_id i) s2 t2 else (True, s2, t2)) = (ok3, s3, t3)"
    by (cases "if st2 = SUCCESS then paths_exec (remember_id i) s2 t2 else (True, s2, t2)")
  have r3: "still s0 s3" "paths t3 = committed_paths t3" "paths t3 = paths t" "committed_paths t3 = committed_paths t"
    using e3 r2 still_paths_exec [OF _ r2(1) Cons.prems(3) r2(2), of "remember_id i" ok3 s3 t3]
    by (auto simp: remember_id_def split: if_splits)
  define st3 where "st3 = (if ok3 then st2 else FAILURE)"
  have ev: "(if \<not> ok then (FAILURE, s1, t1, eq)
     else if i \<noteq> - 1 then mismatch_loop ids st3 s3 t3 False else mismatch_loop ids st s1 t1 eq) = (st', s', t', eq')"
    using Cons.prems(1) e3
    by (subst (asm) mismatch_loop.simps) (simp add: e e2 st2_def st3_def Let_def cong: if_cong split: prod.splits)
  show ?case
  proof (cases "ok \<and> i \<noteq> - 1")
    case True
    then have "mismatch_loop ids st3 s3 t3 False = (st', s', t', eq')" using ev by simp
    from Cons.IH [OF this r3(1) Cons.prems(3) r3(2)] r3 show ?thesis by simp
  next
    case False
    show ?thesis
    proof (cases ok)
      case True
      with False have "mismatch_loop ids st s1 t1 eq = (st', s', t', eq')" using ev by simp
      from Cons.IH [OF this r1(1) Cons.prems(3) r1(2)] r1 show ?thesis by simp
    qed (use ev r1 in auto)
  qed
qed

lemma display_loop_still:
  assumes "display_loop rows s t = (ok, s', t')" "still s0 s" "autocommit s0" "paths t = committed_paths t"
  shows "still s0 s' \<and> paths t' = paths t \<and> committed_paths t' = committed_paths t"
  using assms
proof (induction rows arbitrary: s t)
  case Nil
  obtain ok1 s1 t1 where e: "paths_exec id s t = (ok1, s1, t1)" by (cases "paths_exec id s t")
  show ?case using Nil.prems(1) still_paths_exec [OF e Nil.prems(2-4)] e
    by (subst (asm) display_loop.simps) (cases ok1; simp)
next
  case (Cons r rows)
  obtain ok1 s1 t1 where e: "paths_exec id s t = (ok1, s1, t1)" by (cases "paths_exec id s t")
  have r1: "still s0 s1" "paths t1 = committed_paths t1" "paths t1 = paths t" "committed_paths t1 = committed_paths t"
    using still_paths_exec [OF e Cons.prems(2-4)] Cons.prems(4) by auto
  show ?case
  proof (cases ok1)
    case True
    then have "display_loop rows s1 t1 = (ok, s', t')"
      using Cons.prems(1) e by (subst (asm) display_loop.simps) simp
    from Cons.IH [OF this r1(1) Cons.prems(3) r1(2)] r1 show ?thesis by simp
  next
    case False
    then show ?thesis using Cons.prems(1) e r1 by (subst (asm) display_loop.simps) simp
  qed
qed

lemma show_prefixes_still:
  assumes "show_prefixes st s t = (st', s', t')" "still s0 s" "autocommit s0" "paths t = committed_paths t"
  shows "still s0 s' \<and> paths t' = paths t \<and> committed_paths t' = committed_paths t"
proof -
  obtain ok s1 t1 where e: "paths_exec id s t = (ok, s1, t1)" by (cases "paths_exec id s t")
  have r1: "still s0 s1" "paths t1 = committed_paths t1" "paths t1 = paths t" "committed_paths t1 = committed_paths t"
    using still_paths_exec [OF e assms(2-4)] assms(4) by auto
  show ?thesis
  proof (cases "ok \<and> st = SUCCESS")
    case True
    obtain b s2 t2 where d: "display_loop (paths t1) s1 t1 = (b, s2, t2)" by (cases "display_loop (paths t1) s1 t1")
    have "s' = s2" "t' = t2" using assms(1) e d True by (simp_all add: show_prefixes_def)
    then show ?thesis using display_loop_still [OF d r1(1) assms(3) r1(2)] r1(3,4) by simp
  next
    case False
    then have "s' = s1" "t' = t1" using assms(1) e by (auto simp: show_prefixes_def split: if_splits)
    then show ?thesis using r1(1,3,4) by simp
  qed
qed

lemma validate_paths_still:
  assumes "db_validate_paths c force silent exists heap roots s t = (st, s', t')" "sane s" "autocommit s"
    and "paths t = committed_paths t"
  shows "still s s' \<and> paths t' = paths t \<and> committed_paths t' = committed_paths t"
proof -
  have s0: "still s s" using assms(2) by (rule still_refl)
  define built where "built = append_literals s heap (mem_init 1 True) (query_literals roots)"
  obtain ok s1 t1 where e: "paths_exec id s t = (ok, s1, t1)" by (cases "paths_exec id s t")
  have r1: "still s s1" "paths t1 = committed_paths t1" "paths t1 = paths t" "committed_paths t1 = committed_paths t"
    using still_paths_exec [OF e s0 assms(3,4)] assms(4) by auto
  define st1 where "st1 = (if ok then SUCCESS else FAILURE)"
  obtain st2 s2 t2 eq where e2: "(if st1 = SUCCESS then
       if roots = [] then (FAILURE, s1, t1, True) else mismatch_loop (foreign_ids roots (paths t1)) st1 s1 t1 True
     else (st1, s1, t1, True)) = (st2, s2, t2, eq)"
    by (cases "if st1 = SUCCESS then
       if roots = [] then (FAILURE, s1, t1, True) else mismatch_loop (foreign_ids roots (paths t1)) st1 s1 t1 True
     else (st1, s1, t1, True)")
  have r2: "still s s2" "paths t2 = committed_paths t2" "paths t2 = paths t" "committed_paths t2 = committed_paths t"
  proof -
    have "still s s2 \<and> paths t2 = paths t1 \<and> committed_paths t2 = committed_paths t1"
    proof (cases "st1 = SUCCESS \<and> roots \<noteq> []")
      case True
      then have "mismatch_loop (foreign_ids roots (paths t1)) st1 s1 t1 True = (st2, s2, t2, eq)" using e2 by simp
      from mismatch_loop_still [OF this r1(1) assms(3) r1(2)] show ?thesis .
    next
      case False
      then have "s2 = s1" "t2 = t1" using e2 by (simp_all split: if_splits)
      then show ?thesis using r1(1) by simp
    qed
    then show "still s s2" "paths t2 = committed_paths t2" "paths t2 = paths t" "committed_paths t2 = committed_paths t"
      using r1 by simp_all
  qed
  obtain st3 s3 t3 where e3: "(if st2 = SUCCESS \<and> exists \<and> \<not> eq then
      let (st, s, t) = (if silent then (st2, s2, t2) else show_prefixes st2 s2 t2)
      in (if force then st else WARNING, s, t) else (st2, s2, t2)) = (st3, s3, t3)"
    by (cases "if st2 = SUCCESS \<and> exists \<and> \<not> eq then
      let (st, s, t) = (if silent then (st2, s2, t2) else show_prefixes st2 s2 t2)
      in (if force then st else WARNING, s, t) else (st2, s2, t2)")
  have r3: "still s s3" "paths t3 = paths t" "committed_paths t3 = committed_paths t"
  proof -
    obtain w4 s4 t4 where w: "(if silent then (st2, s2, t2) else show_prefixes st2 s2 t2) = (w4, s4, t4)"
      by (cases "if silent then (st2, s2, t2) else show_prefixes st2 s2 t2")
    have "still s s4 \<and> paths t4 = paths t2 \<and> committed_paths t4 = committed_paths t2"
    proof (cases silent)
      case False
      then have "show_prefixes st2 s2 t2 = (w4, s4, t4)" using w by simp
      from show_prefixes_still [OF this r2(1) assms(3) r2(2)] show ?thesis .
    qed (use w r2(1) in simp)
    moreover have "s3 = s4 \<and> t3 = t4 \<or> s3 = s2 \<and> t3 = t2"
      using e3 w by (simp split: if_splits)
    ultimately have "still s s3 \<and> paths t3 = paths t2 \<and> committed_paths t3 = committed_paths t2" using r2(1) by metis
    then show "still s s3" "paths t3 = paths t" "committed_paths t3 = committed_paths t" using r2(3,4) by simp_all
  qed
  have late: "db_validate_paths c force silent exists heap roots s t = (let (st, s) = provide st3 s3 in (st, s, t3))"
    if "\<not> conf_compare c" "\<not> halted s" "\<not> built \<noteq> SUCCESS"
    using that by (simp only: db_validate_paths_def Let_def built_def [symmetric] e prod.case st1_def [symmetric] e2
        e3 [unfolded Let_def] simp_thms if_False)
  have early: "db_validate_paths c force silent exists heap roots s t = (let (st, s) = provide w s in (st, s, t))"
    if "w = (if conf_compare c \<or> halted s then SUCCESS else built)" "conf_compare c \<or> halted s \<or> built \<noteq> SUCCESS" for w
    using that by (auto simp: db_validate_paths_def built_def [symmetric])
  show ?thesis
  proof (cases "conf_compare c \<or> halted s \<or> built \<noteq> SUCCESS")
    case True
    from early [OF refl True] show ?thesis using assms(1) still_provide [OF s0] by (auto split: prod.splits) (metis snd_conv)+
  next
    case False
    then show ?thesis using assms(1) late still_provide [OF r3(1), of st3] r3(2,3) by (simp split: prod.splits)
  qed
qed

lemma contains_data_still:
  assumes "db_contains_data c t l s = (st, s', l')" "sane s"
  shows "still s s' \<and> l'\<lparr>holds_data := holds_data l\<rparr> = l"
proof -
  have s0: "still s s" using assms(2) by (rule still_refl)
  obtain b1 s1 where e1: "sql_ok s = (b1, s1)" by (cases "sql_ok s")
  note r1 = still_ok [OF e1 s0]
  obtain b2 s2 where e2: "sql_ok s1 = (b2, s2)" by (cases "sql_ok s1")
  note r2 = still_ok [OF e2 r1]
  obtain b3 s3 where e3: "sql_ok s2 = (b3, s3)" by (cases "sql_ok s2")
  note r3 = still_ok [OF e3 r2]
  have k: "\<exists>w. s' = snd (provide w s) \<or> s' = snd (provide w s1) \<or> s' = snd (provide w s2) \<or> s' = snd (provide w s3)"
    using assms(1) by (auto simp: db_contains_data_def e1 e2 e3 Let_def split: if_splits prod.splits; metis snd_conv)
  have "l'\<lparr>holds_data := holds_data l\<rparr> = l"
    using assms(1) by (auto simp: db_contains_data_def e1 e2 e3 Let_def split: if_splits prod.splits)
  then show ?thesis using k still_provide s0 r1 r2 r3 by blast
qed

lemma remembered_loop_still: "remembered_loop ms s = (b, s') \<Longrightarrow> still s0 s \<Longrightarrow> still s0 s'"
proof (induction ms arbitrary: s)
  case Nil
  obtain b1 s1 where e: "sql_ok s = (b1, s1)" by (cases "sql_ok s")
  show ?case using Nil still_ok [OF e] e by (subst (asm) remembered_loop.simps) (cases b1; simp)
next
  case (Cons m ms)
  obtain b1 s1 where e: "sql_ok s = (b1, s1)" by (cases "sql_ok s")
  have "remembered_loop ms s1 = (b, s') \<or> s' = s1"
    using Cons.prems(1) e by (subst (asm) remembered_loop.simps) (cases b1; simp)
  then show ?case using Cons.IH still_ok [OF e Cons.prems(2)] by blast
qed

lemma show_remembered_still:
  assumes "sane s"
  shows "still s (snd (show_remembered_messages c ms l s))"
proof -
  have s0: "still s s" using assms by (rule still_refl)
  obtain b1 s1 where e1: "sql_ok s = (b1, s1)" by (cases "sql_ok s")
  note r1 = still_ok [OF e1 s0]
  obtain b2 s2 where e2: "remembered_loop ms s1 = (b2, s2)" by (cases "remembered_loop ms s1")
  note r2 = remembered_loop_still [OF e2 r1]
  show ?thesis
    using still_provide [OF s0] still_provide [OF r1] still_provide [OF r2]
    by (simp add: show_remembered_messages_def e1 e2)
qed

lemma close_still:
  assumes "sane s"
  shows "still s (snd (db_close linked modified s))"
proof -
  have s0: "still s s" using assms by (rule still_refl)
  obtain b1 s1 where e1: "(if modified then sql_ok s else (True, s)) = (b1, s1)" by (cases "if modified then sql_ok s else (True, s)")
  have r1: "still s s1" using e1 s0 still_ok [OF _ s0] by (auto split: if_splits)
  obtain b2 s2 where e2: "sql_ok s1 = (b2, s2)" by (cases "sql_ok s1")
  note r2 = still_ok [OF e2 r1]
  obtain b3 s3 where e3: "sql_ok s2 = (b3, s3)" by (cases "sql_ok s2")
  note r3 = still_ok [OF e3 r2]
  show ?thesis using still_provide [OF s0] still_provide [OF r3] by (simp add: db_close_def e1 e2 e3)
qed

lemma call_still: "sane s \<Longrightarrow> still s (snd (f s)) \<Longrightarrow> still s (snd (call f w s))"
proof -
  assume s: "sane s" "still s (snd (f s))"
  have n: "snd (rational_normalize_return v (snd (f s))) = snd (f s)" for v
  proof -
    have "sane (snd (f s))" using s(2) by (simp add: still_def)
    from arg_cong [OF normalize_sane [OF this, of v], of snd] show ?thesis unfolding snd_conv .
  qed
  have "snd (call f w s) = s \<or> snd (call f w s) = snd (f s)"
    unfolding call_def case_prod_beta Let_def if_distrib [of snd] n by simp
  then show ?thesis using s(2) still_refl [OF s(1)] by metis
qed

section \<open>The opened database\<close>

text \<open>The content a connection to the primary database starts with.\<close>

definition content_seen :: "file_reader \<Rightarrow> session \<Rightarrow> row list \<times> (int \<times> bytes) list" where
  "content_seen reads x =
     (if db_primary_path_is_memory (found_out x) \<or> \<not> db_primary_file_exists (found_out x) then ([], [])
      else reads (primary_file x))"

text \<open>
  Once the database is open, its rows and prefixes are as the file says; \<open>a\<close> is the mark of an open batch
  transaction.
\<close>

definition untouched :: "file_reader \<Rightarrow> bool \<Rightarrow> app \<Rightarrow> session \<Rightarrow> bool" where
  "untouched reads a s x \<longleftrightarrow> sane s \<and> (db_connected (found_out x) \<longrightarrow>
     autocommit s \<and> file_transaction_active s = a \<and> table s = fst (content_seen reads x) \<and> committed s = fst (content_seen reads x)
     \<and> paths (prefix_tables x) = snd (content_seen reads x) \<and> committed_paths (prefix_tables x) = snd (content_seen reads x))"

text \<open>Before the mode is known, and before the database is opened; \<open>Q\<close> is what is known of the file.\<close>

definition before_mode :: "(app \<Rightarrow> dbfile \<Rightarrow> bool) \<Rightarrow> app \<Rightarrow> session \<Rightarrow> bool" where
  "before_mode Q s x \<longleftrightarrow> sane s \<and> \<not> db_connected (found_out x) \<and> Q s (primary_file x)"

definition before_open :: "Config \<Rightarrow> app \<Rightarrow> session \<Rightarrow> bool" where
  "before_open c s x \<longleftrightarrow> sane s \<and> \<not> db_connected (found_out x)
     \<and> (db_initialize_tables (found_out x) \<longrightarrow> \<not> db_primary_file_exists (found_out x)
          \<and> (conf_dry_run c \<longrightarrow> sqlite_open_flag (found_out x) = SQL_DRY_RUN_MODE))"

text \<open>The integrity check keeps what is known of the file.\<close>

definition test_keeps :: "(app \<Rightarrow> dbfile \<Rightarrow> bool) \<Rightarrow> Config \<Rightarrow> surroundings \<Rightarrow> bool" where
  "test_keeps Q c w \<longleftrightarrow> (\<forall>s d l. sane s \<and> Q s d \<longrightarrow>
     (case db_primary_file_test c (check_copied w) (check_responses w) (journal_mode w) (check_stats w) l d s of
        (st, s, d) \<Rightarrow> Q s d))"

lemma launch_fields:
  "db_connected (snd (snd (db_determine_name c heap nodename l s))) = db_connected l"
  "db_connected (snd (snd (db_primary_file_validate_existence fs copied l s))) = db_connected l"
  "db_connected (snd (snd (db_determine_mode c l s))) = db_connected l"
  "db_primary_file_exists (snd (snd (db_determine_mode c l s))) = db_primary_file_exists l"
  by (simp_all add: db_determine_name_def db_primary_file_validate_existence_def db_determine_mode_def
      case_prod_beta Let_def split: option.split)

lemma mode_initializes:
  assumes "mode_step c x s = (w, s', x')" "before_mode Q s x" "\<not> stopping w"
  shows "before_open c s' x'"
proof -
  have s: "sane s" using assms(2) by (simp add: before_mode_def)
  have "\<not> halted s"
    using assms s by (auto simp: mode_step_def db_determine_mode_def split: prod.splits)
  then show ?thesis
    using assms(1,2) s by (auto simp: mode_step_def db_determine_mode_def before_mode_def before_open_def case_prod_beta Let_def
        split: if_splits)
qed

lemma file_test_sane:
  assumes "sane s"
  shows "sane (fst (snd (db_primary_file_test c copied responses mode stats l d s)))"
proof -
  obtain w s1 d1 where i: "db_integrity_check c copied True responses mode True stats d s = (w, s1, d1)"
    by (cases "db_integrity_check c copied True responses mode True stats d s")
  have s1: "sane s1"
    using integrity_checked [OF assms, of d c copied True responses mode True stats] i by (simp add: checked_def)
  have r: "snd (run (\<lambda>_. (w, s1)) SUCCESS s1) = s1"
    using s1 by (auto simp: run_def case_prod_beta)
  show ?thesis
    using assms s1 r by (auto simp: db_primary_file_test_def i case_prod_beta)
qed

lemma file_test_kept:
  assumes "file_test_step c w x s = (v, s', x')" "sane s"
  shows "sane s'" "found_out x' = found_out x" "test_keeps Q c w \<Longrightarrow> Q s (primary_file x) \<Longrightarrow> Q s' (primary_file x')"
proof -
  obtain st d where r: "db_primary_file_test c (check_copied w) (check_responses w) (journal_mode w) (check_stats w)
      (found_out x) (primary_file x) s = (st, s', d)" "x' = x\<lparr>primary_file := d\<rparr>"
    using assms(1) by (auto simp: file_test_step_def split: prod.splits)
  then show "sane s'" "found_out x' = found_out x"
    using file_test_sane [OF assms(2), of c "check_copied w" "check_responses w" "journal_mode w" "check_stats w"
        "found_out x" "primary_file x"] by simp_all
  assume "test_keeps Q c w" "Q s (primary_file x)"
  then show "Q s' (primary_file x')"
    using assms(2) r unfolding test_keeps_def by (metis (no_types, lifting) case_prod_conv session.select_convs(2)
        session.surjective session.update_convs(2))
qed

lemma ok_active: "sql_ok s = (b, s') \<Longrightarrow> file_transaction_active s' = file_transaction_active s"
proof -
  have t: "file_transaction_active (tick x) = file_transaction_active x" for x
    by (auto simp: tick_def signal_notify_quit_handler_def Let_def split: list.split)
  have "file_transaction_active (snd (sql_answer s)) = file_transaction_active s"
    by (simp add: sql_answer_def t split: list.split sql_answer.split)
  then show "sql_ok s = (b, s') \<Longrightarrow> file_transaction_active s' = file_transaction_active s"
    by (auto simp: sql_ok_def split: prod.splits)
qed

lemma init_untouched:
  assumes "before_open c s x" "init_step c reads x s = (w, s', x')" "\<not> conf_compare c"
  shows "untouched reads (file_transaction_active s) s' x' \<and> sane s'" "conf_dry_run c \<Longrightarrow> primary_file x' = primary_file x"
proof -
  define l0 where "l0 = (if sqlite_open_flag (found_out x) = SQL_DRY_RUN_MODE
    then (found_out x)\<lparr>db_primary_path_is_memory := True, sqlite_open_flag := SQLITE_OPEN_READWRITE\<rparr> else found_out x)"
  obtain b1 s1 where e1: "sql_ok s = (b1, s1)" by (cases "sql_ok s")
  define l where "l = l0\<lparr>db_connected := b1 \<or> conf_compare c\<rparr>"
  have s: "sane s" "\<not> db_connected (found_out x)" "db_initialize_tables l \<Longrightarrow> \<not> db_primary_file_exists l" "db_connected l = b1"
    "conf_dry_run c \<Longrightarrow> db_initialize_tables l \<Longrightarrow> db_primary_path_is_memory l"
    using assms(1,3) by (auto simp: before_open_def l_def l0_def split: if_splits)
  have s1: "sane s1" using ok_sane [OF e1 s(1)] .
  define content where "content = (if db_primary_path_is_memory l \<or> \<not> db_primary_file_exists l then ([], []) else reads (primary_file x))"
  obtain s2 t2 where e2: "(if \<not> b1 then (s1, prefix_tables x) else open_tables content s1 (prefix_tables x)) = (s2, t2)"
    by (cases "if \<not> b1 then (s1, prefix_tables x) else open_tables content s1 (prefix_tables x)")
  have a: "file_transaction_active s2 = file_transaction_active s"
    using ok_active [OF e1] e2 by (auto simp: open_tables_def split: if_splits)
  have s2: "sane s2" using e2 s1 by (auto simp: open_tables_def sane_def split: if_splits)
  have r2: "still s2 s2" using s2 by (rule still_refl)
  define st where "st = (if b1 \<or> conf_compare c then SUCCESS else FAILURE)"
  obtain b3 s3 where e3: "(if db_initialize_tables l \<and> st = SUCCESS then sql_ok s2 else (True, s2)) = (b3, s3)"
    by (cases "if db_initialize_tables l \<and> st = SUCCESS then sql_ok s2 else (True, s2)")
  have r3: "still s2 s3" using e3 r2 still_ok [OF _ r2] by (auto split: if_splits)
  define d where "d = (if db_initialize_tables l \<and> st = SUCCESS \<and> b3 \<and> \<not> db_primary_path_is_memory l then new_file else primary_file x)"
  define st3 where "st3 = (if b3 then st else FAILURE)"
  obtain b4 s4 where e4: "(if st3 = SUCCESS then sql_ok s3 else (True, s3)) = (b4, s4)" by (cases "if st3 = SUCCESS then sql_ok s3 else (True, s3)")
  have r4: "still s2 s4" using e4 r3 still_ok [OF _ r3] by (auto split: if_splits)
  define st4 where "st4 = (if b4 then st3 else FAILURE)"
  obtain b5 s5 where e5: "(if st4 = SUCCESS then sql_ok s4 else (True, s4)) = (b5, s5)" by (cases "if st4 = SUCCESS then sql_ok s4 else (True, s4)")
  have r5: "still s2 s5" using e5 r4 still_ok [OF _ r4] by (auto split: if_splits)
  obtain b6 s6 where e6: "(if st4 = SUCCESS \<and> \<not> conf_compare c then sql_ok s5 else (True, s5)) = (b6, s6)"
    by (cases "if st4 = SUCCESS \<and> \<not> conf_compare c then sql_ok s5 else (True, s5)")
  have r6: "still s2 s6" using e6 r5 still_ok [OF _ r5] by (auto split: if_splits)
  have ev: "db_init c reads (found_out x) (primary_file x) (prefix_tables x) s
      = (let (st, s) = provide (if b6 then st4 else FAILURE) s6 in (st, s, l, d, t2))" if "\<not> halted s"
    using that by (simp only: db_init_def Let_def l0_def [symmetric] e1 prod.case l_def [symmetric] content_def [symmetric]
        st_def [symmetric] e2 e3 d_def [symmetric] st3_def [symmetric] e4 st4_def [symmetric] e5 e6 if_False)
  have "(untouched reads (file_transaction_active s) s' x' \<and> sane s') \<and> (conf_dry_run c \<longrightarrow> primary_file x' = primary_file x)"
  proof (cases "halted s")
    case True
    then have "s' = s" "x' = x" using assms(2) provide_sane [OF s(1), of SUCCESS]
      by (auto simp: init_step_def db_init_def split: prod.splits)
    then show ?thesis using s by (simp add: untouched_def)
  next
    case False
    have p: "sane s6" using r6 by (simp add: still_def)
    have x': "s' = s6" "x' = x\<lparr>found_out := l, primary_file := d, prefix_tables := t2\<rparr>"
      using assms(2) ev [OF False] p by (auto simp: init_step_def case_prod_beta)
    have c: "content_seen reads x' = content"
      using s(3) by (auto simp: content_seen_def x' content_def d_def)
    have d: "conf_dry_run c \<longrightarrow> primary_file x' = primary_file x" using s(5) by (auto simp: x' d_def)
    show ?thesis
    proof (cases b1)
      case True
      then have "s2 = s1\<lparr>table := fst content, committed := fst content, autocommit := True\<rparr>"
        "paths t2 = snd content" "committed_paths t2 = snd content"
        using e2 by (auto simp: open_tables_def)
      then show ?thesis using r6 a c d by (simp add: untouched_def still_def x')
    qed (use r6 s(4) d in \<open>simp add: untouched_def still_def x'\<close>)
  qed
  then show "untouched reads (file_transaction_active s) s' x' \<and> sane s'"
    "conf_dry_run c \<Longrightarrow> primary_file x' = primary_file x" by simp_all
qed

section \<open>A refused run\<close>

lemma opened_untouched:
  assumes "before_mode Q s x" "\<not> conf_compare c" "open_database c w heap reads (st, s, x) = (st', s', x')"
    and keeps: "test_keeps Q c w"
  shows "\<exists>s6 d. untouched reads (file_transaction_active s6) s' x' \<and> Q s6 d \<and> (conf_dry_run c \<longrightarrow> primary_file x' = d)"
proof -
  define r1 where "r1 = run_on (on_process (paths_detect c (files_found w) (given_roots w))) (st, s, x)"
  obtain st1 s1 x1 where e1: "r1 = (st1, s1, x1)" by (cases r1)
  have i1: "before_mode Q s1 x1"
    using run_on_fact(1) [where J = "before_mode Q", OF e1 [unfolded r1_def] assms(1)] assms(1) startup_states(1)
    by (auto simp: on_process_state before_mode_def)
  define r2 where "r2 = run_on (on_process (init_signals (handlers_set w))) r1"
  obtain st2 s2 x2 where e2: "r2 = (st2, s2, x2)" by (cases r2)
  have i2: "before_mode Q s2 x2"
    using run_on_fact(1) [where J = "before_mode Q", OF e2 [unfolded r2_def e1] i1] i1 startup_states(2)
    by (auto simp: on_process_state before_mode_def)
  define r3 where "r3 = run_on (determine_name_step c w heap) r2"
  obtain st3 s3 x3 where e3: "r3 = (st3, s3, x3)" by (cases r3)
  have i3: "before_mode Q s3 x3"
    using run_on_fact(1) [where J = "before_mode Q", OF e3 [unfolded r3_def e2] i2] i2 startup_states(3) launch_fields
    by (auto simp: determine_name_step_def before_mode_def case_prod_beta)
  define r4 where "r4 = run_on (existence_step w) r3"
  obtain st4 s4 x4 where e4: "r4 = (st4, s4, x4)" by (cases r4)
  have i4: "before_mode Q s4 x4"
    using run_on_fact(1) [where J = "before_mode Q", OF e4 [unfolded r4_def e3] i3] i3 startup_states(4) launch_fields
    by (auto simp: existence_step_def before_mode_def case_prod_beta)
  define r5 where "r5 = run_on (mode_step c) r4"
  obtain st5 s5 x5 where e5: "r5 = (st5, s5, x5)" by (cases r5)
  have i5: "before_mode Q s5 x5" "\<not> stopping st5 \<Longrightarrow> before_open c s5 x5"
  proof -
    have k: "before_mode Q s' x' \<and> sane s'" if "mode_step c x4 s4 = (v, s', x')" for v s' x'
      using that i4 startup_states(5) launch_fields by (auto simp: mode_step_def before_mode_def case_prod_beta)
    show "before_mode Q s5 x5"
      by (rule run_on_fact(1) [where J = "before_mode Q", OF e5 [unfolded r5_def e4] i4 k])
    assume n: "\<not> stopping st5"
    have "\<exists>v. mode_step c x4 s4 = (v, s5, x5) \<and> \<not> stopping v"
      using run_on_fact(2) [where J = "before_mode Q", OF e5 [unfolded r5_def e4] i4 _ n] k by blast
    then show "before_open c s5 x5" using mode_initializes i4 by blast
  qed
  define r6 where "r6 = run_on (file_test_step c w) r5"
  obtain st6 s6 x6 where e6: "r6 = (st6, s6, x6)" by (cases r6)
  have i6: "before_mode Q s6 x6" "\<not> stopping st6 \<Longrightarrow> before_open c s6 x6"
  proof -
    have k: "before_mode Q s' x' \<and> sane s'" if "file_test_step c w x5 s5 = (v, s', x')" for v s' x'
      using that i5(1) file_test_kept(1,2) [OF that] file_test_kept(3) [OF that _ keeps] by (simp add: before_mode_def)
    show "before_mode Q s6 x6"
      by (rule run_on_fact(1) [where J = "before_mode Q", OF e6 [unfolded r6_def e5] i5(1) k])
    assume n: "\<not> stopping st6"
    obtain v where v: "\<not> stopping st5" "file_test_step c w x5 s5 = (v, s6, x6)"
      using run_on_fact(2) [where J = "before_mode Q", OF e6 [unfolded r6_def e5] i5(1) _ n] k by blast
    from i5(2) [OF v(1)] file_test_kept [OF v(2)] show "before_open c s6 x6" by (simp add: before_open_def)
  qed
  have e7: "run_on (init_step c reads) (st6, s6, x6) = (st', s', x')"
    using assms(3) e6 by (simp only: open_database_def Let_def r1_def r2_def r3_def r4_def r5_def r6_def)
  have u: "untouched reads (file_transaction_active s6) s6 x6" "Q s6 (primary_file x6)"
    using i6(1) by (simp_all add: before_mode_def untouched_def)
  show ?thesis
  proof (cases "stopping st6")
    case True
    then show ?thesis using run_on_skipped [OF disjI1 [OF True], of "init_step c reads" s6 x6] e7 u by auto
  next
    case False
    let ?J = "\<lambda>s x. untouched reads (file_transaction_active s6) s x \<and> (conf_dry_run c \<longrightarrow> primary_file x = primary_file x6)"
    have "?J s' x'"
      by (rule run_on_fact(1) [where J = ?J, OF e7])
        (use u init_untouched [OF i6(2) [OF False] _ assms(2)] in auto)
    then show ?thesis using u(2) by blast
  qed
qed

lemma untouched_still:
  assumes "untouched reads a s x" "still s s'" "content_seen reads x' = content_seen reads x"
    and "db_connected (found_out x') = db_connected (found_out x)"
    and "paths (prefix_tables x) = committed_paths (prefix_tables x) \<Longrightarrow> autocommit s \<Longrightarrow>
      paths (prefix_tables x') = paths (prefix_tables x) \<and> committed_paths (prefix_tables x') = committed_paths (prefix_tables x)"
  shows "untouched reads a s' x'"
  using assms by (auto simp: untouched_def still_def)

lemma contains_data_untouched:
  assumes "untouched reads a s x" "contains_data_step c x s = (w, s', x')"
  shows "untouched reads a s' x'" "primary_file x' = primary_file x"
proof -
  obtain st l where r: "db_contains_data c (prefix_tables x) (found_out x) s = (st, s', l)" "x' = x\<lparr>found_out := l\<rparr>"
    using assms(2) by (auto simp: contains_data_step_def split: prod.splits)
  have "sane s" using assms(1) by (simp add: untouched_def)
  from contains_data_still [OF r(1) this] have k: "still s s'" "l\<lparr>holds_data := holds_data (found_out x)\<rparr> = found_out x" by simp_all
  from k(2) have "db_connected l = db_connected (found_out x)" "db_primary_path_is_memory l = db_primary_path_is_memory (found_out x)"
    "db_primary_file_exists l = db_primary_file_exists (found_out x)"
    by (metis launch.select_convs launch.surjective launch.update_convs)+
  then show "untouched reads a s' x'"
    by (intro untouched_still [OF assms(1) k(1)]) (simp_all add: r(2) content_seen_def)
  show "primary_file x' = primary_file x" by (simp add: r(2))
qed


lemma opened_facts:
  assumes "untouched reads a s x"
  shows "sane s" "db_connected (found_out x) \<Longrightarrow> autocommit s"
    "db_connected (found_out x) \<Longrightarrow> paths (prefix_tables x) = committed_paths (prefix_tables x)"
    "db_connected (found_out x) \<Longrightarrow> paths (prefix_tables x) = snd (content_seen reads x)"
  using assms by (simp_all add: untouched_def)

lemma validate_sane:
  assumes "db_validate_paths c force silent exists heap roots s t = (w, s', t')" "sane s"
  shows "sane s'"
proof -
  define built where "built = append_literals s heap (mem_init 1 True) (query_literals roots)"
  obtain ok s1 t1 where e: "paths_exec id s t = (ok, s1, t1)" by (cases "paths_exec id s t")
  note s1 = later_sane [OF paths_exec_later [OF e assms(2)]]
  define st1 where "st1 = (if ok then SUCCESS else FAILURE)"
  let ?search = "if st1 = SUCCESS then
       if roots = [] then (FAILURE, s1, t1, True) else mismatch_loop (foreign_ids roots (paths t1)) st1 s1 t1 True
     else (st1, s1, t1, True)"
  obtain st2 s2 t2 eq where e2: "?search = (st2, s2, t2, eq)" by (cases ?search)
  have r2: "sane s2" "st2 = SUCCESS \<or> st2 = FAILURE"
    using e2 s1 mismatch_loop_found [OF _ s1, of _ st1 t1 True st2 s2 t2 eq] by (auto simp: st1_def split: if_splits)
  let ?report = "if st2 = SUCCESS \<and> exists \<and> \<not> eq then
      let (st, s, t) = (if silent then (st2, s2, t2) else show_prefixes st2 s2 t2)
      in (if force then st else WARNING, s, t) else (st2, s2, t2)"
  obtain st3 s3 t3 where e3: "?report = (st3, s3, t3)" by (cases ?report)
  have s3: "sane s3"
    using e3 r2 show_prefixes_sane [of st2 s2 t2 _ s3 _] by (auto split: if_splits prod.splits)
  have "db_validate_paths c force silent exists heap roots s t = (let (st, s) = provide st3 s3 in (st, s, t3))"
    if "\<not> conf_compare c" "\<not> halted s" "\<not> built \<noteq> SUCCESS"
    using that by (simp only: db_validate_paths_def Let_def built_def [symmetric] e prod.case st1_def [symmetric] e2
        e3 [unfolded Let_def] simp_thms if_False)
  moreover have "db_validate_paths c force silent exists heap roots s t
      = (let (st, s) = provide (if conf_compare c \<or> halted s then SUCCESS else built) s in (st, s, t))"
    if "conf_compare c \<or> halted s \<or> built \<noteq> SUCCESS"
    using that by (auto simp: db_validate_paths_def built_def [symmetric])
  ultimately have "s' = snd (provide st3 s3) \<or> s' = s"
    using assms by (cases "conf_compare c \<or> halted s \<or> built \<noteq> SUCCESS") (auto simp: case_prod_beta Let_def)
  then show ?thesis using s3 assms(2) by auto
qed

lemma validate_untouched:
  assumes "untouched reads a s x" "validate_paths_step c w heap x s = (v, s', x')"
  shows "untouched reads a s' x'" "found_out x' = found_out x" "primary_file x' = primary_file x"
proof -
  obtain t where r: "db_validate_paths c (opt_force w) (opt_silent w) (db_primary_file_exists (found_out x)) heap
      (given_roots w) s (prefix_tables x) = (v, s', t)" "x' = x\<lparr>prefix_tables := t\<rparr>"
    using assms(2) by (auto simp: validate_paths_step_def split: prod.splits)
  note o = opened_facts [OF assms(1)]
  show "found_out x' = found_out x" "primary_file x' = primary_file x" by (simp_all add: r(2))
  show "untouched reads a s' x'"
  proof (cases "db_connected (found_out x)")
    case True
    from validate_paths_still [OF r(1) o(1) o(2,3) [OF True]] show ?thesis
      by (intro untouched_still [OF assms(1)]) (simp_all add: r(2) content_seen_def)
  next
    case False
    then show ?thesis using validate_sane [OF r(1) o(1)] by (simp add: untouched_def r(2))
  qed
qed

lemma compare_skipped:
  assumes "\<not> conf_compare c" "sane s" "compare_step c w rx heap x s = (v, s', x')"
  shows "s' = s" "found_out x' = found_out x" "primary_file x' = primary_file x" "prefix_tables x' = prefix_tables x"
proof -
  have "db_compare c (opt_compare_filter w) (db_primary_file_exists (found_out x)) rx heap (compared_files w) s
      = (fst (provide SUCCESS s), s, compared_files w, [])"
    using assms(1) provide_keeps [OF assms(2), of SUCCESS] by (cases "halted s") (simp_all add: db_compare_def case_prod_beta)
  then show "s' = s" "found_out x' = found_out x" "primary_file x' = primary_file x" "prefix_tables x' = prefix_tables x"
    using assms(3) by (auto simp: compare_step_def)
qed

text \<open>A stored prefix that no root of the command line names.\<close>

definition prefix_left_out :: "surroundings \<Rightarrow> (int \<times> bytes) list \<Rightarrow> bool" where
  "prefix_left_out w stored \<longleftrightarrow> (\<exists>r \<in> set stored. snd r \<notin> set (given_roots w) \<and> fst r \<noteq> - 1)"

lemma validate_refuses:
  assumes "untouched reads a s x" "\<not> conf_compare c" "\<not> opt_force w"
    and "db_connected (found_out x)" "db_primary_file_exists (found_out x)"
    and "prefix_left_out w (snd (content_seen reads x))"
    and "validate_paths_step c w heap x s = (v, s', x')"
  shows "stopping v"
proof -
  obtain t where r: "db_validate_paths c False (opt_silent w) True heap (given_roots w) s (prefix_tables x) = (v, s', t)"
    using assms(3,5,7) by (auto simp: validate_paths_step_def split: prod.splits)
  note o = opened_facts [OF assms(1)]
  show ?thesis
  proof (cases "halted s")
    case True
    then have "v = fst (provide SUCCESS s)" using r assms(2) by (auto simp: db_validate_paths_def split: prod.splits)
    then show ?thesis using True o(1) by simp
  next
    case False
    from foreign_roots_stop [OF o(1) False assms(2) _ r] show ?thesis
      using assms(6) o(4) [OF assms(4)] by (simp add: prefix_left_out_def stopping_def)
  qed
qed


lemma run_on_session:
  assumes "\<And>x s. g (snd (snd (step x s))) = g x"
  shows "g (snd (snd (run_on step a))) = g (snd (snd a))"
  using assms by (cases a) (auto simp: run_on_def Let_def case_prod_beta)

lemma call_on_session: "snd (snd (call_on f a)) = snd (snd a)"
  by (cases a) (simp add: call_on_def case_prod_beta)

lemma finish_session:
  assumes "finish_run c w (st, s, x) = (st', s', x')"
  shows "x' = x"
proof -
  have p: "snd (snd (run_on (\<lambda>x. on_process (f x) x) a)) = snd (snd a)" for f and a :: "ret \<times> app \<times> session"
    by (rule run_on_session [where g = "\<lambda>x. x"]) (simp add: on_process_state)
  have "snd (snd (finish_run c w (st, s, x))) = x"
    by (simp add: finish_run_def Let_def case_prod_beta p call_on_session)
  then show ?thesis using assms by simp
qed

lemma scan_session:
  assumes "scan_and_clean c w rx heap (st, s, x) = (st', s', x')"
  shows "found_out x' = found_out x \<and> primary_file x' = primary_file x"
proof -
  have "g (snd (snd (scan_and_clean c w rx heap (st, s, x)))) = g x"
    if g: "\<And>x t. g (x\<lparr>prefix_tables := t\<rparr>) = g x" for g :: "session \<Rightarrow> 'v"
  proof -
    have 1: "g (snd (snd (save_prefixes_step c w x s))) = g x" for x s
      by (simp add: save_prefixes_step_def case_prod_beta g)
    have 2: "g (snd (snd (on_process f x s))) = g x" for f x s by (simp add: on_process_state)
    have 3: "g (snd (snd (cleanup_step c w rx heap x s))) = g x" for x s by (simp add: cleanup_step_def on_process_state)
    show ?thesis
      unfolding scan_and_clean_def Let_def
      by (subst run_on_session [where g = g], rule 3, subst run_on_session [where g = g], rule 2,
          subst run_on_session [where g = g], rule 2, subst run_on_session [where g = g], rule 1) simp
  qed
  from this [of found_out] this [of primary_file] assms show ?thesis by simp
qed

lemma finish_untouched:
  assumes "untouched reads a s x" "stopping st" "finish_run c w (st, s, x) = (st', s', x')"
  shows "x' = x" "untouched reads a s' x"
proof -
  obtain st1 s1 where e1: "call (show_remembered_messages c (remembered w) (found_out x)) st s = (st1, s1)"
    by (cases "call (show_remembered_messages c (remembered w) (found_out x)) st s")
  obtain st2 s2 where e2: "call (db_close (db_connected (found_out x)) (db_primary_file_modified s1)) st1 s1 = (st2, s2)"
    by (cases "call (db_close (db_connected (found_out x)) (db_primary_file_modified s1)) st1 s1")
  have s: "sane s" using assms(1) by (simp add: untouched_def)
  let ?show = "show_remembered_messages c (remembered w) (found_out x)"
  have r1: "stopping st1" "still s s1"
    using stopping_call [where f = ?show and s = s, OF assms(2)]
      call_still [where f = ?show and w = st, OF s show_remembered_still [OF s]] by (simp_all add: e1)
  have s1: "sane s1" using r1 by (simp add: still_def)
  let ?close = "db_close (db_connected (found_out x)) (db_primary_file_modified s1)"
  have r2: "stopping st2" "still s1 s2"
    using stopping_call [where f = ?close and s = s1, OF r1(1)]
      call_still [where f = ?close and w = st1, OF s1 close_still [OF s1]] by (simp_all add: e2)
  let ?vacuum = "run_on (on_process (db_primary_consider_vacuum c (fst (vacuum_stats w)) (snd (vacuum_stats w)))) (st2, s2, x)"
  obtain st3 where e3: "?vacuum = (st3, s2, x)" "stopping st3" by (rule skipped_step [OF r2(1)])
  let ?status = "run_on (\<lambda>x. on_process (status_of_changes c (stat_at_exit w) (found_out x)) x) (st3, s2, x)"
  obtain st4 where e4: "?status = (st4, s2, x)" "stopping st4" by (rule skipped_step [OF e3(2)])
  have r: "s' = s2" "x' = x"
    using assms(3) by (simp_all add: finish_run_def call_on_def e1 e2 e3 e4)
  then show "x' = x" "untouched reads a s' x"
    using untouched_still [OF assms(1) still_trans [OF r1(2) r2(2)], of x] by simp_all
qed

lemma scan_skipped:
  assumes "stopping st"
  shows "\<exists>st'. scan_and_clean c w rx heap (st, s, x) = (st', s, x) \<and> stopping st'"
proof -
  obtain a1 where 1: "run_on (save_prefixes_step c w) (st, s, x) = (a1, s, x)" "stopping a1"
    by (rule skipped_step [OF assms])
  obtain a2 where 2: "run_on (on_process (file_list c rx heap True (root_entries w))) (a1, s, x) = (a2, s, x)" "stopping a2"
    by (rule skipped_step [OF 1(2)])
  obtain a3 where 3: "run_on (on_process (file_list c rx heap False (root_entries w))) (a2, s, x) = (a3, s, x)" "stopping a3"
    by (rule skipped_step [OF 2(2)])
  obtain a4 where 4: "run_on (cleanup_step c w rx heap) (a3, s, x) = (a4, s, x)" "stopping a4"
    by (rule skipped_step [OF 3(2)])
  show ?thesis using 1 2 3 4 by (simp add: scan_and_clean_def)
qed

lemma check_untouched:
  assumes "untouched reads a s x" "\<not> conf_compare c"
    and "check_database c w rx heap (st, s, x) = (st', s', x')"
  shows "untouched reads a s' x' \<and> primary_file x' = primary_file x"
    and "\<exists>v s2 x2. \<not> stopping st' \<longrightarrow> untouched reads a s2 x2 \<and> validate_paths_step c w heap x2 s2 = (v, s', x') \<and> \<not> stopping v"
proof -
  let ?J = "\<lambda>s y. untouched reads a s y \<and> primary_file y = primary_file x"
  obtain a1 s1 x1 where 1: "run_on (compare_step c w rx heap) (st, s, x) = (a1, s1, x1)"
    by (cases "run_on (compare_step c w rx heap) (st, s, x)")
  have r1: "?J s1 x1"
  proof (rule run_on_fact(1) [where J = ?J, OF 1])
    fix v s' x' assume e: "compare_step c w rx heap x s = (v, s', x')"
    have "sane s" using assms(1) by (simp add: untouched_def)
    from compare_skipped [OF assms(2) this e] assms(1) show "?J s' x' \<and> sane s'"
      by (simp add: untouched_def content_seen_def)
  qed (use assms(1) in simp)
  obtain a2 s2 x2 where 2: "run_on (contains_data_step c) (a1, s1, x1) = (a2, s2, x2)"
    by (cases "run_on (contains_data_step c) (a1, s1, x1)")
  have d: "?J s' x' \<and> sane s'" if "contains_data_step c x1 s1 = (v, s', x')" for v s' x'
    using contains_data_untouched [OF conjunct1 [OF r1] that] r1 by (auto simp: untouched_def)
  have r2: "?J s2 x2" by (rule run_on_fact(1) [where J = ?J, OF 2 r1 d])
  have 3: "run_on (validate_paths_step c w heap) (a2, s2, x2) = (st', s', x')"
    using assms(3) 1 2 by (simp add: check_database_def)
  have v: "?J s x \<and> sane s" if "validate_paths_step c w heap x2 s2 = (v, s, x)" for v s x
    using validate_untouched(1,3) [OF conjunct1 [OF r2] that] r2 by (auto simp: untouched_def)
  show "untouched reads a s' x' \<and> primary_file x' = primary_file x"
    by (rule run_on_fact(1) [where J = ?J, OF 3 r2 v])
  show "\<exists>v s2 x2. \<not> stopping st' \<longrightarrow> untouched reads a s2 x2 \<and> validate_paths_step c w heap x2 s2 = (v, s', x') \<and> \<not> stopping v"
    using run_on_fact(2) [where J = ?J, OF 3 r2] v r2 by blast
qed

lemma check_refuses:
  assumes "untouched reads a s x" "\<not> conf_compare c" "\<not> opt_force w"
    and "check_database c w rx heap (st, s, x) = (st', s', x')"
    and "db_connected (found_out x')" "db_primary_file_exists (found_out x')"
    and "prefix_left_out w (snd (content_seen reads x'))"
  shows "stopping st'"
proof (rule ccontr)
  assume "\<not> stopping st'"
  with check_untouched(2) [OF assms(1,2,4)] obtain v s2 x2
    where v: "untouched reads a s2 x2" "validate_paths_step c w heap x2 s2 = (v, s', x')" "\<not> stopping v"
    by blast
  from validate_untouched(2,3) [OF v(1,2)] assms(5-7)
  have "content_seen reads x2 = content_seen reads x'" "db_connected (found_out x2)" "db_primary_file_exists (found_out x2)"
    by (simp_all add: content_seen_def)
  with validate_refuses [OF v(1) assms(2,3) _ _ _ v(2)] assms(7) have "stopping v" by simp
  then show False using v(3) by simp
qed



lemma contains_data_launch:
  assumes "\<And>l b. g (l\<lparr>holds_data := b\<rparr>) = g l"
  shows "g (found_out (snd (snd (contains_data_step c x s)))) = g (found_out x)"
  using assms by (simp add: contains_data_step_def db_contains_data_def case_prod_beta Let_def)

lemma check_launch:
  assumes "\<And>l b. g (l\<lparr>holds_data := b\<rparr>) = g l"
  shows "g (found_out (snd (snd (check_database c w rx heap (st, s, x))))) = g (found_out x)"
proof -
  have 1: "found_out (snd (snd (compare_step c w rx heap x s))) = found_out x" for x s
    by (simp add: compare_step_def case_prod_beta)
  have 2: "found_out (snd (snd (validate_paths_step c w heap x s))) = found_out x" for x s
    by (simp add: validate_paths_step_def case_prod_beta)
  show ?thesis
    unfolding check_database_def Let_def
    by (subst run_on_session [where g = "\<lambda>x. g (found_out x)"], simp only: 2,
        subst run_on_session [where g = "\<lambda>x. g (found_out x)"], rule contains_data_launch [OF assms],
        subst run_on_session [where g = "\<lambda>x. g (found_out x)"], simp only: 1) simp
qed

text \<open>What a run finds out about its database is settled when the database is open.\<close>

lemma main_launch:
  assumes "main c w rx heap reads parsed s x = (code, s', x')" "\<And>l b. g (l\<lparr>holds_data := b\<rparr>) = g l"
  shows "g (found_out x') = g (found_out (snd (snd (open_database c w heap reads (parsed, s, x)))))"
proof -
  obtain st1 s1 x1 where 1: "open_database c w heap reads (parsed, s, x) = (st1, s1, x1)"
    by (cases "open_database c w heap reads (parsed, s, x)")
  obtain st2 s2 x2 where 2: "check_database c w rx heap (st1, s1, x1) = (st2, s2, x2)"
    by (cases "check_database c w rx heap (st1, s1, x1)")
  obtain st3 s3 x3 where 3: "scan_and_clean c w rx heap (st2, s2, x2) = (st3, s3, x3)"
    by (cases "scan_and_clean c w rx heap (st2, s2, x2)")
  obtain st4 where 4: "finish_run c w (st3, s3, x3) = (st4, s', x')"
    using assms(1) 1 2 3 by (auto simp: main_def split: prod.splits)
  from check_launch [where g = g, OF assms(2), of c w rx heap st1 s1 x1] show ?thesis
    using finish_session [OF 4] scan_session [OF 3] 1 2 by simp
qed

section \<open>A concrete run\<close>

text \<open>The database \<open>./a\<close> holds the prefix \<open>a\<close>; the run is given the root \<open>b\<close>.\<close>

definition refused_session :: session where
  "refused_session =
     \<lparr>found_out =
        \<lparr>db_primary_file_path =
           \<lparr>single_element_size = 1, actually_allocated_bytes = 4, mlength = 4, string_length = 3, is_string = True,
            data = Some [46, 47, 97, 0]\<rparr>,
         db_file_name = mem_init 1 True, db_primary_path_is_memory = False, db_primary_file_exists = False,
         db_file_stat = small_stat, db_initialize_tables = True, sqlite_open_flag = SQLITE_OPEN_READONLY, db_connected = False,
         holds_data = False\<rparr>,
      primary_file = new_file,
      prefix_tables = \<lparr>paths = [], committed_paths = [], the_path_id_does_not_exists = [], total_changes = 0\<rparr>,
      printed_messages = []\<rparr>"

definition refused_surroundings :: surroundings where
  "refused_surroundings =
     \<lparr>opt_force = False, opt_silent = True, opt_compare_filter = 0, given_roots = [[98]], root_entries = [],
      files_found = (\<lambda>path. Some (if path = [46, 47, 97] then Regular_file else Directory, small_stat)),
      handlers_set = (True, True, True), host_name = None, path_copied = True, check_copied = True,
      check_responses = [[111, 107]], journal_mode = None, check_stats = (True, True), compared_files = [],
      root_directory = None, root_closed = True, remembered = [], vacuum_stats = (True, True),
      stat_at_exit = Some small_stat\<rparr>"

definition foreign_content :: file_reader where
  "foreign_content d =
     ([\<lparr>row_ID = 7, row_offset = None, row_relative_path = [98], row_sha512 = Some [1], row_stat = None,
        row_mdContext = None\<rparr>], [(1, [97])])"

lemma refused_opens:
  "(case open_database default_config refused_surroundings any_memory foreign_content (SUCCESS, fresh_state [], refused_session)
    of (st, s, x) \<Rightarrow> db_connected (found_out x) \<and> db_primary_file_exists (found_out x)
      \<and> \<not> db_primary_path_is_memory (found_out x))"
  by code_simp


end
