(* ===== verification/Program_Dry.thy ===== *)
theory Program_Dry
  imports Program_Correct Cleanup_Correct
begin

text \<open>
  With \<open>--dry-run\<close> a whole run leaves the primary database alone: the file is neither upgraded nor
  created nor vacuumed, and its rows and prefixes are the same at the end.
\<close>

section \<open>The checks of the file\<close>

declare idle_view [simp del]

lemma ok_view [simp]: "idle (db_view s) \<Longrightarrow> db_view (snd (sql_ok s)) = db_view s"
  by (simp add: sql_ok_def case_prod_beta)

lemma exec_view [simp]: "idle (db_view s) \<Longrightarrow> db_view (fst (snd (sql_exec f s k))) = db_view s"
  by (simp add: sql_exec_def case_prod_beta Let_def split: sql_answer.split option.split)

lemma other_view [simp]: "idle (db_view s) \<Longrightarrow> db_view (fst (snd (when_success sql_other st s k))) = db_view s"
  by (simp add: when_success_def sql_other_def case_prod_beta Let_def)

lemma ok_view_from: "sql_ok s = (b, s') \<Longrightarrow> idle v \<Longrightarrow> db_view s = v \<Longrightarrow> db_view s' = v"
  using ok_view [of s] by simp

lemma other_view_from:
  "when_success sql_other st s k = (st', s', k') \<Longrightarrow> idle v \<Longrightarrow> db_view s = v \<Longrightarrow> db_view s' = v"
  using other_view [of s st k] by simp

lemma retrieve_view [simp]:
  assumes "idle (db_view s)"
  shows "db_view (fst (snd (db_retrieve_version given v d s))) = db_view s"
proof -
  obtain st1 s1 k1 where e1: "when_success sql_other SUCCESS s (connect d) = (st1, s1, k1)"
    by (cases "when_success sql_other SUCCESS s (connect d)")
  note v1 = other_view_from [OF e1 assms refl]
  obtain st2 s2 k2 where e2: "when_success sql_other st1 s1 k1 = (st2, s2, k2)"
    by (cases "when_success sql_other st1 s1 k1")
  note v2 = other_view_from [OF e2 assms v1]
  let ?probe = "if st2 = SUCCESS then let (stepped, s) = sql_ok s2 in (stepped \<and> metadata_table d \<noteq> None, s) else (False, s2)"
  obtain b3 s3 where e3: "?probe = (b3, s3)" by (cases ?probe)
  have v3: "db_view s3 = db_view s"
    using e3 v2 ok_view_from [OF _ assms v2] by (auto split: if_splits prod.splits)
  let ?read = "if st2 = SUCCESS \<and> b3 then
       let (st, s, k) = when_success sql_other st2 s3 k2
       in if st = SUCCESS then
            let (stepped, s) = sql_ok s
            in (st, s, case metadata_table d of Some (u # _) \<Rightarrow> if stepped then sqlite3_column_int u else v | _ \<Rightarrow> v)
          else (st, s, v)
     else (st2, s3, v)"
  obtain st4 s4 v4 where e4: "?read = (st4, s4, v4)" by (cases ?read)
  have v4: "db_view s4 = db_view s"
  proof -
    obtain st5 s5 k5 where e5: "when_success sql_other st2 s3 k2 = (st5, s5, k5)"
      by (cases "when_success sql_other st2 s3 k2")
    note v5 = other_view_from [OF e5 assms v3]
    obtain b7 s7 where e7: "sql_ok s5 = (b7, s7)" by (cases "sql_ok s5")
    have "s4 = s3 \<or> s4 = s5 \<or> s4 = s7"
      using e4 by (simp only: e5 e7 Let_def prod.case) (simp split: if_splits)
    then show ?thesis using v3 v5 ok_view_from [OF e7 assms v5] by blast
  qed
  obtain b6 s6 where e6: "sql_ok s4 = (b6, s6)" by (cases "sql_ok s4")
  note v6 = ok_view_from [OF e6 assms v4]
  have "db_retrieve_version given v d s = (let (st, s) = provide (if b6 then st4 else FAILURE) s6 in (st, s, v4))" if given
    using that by (simp only: db_retrieve_version_def Let_def e1 prod.case e2 e3 [unfolded Let_def] e4 [unfolded Let_def] e6
        simp_thms if_False)
  moreover have "db_retrieve_version given v d s = (let (st, s) = provide FAILURE s in (st, s, v))" if "\<not> given"
    using that by (simp add: db_retrieve_version_def)
  ultimately show ?thesis using v6 by (cases given) (simp_all add: case_prod_beta Let_def)
qed

lemma upgrade_step_dry:
  assumes "conf_dry_run c" "migrate d s = (let (st, s) = provide SUCCESS s in (st, s, d))"
  shows "db_view (fst (snd (upgrade_step c p migrate new old d s))) = db_view s"
    "fst (snd (snd (upgrade_step c p migrate new old d s))) = d"
  using assms by (simp_all add: upgrade_step_def db_specify_version_def case_prod_beta Let_def)

lemma upgrade_dry:
  assumes "conf_dry_run c"
  shows "db_view (fst (snd (db_upgrade c mode p v d s))) = db_view s" "fst (snd (snd (db_upgrade c mode p v d s))) = d"
  using upgrade_step_dry [OF assms]
  by (simp_all add: assms db_upgrade_def db_migrate_from_0_to_1_def db_migrate_to_version_4_def case_prod_beta Let_def)

lemma check_version_dry:
  assumes "conf_dry_run c" "idle (db_view s)"
  shows "db_view (fst (snd (db_check_version c mode p stats d s))) = db_view s"
    "snd (snd (db_check_version c mode p stats d s)) = d"
  using assms upgrade_dry [OF assms(1)]
  by (simp_all add: db_check_version_def db_vacuum_def case_prod_beta Let_def)

lemma response_view: "idle (db_view s) \<Longrightarrow> db_view (fst (snd (response_loop rs s b))) = db_view s"
proof (induction rs arbitrary: s b)
  case Nil
  then show ?case by (subst response_loop.simps) (simp add: case_prod_beta Let_def)
next
  case (Cons r rs)
  then show ?case by (subst response_loop.simps) (simp add: case_prod_beta Let_def)
qed

lemma integrity_dry:
  assumes "conf_dry_run c" "idle (db_view s)"
  shows "db_view (fst (snd (db_integrity_check c copied exists rs mode p stats d s))) = db_view s"
    "snd (snd (db_integrity_check c copied exists rs mode p stats d s)) = d"
  using assms response_view check_version_dry [OF assms(1)]
  by (simp_all add: db_integrity_check_def case_prod_beta Let_def)


lemma file_test_dry:
  assumes "conf_dry_run c"
  shows "test_keeps (\<lambda>s d. idle (db_view s) \<and> d = d0) c w"
  using integrity_dry [OF assms] run_view
  by (simp add: test_keeps_def db_primary_file_test_def case_prod_beta Let_def)

section \<open>The steps on the open database\<close>

text \<open>A fact about the database that the environment does not touch passes through a step.\<close>

lemma run_on_view:
  assumes "run_on step (st, s, x) = (st', s', x')" "\<And>s1 s2 y. db_view s1 = db_view s2 \<Longrightarrow> J s1 y \<Longrightarrow> J s2 y"
    and "J s x" "\<And>v s1 x1. step x s = (v, s1, x1) \<Longrightarrow> J s1 x1"
  shows "J s' x'"
proof (cases "has AWAITING st \<or> has SKIP st")
  case True
  then have "x' = x" "s' = snd (run (\<lambda>s. (SUCCESS, s)) st s)" using assms(1) by (auto simp: run_on_def split: prod.splits)
  then show ?thesis using assms(2) [of s s' x] assms(3) run_view [of "\<lambda>s. (SUCCESS, s)" s st] by simp
next
  case False
  obtain v s1 x1 where e: "step x s = (v, s1, x1)" by (cases "step x s")
  then have "x' = x1" "s' = snd (run (\<lambda>_. (v, s1)) st s1)"
    using assms(1) False by (auto simp: run_on_def split: prod.splits)
  then show ?thesis using assms(2) [of s1 s' x1] assms(4) [OF e] run_view [of "\<lambda>_. (v, s1)" s1 st] by simp
qed

text \<open>What is known of the open database during a dry run.\<close>

definition dry_state :: "launch \<Rightarrow> dbfile \<Rightarrow> row list \<times> (int \<times> bytes) list \<Rightarrow> app \<Rightarrow> session \<Rightarrow> bool" where
  "dry_state l d content s x \<longleftrightarrow> idle (db_view s) \<and> committed s = fst content \<and> found_out x = l \<and> primary_file x = d
     \<and> committed_paths (prefix_tables x) = snd content"

lemma dry_state_view: "db_view s1 = db_view s2 \<Longrightarrow> dry_state l d q s1 y \<Longrightarrow> dry_state l d q s2 y"
  by (simp add: dry_state_def) (simp add: db_view_def)

lemma dry_step:
  assumes "run_on step (st, s, x) = (st', s', x')" "dry_state l d q s x"
    and "db_view (fst (snd (step x s))) = db_view s" "snd (snd (step x s)) = x"
  shows "dry_state l d q s' x'"
proof (rule run_on_view [where J = "dry_state l d q", OF assms(1) dry_state_view assms(2)])
  fix v s1 x1 assume "step x s = (v, s1, x1)"
  then have "db_view s = db_view s1" "x1 = x" using assms(3,4) by simp_all
  then show "dry_state l d q s1 x1" using dry_state_view assms(2) by blast
qed

lemma dry_facts:
  assumes "dry_state l d q s x"
  shows "idle (db_view s)" "found_out x = l"
  using assms by (simp_all add: dry_state_def)

lemma scan_dry:
  assumes "conf_dry_run c" "dry_state l d q s x" "db_primary_file_exists l"
    and "scan_and_clean c w rx heap (st, s, x) = (st', s', x')"
  shows "dry_state l d q s' x'"
proof -
  obtain a1 s1 x1 where 1: "run_on (save_prefixes_step c w) (st, s, x) = (a1, s1, x1)"
    by (cases "run_on (save_prefixes_step c w) (st, s, x)")
  have r1: "dry_state l d q s1 x1"
    by (rule dry_step [OF 1 assms(2)])
      (use assms(1,3) dry_facts [OF assms(2)] in \<open>simp_all add: save_prefixes_step_def db_save_prefixes_def case_prod_beta Let_def\<close>)
  obtain a2 s2 x2 where 2: "run_on (on_process (file_list c rx heap True (root_entries w))) (a1, s1, x1) = (a2, s2, x2)"
    by (cases "run_on (on_process (file_list c rx heap True (root_entries w))) (a1, s1, x1)")
  have r2: "dry_state l d q s2 x2"
    by (rule dry_step [OF 2 r1]) (use file_list_view [OF assms(1) dry_facts(1) [OF r1]] in \<open>simp_all add: on_process_state\<close>)
  obtain a3 s3 x3 where 3: "run_on (on_process (file_list c rx heap False (root_entries w))) (a2, s2, x2) = (a3, s3, x3)"
    by (cases "run_on (on_process (file_list c rx heap False (root_entries w))) (a2, s2, x2)")
  have r3: "dry_state l d q s3 x3"
    by (rule dry_step [OF 3 r2]) (use file_list_view [OF assms(1) dry_facts(1) [OF r2]] in \<open>simp_all add: on_process_state\<close>)
  have 4: "run_on (cleanup_step c w rx heap) (a3, s3, x3) = (st', s', x')"
    using assms(4) 1 2 3 by (simp add: scan_and_clean_def)
  show ?thesis
    by (rule dry_step [OF 4 r3])
      (use cleanup_dry_view [OF assms(1) dry_facts(1) [OF r3]] in \<open>simp_all add: cleanup_step_def on_process_state\<close>)
qed

section \<open>The end of the run\<close>

lemma remembered_view: "idle (db_view s) \<Longrightarrow> db_view (snd (remembered_loop ms s)) = db_view s"
proof (induction ms arbitrary: s)
  case Nil
  then show ?case by (subst remembered_loop.simps) (simp add: case_prod_beta Let_def)
next
  case (Cons m ms)
  then show ?case by (subst remembered_loop.simps) (simp add: case_prod_beta Let_def)
qed

lemma show_view: "idle (db_view s) \<Longrightarrow> db_view (snd (show_remembered_messages c ms l s)) = db_view s"
  using remembered_view by (simp add: show_remembered_messages_def case_prod_beta Let_def)

lemma close_view: "idle (db_view s) \<Longrightarrow> db_view (snd (db_close linked modified s)) = db_view s"
  by (simp add: db_close_def case_prod_beta Let_def)

lemma vacuum_dry: "conf_dry_run c \<Longrightarrow> db_view (snd (db_primary_consider_vacuum c a b s)) = db_view s"
  by (simp add: db_primary_consider_vacuum_def case_prod_beta Let_def)

lemma changes_view: "db_view (snd (status_of_changes c now l s)) = db_view s"
proof -
  have "db_view (snd (db_check_changes now l s)) = db_view s" for s
    using run_view by (simp add: db_check_changes_def case_prod_beta Let_def)
  then show ?thesis by (simp add: status_of_changes_def case_prod_beta Let_def)
qed

lemma finish_dry:
  assumes "conf_dry_run c" "dry_state l d q s x" "finish_run c w (st, s, x) = (st', s', x')"
  shows "dry_state l d q s' x'"
proof -
  let ?show = "show_remembered_messages c (remembered w) (found_out x)"
  obtain st1 s1 where 1: "call ?show st s = (st1, s1)" by (cases "call ?show st s")
  have r1: "dry_state l d q s1 x"
    using dry_state_view [OF _ assms(2), of s1] call_view [where f = ?show and w = st, OF show_view [OF dry_facts(1) [OF assms(2)]]] 1 by simp
  let ?close = "db_close (db_connected (found_out x)) (db_primary_file_modified s1)"
  obtain st2 s2 where 2: "call ?close st1 s1 = (st2, s2)" by (cases "call ?close st1 s1")
  have r2: "dry_state l d q s2 x"
    using dry_state_view [OF _ r1, of s2] call_view [where f = ?close and w = st1, OF close_view [OF dry_facts(1) [OF r1]]] 2 by simp
  let ?vacuum = "run_on (on_process (db_primary_consider_vacuum c (fst (vacuum_stats w)) (snd (vacuum_stats w)))) (st2, s2, x)"
  obtain st3 s3 x3 where 3: "?vacuum = (st3, s3, x3)" by (cases ?vacuum)
  have r3: "dry_state l d q s3 x3"
    by (rule dry_step [OF 3 r2]) (use vacuum_dry [OF assms(1)] in \<open>simp_all add: on_process_state\<close>)
  have 4: "run_on (\<lambda>x. on_process (status_of_changes c (stat_at_exit w) (found_out x)) x) (st3, s3, x3) = (st', s', x')"
    using assms(3) 1 2 3 by (simp add: finish_run_def call_on_def)
  show ?thesis
    by (rule dry_step [OF 4 r3]) (use changes_view in \<open>simp_all add: on_process_state\<close>)
qed

section \<open>The whole run\<close>

text \<open>
  C36: A run with --dry-run, outside --compare, leaves the primary database alone: the file is the same
  as before, neither upgraded nor created nor vacuumed, and when it was opened its rows and prefixes on
  disk are the ones it held, whatever signals arrive and however SQLite, the files and the allocator
  answer.
\<close>

theorem dry_run_leaves_database:
  assumes "sane s" "autocommit s" "\<not> file_transaction_active s" "\<not> db_connected (found_out x)"
    and "conf_dry_run c" "\<not> conf_compare c"
    and "main c w rx heap reads parsed s x = (code, s', x')"
  shows "primary_file x' = primary_file x
    \<and> (db_connected (found_out x') \<and> db_primary_file_exists (found_out x') \<and> \<not> db_primary_path_is_memory (found_out x')
       \<longrightarrow> (committed s', committed_paths (prefix_tables x')) = reads (primary_file x))"
proof -
  obtain st1 s1 x1 where 1: "open_database c w heap reads (parsed, s, x) = (st1, s1, x1)"
    by (cases "open_database c w heap reads (parsed, s, x)")
  obtain st2 s2 x2 where 2: "check_database c w rx heap (st1, s1, x1) = (st2, s2, x2)"
    by (cases "check_database c w rx heap (st1, s1, x1)")
  obtain st3 s3 x3 where 3: "scan_and_clean c w rx heap (st2, s2, x2) = (st3, s3, x3)"
    by (cases "scan_and_clean c w rx heap (st2, s2, x2)")
  obtain st4 where 4: "finish_run c w (st3, s3, x3) = (st4, s', x')"
    using assms(7) 1 2 3 by (auto simp: main_def split: prod.splits)
  have same: "found_out x' = found_out x2" "primary_file x' = primary_file x2"
    using finish_session [OF 4] scan_session [OF 3] by simp_all
  let ?Q = "\<lambda>s d. idle (db_view s) \<and> d = primary_file x"
  have "before_mode ?Q s x" using assms(1-4) by (simp add: before_mode_def idle_view)
  from opened_untouched [OF this assms(6) 1 file_test_dry [OF assms(5)]]
  have r1: "untouched reads False s1 x1" "primary_file x1 = primary_file x"
    using assms(5) by (auto simp: idle_view)
  have r2: "untouched reads False s2 x2" "primary_file x2 = primary_file x"
    using check_untouched(1) [OF r1(1) assms(6) 2] r1(2) by simp_all
  have "(committed s', committed_paths (prefix_tables x')) = reads (primary_file x)"
    if "db_connected (found_out x')" "db_primary_file_exists (found_out x')" "\<not> db_primary_path_is_memory (found_out x')"
  proof -
    let ?q = "reads (primary_file x)"
    have "dry_state (found_out x2) (primary_file x) ?q s2 x2"
      using r2 that same by (simp add: dry_state_def untouched_def content_seen_def idle_view)
    from scan_dry [OF assms(5) this _ 3] have "dry_state (found_out x2) (primary_file x) ?q s3 x3" using that same by simp
    from finish_dry [OF assms(5) this 4] show ?thesis by (simp add: dry_state_def)
  qed
  then show ?thesis using same r2(2) by simp
qed

lemma dry_opens:
  "(case open_database (default_config\<lparr>conf_dry_run := True\<rparr>) refused_surroundings any_memory foreign_content
      (SUCCESS, fresh_state [], refused_session)
    of (st, s, x) \<Rightarrow> db_connected (found_out x) \<and> db_primary_file_exists (found_out x)
      \<and> \<not> db_primary_path_is_memory (found_out x))"
  by code_simp

theorem dry_run_leaves_database_witness:
  "committed (fst (snd (main (default_config\<lparr>conf_dry_run := True\<rparr>) refused_surroundings equal_engine any_memory
     foreign_content SUCCESS (fresh_state []) refused_session))) = fst (foreign_content new_file)"
proof -
  let ?c = "default_config\<lparr>conf_dry_run := True\<rparr>"
  obtain code s' x' where r: "main ?c refused_surroundings equal_engine any_memory foreign_content SUCCESS
      (fresh_state []) refused_session = (code, s', x')"
    by (cases "main ?c refused_surroundings equal_engine any_memory foreign_content SUCCESS (fresh_state []) refused_session")
  have "db_connected (found_out x') \<and> db_primary_file_exists (found_out x') \<and> \<not> db_primary_path_is_memory (found_out x')"
    using dry_opens main_launch [where g = db_connected, OF r] main_launch [where g = db_primary_file_exists, OF r]
      main_launch [where g = db_primary_path_is_memory, OF r] by (auto simp: case_prod_beta)
  with dry_run_leaves_database [OF _ _ _ _ _ _ r] have "committed s' = fst (foreign_content (primary_file refused_session))"
    using calm_sane [OF calm_fresh_state] by (simp add: refused_session_def default_config_def fresh_state_def) (metis fst_conv)
  moreover have "primary_file refused_session = new_file" by (simp add: refused_session_def)
  ultimately show ?thesis by (simp add: r)
qed

end
