(* ===== verification/Options.thy ===== *)
theory Options
  imports Compare Mem_Array Paths
begin

text \<open>
  The settings of a run: the members of \<open>Config\<close> that options fill, their defaults (\<open>init_config.c\<close>), the
  table of options and the handler \<open>parse_opt\<close> of \<open>parse_arguments.c\<close>, which serves both the command line
  and the configuration file, with \<open>add_string_to_array.c\<close> and \<open>update_logger_mode.c\<close>.
\<close>

section \<open>Texts\<close>

definition ascii :: "string \<Rightarrow> bytes" where "ascii = map of_char"

text \<open>\<open>strcasecmp(a,b) == 0\<close> in the C locale.\<close>

definition lower :: "u8 \<Rightarrow> u8" where "lower b = (if 65 \<le> b \<and> b \<le> 90 then b + 32 else b)"

definition same_text :: "bytes \<Rightarrow> bytes \<Rightarrow> bool" where "same_text a b \<longleftrightarrow> map lower a = map lower b"

text \<open>\<open>basename\<close> of POSIX.\<close>

definition c_basename :: "bytes \<Rightarrow> bytes" where
  "c_basename path =
     (if path = [] then [46]
      else
        case dropWhile (\<lambda>b. b = 47) (rev path) of
          [] \<Rightarrow> [47]
        | component \<Rightarrow> rev (takeWhile (\<lambda>b. b \<noteq> 47) component))"

text \<open>\<open>strtol(text,&suffix,10)\<close>: the number, cut to \<open>long int\<close>, and the suffix, all of the text when it has no digits.\<close>

definition is_space :: "u8 \<Rightarrow> bool" where "is_space b \<longleftrightarrow> b = 32 \<or> 9 \<le> b \<and> b \<le> 13"
definition is_digit :: "u8 \<Rightarrow> bool" where "is_digit b \<longleftrightarrow> 48 \<le> b \<and> b \<le> 57"

definition c_strtol :: "bytes \<Rightarrow> int \<times> bytes" where
  "c_strtol source =
     (let unspaced = dropWhile is_space source;
          negative = (unspaced \<noteq> [] \<and> hd unspaced = 45);
          unsigned = (if unspaced \<noteq> [] \<and> (hd unspaced = 45 \<or> hd unspaced = 43) then tl unspaced else unspaced);
          digits = takeWhile is_digit unsigned;
          magnitude = foldl (\<lambda>n b. 10 * n + (uint b - 48)) 0 digits
      in if digits = [] then (0, source)
         else (max (- (2 ^ 63)) (min (2 ^ 63 - 1) (if negative then - magnitude else magnitude)),
               dropWhile is_digit unsigned))"

section \<open>Settings\<close>

datatype RATIONAL_COLOR_MODE = COLOR_MODE_AUTO | COLOR_MODE_ALWAYS | COLOR_MODE_NEVER
datatype LOGMODES = REGULAR | VERBOSE | SILENT | MACHINE
datatype DB_CHECK_LEVEL = QUICK | FULL

text \<open>
  A NULL-terminated array of strings is \<open>None\<close> for the pointer NULL.  \<open>information_mode_requested\<close>,
  \<open>rational_logger_mode\<close> and \<open>rational_color_mode\<close> are the static variables beside \<open>Config\<close>.
\<close>

record settings =
  set_output :: OutputMode
  set_color_mode :: RATIONAL_COLOR_MODE
  set_color_specified :: bool
  set_progress :: bool
  set_show_remembered :: bool
  set_force :: bool
  set_silent :: bool
  set_verbose :: bool
  set_update :: bool
  set_compare :: bool
  set_compare_filter :: u32
  config_file_path :: "bytes option"
  config_file_error_line :: int
  set_roots :: string_array
  set_primary_path :: memory
  set_file_name :: memory
  set_file_paths :: string_array
  set_file_names :: "bytes list option"
  set_drop_ignored :: bool
  set_drop_inaccessible :: bool
  set_check_level :: DB_CHECK_LEVEL
  set_maxdepth :: int
  set_ignore :: "bytes list option"
  set_quiet_ignored :: bool
  set_include :: "bytes list option"
  set_include_specified :: bool
  set_lock_checksum :: "bytes list option"
  set_rehash_locked :: bool
  set_dry_run :: bool
  set_dry_run_with_checksums :: bool
  set_one_file_system :: bool
  set_watch_timestamps :: bool
  information_mode_requested :: bool
  rational_logger_mode :: LOGMODES
  rational_color_mode :: RATIONAL_COLOR_MODE

definition update_logger_mode :: "settings \<Rightarrow> settings" where
  "update_logger_mode s =
     (let s = (if \<not> set_color_specified s \<and> set_output s = OUTPUT_MACHINE
               then s\<lparr>rational_color_mode := COLOR_MODE_NEVER\<rparr> else s\<lparr>rational_color_mode := set_color_mode s\<rparr>)
      in if set_silent s then s\<lparr>rational_logger_mode := SILENT\<rparr>
         else if set_output s \<noteq> OUTPUT_FULL then s\<lparr>rational_logger_mode := MACHINE\<rparr>
         else if set_verbose s then s\<lparr>rational_logger_mode := VERBOSE\<rparr>
         else s\<lparr>rational_logger_mode := REGULAR\<rparr>)"

definition no_strings :: string_array where
  "no_strings = \<lparr>root_descriptor = mem_init sizeof_memory False, items = []\<rparr>"

definition init_config :: settings where
  "init_config = update_logger_mode
     \<lparr>set_output = OUTPUT_FULL, set_color_mode = COLOR_MODE_AUTO, set_color_specified = False,
      set_progress = False, set_show_remembered = False, set_force = False, set_silent = False,
      set_verbose = False, set_update = False, set_compare = False, set_compare_filter = CF_NONE_SPECIFIED,
      config_file_path = None, config_file_error_line = - 1, set_roots = no_strings,
      set_primary_path = mem_init 1 True, set_file_name = mem_init 1 True, set_file_paths = no_strings,
      set_file_names = None, set_drop_ignored = False, set_drop_inaccessible = False,
      set_check_level = FULL, set_maxdepth = - 1, set_ignore = None, set_quiet_ignored = False,
      set_include = None, set_include_specified = False, set_lock_checksum = None, set_rehash_locked = False,
      set_dry_run = False, set_dry_run_with_checksums = False, set_one_file_system = False,
      set_watch_timestamps = False, information_mode_requested = False, rational_logger_mode = REGULAR,
      rational_color_mode = COLOR_MODE_AUTO\<rparr>"

text \<open>\<open>realloc\<close> of the pointers and \<open>malloc\<close> of the text; a failure frees the whole array.\<close>

definition add_string_to_array ::
  "'a globals_scheme \<Rightarrow> heap \<Rightarrow> bytes list option \<Rightarrow> bytes \<Rightarrow> ret \<times> bytes list option" where
  "add_string_to_array g heap array new_string =
     (let held = (case array of None \<Rightarrow> [] | Some texts \<Rightarrow> texts)
      in if heap (of_nat (8 * (length held + 2))) = None then (fst (provide FAILURE g), None)
         else if heap (of_nat (length new_string + 1)) = None then (fst (provide FAILURE g), None)
         else (fst (provide SUCCESS g), Some (held @ [new_string])))"

section \<open>Options\<close>

definition EX_OK :: int where "EX_OK = 0"
definition EX_USAGE :: int where "EX_USAGE = 64"
definition ENOMEM :: int where "ENOMEM = 12"
definition EINVAL :: int where "EINVAL = 22"
definition ARGP_ERR_UNKNOWN :: int where "ARGP_ERR_UNKNOWN = 7"

datatype key =
  Letter char | ARGP_KEY_ARG | ARGP_KEY_ARGS | ARGP_KEY_NO_ARGS | ARGP_KEY_INIT | ARGP_KEY_END
| ARGP_KEY_SUCCESS | ARGP_KEY_ERROR | ARGP_KEY_FINI

text \<open>An entry of the table: its name, its key (0 in a heading), whether it has an argument, and the alias flag.\<close>

record argp_option =
  option_name :: "string option"
  option_key :: "char option"
  option_arg :: bool
  option_alias :: bool

definition named :: "string \<Rightarrow> char \<Rightarrow> bool \<Rightarrow> argp_option" where
  "named name k takes = \<lparr>option_name = Some name, option_key = Some k, option_arg = takes, option_alias = False\<rparr>"

definition also_named :: "string option \<Rightarrow> char \<Rightarrow> argp_option" where
  "also_named name k = \<lparr>option_name = name, option_key = Some k, option_arg = False, option_alias = True\<rparr>"

definition heading :: argp_option where
  "heading = \<lparr>option_name = None, option_key = None, option_arg = False, option_alias = False\<rparr>"

definition options :: "argp_option list" where
  "options =
     [heading,
      named ''lock-checksum'' (CHR ''k'') True, named ''rehash-locked'' (CHR ''r'') False,
      heading, heading,
      named ''ignore'' (CHR ''e'') True, named ''include'' (CHR ''i'') True,
      named ''db-drop-ignored'' (CHR ''C'') False, also_named (Some ''db-clean-ignored'') (CHR ''C''),
      named ''db-drop-inaccessible'' (CHR ''X'') False, also_named (Some ''drop-inaccessible'') (CHR ''X''),
      named ''watch-timestamps'' (CHR ''T'') False, named ''maxdepth'' (CHR ''m'') True,
      named ''dry-run'' (CHR ''n'') True,
      named ''one-file-system'' (CHR ''x'') False, also_named (Some ''start-device-only'') (CHR ''o''),
      named ''force'' (CHR ''f'') False, named ''update'' (CHR ''u'') False,
      named ''database'' (CHR ''d'') True, named ''path'' (CHR ''P'') True,
      named ''check-level'' (CHR ''l'') True,
      heading,
      named ''compare'' (CHR ''c'') False, named ''compare-filter'' (CHR ''F'') True,
      heading,
      named ''silent'' (CHR ''s'') False, named ''quiet-ignored'' (CHR ''q'') False,
      named ''verbose'' (CHR ''v'') False, named ''output'' (CHR ''O'') True,
      named ''progress'' (CHR ''p'') False, named ''color'' (CHR ''S'') True,
      named ''config'' (CHR ''g'') True, named ''help'' (CHR ''h'') False, also_named None (CHR ''?''),
      named ''usage'' (CHR ''z'') False, named ''version'' (CHR ''V'') False]"


text \<open>The text behind \<open>arg\<close>; only options that have an argument read it.\<close>

definition text_of :: "bytes option \<Rightarrow> bytes" where
  "text_of arg = (case arg of None \<Rightarrow> [] | Some given \<Rightarrow> given)"

definition c_string :: "bytes \<Rightarrow> source_pointer" where "c_string given = External (given @ [0])"

text \<open>The branches of \<open>parse_opt\<close>; each returns the error code and the settings.\<close>

definition parse_database :: "'a globals_scheme \<Rightarrow> heap \<Rightarrow> bytes \<Rightarrow> settings \<Rightarrow> int \<times> settings" where
  "parse_database g heap arg s =
     (let (st, path) = mem_copy_unbounded_string g heap (set_primary_path s) (c_string arg);
          s = s\<lparr>set_primary_path := path\<rparr>;
          undone = s\<lparr>set_primary_path := snd (mem_delete g path)\<rparr>
      in if has CRITICAL st then (ENOMEM, s)
         else if heap (of_nat (length arg + 1)) = None then (ENOMEM, undone)
         else
           let (st, name) = mem_copy_unbounded_string g heap (set_file_name s) (c_string (c_basename arg))
           in if has CRITICAL st then (ENOMEM, undone\<lparr>set_file_name := name\<rparr>)
              else (EX_OK, s\<lparr>set_file_name := name\<rparr>))"

definition parse_dry_run :: "bytes option \<Rightarrow> bool \<Rightarrow> settings \<Rightarrow> int \<times> settings" where
  "parse_dry_run arg flag s =
     (let s = s\<lparr>set_dry_run := flag\<rparr>;
          s = (if config_file_error_line s > 0 then s\<lparr>set_dry_run_with_checksums := False\<rparr> else s)
      in if flag \<and> arg \<noteq> None then
           if same_text (text_of arg) (ascii ''with-checksums'') then (EX_OK, s\<lparr>set_dry_run_with_checksums := True\<rparr>)
           else (EINVAL, s)
         else (EX_OK, s))"

definition parse_compare_filter :: "bytes option \<Rightarrow> settings \<Rightarrow> int \<times> settings" where
  "parse_compare_filter arg s =
     (let is = (\<lambda>name. arg \<noteq> None \<and> same_text (text_of arg) (ascii name));
          add = (\<lambda>f. (EX_OK, s\<lparr>set_compare_filter := set_compare_filter s OR f\<rparr>))
      in if is ''checksum-mismatch'' then add CF_CHECKSUM_MISMATCH
         else if is ''first-source'' then add CF_FIRST_SOURCE
         else if is ''second-source'' then add CF_SECOND_SOURCE
         else (EINVAL, s))"

definition parse_maxdepth :: "bytes \<Rightarrow> settings \<Rightarrow> int \<times> settings" where
  "parse_maxdepth arg s =
     (let (argument_value, number_suffix) = c_strtol arg
      in if number_suffix \<noteq> arg \<and> argument_value \<ge> 0 \<and> argument_value \<le> 32767 \<and> number_suffix = []
         then (EX_OK, s\<lparr>set_maxdepth := argument_value\<rparr>) else (EINVAL, s))"

definition parse_check_level :: "bytes \<Rightarrow> settings \<Rightarrow> int \<times> settings" where
  "parse_check_level arg s =
     (if same_text arg (ascii ''QUICK'') then (EX_OK, s\<lparr>set_check_level := QUICK\<rparr>)
      else if same_text arg (ascii ''FULL'') then (EX_OK, s\<lparr>set_check_level := FULL\<rparr>)
      else (EINVAL, s))"

definition parse_output :: "bytes \<Rightarrow> settings \<Rightarrow> int \<times> settings" where
  "parse_output arg s =
     (let select = (\<lambda>format. (EX_OK, update_logger_mode (s\<lparr>set_output := format\<rparr>)))
      in if same_text arg (ascii ''full'') then select OUTPUT_FULL
         else if same_text arg (ascii ''compact'') then select OUTPUT_COMPACT
         else if same_text arg (ascii ''machine'') then select OUTPUT_MACHINE
         else (EINVAL, s))"

definition parse_color :: "bytes \<Rightarrow> settings \<Rightarrow> int \<times> settings" where
  "parse_color arg s =
     (let select = (\<lambda>mode. (EX_OK, update_logger_mode (s\<lparr>set_color_mode := mode, set_color_specified := True\<rparr>)))
      in if same_text arg (ascii ''auto'') then select COLOR_MODE_AUTO
         else if same_text arg (ascii ''always'') then select COLOR_MODE_ALWAYS
         else if same_text arg (ascii ''never'') then select COLOR_MODE_NEVER
         else (EINVAL, s))"

definition append_string :: "'a globals_scheme \<Rightarrow> heap \<Rightarrow> string_array \<Rightarrow> bytes \<Rightarrow> ret \<times> string_array" where
  "append_string g heap a given = mem_string_array_append_unbounded g heap a 1 (c_string given)"

definition strings :: "string_array \<Rightarrow> u64" where "strings a = mlength (root_descriptor a)"

text \<open>\<open>positional\<close> tells \<open>ARGP_KEY_ARG\<close> from \<open>--path\<close>.\<close>

definition parse_path :: "'a globals_scheme \<Rightarrow> heap \<Rightarrow> bool \<Rightarrow> bytes \<Rightarrow> settings \<Rightarrow> int \<times> settings" where
  "parse_path g heap positional arg s =
     (if positional \<and> set_compare s then
        let (st, a) = append_string g heap (set_file_paths s) arg
        in (if has TRIUMPH st then EX_OK else ENOMEM, s\<lparr>set_file_paths := a\<rparr>)
      else if arg = [] then (EINVAL, s)
      else
        let (st, a) = append_string g heap (set_roots s) arg
        in (if has TRIUMPH st then EX_OK else ENOMEM, s\<lparr>set_roots := a\<rparr>))"

text \<open>\<open>argc\<close> and \<open>has_entries\<close> come with the parser state.\<close>

definition parse_no_args :: "nat \<Rightarrow> bool \<Rightarrow> settings \<Rightarrow> int \<times> settings" where
  "parse_no_args argc has_entries s =
     (if information_mode_requested s then (EX_OK, s)
      else if \<not> set_compare s \<and> strings (set_roots s) \<noteq> 0 \<or> set_compare s \<and> strings (set_file_paths s) \<noteq> 0
        then (EX_OK, s)
      else if argc = 1 \<and> \<not> has_entries then (EX_OK, s\<lparr>information_mode_requested := True\<rparr>)
      else (EX_USAGE, s))"

definition parse_end :: "settings \<Rightarrow> int \<times> settings" where
  "parse_end s =
     (if information_mode_requested s then (EX_OK, s)
      else if set_compare_filter s \<noteq> CF_NONE_SPECIFIED \<and> \<not> set_compare s then (EX_USAGE, s)
      else if set_compare s \<and> strings (set_file_paths s) < 2 then (EX_USAGE, s)
      else if set_compare s \<and> strings (set_file_paths s) > 2 then (EX_USAGE, s)
      else (EX_OK, s))"

definition parse_letter ::
  "'a globals_scheme \<Rightarrow> heap \<Rightarrow> char \<Rightarrow> bytes option \<Rightarrow> bool \<Rightarrow> settings \<Rightarrow> int \<times> settings" where
  "parse_letter g heap k arg flag s =
     (if k = CHR ''d'' then parse_database g heap (text_of arg) s
      else if k = CHR ''e'' then (EX_OK, s\<lparr>set_ignore := snd (add_string_to_array g heap (set_ignore s) (text_of arg))\<rparr>)
      else if k = CHR ''n'' then parse_dry_run arg flag s
      else if k = CHR ''i'' then
        (EX_OK, s\<lparr>set_include := snd (add_string_to_array g heap (set_include s) (text_of arg)),
                  set_include_specified := True\<rparr>)
      else if k = CHR ''k'' then
        (EX_OK, s\<lparr>set_lock_checksum := snd (add_string_to_array g heap (set_lock_checksum s) (text_of arg))\<rparr>)
      else if k = CHR ''r'' then (EX_OK, s\<lparr>set_rehash_locked := flag\<rparr>)
      else if k = CHR ''c'' then (EX_OK, s\<lparr>set_compare := flag\<rparr>)
      else if k = CHR ''F'' then parse_compare_filter arg s
      else if k = CHR ''o'' \<or> k = CHR ''x'' then (EX_OK, s\<lparr>set_one_file_system := flag\<rparr>)
      else if k = CHR ''C'' then (EX_OK, s\<lparr>set_drop_ignored := flag\<rparr>)
      else if k = CHR ''X'' then (EX_OK, s\<lparr>set_drop_inaccessible := flag\<rparr>)
      else if k = CHR ''m'' then parse_maxdepth (text_of arg) s
      else if k = CHR ''p'' then (EX_OK, s\<lparr>set_progress := flag, set_show_remembered := flag\<rparr>)
      else if k = CHR ''T'' then (EX_OK, s\<lparr>set_watch_timestamps := flag\<rparr>)
      else if k = CHR ''u'' then (EX_OK, s\<lparr>set_update := flag\<rparr>)
      else if k = CHR ''f'' then (EX_OK, s\<lparr>set_force := flag\<rparr>)
      else if k = CHR ''l'' then parse_check_level (text_of arg) s
      else if k = CHR ''s'' then (EX_OK, update_logger_mode (s\<lparr>set_silent := flag\<rparr>))
      else if k = CHR ''q'' then (EX_OK, s\<lparr>set_quiet_ignored := flag\<rparr>)
      else if k = CHR ''v'' then (EX_OK, update_logger_mode (s\<lparr>set_verbose := flag\<rparr>))
      else if k = CHR ''O'' then parse_output (text_of arg) s
      else if k = CHR ''S'' then parse_color (text_of arg) s
      else if k = CHR ''h'' \<or> k = CHR ''?'' \<or> k = CHR ''V'' \<or> k = CHR ''z'' then
        (EX_OK, s\<lparr>information_mode_requested := True\<rparr>)
      else if k = CHR ''g'' then (EX_OK, s)
      else if k = CHR ''P'' then parse_path g heap False (text_of arg) s
      else (ARGP_ERR_UNKNOWN, s))"

definition parse_opt ::
  "'a globals_scheme \<Rightarrow> heap \<Rightarrow> nat \<Rightarrow> bool \<Rightarrow> key \<Rightarrow> bytes option \<Rightarrow> bool \<Rightarrow> settings \<Rightarrow> int \<times> settings" where
  "parse_opt g heap argc has_entries key arg quoted s =
     (let flag = (config_file_error_line s < 0 \<or> arg = None \<or> \<not> same_text (text_of arg) (ascii ''false''))
      in if quoted \<and> (key = ARGP_KEY_ARG \<or> key = ARGP_KEY_NO_ARGS \<or> key = ARGP_KEY_END) then (EX_USAGE, s)
         else
           case key of
             Letter k \<Rightarrow> parse_letter g heap k arg flag s
           | ARGP_KEY_NO_ARGS \<Rightarrow> parse_no_args argc has_entries s
           | ARGP_KEY_ARG \<Rightarrow> parse_path g heap True (text_of arg) s
           | ARGP_KEY_END \<Rightarrow> parse_end s
           | _ \<Rightarrow> (ARGP_ERR_UNKNOWN, s))"

end
