(* ===== verification/Arguments.thy ===== *)
theory Arguments
  imports Options
begin

text \<open>
  Where the settings of a run come from: the command line or one configuration file, never both
  (\<open>parse_source.c\<close>, \<open>parse_configfile.c\<close>, \<open>parse_arguments\<close> of \<open>parse_arguments.c\<close>), and the patterns compiled
  from them (\<open>compile_patterns.c\<close>).
\<close>

section \<open>The parsers of argp and inih\<close>

text \<open>
  \<open>argp_parse\<close> of the C library calls a handler for every option and operand in turn until one is
  refused, then for the events at the end.  \<open>delivered\<close> are the calls for the arguments, with the mark of
  \<open>state->quoted\<close> at that moment; \<open>rejected\<close> says that argp itself refuses what follows them.
\<close>

record arguments =
  argument_count :: nat
  delivered :: "(key \<times> bytes option \<times> bool) list"
  quoted_at_end :: bool
  rejected :: bool

type_synonym 's handler = "key \<Rightarrow> bytes option \<Rightarrow> bool \<Rightarrow> 's \<Rightarrow> int \<times> 's"

fun deliver_arguments :: "'s handler \<Rightarrow> (key \<times> bytes option \<times> bool) list \<Rightarrow> 's \<Rightarrow> int \<times> 's" where
  "deliver_arguments handler [] s = (EX_OK, s)"
| "deliver_arguments handler ((key, arg, quoted) # rest) s =
     (let (err, s) = handler key arg quoted s
      in if err \<noteq> EX_OK then (err, s) else deliver_arguments handler rest s)"

definition has_operands :: "arguments \<Rightarrow> bool" where
  "has_operands a \<longleftrightarrow> list_ex (\<lambda>(key, arg, quoted). key = ARGP_KEY_ARG) (delivered a)"

text \<open>An event at the end that a handler does not know is no error.\<close>

definition at_end :: "'s handler \<Rightarrow> arguments \<Rightarrow> key \<Rightarrow> int \<times> 's \<Rightarrow> int \<times> 's" where
  "at_end handler a event state =
     (case state of (err, s) \<Rightarrow>
        if err \<noteq> EX_OK then (err, s)
        else let (err, s) = handler event None (quoted_at_end a) s
             in (if err = ARGP_ERR_UNKNOWN then EX_OK else err, s))"

definition argp_parse :: "'s handler \<Rightarrow> arguments \<Rightarrow> 's \<Rightarrow> int \<times> 's" where
  "argp_parse handler a s =
     (let (err, s) = deliver_arguments handler (delivered a) s;
          err = (if err = EX_OK \<and> rejected a then EINVAL else err);
          state = (if has_operands a then (err, s) else at_end handler a ARGP_KEY_NO_ARGS (err, s));
          state = at_end handler a ARGP_KEY_END state
      in at_end handler a ARGP_KEY_SUCCESS state)"

text \<open>
  What opening a configuration file and \<open>ini_parse_file\<close> give: the error of \<open>fopen\<close>, the records handed to
  the callback (a section header has no name) with their lines, the line of a syntax error behind
  them (0 for none), and whether reading and closing fail.
\<close>

record ini_file =
  opening_error :: "errno option"
  ini_records :: "(string option \<times> bytes \<times> int) list"
  syntax_error_line :: int
  stream_error :: bool
  closing_error :: bool

section \<open>The configuration file\<close>

record reader =
  has_entries :: bool
  read_status :: ret

definition reader_fails :: "reader \<times> settings \<Rightarrow> bool \<times> reader \<times> settings" where
  "reader_fails state = (case state of (r, s) \<Rightarrow> (False, r\<lparr>read_status := FAILURE\<rparr>, s))"

text \<open>The search in the table: the entry of the name, or the last one before an alias of that name.\<close>

fun find_option :: "string \<Rightarrow> argp_option list \<Rightarrow> argp_option option \<Rightarrow> argp_option option" where
  "find_option name [] primary = None"
| "find_option name (entry # rest) primary =
     (let primary = (if \<not> option_alias entry then Some entry else primary)
      in if option_name entry = Some name then primary else find_option name rest primary)"

text \<open>The value without its quotes, \<open>None\<close> when a quote is not closed.\<close>

definition unquote :: "bytes \<Rightarrow> bytes option" where
  "unquote text =
     (if text \<noteq> [] \<and> (hd text = 34 \<or> hd text = 39) then
        if length text < 2 \<or> last text \<noteq> hd text then None else Some (butlast (tl text))
      else Some text)"

definition false_words :: "string list" where "false_words = [''false'', ''no'', ''off'', ''n'', ''0'']"
definition true_words :: "string list" where "true_words = [''true'', ''yes'', ''on'', ''y'', ''1'']"

definition one_of :: "bytes \<Rightarrow> string list \<Rightarrow> bool" where
  "one_of text words \<longleftrightarrow> list_ex (\<lambda>word. same_text text (ascii word)) words"

text \<open>
  The argument for the handler: \<open>None\<close> when the value is refused, otherwise the text, or \<open>Some None\<close> for a
  flag that is switched on.
\<close>

definition entry_argument :: "argp_option \<Rightarrow> bytes \<Rightarrow> bytes option option" where
  "entry_argument option text =
     (if \<not> option_arg option \<and> option_key option \<noteq> Some (CHR ''c'') \<or> option_key option = Some (CHR ''n'') then
        if one_of text false_words then Some (Some (ascii ''false''))
        else if one_of text true_words then Some None
        else if option_key option \<noteq> Some (CHR ''n'') then None
        else Some (Some text)
      else Some (Some text))"

definition apply_entry ::
  "'a globals_scheme \<Rightarrow> heap \<Rightarrow> key \<Rightarrow> bytes option \<Rightarrow> int \<Rightarrow> reader \<times> settings \<Rightarrow> bool \<times> reader \<times> settings" where
  "apply_entry g heap key argument line state =
     (case state of (r, s) \<Rightarrow>
        let (parse_error, s) = parse_opt g heap 0 False key argument False (s\<lparr>config_file_error_line := line\<rparr>);
            s = s\<lparr>config_file_error_line := - 1\<rparr>
        in if parse_error \<noteq> EX_OK then reader_fails (r, s) else (True, r, s))"

definition cli_only :: "string list" where "cli_only = [''help'', ''usage'', ''version'', ''config'']"

definition read_config_entry ::
  "'a globals_scheme \<Rightarrow> heap \<Rightarrow> string option \<times> bytes \<times> int \<Rightarrow> reader \<times> settings
     \<Rightarrow> bool \<times> reader \<times> settings" where
  "read_config_entry g heap record state =
     (case (record, state) of ((name, text, line), (r, s)) \<Rightarrow>
        if name = None then (True, r, s)
        else if the name \<in> set cli_only then reader_fails (r, s)
        else
          case find_option (the name) options None of
            None \<Rightarrow> reader_fails (r, s)
          | Some option \<Rightarrow>
              let r = r\<lparr>has_entries := True\<rparr>
              in case unquote text of
                   None \<Rightarrow> reader_fails (r, s)
                 | Some text \<Rightarrow>
                     (case entry_argument option text of
                        None \<Rightarrow> reader_fails (r, s)
                      | Some argument \<Rightarrow>
                          if option_key option = Some (CHR ''c'') then
                            if text = [] then reader_fails (r, s)
                            else apply_entry g heap ARGP_KEY_ARG argument line (r, s\<lparr>set_compare := True\<rparr>)
                          else apply_entry g heap (Letter (the (option_key option))) argument line (r, s)))"

text \<open>\<open>ini_parse_file\<close> with this callback; it stops at the first error and returns its line.\<close>

fun ini_parse_file ::
  "'a globals_scheme \<Rightarrow> heap \<Rightarrow> int \<Rightarrow> (string option \<times> bytes \<times> int) list \<Rightarrow> reader \<times> settings
     \<Rightarrow> int \<times> reader \<times> settings" where
  "ini_parse_file g heap syntax_error [] state = (syntax_error, state)"
| "ini_parse_file g heap syntax_error (record # rest) state =
     (let (accepted, state) = read_config_entry g heap record state
      in if accepted then ini_parse_file g heap syntax_error rest state else (snd (snd record), state))"

definition read_config_file ::
  "'a globals_scheme \<Rightarrow> heap \<Rightarrow> ini_file \<Rightarrow> bool \<Rightarrow> settings \<Rightarrow> ret \<times> bool \<times> settings" where
  "read_config_file g heap file required s =
     (case opening_error file of
        Some errno \<Rightarrow>
          (fst (provide (if required \<or> errno \<noteq> ENOENT then FAILURE else SUCCESS) g), False, s)
      | None \<Rightarrow>
          let (parse_error, r, s) =
                ini_parse_file g heap (syntax_error_line file) (ini_records file)
                  (\<lparr>has_entries = False, read_status = SUCCESS\<rparr>, s);
              st = read_status r;
              st = (if st = SUCCESS \<and> stream_error file then FAILURE else st);
              st = (if st = SUCCESS \<and> parse_error \<noteq> 0 then FAILURE else st);
              st = (if st = SUCCESS \<and> closing_error file then FAILURE else st)
          in (fst (provide st g), has_entries r, s))"

section \<open>The source of the settings\<close>

record parse_context =
  config_required :: bool
  has_other_arguments :: bool
  information_requested :: bool
  config_has_entries :: bool

definition parse_source_option :: "'a globals_scheme \<Rightarrow> heap \<Rightarrow> (parse_context \<times> settings) handler" where
  "parse_source_option g heap key arg quoted state =
     (case state of (x, s) \<Rightarrow>
        let other = x\<lparr>has_other_arguments := True\<rparr>;
            shared = (let (err, s) = parse_opt g heap 0 False key arg quoted s in (err, other, s));
            known = (\<lambda>words. if one_of (text_of arg) words then shared else (EX_OK, other, s))
        in case key of
             Letter k \<Rightarrow>
               if k = CHR ''g'' then (EX_OK, x, s\<lparr>config_file_path := arg\<rparr>)
               else if k = CHR ''s'' \<or> k = CHR ''v'' then shared
               else if k = CHR ''O'' then known [''full'', ''compact'', ''machine'']
               else if k = CHR ''S'' then known [''auto'', ''always'', ''never'']
               else if k = CHR ''h'' \<or> k = CHR ''?'' \<or> k = CHR ''z'' \<or> k = CHR ''V''
                 then (EX_OK, other\<lparr>information_requested := True\<rparr>, s)
               else (EX_OK, other, s)
           | ARGP_KEY_ARG \<Rightarrow> (EX_OK, other, s)
           | ARGP_KEY_END \<Rightarrow> (if quoted then EX_USAGE else EX_OK, x, s)
           | ARGP_KEY_ARGS \<Rightarrow> (ARGP_ERR_UNKNOWN, x, s)
           | _ \<Rightarrow> (EX_OK, x, s))"

text \<open>\<open>precizer.conf\<close>\<close>

definition default_file :: bytes where "default_file = ascii ''precizer.conf''"

definition select_settings_source ::
  "'a globals_scheme \<Rightarrow> nat \<Rightarrow> int \<Rightarrow> parse_context \<times> settings \<Rightarrow> ret \<times> parse_context \<times> settings" where
  "select_settings_source g argc preliminary_error state =
     (case state of (x, s) \<Rightarrow>
        let x = x\<lparr>config_required := False\<rparr>;
            (st, x, s) =
              (if preliminary_error \<noteq> EX_OK then
                 (SUCCESS, x\<lparr>has_other_arguments := False, information_requested := False\<rparr>, s\<lparr>config_file_path := None\<rparr>)
               else if information_requested x then (SUCCESS, x, s\<lparr>config_file_path := None\<rparr>)
               else if config_file_path s \<noteq> None then
                 if has_other_arguments x then (FAILURE, x, s\<lparr>config_file_path := None\<rparr>)
                 else (SUCCESS, x\<lparr>config_required := True\<rparr>, s)
               else if argc = 1 then (SUCCESS, x, s\<lparr>config_file_path := Some default_file\<rparr>)
               else (SUCCESS, x, s))
        in (deliver g st, x, s))"

section \<open>All arguments\<close>

text \<open>The loops over the collected roots and database paths.\<close>

fun normalize_roots :: "'a globals_scheme \<Rightarrow> heap \<Rightarrow> ret \<Rightarrow> memory list \<Rightarrow> ret \<times> memory list" where
  "normalize_roots g heap st [] = (st, [])"
| "normalize_roots g heap st (root # rest) =
     (let (st, root) = run_out g st (remove_trailing_slash g heap root) root
      in if \<not> has SUCCESS st then (st, root # rest)
         else let (st, rest) = normalize_roots g heap st rest in (st, root # rest))"

fun normalize_databases ::
  "'a globals_scheme \<Rightarrow> heap \<Rightarrow> ret \<Rightarrow> memory list \<Rightarrow> bytes list option \<Rightarrow> ret \<times> memory list \<times> bytes list option" where
  "normalize_databases g heap st [] names = (st, [], names)"
| "normalize_databases g heap st (path # rest) names =
     (let (st, path) = run_out g st (remove_trailing_slash g heap path) path;
          path_text = printed (mem_string path)
      in if \<not> has SUCCESS st then (st, path # rest, names)
         else if heap (of_nat (length path_text + 1)) = None then (FAILURE, path # rest, names)
         else
           let (st, names) = add_string_to_array g heap names (c_basename path_text)
           in if \<not> has SUCCESS st then (st, path # rest, names)
              else let (st, rest, names) = normalize_databases g heap st rest names in (st, path # rest, names))"

definition finish_paths :: "'a globals_scheme \<Rightarrow> heap \<Rightarrow> ret \<times> settings \<Rightarrow> ret \<times> settings" where
  "finish_paths g heap state =
     (case state of (st, s) \<Rightarrow>
        let (st, s) =
              (if has SUCCESS st \<and> set_compare s then
                 let (st, a) = run_out g st (mem_array_delete g (set_roots s)) (set_roots s)
                 in (st, s\<lparr>set_roots := a\<rparr>)
               else (st, s));
            (st, s) =
              (if has SUCCESS st \<and> \<not> set_compare s \<and> strings (set_roots s) \<noteq> 0 then
                 let (st, roots) = normalize_roots g heap st (items (set_roots s))
                 in (st, s\<lparr>set_roots := (set_roots s)\<lparr>items := roots\<rparr>\<rparr>)
               else (st, s))
        in if has SUCCESS st \<and> set_compare s \<and> strings (set_file_paths s) \<noteq> 0 then
             let (st, paths, names) = normalize_databases g heap st (items (set_file_paths s)) (set_file_names s)
             in (st, s\<lparr>set_file_paths := (set_file_paths s)\<lparr>items := paths\<rparr>, set_file_names := names\<rparr>)
           else (st, s))"

definition parse_arguments ::
  "'a globals_scheme \<Rightarrow> heap \<Rightarrow> (bytes \<Rightarrow> ini_file) \<Rightarrow> arguments \<Rightarrow> settings \<Rightarrow> ret \<times> settings" where
  "parse_arguments g heap files a s =
     (let s = s\<lparr>information_mode_requested := False, config_file_path := None\<rparr>;
          x = \<lparr>config_required = False, has_other_arguments = False, information_requested = False,
               config_has_entries = False\<rparr>;
          (preliminary_error, x, s) = argp_parse (parse_source_option g heap) a (x, s);
          (st, x, s) =
            run_out g SUCCESS (select_settings_source g (argument_count a) preliminary_error (x, s)) (x, s);
          (st, entries, s) =
            (if st = SUCCESS \<and> config_file_path s \<noteq> None
             then run_out g st (read_config_file g heap (files (the (config_file_path s))) (config_required x) s)
                    (config_has_entries x, s)
             else (st, config_has_entries x, s))
      in if has CRITICAL st then (fst (provide st g), s)
         else
           let (parse_error, s) = argp_parse (parse_opt g heap (argument_count a) entries) a s;
               parse_error = (if parse_error = EX_OK then preliminary_error else parse_error);
               st = (if parse_error \<noteq> EX_OK then FAILURE else st)
           in if parse_error = EX_OK \<and> information_mode_requested s then (fst (provide (INFO OR HALTED) g), s)
              else
                let (st, s) = finish_paths g heap (st, s);
                    st = (if parse_error \<noteq> EX_OK then FAILURE else st)
                in (fst (provide st g), s))"

section \<open>Patterns\<close>

text \<open>\<open>compile\<close> says whether \<open>pcre2_compile\<close> accepts an expression; a compiled expression keeps its text.\<close>

definition compile_one_array ::
  "'a globals_scheme \<Rightarrow> heap \<Rightarrow> (bytes \<Rightarrow> bool) \<Rightarrow> bytes list option \<Rightarrow> ret \<times> patterns" where
  "compile_one_array g heap compile texts =
     (case texts of
        None \<Rightarrow> (fst (provide SUCCESS g), None)
      | Some texts \<Rightarrow>
          if heap (of_nat (8 * (length texts + 1))) = None then (fst (provide FAILURE g), None)
          else if \<not> list_all compile texts then (fst (provide FAILURE g), None)
          else (fst (provide SUCCESS g), Some texts))"

definition compile_patterns ::
  "'a globals_scheme \<Rightarrow> heap \<Rightarrow> (bytes \<Rightarrow> bool) \<Rightarrow> settings \<Rightarrow> ret \<times> patterns \<times> patterns \<times> patterns" where
  "compile_patterns g heap compile s =
     (let (st, ignored) = run_out g SUCCESS (compile_one_array g heap compile (set_ignore s)) None;
          (st, included) = run_out g st (compile_one_array g heap compile (set_include s)) None;
          (st, locked) = run_out g st (compile_one_array g heap compile (set_lock_checksum s)) None
      in (fst (provide st g), ignored, included, locked))"

text \<open>The options the rest of the program reads.\<close>

definition scan_config :: "settings \<Rightarrow> patterns \<times> patterns \<times> patterns \<Rightarrow> Config" where
  "scan_config s compiled =
     (case compiled of (ignored, included, locked) \<Rightarrow>
        \<lparr>conf_output = set_output s, conf_progress = set_progress s, conf_update = set_update s,
         conf_compare = set_compare s, conf_db_drop_ignored = set_drop_ignored s,
         conf_db_drop_inaccessible = set_drop_inaccessible s, conf_maxdepth = set_maxdepth s,
         conf_ignore = (set_ignore s \<noteq> None), conf_include_specified = set_include_specified s,
         conf_lock_checksum = (set_lock_checksum s \<noteq> None), conf_rehash_locked = set_rehash_locked s,
         conf_dry_run = set_dry_run s, conf_dry_run_with_checksums = set_dry_run_with_checksums s,
         conf_watch_timestamps = set_watch_timestamps s, conf_ignore_pcre_compiled = ignored,
         conf_include_pcre_compiled = included, conf_lock_checksum_pcre_compiled = locked\<rparr>)"

end
