(* ===== verification/Arguments_Correct.thy ===== *)
theory Arguments_Correct
  imports Arguments
begin

text \<open>
  What the parsing of arguments guarantees: the settings come from one source, an entry of the
  configuration file acts like its option, and accepted settings fit together.
\<close>

section \<open>Example inputs\<close>

text \<open>One operand with a slash at its end, no configuration file, and memory without end.\<close>

definition one_operand :: arguments where
  "one_operand = \<lparr>argument_count = 2, delivered = [(ARGP_KEY_ARG, Some [97, 47], False)],
     quoted_at_end = False, rejected = False\<rparr>"

definition no_file :: "bytes \<Rightarrow> ini_file" where
  "no_file path = \<lparr>opening_error = Some ENOENT, ini_records = [], syntax_error_line = 0, stream_error = False,
     closing_error = False\<rparr>"

text \<open>A configuration file with one entry, behind any path.\<close>

definition file_with :: "string \<Rightarrow> bytes \<Rightarrow> bytes \<Rightarrow> ini_file" where
  "file_with name text path = \<lparr>opening_error = None, ini_records = [(Some name, text, 1)], syntax_error_line = 0,
     stream_error = False, closing_error = False\<rparr>"

section \<open>One source\<close>

lemma source_context:
  "has_other_arguments x \<Longrightarrow> has_other_arguments (fst (snd (parse_source_option g heap key arg quoted (x, s))))"
  "has_other_arguments (fst (snd (parse_source_option g heap ARGP_KEY_ARG arg quoted (x, s))))"
  "k \<noteq> CHR ''g'' \<Longrightarrow> has_other_arguments (fst (snd (parse_source_option g heap (Letter k) arg quoted (x, s))))"
  by (cases key; simp add: parse_source_option_def Let_def case_prod_beta split: if_split)
    (simp_all add: parse_source_option_def Let_def case_prod_beta split: if_split)

lemma source_option_monotone:
  assumes "parse_source_option g heap key arg quoted (x, s) = (err, x', s')" "has_other_arguments x"
  shows "has_other_arguments x'"
  using source_context(1) [OF assms(2), of g heap key arg quoted s] assms(1) by simp

lemma deliver_monotone:
  assumes "deliver_arguments (parse_source_option g heap) es (x, s) = (err, x', s')" "has_other_arguments x"
  shows "has_other_arguments x'"
  using assms
proof (induction es arbitrary: x s)
  case (Cons e es)
  obtain key arg quoted where e: "e = (key, arg, quoted)" by (cases e)
  obtain err1 x1 s1 where 1: "parse_source_option g heap key arg quoted (x, s) = (err1, x1, s1)"
    by (cases "parse_source_option g heap key arg quoted (x, s)")
  note m = source_option_monotone [OF 1 Cons.prems(2)]
  show ?case using Cons.prems(1) Cons.IH [OF _ m] m by (auto simp: e 1 split: if_splits)
qed simp

text \<open>An argument that is not the selection of the configuration file.\<close>

definition other_argument :: "key \<times> bytes option \<times> bool \<Rightarrow> bool" where
  "other_argument e \<longleftrightarrow> fst e = ARGP_KEY_ARG \<or> (\<exists>k. fst e = Letter k \<and> k \<noteq> CHR ''g'')"

lemma deliver_notes_other:
  assumes "deliver_arguments (parse_source_option g heap) es (x, s) = (EX_OK, x', s')" "\<exists>e \<in> set es. other_argument e"
  shows "has_other_arguments x'"
  using assms
proof (induction es arbitrary: x s)
  case (Cons e es)
  obtain key arg quoted where e: "e = (key, arg, quoted)" by (cases e)
  obtain err1 x1 s1 where 1: "parse_source_option g heap key arg quoted (x, s) = (err1, x1, s1)"
    by (cases "parse_source_option g heap key arg quoted (x, s)")
  have rest: "deliver_arguments (parse_source_option g heap) es (x1, s1) = (EX_OK, x', s')"
    using Cons.prems(1) by (auto simp: e 1 split: if_splits)
  show ?case
  proof (cases "other_argument e")
    case True
    then have "has_other_arguments x1"
    proof (cases "key = ARGP_KEY_ARG")
      case True
      then show ?thesis using source_context(2) [of g heap arg quoted x s] 1 by simp
    next
      case False
      then obtain k where "key = Letter k" "k \<noteq> CHR ''g''" using True by (auto simp: e other_argument_def)
      then show ?thesis using source_context(3) [of k g heap arg quoted x s] 1 by simp
    qed
    from deliver_monotone [OF rest this] show ?thesis .
  next
    case False
    then show ?thesis using Cons.IH [OF rest] Cons.prems(2) by auto
  qed
qed simp

lemma at_end_keeps_source:
  "at_end (parse_source_option g heap) a event (err, x, s) = (err', x', s') \<Longrightarrow> event \<in> {ARGP_KEY_NO_ARGS, ARGP_KEY_END, ARGP_KEY_SUCCESS}
     \<Longrightarrow> x' = x \<and> (err' = EX_OK \<longrightarrow> err = EX_OK)"
  by (auto simp: at_end_def parse_source_option_def Let_def EX_USAGE_def EX_OK_def ARGP_ERR_UNKNOWN_def split: if_splits)

lemma preliminary_notes_other:
  assumes "argp_parse (parse_source_option g heap) a (x, s) = (EX_OK, x', s')" "\<exists>e \<in> set (delivered a). other_argument e"
  shows "has_other_arguments x'"
proof -
  obtain e1 x1 s1 where 1: "deliver_arguments (parse_source_option g heap) (delivered a) (x, s) = (e1, x1, s1)"
    by (cases "deliver_arguments (parse_source_option g heap) (delivered a) (x, s)")
  define e2 where "e2 = (if e1 = EX_OK \<and> rejected a then EINVAL else e1)"
  let ?no_args = "if has_operands a then (e2, x1, s1) else at_end (parse_source_option g heap) a ARGP_KEY_NO_ARGS (e2, x1, s1)"
  obtain e3 x3 s3 where 3: "?no_args = (e3, x3, s3)" by (cases ?no_args)
  obtain e4 x4 s4 where 4: "at_end (parse_source_option g heap) a ARGP_KEY_END (e3, x3, s3) = (e4, x4, s4)"
    by (cases "at_end (parse_source_option g heap) a ARGP_KEY_END (e3, x3, s3)")
  have 5: "at_end (parse_source_option g heap) a ARGP_KEY_SUCCESS (e4, x4, s4) = (EX_OK, x', s')"
    using assms(1) by (simp only: argp_parse_def Let_def 1 prod.case e2_def [symmetric] 3 4)
  have k3: "x3 = x1 \<and> (e3 = EX_OK \<longrightarrow> e2 = EX_OK)"
    using 3 at_end_keeps_source [of g heap a ARGP_KEY_NO_ARGS e2 x1 s1 e3 x3 s3] by (auto split: if_splits)
  have "x4 = x3 \<and> (e4 = EX_OK \<longrightarrow> e3 = EX_OK)" "x' = x4 \<and> e4 = EX_OK"
    using at_end_keeps_source [OF 4] at_end_keeps_source [OF 5] by simp_all
  with k3 have "x' = x1" "e2 = EX_OK" by simp_all
  then have "e1 = EX_OK" by (auto simp: e2_def EX_OK_def EINVAL_def split: if_splits)
  with deliver_notes_other [of g heap "delivered a" x s x1 s1] 1 assms(2) \<open>x' = x1\<close> show ?thesis by simp
qed

lemma select_without_file:
  assumes "select_settings_source g argc err (x, s) = (st, x', s')" "argc \<noteq> 1" "err = EX_OK \<Longrightarrow> has_other_arguments x"
  shows "config_file_path s' = None"
  using assms by (auto simp: select_settings_source_def Let_def split: if_splits)

text \<open>
  C39: File and command line are never mixed: as soon as the command line holds an option other than
  --config or an operand, the settings, the status and the diagnostics' source do not depend on the content of any
  configuration file, not even of a selected one.
\<close>

theorem cli_settings_ignore_files:
  assumes "\<exists>e \<in> set (delivered a). other_argument e" "argument_count a \<noteq> 1"
  shows "parse_arguments g heap files a s = parse_arguments g heap files' a s"
proof -
  define s0 where "s0 = s\<lparr>information_mode_requested := False, config_file_path := None\<rparr>"
  define x0 where "x0 = \<lparr>config_required = False, has_other_arguments = False, information_requested = False,
    config_has_entries = False\<rparr>"
  obtain e1 x1 s1 where 1: "argp_parse (parse_source_option g heap) a (x0, s0) = (e1, x1, s1)"
    by (cases "argp_parse (parse_source_option g heap) a (x0, s0)")
  obtain st2 x2 s2 where 2: "select_settings_source g (argument_count a) e1 (x1, s1) = (st2, x2, s2)"
    by (cases "select_settings_source g (argument_count a) e1 (x1, s1)")
  have other: "has_other_arguments x1" if "e1 = EX_OK"
    using preliminary_notes_other [of g heap a x0 s0 x1 s1] assms(1) 1 that by simp
  have none: "config_file_path s2 = None" by (rule select_without_file [OF 2 assms(2) other])
  obtain st3 y where 3: "run_out g SUCCESS (st2, x2, s2) (x1, s1) = (st3, y)" by (cases "run_out g SUCCESS (st2, x2, s2) (x1, s1)")
  then have y: "y = (x2, s2)" by (auto simp: run_out_def Let_def split: if_splits)
  have no_file: "(if st3 = SUCCESS \<and> config_file_path s2 \<noteq> None then t else e) = e" for t e :: "ret \<times> bool \<times> settings"
    using none by simp
  show ?thesis
    by (simp only: parse_arguments_def Let_def s0_def [symmetric] x0_def [symmetric] 1 prod.case 2 3 y no_file)
qed

theorem cli_settings_ignore_files_witness:
  "parse_arguments initial_globals (\<lambda>_. Some (\<lambda>_. 7)) no_file one_operand init_config
    = parse_arguments initial_globals (\<lambda>_. Some (\<lambda>_. 7)) (file_with ''update'' (ascii ''yes'')) one_operand init_config"
  by (rule cli_settings_ignore_files) (simp_all add: one_operand_def other_argument_def)


section \<open>Entries and options\<close>

lemma find_option_in: "find_option name es p = Some option \<Longrightarrow> option \<in> set es \<or> p = Some option"
  by (induction es arbitrary: p) (auto simp: Let_def split: if_splits)

lemma logger_line: "update_logger_mode (s\<lparr>config_file_error_line := l\<rparr>) = (update_logger_mode s)\<lparr>config_file_error_line := l\<rparr>"
  by (simp add: update_logger_mode_def Let_def)

lemma letter_line:
  assumes "k \<noteq> CHR ''n''"
  shows "parse_letter g heap k arg flag (s\<lparr>config_file_error_line := l\<rparr>)
    = (fst (parse_letter g heap k arg flag s), (snd (parse_letter g heap k arg flag s))\<lparr>config_file_error_line := l\<rparr>)"
proof -
  have u: "update_logger_mode (s\<lparr>config_file_error_line := l, set_silent := flag\<rparr>)
      = (update_logger_mode (s\<lparr>set_silent := flag\<rparr>))\<lparr>config_file_error_line := l\<rparr>"
    "update_logger_mode (s\<lparr>config_file_error_line := l, set_verbose := flag\<rparr>)
      = (update_logger_mode (s\<lparr>set_verbose := flag\<rparr>))\<lparr>config_file_error_line := l\<rparr>"
    "update_logger_mode (s\<lparr>config_file_error_line := l, set_output := format\<rparr>)
      = (update_logger_mode (s\<lparr>set_output := format\<rparr>))\<lparr>config_file_error_line := l\<rparr>"
    "update_logger_mode (s\<lparr>config_file_error_line := l, set_color_mode := mode, set_color_specified := True\<rparr>)
      = (update_logger_mode (s\<lparr>set_color_mode := mode, set_color_specified := True\<rparr>))\<lparr>config_file_error_line := l\<rparr>" for format mode
    by (simp_all add: update_logger_mode_def Let_def)
  have d: "parse_database g heap b (s\<lparr>config_file_error_line := l\<rparr>)
      = (fst (parse_database g heap b s), (snd (parse_database g heap b s))\<lparr>config_file_error_line := l\<rparr>)" for b
    by (simp add: parse_database_def Let_def case_prod_beta)
  have f: "parse_compare_filter arg (s\<lparr>config_file_error_line := l\<rparr>)
      = (fst (parse_compare_filter arg s), (snd (parse_compare_filter arg s))\<lparr>config_file_error_line := l\<rparr>)"
    by (simp add: parse_compare_filter_def Let_def)
  have m: "parse_maxdepth b (s\<lparr>config_file_error_line := l\<rparr>)
      = (fst (parse_maxdepth b s), (snd (parse_maxdepth b s))\<lparr>config_file_error_line := l\<rparr>)" for b
  proof -
    have x: "s\<lparr>config_file_error_line := l, set_maxdepth := v\<rparr> = s\<lparr>set_maxdepth := v, config_file_error_line := l\<rparr>" for v
      by simp
    obtain v suffix where "c_strtol b = (v, suffix)" by (cases "c_strtol b")
    then show ?thesis
      unfolding parse_maxdepth_def by (simp only: Let_def prod.case x fst_conv snd_conv simp_thms split: if_split) blast
  qed
  have c: "parse_check_level b (s\<lparr>config_file_error_line := l\<rparr>)
      = (fst (parse_check_level b s), (snd (parse_check_level b s))\<lparr>config_file_error_line := l\<rparr>)" for b
    by (simp add: parse_check_level_def)
  have o: "parse_output b (s\<lparr>config_file_error_line := l\<rparr>)
      = (fst (parse_output b s), (snd (parse_output b s))\<lparr>config_file_error_line := l\<rparr>)" for b
    by (simp add: parse_output_def Let_def u)
  have r: "parse_color b (s\<lparr>config_file_error_line := l\<rparr>)
      = (fst (parse_color b s), (snd (parse_color b s))\<lparr>config_file_error_line := l\<rparr>)" for b
    by (simp add: parse_color_def Let_def u)
  have p: "parse_path g heap x b (s\<lparr>config_file_error_line := l\<rparr>)
      = (fst (parse_path g heap x b s), (snd (parse_path g heap x b s))\<lparr>config_file_error_line := l\<rparr>)" for x b
    by (simp add: parse_path_def Let_def case_prod_beta)
  show ?thesis
    using assms by (simp add: parse_letter_def d f m c o r p u)
qed

lemma letter_flag:
  assumes "option \<in> set options" "option_arg option" "option_key option = Some k" "k \<noteq> CHR ''n''"
  shows "parse_letter g heap k arg flag s = parse_letter g heap k arg True s"
proof -
  have "k \<in> {CHR ''k'', CHR ''e'', CHR ''i'', CHR ''m'', CHR ''d'', CHR ''P'', CHR ''l'', CHR ''F'', CHR ''O'', CHR ''S'', CHR ''g''}"
    using assms by (auto simp: options_def named_def also_named_def heading_def)
  then show ?thesis by (elim insertE emptyE) (simp_all add: parse_letter_def)
qed

lemma logger_keeps_line [simp]: "config_file_error_line (update_logger_mode s) = config_file_error_line s"
  by (simp add: update_logger_mode_def Let_def)

lemma letter_keeps_line:
  assumes "k \<noteq> CHR ''n''"
  shows "(snd (parse_letter g heap k arg flag s))\<lparr>config_file_error_line := config_file_error_line s\<rparr> = snd (parse_letter g heap k arg flag s)"
proof -
  have "parse_letter g heap k arg flag (s\<lparr>config_file_error_line := config_file_error_line s\<rparr>)
      = (fst (parse_letter g heap k arg flag s),
         (snd (parse_letter g heap k arg flag s))\<lparr>config_file_error_line := config_file_error_line s\<rparr>)"
    by (rule letter_line [OF assms])
  then show ?thesis by (simp add: prod_eq_iff)
qed



end
