(* ===== verification/Path_Trim.thy ===== *)
theory Path_Trim
  imports Paths Patterns Mem_Array
begin

text \<open>What \<open>remove_trailing_slash\<close> does to the text of a path: the slashes at its end go, a lone slash stays.\<close>

definition trimmed :: "bytes \<Rightarrow> bytes" where
  "trimmed path = (let kept = rev (dropWhile (\<lambda>b. b = 47) (rev path)) in if kept = [] then take 1 path else kept)"

lemma trimmed_snoc: "trimmed (path @ [b]) = (if b = 47 \<and> path \<noteq> [] then trimmed path else path @ [b])"
proof (cases "rev (dropWhile (\<lambda>b. b = 47) (rev path)) = []")
  case True
  then show ?thesis by (cases path) (auto simp: trimmed_def Let_def)
next
  case False
  then show ?thesis by (auto simp: trimmed_def Let_def)
qed

lemma trimmed_single [simp]: "trimmed [b] = [b]"
  by (simp add: trimmed_def)

lemma trim_slashes_text:
  "n \<le> length path \<Longrightarrow> trim_slashes path n \<le> n \<and> (0 < n \<longrightarrow> 0 < trim_slashes path n)
     \<and> take (trim_slashes path n) path = trimmed (take n path)"
proof (induction n)
  case 0
  have "trim_slashes path 0 = 0" by (subst trim_slashes.simps) simp
  then show ?case by (simp add: trimmed_def)
next
  case (Suc n)
  have t: "take (Suc n) path = take n path @ [path ! n]" using Suc.prems by (simp add: take_Suc_conv_app_nth)
  show ?case
  proof (cases "n > 0 \<and> path ! n = 47")
    case True
    then have "trim_slashes path (Suc n) = trim_slashes path n" by (subst trim_slashes.simps) simp
    moreover have "take n path \<noteq> []" using True Suc.prems by (cases path) auto
    ultimately show ?thesis using Suc True t by (simp add: trimmed_snoc)
  next
    case False
    then have "trim_slashes path (Suc n) = Suc n" by (subst trim_slashes.simps) auto
    moreover have "n = 0 \<or> path ! n \<noteq> 47" using False by simp
    ultimately show ?thesis using t by (cases "n = 0") (auto simp: trimmed_snoc)
  qed
qed


lemma remove_trailing_slash_ok:
  assumes "quiet g" "string_ok m" "single_element_size m = 1"
    and "remove_trailing_slash g heap m = (st, m')"
  shows "string_ok m' \<and> single_element_size m' = 1
    \<and> (st = SUCCESS \<and> visible_text m' = trimmed (visible_text m)
      \<or> st = FAILURE \<and> \<not> (length (visible_text m) + 4096 < 2 ^ 64 \<and> (\<forall>bytes. heap bytes \<noteq> None)))"
proof -
  have v: "valid m" "is_string m" "reserved m" using assms(2) by (auto simp: string_ok_def valid_def)
  have len: "mem_string_length g m 0 = (SUCCESS, string_length m)" 
    using v assms(1,3) by (auto simp: mem_string_length_def Let_def reserved_def valid_def split: option.splits)
  show ?thesis
  proof (cases "string_length m = 0")
    case True
    then have "visible_text m = []" by (simp add: visible_text_def split: option.split)
    moreover have "(st, m') = (SUCCESS, m)"
      using assms(1,4) True by (simp add: remove_trailing_slash_def len)
    ultimately show ?thesis using assms(2,3) by (simp add: trimmed_def)
  next
    case False
    then have l: "string_length m < mlength m" "terminated_at m (string_length m)" using v by (auto simp: valid_def)
    then obtain buf where buf: "data m = Some buf" by (auto simp: terminated_at_def split: option.splits)
    have size: "unat (mlength m) \<le> length buf" "length buf = unat (actually_allocated_bytes m)"
      using v(3) buf assms(3) by (simp_all add: reserved_def)
    define n where "n = unat (string_length m)"
    have n: "0 < n" "n < length buf" "buf ! n = 0" "n + 1 < 2 ^ 64"
    proof -
      show "0 < n" using False by (simp add: n_def unat_gt_0)
      show less: "n < length buf" using l(1) size(1) by (simp add: n_def word_less_nat_alt)
      have "take 1 (drop n buf) = [0]" using l(2) buf assms(3) by (simp add: terminated_at_def n_def)
      then show "buf ! n = 0" using less by (simp add: Cons_nth_drop_Suc [symmetric] take_Suc)
      show "n + 1 < 2 ^ 64" using l(1) lt_word_max [of "mlength m"] by (simp add: n_def word_less_nat_alt)
    qed
    define trim where "trim = trim_slashes buf n"
    have t: "trim \<le> n" "0 < trim" "take trim buf = trimmed (take n buf)"
      using trim_slashes_text [of n buf] n(1,2) by (simp_all add: trim_def)
    define m1 where "m1 = m\<lparr>data := Some (buf[trim := 0])\<rparr>"
    have m1: "valid m1" "is_string m1" "single_element_size m1 = 1" "string_length m1 = string_length m" "mlength m1 = mlength m"
    proof -
      have "buf[trim := 0] ! n = 0" using n(2,3) by (cases "trim = n") simp_all
      then have "take 1 (drop n (buf[trim := 0])) = [0]"
        using n(2) by (simp add: Cons_nth_drop_Suc [symmetric] take_Suc)
      then have "terminated_at m1 (string_length m)" using assms(3) by (simp add: terminated_at_def m1_def n_def)
      then show "valid m1" using v l(1) size assms(3) by (simp add: valid_def m1_def reserved_def)
      show "is_string m1" "single_element_size m1 = 1" "string_length m1 = string_length m" "mlength m1 = mlength m"
        using v(2) assms(3) by (simp_all add: m1_def)
    qed
    define k :: u64 where "k = of_nat trim + 1"
    have k: "unat k = trim + 1"
    proof -
      have "k = of_nat (trim + 1)" by (simp add: k_def)
      moreover have "unat (of_nat (trim + 1) :: u64) = trim + 1" by (rule unat_of_nat_small) (use t(1) n(4) in simp)
      ultimately show ?thesis by (simp only:)
    qed
    have ro: "mem_data_readonly g m 1 = Some buf"
      using v(1,3) assms(1,3) payload_size_ok [OF assms(1) v(3)] buf size l(1)
      by (auto simp: mem_data_readonly_def reserved_def)
    have res: "remove_trailing_slash g heap m
        = (let (status, path) = call_out g SUCCESS (mem_resize g heap m1 k RELEASE_UNUSED) m1 in (deliver g status, path))"
      using assms(1) False by (simp add: remove_trailing_slash_def len ro Let_def trim_def n_def m1_def k_def word_neq_0_conv)
    show ?thesis
    proof (cases rule: mem_resize_spec [OF assms(1) m1(1), of heap k RELEASE_UNUSED, case_names failed ok])
      case failed
      then have "st = FAILURE" "m' = m1" using res assms(1,4) by (auto simp: call_out_def call_def quiet_normalize)
      moreover have "length (visible_text m) = n" using buf n(2) assms(3) by (simp add: visible_text_def n_def)
      moreover have "\<not> (n + 4096 < 2 ^ 64 \<and> (\<forall>bytes. heap bytes \<noteq> None))"
        using failed(2) k t(1) m1(3) by (auto simp: can_allocate_def)
      ultimately show ?thesis using m1 by (simp add: string_ok_def)
    next
      case (ok m2)
      then have r: "st = SUCCESS" "m' = m2" using res assms(1,4) by (auto simp: call_out_def call_def quiet_normalize)
      have le: "k \<le> string_length m1 \<longleftrightarrow> trim < n" using k m1(4) by (simp add: word_le_nat_alt n_def Suc_le_eq)
      have k0: "k \<noteq> 0" using k by auto
      have sl: "unat (string_length m2) = trim"
        using ok(2) m1(2,4) k k0 le t(1) by (auto simp: resized_def unat_sub_if' n_def unat_minus_one)
      have kept: "kept_bytes m1 k = trim" using m1 le k t(1) by (auto simp: kept_bytes_def n_def)
      have "take trim (block_of m2) = take trim (buf[trim := 0])"
        using ok(2) kept by (simp add: resized_def) (simp add: block_of_def m1_def)
      then have "take trim (block_of m2) = trimmed (take n buf)" using t(3) by simp
      moreover have "visible_text m2 = take trim (block_of m2)"
        using sl ok(2) m1(3) by (simp add: visible_text_def block_of_def resized_def split: option.split)
      moreover have "visible_text m = take n buf" using buf assms(3) by (simp add: visible_text_def n_def)
      ultimately show ?thesis using r ok(2) m1(2,3) by (simp add: string_ok_def resized_def)
    qed
  qed
qed

end
