(* ===== verification/Arguments_Roots.thy ===== *)
theory Arguments_Roots
  imports Arguments_Correct Path_Trim Mem_Text Compare_Exact
begin

text \<open>
  What the paths of the command line become: in a scan the roots are the given paths in order,
  without slashes at their ends; a comparison has two database paths and no roots.
\<close>

section \<open>Arrays of paths\<close>

definition paths_ok :: "string_array \<Rightarrow> bool" where
  "paths_ok a \<longleftrightarrow> array_ok a \<and> (\<forall>item \<in> set (items a). single_element_size item = 1)"

text \<open>A text the C library can hand over.\<close>

definition deliverable :: "bytes \<Rightarrow> bool" where "deliverable t \<longleftrightarrow> 0 \<notin> set t \<and> length t + 1 < 2 ^ 64"

lemma append_string_ok:
  assumes "quiet g" "paths_ok a" "deliverable t" "append_string g heap a t = (st, a')"
  shows "paths_ok a' \<and> (st = SUCCESS \<and> array_texts a' = array_texts a @ [t]
    \<or> st = FAILURE \<and> \<not> (can_allocate heap (root_descriptor a) (mlength (root_descriptor a) + 1)
         \<and> enough heap (mem_init 1 True) (length t)))"
proof -
  have "takeWhile (\<lambda>b. b \<noteq> 0) (t @ [0]) = t" using assms(3) by (subst takeWhile_append2) (auto simp: deliverable_def)
  then have t: "source_text (mem_init 1 True) SOURCE_UNBOUNDED_STRING 0 (External (t @ [0])) = Some t"
    using assms(3) by (simp add: source_text_def bounded_scan_bytes Let_def deliverable_def mem_init_def)
  have "array_ok a" "(1 :: u64) \<noteq> 0" using assms(2) by (simp_all add: paths_ok_def)
  from append_outcome [OF assms(1) this _ t, of heap st a'] show ?thesis
    using assms(2,4)
    by (auto simp: append_string_def c_string_def mem_string_array_append_unbounded_def paths_ok_def array_texts_def)
qed

lemma strings_zero: "paths_ok a \<Longrightarrow> strings a = 0 \<longleftrightarrow> array_texts a = []"
  by (auto simp: paths_ok_def array_ok_def strings_def array_texts_def unat_eq_0 [symmetric])

lemma no_strings_ok [simp]: "paths_ok no_strings" "array_texts no_strings = []"
proof -
  have "valid (mem_init sizeof_memory False)" by (simp add: sizeof_memory_def)
  then show "paths_ok no_strings" "array_texts no_strings = []"
    by (simp_all add: no_strings_def paths_ok_def array_ok_def array_texts_def whole_blocks_def) (simp_all add: mem_init_def)
qed

lemma deleted_descriptor:
  assumes "quiet g" "valid m"
  shows "fst (mem_delete g m) = SUCCESS \<and> mlength (snd (mem_delete g m)) = 0"
proof -
  have r: "reserved m" using assms(2) by (simp add: valid_def)
  note size = payload_size_ok [OF assms(1) r]
  have "mlength m = 0 \<or> data m \<noteq> None" using r by (auto simp: reserved_def split: option.splits)
  then show ?thesis using assms(1) size by (auto simp: mem_delete_def Let_def case_prod_beta)
qed

lemma delete_items_ok:
  assumes "quiet g" "\<forall>item \<in> set ms. valid item"
  shows "delete_items g SUCCESS ms = SUCCESS"
  using assms(2)
proof (induction ms)
  case (Cons m ms)
  obtain st m' where m: "mem_delete g m = (st, m')" by (cases "mem_delete g m")
  then have "st = SUCCESS" using deleted_descriptor [OF assms(1), of m] Cons.prems by simp
  then show ?case using Cons assms(1) m by simp
qed simp

lemma deleted_roots:
  assumes "quiet g" "array_ok a" "mem_array_delete g a = (st, a')"
  shows "st = SUCCESS \<and> strings a' = 0"
proof -
  let ?m = "root_descriptor a"
  have v: "valid ?m" "\<not> is_string ?m" "single_element_size ?m = sizeof_memory" "string_length ?m = 0"
    "\<forall>item \<in> set (items a). valid item"
    using assms(2) by (auto simp: array_ok_def valid_def string_ok_def)
  have r: "reserved ?m" using v(1) by (simp add: valid_def)
  have d: "mlength ?m > 0 \<longrightarrow> data ?m \<noteq> None" using r by (auto simp: reserved_def split: option.splits)
  obtain st1 m1 where m: "mem_delete g ?m = (st1, m1)" by (cases "mem_delete g ?m")
  then have m1: "st1 = SUCCESS" "mlength m1 = 0" using deleted_descriptor [OF assms(1) v(1)] by simp_all
  note w = mapped_root [OF assms(1) v(1,3)]
  have "mem_array_delete g a = (SUCCESS, \<lparr>root_descriptor = m1, items = take (unat (mlength m1)) (items a)\<rparr>)"
    using v d m1(1) assms(1) delete_items_ok [OF assms(1) v(5)]
    by (cases "mlength ?m = 0") (simp_all add: mem_array_delete_def Let_def w m word_neq_0_conv [symmetric])
  then show ?thesis using assms(3) m1(2) by (simp add: strings_def)
qed

lemma normalize_roots_ok:
  assumes "quiet g" "normalize_roots g heap SUCCESS ms = (st, ms')" "has SUCCESS st"
    and "\<forall>m \<in> set ms. string_ok m \<and> single_element_size m = 1"
  shows "map visible_text ms' = map (trimmed \<circ> visible_text) ms"
  using assms(2-4)
proof (induction ms arbitrary: ms' st)
  case (Cons m ms)
  obtain st1 m1 where 1: "remove_trailing_slash g heap m = (st1, m1)" by (cases "remove_trailing_slash g heap m")
  from Cons.prems(3) have m: "string_ok m" "single_element_size m = 1" by simp_all
  have o: "st1 = SUCCESS \<and> visible_text m1 = trimmed (visible_text m) \<or> st1 = FAILURE"
    using remove_trailing_slash_ok [OF assms(1) m 1] by blast
  have r: "run_out g SUCCESS (st1, m1) m = (st1, m1)" using o assms(1) by auto
  have "st1 = SUCCESS" using Cons.prems(1,2) o by (auto simp: 1 r)
  have r': "run_out g SUCCESS (SUCCESS, m1) m = (SUCCESS, m1)" using r \<open>st1 = SUCCESS\<close> by simp
  obtain st2 ms2 where 2: "normalize_roots g heap SUCCESS ms = (st2, ms2)" by (cases "normalize_roots g heap SUCCESS ms")
  have "ms' = m1 # ms2" "st = st2" using Cons.prems(1) \<open>st1 = SUCCESS\<close> by (auto simp: 1 r' 2)
  then show ?case using Cons.IH [OF 2] Cons.prems(2,3) o \<open>st1 = SUCCESS\<close> by (auto simp: SUCCESS_def FAILURE_def)
qed simp

text \<open>The texts an array of the configuration holds.\<close>

definition text_list :: "bytes list option \<Rightarrow> bytes list" where
  "text_list texts = (case texts of None \<Rightarrow> [] | Some held \<Rightarrow> held)"

lemma trimmed_set: "set (trimmed path) \<subseteq> set path"
proof -
  have "set (dropWhile (\<lambda>b. b = 47) (rev path)) \<subseteq> set path" using set_dropWhileD by fastforce
  then show ?thesis using set_take_subset [of 1 path] by (auto simp: trimmed_def Let_def)
qed

lemma printed_visible:
  assumes "string_ok m" "single_element_size m = 1" "0 \<notin> set (visible_text m)"
  shows "printed (mem_string m) = visible_text m"
proof (cases "mlength m = 0")
  case True
  then have "string_length m = 0" using assms(1) by (auto simp: string_ok_def valid_def)
  then show ?thesis using True by (auto simp: mem_string_def printed_def visible_text_def split: option.split)
next
  case False
  then have "path_ok (visible_text m) m" using assms(1,2) by (simp add: path_ok_def string_ok_def)
  from printed_text [OF this assms(3)] show ?thesis .
qed

lemma normalize_databases_ok:
  assumes "quiet g" "normalize_databases g heap SUCCESS ms names = (st, ms', names')" "has SUCCESS st"
    and "\<forall>m \<in> set ms. string_ok m \<and> single_element_size m = 1 \<and> 0 \<notin> set (visible_text m)"
  shows "map visible_text ms' = map (trimmed \<circ> visible_text) ms
    \<and> (ms \<noteq> [] \<longrightarrow> names' = Some (text_list names @ map (c_basename \<circ> trimmed \<circ> visible_text) ms))"
  using assms(2-4)
proof (induction ms arbitrary: ms' st names names')
  case (Cons m ms)
  obtain st1 m1 where 1: "remove_trailing_slash g heap m = (st1, m1)" by (cases "remove_trailing_slash g heap m")
  from Cons.prems(3) have m: "string_ok m" "single_element_size m = 1" "0 \<notin> set (visible_text m)" by simp_all
  have o: "string_ok m1 \<and> single_element_size m1 = 1 \<and> (st1 = SUCCESS \<and> visible_text m1 = trimmed (visible_text m) \<or> st1 = FAILURE)"
    using remove_trailing_slash_ok [OF assms(1) m(1,2) 1] by blast
  have r: "run_out g SUCCESS (st1, m1) m = (st1, m1)" using o assms(1) by auto
  have "st1 = SUCCESS" using Cons.prems(1,2) o by (auto simp: 1 r Let_def)
  have r': "run_out g SUCCESS (SUCCESS, m1) m = (SUCCESS, m1)" using r \<open>st1 = SUCCESS\<close> by simp
  have t: "visible_text m1 = trimmed (visible_text m)" using o \<open>st1 = SUCCESS\<close> by auto
  have p: "printed (mem_string m1) = trimmed (visible_text m)"
    using printed_visible [of m1] o t trimmed_set [of "visible_text m"] m(3) by auto
  let ?b = "c_basename (trimmed (visible_text m))"
  obtain st2 names2 where 2: "add_string_to_array g heap names ?b = (st2, names2)" by (cases "add_string_to_array g heap names ?b")
  have "has SUCCESS st2" using Cons.prems(1,2) \<open>st1 = SUCCESS\<close> by (auto simp: 1 r' p 2 Let_def split: if_splits)
  then have n: "st2 = SUCCESS" "names2 = Some (text_list names @ [?b])"
    using 2 assms(1) by (auto simp: add_string_to_array_def Let_def deliver_def [symmetric] text_list_def split: if_splits)
  obtain st3 ms3 names3 where 3: "normalize_databases g heap SUCCESS ms names2 = (st3, ms3, names3)"
    by (cases "normalize_databases g heap SUCCESS ms names2")
  have e: "ms' = m1 # ms3" "st = st3" "names' = names3"
    using Cons.prems(1,2) \<open>st1 = SUCCESS\<close> n(1) by (auto simp: 1 r' p 2 3 Let_def split: if_splits)
  have "names3 = names2" if "ms = []" using 3 that by simp
  then show ?case using Cons.IH [OF 3] Cons.prems(2,3) e t n(2) by (cases "ms = []") (auto simp: text_list_def)
qed simp

section \<open>The handler\<close>

definition paths_view :: "settings \<Rightarrow> string_array \<times> string_array \<times> bool \<times> int \<times> bytes list option" where
  "paths_view s = (set_roots s, set_file_paths s, set_compare s, config_file_error_line s, set_file_names s)"

lemma logger_paths [simp]: "paths_view (update_logger_mode s) = paths_view s"
  by (simp add: update_logger_mode_def paths_view_def Let_def)

lemma letter_paths:
  assumes "k \<noteq> CHR ''P''" "k \<noteq> CHR ''c''"
  shows "paths_view (snd (parse_letter g heap k arg flag s)) = paths_view s"
proof -
  have d: "paths_view (snd (parse_database g heap b s)) = paths_view s" for b
    by (simp add: parse_database_def paths_view_def Let_def case_prod_beta)
  have n: "paths_view (snd (parse_dry_run arg flag s)) = paths_view s"
    by (simp add: parse_dry_run_def paths_view_def Let_def)
  have f: "paths_view (snd (parse_compare_filter arg s)) = paths_view s"
    by (simp add: parse_compare_filter_def paths_view_def Let_def)
  have m: "paths_view (snd (parse_maxdepth b s)) = paths_view s" for b
    by (cases "c_strtol b") (simp add: parse_maxdepth_def paths_view_def)
  have c: "paths_view (snd (parse_check_level b s)) = paths_view s" for b
    by (simp add: parse_check_level_def paths_view_def)
  have o: "paths_view (snd (parse_output b s)) = paths_view s" for b
    by (simp add: parse_output_def Let_def) (simp add: paths_view_def)
  have r: "paths_view (snd (parse_color b s)) = paths_view s" for b
    by (simp add: parse_color_def Let_def) (simp add: paths_view_def)
  show ?thesis
    using assms by (simp add: parse_letter_def d n f m c o r) (simp add: paths_view_def)
qed

section \<open>What the arguments collect\<close>

type_synonym event = "key \<times> bytes option \<times> bool"

text \<open>The paths given, in order, and those of them that come after the first --compare as operands.\<close>

definition path_event :: "event \<Rightarrow> bool" where
  "path_event e \<longleftrightarrow> fst e = ARGP_KEY_ARG \<or> fst e = Letter (CHR ''P'')"

definition event_text :: "event \<Rightarrow> bytes" where "event_text e = text_of (fst (snd e))"

definition compare_event :: "event \<Rightarrow> bool" where "compare_event e \<longleftrightarrow> fst e = Letter (CHR ''c'')"

definition given_paths :: "event list \<Rightarrow> bytes list" where
  "given_paths es = map event_text (filter path_event es)"

definition compared_paths :: "event list \<Rightarrow> bytes list" where
  "compared_paths es =
     map event_text (filter (\<lambda>e. fst e = ARGP_KEY_ARG) (dropWhile (\<lambda>e. \<not> compare_event e) es))"

lemma compared_snoc:
  "compared_paths (es @ [e])
    = (if list_ex compare_event es \<and> fst e = ARGP_KEY_ARG then compared_paths es @ [event_text e] else compared_paths es)"
proof (cases "list_ex compare_event es")
  case True
  then have "dropWhile (\<lambda>e. \<not> compare_event e) (es @ [e]) = dropWhile (\<lambda>e. \<not> compare_event e) es @ [e]"
    by (auto simp: list_ex_iff intro: dropWhile_append1)
  then show ?thesis using True by (simp add: compared_paths_def)
next
  case False
  then have "dropWhile (\<lambda>e. \<not> compare_event e) es = []" by (simp add: list_ex_iff)
  moreover have "dropWhile (\<lambda>e. \<not> compare_event e) (es @ [e]) = dropWhile (\<lambda>e. \<not> compare_event e) [e]"
    using False by (intro dropWhile_append2) (auto simp: list_ex_iff)
  ultimately have d: "dropWhile (\<lambda>e. \<not> compare_event e) (es @ [e]) = (if compare_event e then [e] else [])"
    "dropWhile (\<lambda>e. \<not> compare_event e) es = []" by simp_all
  show ?thesis unfolding compared_paths_def d using False by (simp add: compare_event_def)
qed

definition collects :: "event list \<Rightarrow> settings \<Rightarrow> bool" where
  "collects es s \<longleftrightarrow>
     config_file_error_line s = - 1 \<and> set_file_names s = None \<and> paths_ok (set_roots s) \<and> paths_ok (set_file_paths s)
     \<and> set_compare s = list_ex compare_event es
     \<and> (set_compare s \<or> array_texts (set_roots s) = given_paths es)
     \<and> array_texts (set_file_paths s) = compared_paths es"

lemma collects_same:
  assumes "collects es s" "paths_view s' = paths_view s" "\<not> path_event e" "\<not> compare_event e"
  shows "collects (es @ [e]) s'"
  using assms by (auto simp: collects_def paths_view_def given_paths_def compared_snoc) (simp_all add: path_event_def)

lemma collects_path:
  assumes "quiet g" "collects es s" "deliverable (event_text (key, arg, quoted))"
    and "parse_path g heap (key = ARGP_KEY_ARG) (text_of arg) s = (EX_OK, s')" "path_event (key, arg, quoted)"
  shows "collects (es @ [(key, arg, quoted)]) s'"
proof -
  let ?e = "(key, arg, quoted)"
  have a: "event_text ?e = text_of arg" by (simp add: event_text_def)
  have c: "\<not> compare_event ?e" using assms(5) by (auto simp: path_event_def compare_event_def)
  show ?thesis
  proof (cases "key = ARGP_KEY_ARG \<and> set_compare s")
    case True
    obtain st t where 1: "append_string g heap (set_file_paths s) (text_of arg) = (st, t)"
      by (cases "append_string g heap (set_file_paths s) (text_of arg)")
    have "paths_ok (set_file_paths s)" using assms(2) by (simp add: collects_def)
    from append_string_ok [OF assms(1) this _ 1] assms(3,4) True a have "st = SUCCESS" "paths_ok t"
      "array_texts t = array_texts (set_file_paths s) @ [text_of arg]" "s' = s\<lparr>set_file_paths := t\<rparr>"
      by (auto simp: parse_path_def 1 EX_OK_def ENOMEM_def split: if_splits)
    then show ?thesis using assms(2) True c a
      by (simp add: collects_def compared_snoc)
  next
    case False
    obtain st t where 1: "append_string g heap (set_roots s) (text_of arg) = (st, t)"
      by (cases "append_string g heap (set_roots s) (text_of arg)")
    have "paths_ok (set_roots s)" using assms(2) by (simp add: collects_def)
    from append_string_ok [OF assms(1) this _ 1] assms(3,4) False a have "st = SUCCESS" "paths_ok t"
      "array_texts t = array_texts (set_roots s) @ [text_of arg]" "s' = s\<lparr>set_roots := t\<rparr>"
      by (auto simp: parse_path_def 1 EX_OK_def ENOMEM_def EINVAL_def split: if_splits)
    then show ?thesis using assms(2,5) False c a
      by (auto simp: collects_def compared_snoc given_paths_def)
  qed
qed

lemma collects_step:
  assumes "quiet g" "collects es s" "deliverable (event_text (key, arg, quoted))"
    and "parse_opt g heap argc entries key arg quoted s = (EX_OK, s')"
  shows "collects (es @ [(key, arg, quoted)]) s'"
proof -
  let ?e = "(key, arg, quoted)"
  have line: "config_file_error_line s < 0" using assms(2) by (simp add: collects_def)
  show ?thesis
  proof (cases key)
    case (Letter k)
    then have p: "parse_letter g heap k arg True s = (EX_OK, s')" using assms(4) line by (simp add: parse_opt_def)
    consider "k = CHR ''P''" | "k = CHR ''c''" | "k \<noteq> CHR ''P''" "k \<noteq> CHR ''c''" by blast
    then show ?thesis
    proof cases
      case 1
      then have "parse_path g heap (key = ARGP_KEY_ARG) (text_of arg) s = (EX_OK, s')"
        using p Letter by (simp add: parse_letter_def)
      from collects_path [OF assms(1-3) this] show ?thesis using Letter 1 by (simp add: path_event_def)
    next
      case 2
      then have "s' = s\<lparr>set_compare := True\<rparr>" using p by (simp add: parse_letter_def)
      then show ?thesis using assms(2) Letter 2
        by (simp add: collects_def compared_snoc compare_event_def)
    next
      case 3
      then have "paths_view s' = paths_view s" using letter_paths [OF 3, of g heap arg True s] p by simp
      then show ?thesis using collects_same [OF assms(2), of s' ?e] Letter 3
        by (simp add: path_event_def compare_event_def)
    qed
  next
    case ARGP_KEY_ARG
    then have "parse_path g heap (key = ARGP_KEY_ARG) (text_of arg) s = (EX_OK, s')"
      using assms(4) by (auto simp: parse_opt_def EX_USAGE_def EX_OK_def split: if_splits)
    from collects_path [OF assms(1-3) this] show ?thesis using ARGP_KEY_ARG by (simp add: path_event_def)
  next
    case ARGP_KEY_NO_ARGS
    then have "paths_view s' = paths_view s" using assms(4)
      by (auto simp: parse_opt_def parse_no_args_def paths_view_def EX_USAGE_def EX_OK_def split: if_splits)
    then show ?thesis using collects_same [OF assms(2), of s' ?e] ARGP_KEY_NO_ARGS
      by (simp add: path_event_def compare_event_def)
  next
    case ARGP_KEY_END
    then have "paths_view s' = paths_view s" using assms(4)
      by (auto simp: parse_opt_def parse_end_def paths_view_def EX_USAGE_def EX_OK_def split: if_splits)
    then show ?thesis using collects_same [OF assms(2), of s' ?e] ARGP_KEY_END
      by (simp add: path_event_def compare_event_def)
  qed (use assms(4) in \<open>simp_all add: parse_opt_def ARGP_ERR_UNKNOWN_def EX_OK_def\<close>)
qed

lemma deliver_collects:
  assumes "quiet g" "\<forall>e \<in> set es. deliverable (event_text e)" "collects done s"
    and "deliver_arguments (parse_opt g heap argc entries) es s = (EX_OK, s')"
  shows "collects (done @ es) s'"
  using assms(2-4)
proof (induction es arbitrary: "done" s)
  case (Cons e es)
  obtain key arg quoted where e: "e = (key, arg, quoted)" by (cases e)
  obtain err1 s1 where 1: "parse_opt g heap argc entries key arg quoted s = (err1, s1)"
    by (cases "parse_opt g heap argc entries key arg quoted s")
  have rest: "err1 = EX_OK" "deliver_arguments (parse_opt g heap argc entries) es s1 = (EX_OK, s')"
    using Cons.prems(3) by (auto simp: e 1 split: if_splits)
  have "collects (done @ [e]) s1"
    using collects_step [OF assms(1) Cons.prems(2), of key arg quoted] 1 rest(1) Cons.prems(1) by (simp add: e)
  from Cons.IH [OF _ this rest(2)] Cons.prems(1) show ?case by simp
qed simp

section \<open>The events at the end\<close>

lemma at_end_no_args:
  assumes "at_end (parse_opt g heap argc entries) a ARGP_KEY_NO_ARGS (err, s) = (EX_OK, s')" "argc \<noteq> 1"
  shows "err = EX_OK \<and> s' = s \<and> (information_mode_requested s
    \<or> \<not> set_compare s \<and> strings (set_roots s) \<noteq> 0 \<or> set_compare s \<and> strings (set_file_paths s) \<noteq> 0)"
proof -
  have "err = EX_OK" using assms(1) by (auto simp: at_end_def split: if_splits)
  then obtain e1 where "parse_opt g heap argc entries ARGP_KEY_NO_ARGS None (quoted_at_end a) s = (e1, s')"
      "e1 = EX_OK \<or> e1 = ARGP_ERR_UNKNOWN"
    using assms(1) by (cases "parse_opt g heap argc entries ARGP_KEY_NO_ARGS None (quoted_at_end a) s")
      (auto simp: at_end_def split: if_splits)
  then show ?thesis using \<open>err = EX_OK\<close> assms(2)
    by (cases "quoted_at_end a")
      (auto simp: parse_opt_def parse_no_args_def EX_USAGE_def EX_OK_def ARGP_ERR_UNKNOWN_def split: if_splits)
qed

lemma at_end_end:
  assumes "at_end (parse_opt g heap argc entries) a ARGP_KEY_END (err, s) = (EX_OK, s')"
  shows "err = EX_OK \<and> s' = s \<and> (information_mode_requested s
    \<or> (set_compare s \<longrightarrow> strings (set_file_paths s) = 2)
      \<and> (set_compare_filter s \<noteq> CF_NONE_SPECIFIED \<longrightarrow> set_compare s))"
proof -
  have "err = EX_OK" using assms(1) by (auto simp: at_end_def split: if_splits)
  then obtain e1 where 1: "parse_opt g heap argc entries ARGP_KEY_END None (quoted_at_end a) s = (e1, s')"
      "e1 = EX_OK \<or> e1 = ARGP_ERR_UNKNOWN"
    using assms(1) by (cases "parse_opt g heap argc entries ARGP_KEY_END None (quoted_at_end a) s")
      (auto simp: at_end_def split: if_splits)
  then have "parse_end s = (e1, s')" by (auto simp: parse_opt_def EX_USAGE_def EX_OK_def ARGP_ERR_UNKNOWN_def split: if_splits)
  then show ?thesis using 1(2) \<open>err = EX_OK\<close>
    by (auto simp: parse_end_def EX_USAGE_def EX_OK_def ARGP_ERR_UNKNOWN_def not_less split: if_splits)
qed

lemma at_end_success:
  assumes "at_end (parse_opt g heap argc entries) a ARGP_KEY_SUCCESS (err, s) = (EX_OK, s')"
  shows "err = EX_OK \<and> s' = s"
  using assms by (auto simp: at_end_def parse_opt_def ARGP_ERR_UNKNOWN_def EX_OK_def split: if_splits)

lemma collected:
  assumes "quiet g" "\<forall>e \<in> set (arguments.delivered a). deliverable (event_text e)" "collects [] s" "argc \<noteq> 1"
    and "argp_parse (parse_opt g heap argc entries) a s = (EX_OK, s')" "\<not> information_mode_requested s'"
  shows "collects (arguments.delivered a) s' \<and> (set_compare s' \<longrightarrow> strings (set_file_paths s') = 2)
    \<and> (\<not> set_compare s' \<longrightarrow> given_paths (arguments.delivered a) \<noteq> []) \<and> (set_compare_filter s' \<noteq> CF_NONE_SPECIFIED \<longrightarrow> set_compare s')"
proof -
  let ?h = "parse_opt g heap argc entries"
  obtain e1 s1 where 1: "deliver_arguments ?h (arguments.delivered a) s = (e1, s1)" by (cases "deliver_arguments ?h (arguments.delivered a) s")
  define e2 where "e2 = (if e1 = EX_OK \<and> rejected a then EINVAL else e1)"
  let ?no_args = "if has_operands a then (e2, s1) else at_end ?h a ARGP_KEY_NO_ARGS (e2, s1)"
  obtain e3 s3 where 3: "?no_args = (e3, s3)" by (cases ?no_args)
  obtain e4 s4 where 4: "at_end ?h a ARGP_KEY_END (e3, s3) = (e4, s4)" by (cases "at_end ?h a ARGP_KEY_END (e3, s3)")
  have 5: "at_end ?h a ARGP_KEY_SUCCESS (e4, s4) = (EX_OK, s')"
    using assms(5) by (simp only: argp_parse_def Let_def 1 prod.case e2_def [symmetric] 3 4)
  have s': "e4 = EX_OK" "s' = s4" using at_end_success [OF 5] by simp_all
  have f: "e3 = EX_OK \<and> s' = s3 \<and> (set_compare s' \<longrightarrow> strings (set_file_paths s') = 2)
      \<and> (set_compare_filter s' \<noteq> CF_NONE_SPECIFIED \<longrightarrow> set_compare s')"
    using at_end_end [of g heap argc entries a e3 s3 s'] 4 s' assms(6) by simp
  have n: "e2 = EX_OK \<and> s3 = s1 \<and> (has_operands a \<or> set_compare s1 \<or> strings (set_roots s1) \<noteq> 0)"
  proof (cases "has_operands a")
    case True
    then show ?thesis using 3 f by simp
  next
    case False
    then show ?thesis using 3 f at_end_no_args [of g heap argc entries a e2 s1 s3] assms(4,6) by auto
  qed
  then have "e1 = EX_OK" by (auto simp: e2_def EX_OK_def EINVAL_def split: if_splits)
  then have c: "collects (arguments.delivered a) s'" using deliver_collects [OF assms(1-3), of heap argc entries s1] 1 n f by simp
  moreover have "given_paths (arguments.delivered a) \<noteq> []" if "\<not> set_compare s'"
  proof (cases "has_operands a")
    case True
    then have "\<exists>e \<in> set (arguments.delivered a). path_event e" by (force simp: has_operands_def list_ex_iff path_event_def)
    then show ?thesis by (auto simp: given_paths_def filter_empty_conv)
  next
    case False
    then have "strings (set_roots s') \<noteq> 0" using n f that by simp
    then show ?thesis using c that strings_zero [of "set_roots s'"] by (simp add: collects_def)
  qed
  ultimately show ?thesis using f by blast
qed

section \<open>The preliminary pass\<close>

lemma source_paths: "paths_view (snd (snd (parse_source_option g heap key arg quoted (x, s)))) = paths_view s"
proof -
  have l: "paths_view (snd (parse_opt g heap 0 False (Letter k) arg quoted s)) = paths_view s"
    if "k \<noteq> CHR ''P''" "k \<noteq> CHR ''c''" for k
    using letter_paths [OF that, of g heap arg _ s] by (simp add: parse_opt_def)
  show ?thesis
    by (cases key) (simp_all add: parse_source_option_def Let_def case_prod_beta l paths_view_def [of "s\<lparr>config_file_path := _\<rparr>"],
      simp_all add: paths_view_def)
qed

lemma deliver_source_paths:
  "deliver_arguments (parse_source_option g heap) es (x, s) = (err, x', s') \<Longrightarrow> paths_view s' = paths_view s"
proof (induction es arbitrary: x s)
  case (Cons e es)
  obtain key arg quoted where e: "e = (key, arg, quoted)" by (cases e)
  obtain err1 x1 s1 where 1: "parse_source_option g heap key arg quoted (x, s) = (err1, x1, s1)"
    by (cases "parse_source_option g heap key arg quoted (x, s)")
  then have "paths_view s1 = paths_view s" using source_paths [of g heap key arg quoted x s] by simp
  then show ?case using Cons by (auto simp: e 1 split: if_splits)
qed simp

lemma at_end_source_paths:
  "at_end (parse_source_option g heap) a event (err, x, s) = (err', x', s') \<Longrightarrow> paths_view s' = paths_view s"
  using source_paths [of g heap event None "quoted_at_end a" x s] by (auto simp: at_end_def case_prod_beta split: if_splits)

lemma preliminary_paths:
  assumes "argp_parse (parse_source_option g heap) a (x, s) = (err, x', s')"
  shows "paths_view s' = paths_view s"
proof -
  let ?h = "parse_source_option g heap"
  obtain e1 x1 s1 where 1: "deliver_arguments ?h (arguments.delivered a) (x, s) = (e1, x1, s1)" by (cases "deliver_arguments ?h (arguments.delivered a) (x, s)")
  define e2 where "e2 = (if e1 = EX_OK \<and> rejected a then EINVAL else e1)"
  let ?no_args = "if has_operands a then (e2, x1, s1) else at_end ?h a ARGP_KEY_NO_ARGS (e2, x1, s1)"
  obtain e3 x3 s3 where 3: "?no_args = (e3, x3, s3)" by (cases ?no_args)
  obtain e4 x4 s4 where 4: "at_end ?h a ARGP_KEY_END (e3, x3, s3) = (e4, x4, s4)" by (cases "at_end ?h a ARGP_KEY_END (e3, x3, s3)")
  have 5: "at_end ?h a ARGP_KEY_SUCCESS (e4, x4, s4) = (err, x', s')"
    using assms by (simp only: argp_parse_def Let_def 1 prod.case e2_def [symmetric] 3 4)
  have "paths_view s3 = paths_view s1"
    using 3 at_end_source_paths [of g heap a ARGP_KEY_NO_ARGS e2 x1 s1 e3 x3 s3] by (auto split: if_splits)
  then show ?thesis
    using deliver_source_paths [OF 1] at_end_source_paths [OF 4] at_end_source_paths [OF 5] by simp
qed

section \<open>The paths of a run\<close>

lemma provided_success:
  assumes "quiet g" "fst (provide st g) = SUCCESS"
  shows "has SUCCESS st"
proof (cases "has AWAITING st")
  case True
  then show ?thesis using assms(2) by (simp add: provide_def)
next
  case False
  have "fst (rational_normalize_return st g) = clean_flags st" by (rule quiet_normalize [OF assms(1)])
  moreover have "has SUCCESS (fst (provide st g))" using assms(2) by simp
  ultimately have "has SUCCESS (clean_flags st)"
    using False by (cases "rational_normalize_return st g")
      (auto simp: provide_def Let_def bit_or_iff bit_simps split: if_splits)
  then show ?thesis by (auto simp: clean_flags_def Let_def bit_simps split: if_splits)
qed

lemma compared_deliverable:
  assumes "\<forall>e \<in> set es. deliverable (event_text e)"
  shows "\<forall>t \<in> set (compared_paths es). 0 \<notin> set t"
  using assms by (auto simp: compared_paths_def deliverable_def dest!: set_dropWhileD)

lemma finish_paths_ok:
  assumes "quiet g" "collects es s" "\<forall>e \<in> set es. deliverable (event_text e)"
    and "set_compare s \<Longrightarrow> strings (set_file_paths s) = 2" "\<not> set_compare s \<Longrightarrow> given_paths es \<noteq> []"
    and "finish_paths g heap (SUCCESS, s) = (st, s')" "has SUCCESS st"
  shows "set_compare s' = set_compare s \<and> set_compare_filter s' = set_compare_filter s
    \<and> (if set_compare s'
       then length (compared_paths es) = 2 \<and> array_texts (set_file_paths s') = map trimmed (compared_paths es) \<and> strings (set_roots s') = 0
         \<and> set_file_names s' = Some (map (c_basename \<circ> trimmed) (compared_paths es))
       else array_texts (set_roots s') = map trimmed (given_paths es))"
proof (cases "set_compare s")
  case True
  have p: "paths_ok (set_roots s)" "paths_ok (set_file_paths s)" "set_file_names s = None"
    "array_texts (set_file_paths s) = compared_paths es" using assms(2) by (simp_all add: collects_def)
  obtain st1 a1 where 1: "mem_array_delete g (set_roots s) = (st1, a1)" by (cases "mem_array_delete g (set_roots s)")
  then have a1: "st1 = SUCCESS" "strings a1 = 0" using deleted_roots [OF assms(1) _ 1] p(1) by (simp_all add: paths_ok_def)
  obtain st2 ms names where 2: "normalize_databases g heap SUCCESS (items (set_file_paths s)) None = (st2, ms, names)"
    by (cases "normalize_databases g heap SUCCESS (items (set_file_paths s)) None")
  have r: "st = st2" "s' = s\<lparr>set_roots := a1, set_file_paths := (set_file_paths s)\<lparr>items := ms\<rparr>, set_file_names := names\<rparr>"
    using assms(1,4,6) True p(3) a1(1) by (simp_all add: finish_paths_def 1 2 Let_def)
  have "\<forall>m \<in> set (items (set_file_paths s)). string_ok m \<and> single_element_size m = 1 \<and> 0 \<notin> set (visible_text m)"
    using p(2) p(4) [symmetric] compared_deliverable [OF assms(3)] by (auto simp: paths_ok_def array_ok_def array_texts_def)
  from normalize_databases_ok [OF assms(1) 2 _ this] assms(7) r(1)
  have n: "map visible_text ms = map (trimmed \<circ> visible_text) (items (set_file_paths s))"
    "items (set_file_paths s) \<noteq> [] \<longrightarrow> names = Some (map (c_basename \<circ> trimmed \<circ> visible_text) (items (set_file_paths s)))"
    by (simp_all add: text_list_def)
  have two: "length (items (set_file_paths s)) = 2"
    using p(2) assms(4) True by (simp add: paths_ok_def array_ok_def strings_def)
  then have "items (set_file_paths s) \<noteq> []" by auto
  then show ?thesis using n r(2) True a1(2) two p(4) [symmetric] by (simp add: array_texts_def o_assoc)
next
  case False
  have p: "paths_ok (set_roots s)" "array_texts (set_roots s) = given_paths es"
    using assms(2) False by (simp_all add: collects_def)
  have nz: "strings (set_roots s) \<noteq> 0" using strings_zero [OF p(1)] p(2) assms(5) False by simp
  obtain st2 ms where 2: "normalize_roots g heap SUCCESS (items (set_roots s)) = (st2, ms)"
    by (cases "normalize_roots g heap SUCCESS (items (set_roots s))")
  have r: "st = st2" "s' = s\<lparr>set_roots := (set_roots s)\<lparr>items := ms\<rparr>\<rparr>"
    using assms(6) False nz by (simp_all add: finish_paths_def 2 Let_def)
  have "\<forall>m \<in> set (items (set_roots s)). string_ok m \<and> single_element_size m = 1"
    using p(1) by (auto simp: paths_ok_def array_ok_def)
  from normalize_roots_ok [OF assms(1) 2 _ this] assms(7) r(1)
  show ?thesis using r(2) False p(2) [symmetric] by (simp add: array_texts_def)
qed

lemma collects_initially: "config_file_error_line s = - 1 \<Longrightarrow> set_file_names s = None \<Longrightarrow> set_roots s = no_strings
    \<Longrightarrow> set_file_paths s = no_strings \<Longrightarrow> \<not> set_compare s \<Longrightarrow> collects [] s"
  by (simp add: collects_def given_paths_def compared_paths_def)

text \<open>
  C38: When the arguments of the command line are accepted, a scan gets exactly the given paths, operands
  and --path alike, in their order and at least one, and a comparison exactly two databases, the operands
  behind --compare, with their base names and no roots left; slashes at the end of a path are gone, and
  a comparison filter never comes without a comparison.
\<close>

theorem accepted_paths:
  assumes "quiet g" "\<exists>e \<in> set (arguments.delivered a). other_argument e" "argument_count a \<noteq> 1"
    and "\<forall>e \<in> set (arguments.delivered a). deliverable (event_text e)"
    and "parse_arguments g heap files a init_config = (SUCCESS, s')"
  shows "(if list_ex compare_event (arguments.delivered a)
       then array_texts (set_file_paths s') = map trimmed (compared_paths (arguments.delivered a))
         \<and> length (array_texts (set_file_paths s')) = 2 \<and> strings (set_roots s') = 0
         \<and> set_file_names s' = Some (map c_basename (array_texts (set_file_paths s')))
       else array_texts (set_roots s') = map trimmed (given_paths (arguments.delivered a))
         \<and> given_paths (arguments.delivered a) \<noteq> [] \<and> set_compare_filter s' = CF_NONE_SPECIFIED)
    \<and> set_compare s' = list_ex compare_event (arguments.delivered a)"
proof -
  let ?es = "arguments.delivered a"
  define s0 where "s0 = init_config\<lparr>information_mode_requested := False, config_file_path := None\<rparr>"
  define x0 where "x0 = \<lparr>config_required = False, has_other_arguments = False, information_requested = False,
    config_has_entries = False\<rparr>"
  obtain e1 x1 s1 where 1: "argp_parse (parse_source_option g heap) a (x0, s0) = (e1, x1, s1)"
    by (cases "argp_parse (parse_source_option g heap) a (x0, s0)")
  obtain st2 x2 s2 where 2: "select_settings_source g (argument_count a) e1 (x1, s1) = (st2, x2, s2)"
    by (cases "select_settings_source g (argument_count a) e1 (x1, s1)")
  have none: "config_file_path s2 = None"
    using select_without_file [OF 2 assms(3)] preliminary_notes_other [of g heap a x0 s0 x1 s1] assms(2) 1 by blast
  have st2: "st2 = SUCCESS \<or> st2 = FAILURE" and v2: "paths_view s2 = paths_view s1"
    using 2 assms(1) by (auto simp: select_settings_source_def Let_def paths_view_def split: if_splits)
  have 3: "run_out g SUCCESS (st2, x2, s2) (x1, s1) = (st2, x2, s2)" using st2 assms(1) by auto
  have no_file: "(if st2 = SUCCESS \<and> config_file_path s2 \<noteq> None then t else e) = e" for t e :: "ret \<times> bool \<times> settings"
    using none by simp
  have ok2: "st2 = SUCCESS"
  proof (rule ccontr)
    assume "st2 \<noteq> SUCCESS"
    then have "parse_arguments g heap files a init_config = (fst (provide FAILURE g), s2)"
      using st2 assms(1) none by (simp add: parse_arguments_def Let_def s0_def [symmetric] x0_def [symmetric] 1 2)
    then show False using assms(1,5) by (simp add: deliver_def [symmetric])
  qed
  obtain e4 s4 where 4: "argp_parse (parse_opt g heap (argument_count a) (config_has_entries x2)) a s2 = (e4, s4)"
    by (cases "argp_parse (parse_opt g heap (argument_count a) (config_has_entries x2)) a s2")
  define e5 where "e5 = (if e4 = EX_OK then e1 else e4)"
  obtain st6 s6 where 6: "finish_paths g heap (SUCCESS, s4) = (st6, s6)" by (cases "finish_paths g heap (SUCCESS, s4)")
  have run: "parse_arguments g heap files a init_config = (SUCCESS, s')" by (rule assms(5))
  have e5: "e5 = EX_OK \<and> \<not> information_mode_requested s4 \<and> fst (provide st6 g) = SUCCESS \<and> s' = s6"
  proof -
    have "parse_arguments g heap files a init_config
        = (if e5 = EX_OK \<and> information_mode_requested s4 then (fst (provide (INFO OR HALTED) g), s4)
           else let (st, s) = finish_paths g heap (if e5 \<noteq> EX_OK then FAILURE else SUCCESS, s4);
                    st = (if e5 \<noteq> EX_OK then FAILURE else st)
                in (fst (provide st g), s))"
      using 3 ok2 none 4
      by (simp add: parse_arguments_def Let_def s0_def [symmetric] x0_def [symmetric] 1 2 e5_def [symmetric])
    moreover have "fst (provide (INFO OR HALTED) g) \<noteq> SUCCESS" "fst (provide FAILURE g) \<noteq> SUCCESS"
      using provided_success [OF assms(1), of "INFO OR HALTED"] assms(1)
      by (auto simp: bit_or_iff deliver_def [symmetric])
    ultimately show ?thesis using run 6 by (auto simp: case_prod_beta Let_def split: if_splits)
  qed
  then have e4: "e4 = EX_OK" by (simp add: e5_def split: if_splits)
  have "paths_view s2 = paths_view init_config"
    using v2 preliminary_paths [OF 1] by (simp add: s0_def paths_view_def)
  then have "collects [] s2"
    by (intro collects_initially) (simp_all add: paths_view_def init_config_def update_logger_mode_def Let_def)
  from collected [OF assms(1,4) this assms(3)] 4 e4 e5
  have c: "collects ?es s4" "set_compare s4 \<Longrightarrow> strings (set_file_paths s4) = 2"
    "\<not> set_compare s4 \<Longrightarrow> given_paths ?es \<noteq> []" "set_compare_filter s4 \<noteq> CF_NONE_SPECIFIED \<longrightarrow> set_compare s4"
    by blast+
  have "has SUCCESS st6" using provided_success [OF assms(1)] e5 by blast
  from finish_paths_ok [OF assms(1) c(1) assms(4) c(2,3) 6 this] c e5
  show ?thesis by (auto simp: collects_def)
qed

lemma one_operand_accepted:
  "\<exists>s. parse_arguments initial_globals (\<lambda>_. Some (\<lambda>_. 7)) no_file one_operand init_config = (SUCCESS, s)"
proof -
  let ?g = initial_globals and ?h = "\<lambda>_. Some (\<lambda>_. 7)"
  obtain st a where a: "append_string ?g ?h no_strings [97, 47] = (st, a)" by (cases "append_string ?g ?h no_strings [97, 47]")
  have "can_allocate ?h (root_descriptor no_strings) (mlength (root_descriptor no_strings) + 1)"
    "enough ?h (mem_init 1 True) (length [97 :: u8, 47])"
    by (simp_all add: can_allocate_def enough_def no_strings_def mem_init_def sizeof_memory_def)
  with append_string_ok [OF quiet_initial no_strings_ok(1) _ a]
  have st: "st = SUCCESS" "paths_ok a" "array_texts a = [[97, 47]]" by (auto simp: deliverable_def)
  then obtain m where m: "items a = [m]" "visible_text m = [97, 47]" by (auto simp: array_texts_def)
  obtain st1 m1 where r: "remove_trailing_slash ?g ?h m = (st1, m1)" by (cases "remove_trailing_slash ?g ?h m")
  have "string_ok m" "single_element_size m = 1" using st(2) m(1) by (simp_all add: paths_ok_def array_ok_def)
  from remove_trailing_slash_ok [OF quiet_initial this r] m(2) have st1: "st1 = SUCCESS" by auto
  have nz: "strings a \<noteq> 0" using strings_zero [OF st(2)] st(3) by simp
  have i: "set_compare init_config = False" "set_roots init_config = no_strings" "set_compare_filter init_config = CF_NONE_SPECIFIED"
    "config_file_error_line init_config = - 1" "information_mode_requested init_config = False"
    by (simp_all add: init_config_def update_logger_mode_def Let_def)
  have "\<not> halted ?g" by (simp add: initial_globals_def)
  then have run: "outcome True (halted ?g) = SUCCESS" by (simp add: outcome_def)
  show ?thesis
    using st(1) st1 nz
    by (simp add: parse_arguments_def argp_parse_def one_operand_def has_operands_def at_end_def parse_source_option_def
        select_settings_source_def parse_opt_def parse_path_def parse_end_def finish_paths_def i a r m(1) text_of_def Let_def
        EX_OK_def EINVAL_def ARGP_ERR_UNKNOWN_def deliver_def [symmetric] run)
qed

theorem accepted_paths_witness:
  "\<exists>s. parse_arguments initial_globals (\<lambda>_. Some (\<lambda>_. 7)) no_file one_operand init_config = (SUCCESS, s)
     \<and> array_texts (set_roots s) = [[97]]"
proof -
  obtain s where s: "parse_arguments initial_globals (\<lambda>_. Some (\<lambda>_. 7)) no_file one_operand init_config = (SUCCESS, s)"
    using one_operand_accepted by blast
  have "given_paths (arguments.delivered one_operand) = [[97, 47]]" "\<not> list_ex compare_event (arguments.delivered one_operand)"
    by (simp_all add: one_operand_def given_paths_def path_event_def event_text_def text_of_def compare_event_def)
  moreover have "trimmed [97, 47] = [97]" by (simp add: trimmed_def)
  ultimately show ?thesis
    using accepted_paths [OF quiet_initial _ _ _ s] s
    by (simp add: one_operand_def other_argument_def event_text_def text_of_def deliverable_def)
qed

end
