(* ===== verification/Spec2Isabelle.thy ===== *)
theory Spec2Isabelle
  imports Prelude Return_Status Incremental_Hash Sha512 Sha512_Constants Metadata
    Mem_Core Mem_Invariant Mem_Transfer Mem_Text Mem_Array
    Paths Patterns Outcome App_State Database Store_Invariant Hash_File
    Hash_Correct File_Processing Traversal Scan_Invariant Pass_Invariant
    Truthful Scan_Properties Dry_Run Locked_Files
    Cleanup Cleanup_Correct Cleanup_Complete Cleanup_Properties
    Number_Text Form_Text Size_Text Date_Text
    Blobs Versions Versions_Correct Versions_Atomic Versions_Properties
    Prefixes Prefixes_Correct Upgrade_Rows Compare Compare_Correct Compare_Exact
    Startup Program Program_Correct Program_Dry
    Options Arguments Arguments_Correct Path_Trim Arguments_Roots
begin

text \<open>
  This is a verification development for precizer, a C program that records the SHA-512 digests of the
  files below some root directories in an SQLite database, tells what has changed since, guards
  checksum-locked files, and compares two such databases.  Paths below are relative to the
  repository; the program is \<open>src/*.c\<close>, its own libraries are \<open>libs/rational\<close>, \<open>libs/mem\<close> and
  \<open>libs/sha512\<close>.

  \<^bold>\<open>The program and its parts.\<close>  \<open>main\<close> of \<open>precizer.c\<close> is a fixed sequence of steps.  Each is called through
  the macros \<open>run()\<close> and \<open>call()\<close> of libs/rational: a status collects flags, and a failure, a warning or
  a signal makes every following \<open>run()\<close> skip its function.  The steps open the database (name,
  existence, mode, integrity and schema upgrade, tables), compare two databases or check and store the
  roots, traverse the roots once for the totals and once for the digests, remove the rows of files that
  are gone, and close the database.  A file is filtered by patterns, compared with its row, hashed in
  pieces with checkpoints, and saved in a transaction that is committed every fifteen seconds.

  \<^bold>\<open>Theories and code.\<close>
  \<^item> \<open>Prelude\<close>: machine integers (\<open>u8\<close> to \<open>u64\<close>, \<open>i32\<close>, \<open>i64\<close>), bytes, shared lemmas and collections.
  \<^item> \<open>Return_Status\<close>: \<open>rational_enumerations.h\<close>, \<open>rational_provide.c/.h\<close>, \<open>exit_status.c\<close>,
    \<open>signal_notify_quit_handler.c\<close>.  A status is a 32-bit word; the two atomics are the record \<open>globals\<close>.
    \<open>Outcome\<close> evaluates the macros on the statuses the functions return.
  \<^item> \<open>Sha512\<close>, \<open>Sha512_Constants\<close>: \<open>sha512.c\<close> on 64-bit words, against FIPS 180-4.  \<open>Incremental_Hash\<close> is the
    contract the file hashing relies on, a locale interpreted on this code.
  \<^item> \<open>Metadata\<close>: \<open>stat_copy.c\<close>, \<open>file_compare_metadata_equivalence.c\<close>, \<open>blocks_to_bytes.c\<close>,
    \<open>file_access_status.c\<close>, \<open>file_check_access.c\<close>.
  \<^item> \<open>Mem_Core\<close>, \<open>Mem_Transfer\<close>, \<open>Mem_Array\<close>: libs/mem.  A descriptor is the record \<open>memory\<close>, its block a byte
    list; a source of a transfer is outside the block or inside it at an offset (self-aliasing).
    \<open>Mem_Invariant\<close> has the descriptor invariant \<open>valid\<close>, \<open>Mem_Text\<close> the effect on the text.
  \<^item> \<open>Paths\<close>: \<open>path_build_relative.c\<close>, \<open>remove_trailing_slash.c\<close>.  \<open>Patterns\<close>: \<open>match_*.c\<close>,
    \<open>path_check_locked_checksum.c\<close>.
  \<^item> \<open>App_State\<close>: the members of \<open>Config\<close>, \<open>File\<close>, \<open>DBrow\<close> and \<open>TraversalSummary\<close> the scanner uses, and the record
    \<open>app\<close>: process state, table \<open>files\<close> as the connection sees it and as it is on disk, and what the
    environment still has to answer.
  \<^item> \<open>Database\<close>: \<open>db_file_transaction.c\<close>, \<open>db_insert/update/delete/read_*.c\<close>, \<open>db_save_file_record.c\<close>.
    \<open>Store_Invariant\<close>: the contract of the row store (a locale, interpreted on the statements of the model)
    and the connection invariant \<open>store_inv\<close>.
  \<^item> \<open>Hash_File\<close>: \<open>sha512sum.c\<close>.  \<open>Hash_Correct\<close>: what the context has absorbed along the read loop.
  \<^item> \<open>File_Processing\<close>, \<open>Traversal\<close>: \<open>file_list.c\<close>, \<open>show_locked_checksum.c\<close>, \<open>directory_access.c\<close>,
    \<open>directory_open_root.c\<close>.  \<open>Scan_Invariant\<close> and \<open>Pass_Invariant\<close> carry \<open>store_inv\<close> through a pass, \<open>Truthful\<close>
    instantiates it; \<open>Scan_Properties\<close>, \<open>Dry_Run\<close>, \<open>Locked_Files\<close> state the properties.
  \<^item> \<open>Cleanup\<close>: \<open>db_delete_missing_metadata.c\<close>, \<open>db_retrieve_root_path.c\<close>; lemmas in \<open>Cleanup_Correct\<close> (whatever
    happens), \<open>Cleanup_Complete\<close> (undisturbed), \<open>Cleanup_Properties\<close>.
  \<^item> \<open>Blobs\<close>, \<open>Versions\<close>: \<open>db_upgrade.c/.h\<close>, \<open>db_migrate_*.c\<close>, \<open>db_check/retrieve/specify_version.c\<close>, \<open>db_vacuum.c\<close>,
    \<open>db_integrity_check.c\<close>, \<open>db_close.c\<close>, on the record \<open>dbfile\<close> with stat blobs as bytes; lemmas in
    \<open>Versions_Correct\<close>, \<open>Versions_Atomic\<close>, \<open>Upgrade_Rows\<close>, properties in \<open>Versions_Properties\<close>.
  \<^item> \<open>Prefixes\<close>: \<open>db_validate_paths.c\<close>, \<open>db_save_prefixes.c\<close>; \<open>Prefixes_Correct\<close>.
  \<^item> \<open>Compare\<close>: \<open>db_compare.c\<close>, \<open>file_availability.c\<close>; \<open>Compare_Correct\<close>, \<open>Compare_Exact\<close>.
  \<^item> \<open>Startup\<close>, \<open>Program\<close>: \<open>paths_detect.c\<close>, \<open>init_signals.c\<close>, \<open>db_determine_*.c\<close>, \<open>db_primary_*.c\<close>, \<open>db_init.c\<close>,
    \<open>db_contains_data.c\<close>, \<open>show_remembered_messages.c\<close>, \<open>db_check_changes.c\<close>, \<open>status_of_changes.c\<close> and the
    sequence of \<open>precizer.c\<close>; \<open>Program_Correct\<close>, \<open>Program_Dry\<close>.
  \<^item> \<open>Number_Text\<close>, \<open>Form_Text\<close>, \<open>Size_Text\<close>, \<open>Date_Text\<close>: \<open>rational_itoa.c\<close>, \<open>rational_form.c\<close>,
    \<open>rational_bkbmbgbtbpbeb.c\<close>, \<open>rational_time.c\<close>.

  \<^bold>\<open>The environment.\<close>  Code outside the program answers from lists and functions that a theorem quantifies
  over, so a property holds for every behaviour of it.  \<open>signals\<close> says at which of the modelled points
  (a clock reading, an SQL statement, an access check, a read) a signal arrives; \<open>sql_answers\<close> whether a
  statement is done, fails, or fails and rolls the transaction back by itself; \<open>access_answers\<close> and
  \<open>clock\<close> are those of \<open>faccessat\<close> and of the monotonic clock.  When a list is used up nothing happens and
  every call succeeds.  \<open>heap\<close> is the allocator (any request may fail), \<open>regex_engine\<close> is PCRE2,
  \<open>file_reader\<close> is what a connection reads from a file, \<open>file_system\<close> is \<open>stat\<close>.  An SQL statement is its documented effect on a list of rows; an SQL
  script of several statements has one answer.  \<open>calm\<close> and \<open>quiet\<close> states are those nothing disturbs.

  \<^bold>\<open>What is shown.\<close>
  \<^item> Invariants whatever happens: rows stay truthful over a pass; descriptors stay valid; the deletions of a
    cleanup, a migration and the storing of the roots happen as a whole or not at all.
  \<^item> Safety: sealed rows of locked paths are kept by the pass and by the cleanup; a dry pass writes
    nothing, and a dry run (all of \<open>main\<close>) leaves the database alone; a run refused for its roots changes nothing (over all of \<open>main\<close>); two databases are called equal only if they agree;
    a signal or a failure stops every later \<open>run()\<close>.
  \<^item> Functional correctness: SHA-512 for input in any pieces, string transfers with aliased sources, the
    change mask, path building, filter decisions, the verdict on a locked file, the number, size and
    duration texts with their round trips; undisturbed runs of the cleanup, the upgrade and the
    comparison have exactly the promised result.
  \<^item> Departures from the documented behaviour, each shown on a concrete run: among them a signal during
    --rehash-locked erases a digest, a dry run reports corruption that is not there, and an upgrade
    that is cut off converts the metadata twice.

  \<^bold>\<open>Bounds and termination.\<close>  No definition uses fuel.  Loops over rows, entries, pieces and messages
  recurse on the list of what is left; the digit loops and the scan for a terminator have a decreasing
  measure.  Words have the width of the code; byte offsets are integers because \<open>sha512_update\<close> refuses a
  message long before an offset could wrap.  Texts that are built are assumed to fit into memory
  (\<open>enough\<close>) where a theorem promises success.

  \<^bold>\<open>Not modelled.\<close>
  \<^item> Option and configuration parsing (\<open>parse_*.c\<close>, \<open>compile_patterns.c\<close>, \<open>add_string_to_array.c\<close>,
    \<open>init_config.c\<close>, \<open>free_config.c\<close>): callbacks of argp and inih that copy text into \<open>Config\<close>; \<open>main\<close> starts
    with the status they have left.
  \<^item> Printed text (\<open>rational_logger*.c\<close>, \<open>show_*.c\<close>, \<open>remember_history.c\<close>, \<open>directory_show.c\<close>,
    \<open>rational_report.c\<close>) except the messages of the comparison, and the memory telemetry: they decide
    nothing that is stored.
  \<^item> In libs/rational the clocks, \<open>strftime\<close> and \<open>form_real_r\<close> (long double); in libs/mem formatted wide
    strings, which nothing calls.
  \<^item> Vendored code (SQLite, PCRE2, argp, inih, monocypher, xdiff, fts) and the test harness with its hooks.
\<close>

end
